(* ===== verification/Prelude.thy ===== *)
theory Prelude
  imports Main "HOL-Library.Word" "HOL-Library.Sublist"
begin

text \<open>
  Shared vocabulary of the development: the types every component uses (code points, Python
  strings, bytes), the sum of all exceptions the program raises or lets through, the
  state-and-exception operations the services are written in, and generic list lemmas.
\<close>

section \<open>Collections of facts\<close>

named_theorems op_simps \<open>equations that run a primitive operation on a state\<close>
named_theorems op_run \<open>equations that run sequencing and exception handling\<close>
named_theorems text_simps \<open>equations that evaluate literals and Python string functions\<close>
named_theorems codec_simps \<open>round-trip equations of the codecs\<close>

section \<open>Types\<close>

text \<open>
  A Python \<open>str\<close> is a sequence of Unicode code points (lone surrogates included), a
  Python \<open>bytes\<close> a sequence of octets.
\<close>

type_synonym codepoint = nat
type_synonym pystr = "codepoint list"
type_synonym byte = "8 word"
type_synonym bytes = "byte list"

text \<open>Literals of the source are written \<open>lit ''...''\<close>.\<close>

definition lit :: "string \<Rightarrow> pystr" where
  "lit s = map of_char s"

lemma lit_Nil [text_simps]: "lit [] = []"
  by (simp add: lit_def)

lemma lit_Cons [text_simps]: "lit (c # s) = of_char c # lit s"
  by (simp add: lit_def)

lemma length_lit [simp]: "length (lit s) = length s"
  by (simp add: lit_def)

text \<open>Values of unknown Python type, for the functions that test \<open>isinstance\<close>.\<close>

datatype pyobj = PyStr pystr | PyInt int | PyBool bool | PyBytes bytes | PyNone

section \<open>Exceptions\<close>

text \<open>
  Exceptions of Python and its standard library that the program raises, catches or lets
  through.
\<close>

datatype py_error =
    ValueError | TypeError | KeyError | OverflowError | RuntimeError
  | UnicodeEncodeError | UnicodeDecodeError | JSONDecodeError | BinasciiError
  | FileNotFoundError | OSError
  | IntegrityError | InvalidTag | InvalidSignature | HashingError
  | AssertionError | ResponseValidationError

text \<open>\<open>UnicodeEncodeError\<close>, \<open>UnicodeDecodeError\<close>, \<open>json.JSONDecodeError\<close> and
  \<open>binascii.Error\<close> are subclasses of \<open>ValueError\<close>.\<close>

fun is_ValueError :: "py_error \<Rightarrow> bool" where
  "is_ValueError ValueError = True"
| "is_ValueError UnicodeEncodeError = True"
| "is_ValueError UnicodeDecodeError = True"
| "is_ValueError JSONDecodeError = True"
| "is_ValueError BinasciiError = True"
| "is_ValueError _ = False"

datatype vault_error =
    VaultAlreadyInitializedError | VaultNotInitializedError | VaultLockedError
  | InvalidMasterPassphraseError | InvalidMasterPassphrasePolicyError pystr
  | VaultConfigCorruptedError | StorageError | LegacySchemaError

datatype auth_error =
    DuplicateEmailError pystr | PassphraseMismatchError | WeakPassphraseError pystr
  | InvalidCredentialsError | AccountLockedError | UnauthenticatedError

datatype kv_error =
    RecordNotFoundError | RecordTamperedError | PermissionDeniedError | InvalidVersionError

datatype transit_error =
    MalformedCiphertextError | TransitTamperedError | KeyAlreadyExistsError
  | KeyUnavailableError | KeyVersionUnavailableError | InvalidKeyUsageError
  | InvalidSigningAlgorithmError | InvalidMessageTypeError | InvalidDigestLengthError
  | InvalidBase64PayloadError | InvalidKeyNameError

datatype exn =
    Py py_error | Vault vault_error | Auth auth_error | Kv kv_error | Transit transit_error

section \<open>Results\<close>

type_synonym 'a res = "exn + 'a"

fun bindR :: "'a res \<Rightarrow> ('a \<Rightarrow> 'b res) \<Rightarrow> 'b res" where
  "bindR (Inl e) f = Inl e"
| "bindR (Inr x) f = f x"

lemma bindR_Inr_iff: "bindR m f = Inr y \<longleftrightarrow> (\<exists>x. m = Inr x \<and> f x = Inr y)"
  by (cases m) auto

lemma bindR_Inl_iff: "bindR m f = Inl e \<longleftrightarrow> m = Inl e \<or> (\<exists>x. m = Inr x \<and> f x = Inl e)"
  by (cases m) auto

text \<open>\<open>try: m except E: h\<close>, for an exception class given as a test.\<close>

fun catchR :: "'a res \<Rightarrow> (exn \<Rightarrow> bool) \<Rightarrow> exn \<Rightarrow> 'a res" where
  "catchR (Inl e) p h = (if p e then Inl h else Inl e)"
| "catchR (Inr x) p h = Inr x"

lemma catchR_Inr_iff [simp]: "catchR m p h = Inr y \<longleftrightarrow> m = Inr y"
  by (cases m) auto

text \<open>The \<open>except (ValueError, UnicodeEncodeError)\<close> and
  \<open>except (InvalidTag, ValueError)\<close> clauses of the services.\<close>

fun value_errors :: "exn \<Rightarrow> bool" where
  "value_errors (Py e) = is_ValueError e"
| "value_errors _ = False"

fun tag_or_value_errors :: "exn \<Rightarrow> bool" where
  "tag_or_value_errors (Py e) = (e = InvalidTag \<or> is_ValueError e)"
| "tag_or_value_errors _ = False"

section \<open>Operations: state and exceptions\<close>

text \<open>
  A method of the program takes the state of the process and the files it owns and returns
  a result or an exception, with the state it leaves. An exception keeps the state changes
  made before it was raised.
\<close>

type_synonym ('w, 'a) op = "'w \<Rightarrow> 'a res \<times> 'w"

definition ret :: "'a \<Rightarrow> ('w, 'a) op" where
  "ret x = (\<lambda>w. (Inr x, w))"

definition throw :: "exn \<Rightarrow> ('w, 'a) op" where
  "throw e = (\<lambda>w. (Inl e, w))"

definition bindM :: "('w, 'a) op \<Rightarrow> ('a \<Rightarrow> ('w, 'b) op) \<Rightarrow> ('w, 'b) op" where
  "bindM m f = (\<lambda>w. case m w of (Inl e, w') \<Rightarrow> (Inl e, w') | (Inr x, w') \<Rightarrow> f x w')"

definition liftR :: "'a res \<Rightarrow> ('w, 'a) op" where
  "liftR r = (\<lambda>w. (r, w))"

definition gets :: "('w \<Rightarrow> 'a) \<Rightarrow> ('w, 'a) op" where
  "gets f = (\<lambda>w. (Inr (f w), w))"

definition modify :: "('w \<Rightarrow> 'w) \<Rightarrow> ('w, unit) op" where
  "modify f = (\<lambda>w. (Inr (), f w))"

text \<open>\<open>if c: raise e\<close>\<close>

definition raise_if :: "bool \<Rightarrow> exn \<Rightarrow> ('w, unit) op" where
  "raise_if c e = (if c then throw e else ret ())"

text \<open>\<open>try: m except E: raise h\<close> on operations; the state reached by \<open>m\<close> is kept.\<close>

definition catchM :: "('w, 'a) op \<Rightarrow> (exn \<Rightarrow> bool) \<Rightarrow> exn \<Rightarrow> ('w, 'a) op" where
  "catchM m p h = (\<lambda>w. case m w of (r, w') \<Rightarrow> (catchR r p h, w'))"

lemma ret_run [op_simps]: "ret x w = (Inr x, w)"
  and throw_run [op_simps]: "throw e w = (Inl e, w)"
  and liftR_run [op_simps]: "liftR r w = (r, w)"
  and gets_run [op_simps]: "gets f w = (Inr (f w), w)"
  and modify_run [op_simps]: "modify g w = (Inr (), g w)"
  and raise_if_run [op_simps]: "raise_if c e w = (if c then Inl e else Inr (), w)"
  by (simp_all add: ret_def throw_def liftR_def gets_def modify_def raise_if_def)

lemma bindM_run [op_run]:
  "bindM m f w = (case m w of (Inl e, w') \<Rightarrow> (Inl e, w') | (Inr x, w') \<Rightarrow> f x w')"
  by (simp add: bindM_def)

lemma catchM_run [op_run]: "catchM m p h w = (case m w of (r, w') \<Rightarrow> (catchR r p h, w'))"
  by (simp add: catchM_def)

lemma catchM_Inr_iff: "catchM m p h w = (Inr y, w') \<longleftrightarrow> m w = (Inr y, w')"
  by (auto simp: catchM_def split: prod.splits)

lemma bindM_Inr_iff:
  "bindM m f w = (Inr y, w'') \<longleftrightarrow> (\<exists>x w'. m w = (Inr x, w') \<and> f x w' = (Inr y, w''))"
  by (auto simp: bindM_def split: prod.splits sum.splits)

lemma bindM_Inl_iff:
  "bindM m f w = (Inl e, w'') \<longleftrightarrow>
     m w = (Inl e, w'') \<or> (\<exists>x w'. m w = (Inr x, w') \<and> f x w' = (Inl e, w''))"
  by (auto simp: bindM_def split: prod.splits sum.splits)

text \<open>The monad laws, so that the grouping of the steps of a method does not matter.\<close>

lemma bindM_ret_left: "bindM (ret x) f = f x"
  by (simp add: fun_eq_iff op_simps op_run)

lemma bindM_ret_right: "bindM m ret = m"
  by (auto simp: fun_eq_iff op_simps op_run split: prod.splits sum.splits)

lemma bindM_assoc: "bindM (bindM m f) g = bindM m (\<lambda>x. bindM (f x) g)"
  by (auto simp: fun_eq_iff op_simps op_run split: prod.splits sum.splits)

text \<open>
  An operation preserves a property of the state when every run does, whether it returns or
  raises. The rules follow the structure of the operations.
\<close>

definition preserves :: "('w \<Rightarrow> bool) \<Rightarrow> ('w, 'a) op \<Rightarrow> bool" where
  "preserves P m \<longleftrightarrow> (\<forall>w. P w \<longrightarrow> P (snd (m w)))"

named_theorems preserves_rules \<open>structural rules for preserved properties\<close>

lemma preservesI: "(\<And>w. P w \<Longrightarrow> P (snd (m w))) \<Longrightarrow> preserves P m"
  by (simp add: preserves_def)

lemma preservesD: "preserves P m \<Longrightarrow> P w \<Longrightarrow> P (snd (m w))"
  by (simp add: preserves_def)

lemma preserves_run: "preserves P m \<Longrightarrow> m w = (r, w') \<Longrightarrow> P w \<Longrightarrow> P w'"
  by (metis preservesD snd_conv)

lemma preserves_ret [preserves_rules]: "preserves P (ret x)"
  and preserves_throw [preserves_rules]: "preserves P (throw e)"
  and preserves_liftR [preserves_rules]: "preserves P (liftR r)"
  and preserves_gets [preserves_rules]: "preserves P (gets f)"
  and preserves_raise_if [preserves_rules]: "preserves P (raise_if c e)"
  by (simp_all add: preserves_def op_simps)

lemma preserves_modify: "(\<And>w. P w \<Longrightarrow> P (f w)) \<Longrightarrow> preserves P (modify f)"
  by (simp add: preserves_def op_simps)

lemma preserves_bindM [preserves_rules]:
  "preserves P m \<Longrightarrow> (\<And>x. preserves P (f x)) \<Longrightarrow> preserves P (bindM m f)"
  by (force simp: preserves_def op_run split: prod.splits sum.splits)

lemma preserves_catchM [preserves_rules]: "preserves P m \<Longrightarrow> preserves P (catchM m p h)"
  by (auto simp: preserves_def op_run split: prod.splits)

lemma preserves_if [preserves_rules]:
  "(c \<Longrightarrow> preserves P m) \<Longrightarrow> (\<not> c \<Longrightarrow> preserves P n) \<Longrightarrow> preserves P (if c then m else n)"
  by simp

lemma preserves_case_option [preserves_rules]:
  "(x = None \<Longrightarrow> preserves P m) \<Longrightarrow> (\<And>y. x = Some y \<Longrightarrow> preserves P (f y)) \<Longrightarrow>
   preserves P (case x of None \<Rightarrow> m | Some y \<Rightarrow> f y)"
  by (cases x) simp_all

lemma preserves_pure:
  assumes "\<And>w r w'. m w = (r, w') \<Longrightarrow> w' = w" shows "preserves P m"
proof (rule preservesI)
  fix w assume "P w"
  moreover obtain r w' where "m w = (r, w')" by (rule prod.exhaust)
  ultimately show "P (snd (m w))" using assms [of w r w'] by simp
qed

text \<open>A list comprehension whose elements are computed by calls, in order.\<close>

primrec mapM :: "('a \<Rightarrow> ('w, 'b) op) \<Rightarrow> 'a list \<Rightarrow> ('w, 'b list) op" where
  "mapM f [] = ret []"
| "mapM f (x # xs) = bindM (f x) (\<lambda>y. bindM (mapM f xs) (\<lambda>ys. ret (y # ys)))"

lemma mapM_run:
  "(\<And>x. x \<in> set xs \<Longrightarrow> f x w = (Inr (g x), w)) \<Longrightarrow> mapM f xs w = (Inr (map g xs), w)"
  by (induction xs) (simp_all add: op_simps op_run)

lemma preserves_mapM [preserves_rules]: "(\<And>x. preserves P (f x)) \<Longrightarrow> preserves P (mapM f xs)"
  by (induction xs) (auto intro!: preserves_rules)

text \<open>An operation keeps a part of the state when no run changes it.\<close>

definition keeps :: "('w \<Rightarrow> 'c) \<Rightarrow> ('w, 'a) op \<Rightarrow> bool" where
  "keeps f m \<longleftrightarrow> (\<forall>w. f (snd (m w)) = f w)"

named_theorems keeps_rules \<open>structural rules for the parts of the state an operation keeps\<close>

lemma keepsI: "(\<And>w r w'. m w = (r, w') \<Longrightarrow> f w' = f w) \<Longrightarrow> keeps f m"
  by (simp add: keeps_def prod_eq_iff)

lemma keeps_run: "keeps f m \<Longrightarrow> m w = (r, w') \<Longrightarrow> f w' = f w"
  by (metis keeps_def snd_conv)

lemma keeps_ret [keeps_rules]: "keeps f (ret x)"
  and keeps_throw [keeps_rules]: "keeps f (throw e)"
  and keeps_liftR [keeps_rules]: "keeps f (liftR r)"
  and keeps_gets [keeps_rules]: "keeps f (gets g)"
  and keeps_raise_if [keeps_rules]: "keeps f (raise_if c e)"
  by (simp_all add: keeps_def op_simps)

lemma keeps_bindM [keeps_rules]: "keeps f m \<Longrightarrow> (\<And>x. keeps f (g x)) \<Longrightarrow> keeps f (bindM m g)"
  by (rule keepsI) (fastforce simp: bindM_def dest: keeps_run split: prod.splits sum.splits)

lemma keeps_catchM [keeps_rules]: "keeps f m \<Longrightarrow> keeps f (catchM m p h)"
  by (rule keepsI) (auto simp: op_run dest: keeps_run split: prod.splits)

lemma keeps_if [keeps_rules]:
  "(c \<Longrightarrow> keeps f m) \<Longrightarrow> (\<not> c \<Longrightarrow> keeps f n) \<Longrightarrow> keeps f (if c then m else n)"
  by simp

lemma keeps_case_option [keeps_rules]:
  "(x = None \<Longrightarrow> keeps f m) \<Longrightarrow> (\<And>y. x = Some y \<Longrightarrow> keeps f (g y)) \<Longrightarrow>
   keeps f (case x of None \<Rightarrow> m | Some y \<Rightarrow> g y)"
  by (cases x) simp_all

lemma keeps_case_prod [keeps_rules]:
  "(\<And>a b. x = (a, b) \<Longrightarrow> keeps f (g a b)) \<Longrightarrow> keeps f (case x of (a, b) \<Rightarrow> g a b)"
  by (cases x) simp

lemma preserves_case_prod [preserves_rules]:
  "(\<And>a b. x = (a, b) \<Longrightarrow> preserves P (g a b)) \<Longrightarrow> preserves P (case x of (a, b) \<Rightarrow> g a b)"
  by (cases x) simp

lemma keeps_mapM [keeps_rules]: "(\<And>x. keeps f (g x)) \<Longrightarrow> keeps f (mapM g xs)"
  by (induction xs) (auto intro!: keeps_rules)

lemma keeps_pure: "(\<And>w r w'. m w = (r, w') \<Longrightarrow> w' = w) \<Longrightarrow> keeps f m"
  by (rule keepsI) blast

text \<open>A property of a part that is kept is preserved.\<close>

lemma preserves_keeps: "keeps f m \<Longrightarrow> preserves (\<lambda>w. P (f w)) m"
  by (simp add: keeps_def preserves_def)

section \<open>Generic list lemmas\<close>

lemma append_eq_first_sep:
  assumes "xs @ c # ys = xs' @ c # ys'" "c \<notin> set xs" "c \<notin> set xs'"
  shows "xs = xs' \<and> ys = ys'"
  using assms
proof (induction xs arbitrary: xs')
  case Nil
  then show ?case by (cases xs') auto
next
  case (Cons x xs)
  then show ?case by (cases xs') auto
qed

lemma append_eq_last_sep:
  assumes "xs @ c # ys = xs' @ c # ys'" "c \<notin> set ys" "c \<notin> set ys'"
  shows "xs = xs' \<and> ys = ys'"
proof -
  have "rev ys @ c # rev xs = rev ys' @ c # rev xs'"
    using arg_cong [OF assms(1), of rev] by simp
  with assms(2,3) show ?thesis
    using append_eq_first_sep [of "rev ys" c "rev xs" "rev ys'" "rev xs'"] by simp
qed

lemma find_SomeD: "find P xs = Some x \<Longrightarrow> x \<in> set xs \<and> P x"
  by (induction xs) (auto split: if_splits)

lemma find_unique:
  assumes "x \<in> set xs" "P x" "\<And>y. y \<in> set xs \<Longrightarrow> P y \<Longrightarrow> y = x"
  shows "find P xs = Some x"
proof (cases "find P xs")
  case None
  with assms(1,2) show ?thesis by (auto simp: find_None_iff)
next
  case (Some y)
  with find_SomeD [OF Some] assms(3) show ?thesis by simp
qed

lemma find_None_conv: "find P xs = None \<longleftrightarrow> (\<forall>x \<in> set xs. \<not> P x)"
  by (induction xs) auto

lemma find_append: "find P (xs @ ys) = (case find P xs of None \<Rightarrow> find P ys | Some x \<Rightarrow> Some x)"
  by (induction xs) auto

lemma find_filter: "find P (filter Q xs) = find (\<lambda>x. Q x \<and> P x) xs"
  by (induction xs) auto

end
