(* ===== verification/PyText.thy ===== *)
theory PyText
  imports Prelude
begin

text \<open>
  The parts of Python's \<open>str\<close>, \<open>int\<close> and \<open>bytes\<close> the program uses: case
  mapping, stripping, splitting, substring tests, decimal integers and UTF-8. Strings are
  code point lists. CPython treats all-ASCII strings by its own ASCII routines, which are
  written out here; what it does with other strings comes from the Unicode tables generated
  into the interpreter, which are the parameter \<open>unidata\<close>.
\<close>

section \<open>The Unicode tables of the interpreter\<close>

record unidata =
  uni_lower :: "pystr \<Rightarrow> pystr"
  uni_upper :: "pystr \<Rightarrow> pystr"
  uni_space :: "codepoint \<Rightarrow> bool"
  uni_digit :: "codepoint \<Rightarrow> nat option"

definition ascii :: "pystr \<Rightarrow> bool" where
  "ascii s = list_all (\<lambda>c. c < 128) s"

definition ascii_lower :: "codepoint \<Rightarrow> codepoint" where
  "ascii_lower c = (if 65 \<le> c \<and> c \<le> 90 then c + 32 else c)"

definition ascii_upper :: "codepoint \<Rightarrow> codepoint" where
  "ascii_upper c = (if 97 \<le> c \<and> c \<le> 122 then c - 32 else c)"

text \<open>\<open>str.lower\<close> and \<open>str.upper\<close>.\<close>

definition py_lower :: "unidata \<Rightarrow> pystr \<Rightarrow> pystr" where
  "py_lower U s = (if ascii s then map ascii_lower s else uni_lower U s)"

definition py_upper :: "unidata \<Rightarrow> pystr \<Rightarrow> pystr" where
  "py_upper U s = (if ascii s then map ascii_upper s else uni_upper U s)"

text \<open>The whitespace of \<open>str.strip\<close>: among the ASCII characters the codes 9 to 13 and
  28 to 32.\<close>

definition py_space :: "unidata \<Rightarrow> codepoint \<Rightarrow> bool" where
  "py_space U c =
     (if c < 128 then (9 \<le> c \<and> c \<le> 13) \<or> (28 \<le> c \<and> c \<le> 32) else uni_space U c)"

definition py_strip :: "unidata \<Rightarrow> pystr \<Rightarrow> pystr" where
  "py_strip U s = rev (dropWhile (py_space U) (rev (dropWhile (py_space U) s)))"

lemma ascii_append [simp]: "ascii (s @ t) \<longleftrightarrow> ascii s \<and> ascii t"
  by (simp add: ascii_def)

lemma ascii_Nil [simp]: "ascii []" and ascii_Cons [simp]: "ascii (c # s) \<longleftrightarrow> c < 128 \<and> ascii s"
  by (simp_all add: ascii_def)

lemma ascii_lower_idem [simp]: "ascii_lower (ascii_lower c) = ascii_lower c"
  by (simp add: ascii_lower_def)

lemma ascii_map_lower [simp]: "ascii s \<Longrightarrow> ascii (map ascii_lower s)"
  by (induction s) (auto simp: ascii_lower_def)

lemma py_lower_idem: "ascii s \<Longrightarrow> py_lower U (py_lower U s) = py_lower U s"
  by (simp add: py_lower_def)

text \<open>\<open>strip\<close> takes a middle part of the string, leaves no whitespace at either end and
  does nothing to a string that has none there.\<close>

lemma py_strip_id_iff:
  "py_strip U s = s \<longleftrightarrow> s = [] \<or> (\<not> py_space U (hd s) \<and> \<not> py_space U (last s))"
proof (cases "s = []")
  case True
  then show ?thesis by (simp add: py_strip_def)
next
  case False
  let ?sp = "py_space U"
  have len: "length (py_strip U s) \<le> length (dropWhile ?sp s)"
    unfolding py_strip_def by (simp add: order.trans [OF length_dropWhile_le])
  show ?thesis
  proof (cases "?sp (hd s)")
    case True
    with False obtain c t where s: "s = c # t" "?sp c" by (cases s) auto
    then have "length (dropWhile ?sp s) < length s"
      using length_dropWhile_le [of ?sp t] by simp
    with len have "py_strip U s \<noteq> s" by auto
    with False True show ?thesis by simp
  next
    case nh: False
    with False have d: "dropWhile ?sp s = s" by (cases s) auto
    obtain t c where s: "s = t @ [c]" using False by (cases s rule: rev_cases) auto
    show ?thesis
    proof (cases "?sp c")
      case True
      have "length (dropWhile ?sp (rev t)) \<le> length t"
        using length_dropWhile_le [of ?sp "rev t"] by simp
      moreover have "py_strip U s = rev (dropWhile ?sp (rev t))"
        unfolding py_strip_def d by (simp add: s True)
      ultimately have "py_strip U s \<noteq> s" by (auto simp: s dest: arg_cong [of _ _ length])
      with False True s show ?thesis by simp
    next
      case False
      then have "py_strip U s = s" unfolding py_strip_def d by (simp add: s)
      with False nh s show ?thesis by simp
    qed
  qed
qed

lemma set_py_strip: "set (py_strip U s) \<subseteq> set s"
  unfolding py_strip_def by (auto dest!: set_dropWhileD)

text \<open>On ASCII texts the tables play no part.\<close>

lemma py_space_ascii: "c < 128 \<Longrightarrow> py_space U c = py_space V c"
  by (simp add: py_space_def)

lemma py_strip_ascii: assumes "ascii s" shows "py_strip U s = py_strip V s"
proof -
  have d: "dropWhile (py_space U) t = dropWhile (py_space V) t" if "ascii t" for t
    using that by (intro dropWhile_cong refl py_space_ascii) (simp add: ascii_def list_all_iff)
  have "ascii (rev (dropWhile (py_space V) s))"
    using assms set_dropWhileD [of _ "py_space V" s] by (auto simp: ascii_def list_all_iff)
  with d assms show ?thesis by (simp add: py_strip_def)
qed

lemma py_lower_ascii: "ascii s \<Longrightarrow> py_lower U s = py_lower V s"
  by (simp add: py_lower_def)

section \<open>Prefixes, substrings, splitting\<close>

definition startswith :: "pystr \<Rightarrow> pystr \<Rightarrow> bool" where
  "startswith s p = (take (length p) s = p)"

lemma startswith_iff: "startswith s p \<longleftrightarrow> (\<exists>t. s = p @ t)"
  by (metis append_eq_conv_conj append_take_drop_id startswith_def)

lemma startswith_Nil [simp]: "startswith s []"
  and startswith_Cons [simp]: "startswith (c # s) (d # p) \<longleftrightarrow> c = d \<and> startswith s p"
  and Nil_startswith [simp]: "startswith [] (d # p) = False"
  by (auto simp: startswith_def)

text \<open>\<open>p in s\<close>\<close>

fun py_in :: "pystr \<Rightarrow> pystr \<Rightarrow> bool" where
  "py_in p [] = (p = [])"
| "py_in p (c # s) = (startswith (c # s) p \<or> py_in p s)"

lemma py_in_iff: "py_in p s \<longleftrightarrow> (\<exists>a b. s = a @ p @ b)"
proof (induction s)
  case Nil
  then show ?case by simp
next
  case (Cons c s)
  show ?case
  proof
    assume "py_in p (c # s)"
    then consider "startswith (c # s) p" | "py_in p s" by auto
    then show "\<exists>a b. c # s = a @ p @ b"
    proof cases
      case 1
      then obtain t where "c # s = [] @ p @ t" by (auto simp: startswith_iff)
      then show ?thesis by blast
    next
      case 2
      with Cons.IH obtain a b where "c # s = (c # a) @ p @ b" by auto
      then show ?thesis by blast
    qed
  next
    assume "\<exists>a b. c # s = a @ p @ b"
    then obtain a b where ab: "c # s = a @ p @ b" by blast
    show "py_in p (c # s)"
    proof (cases a)
      case Nil
      with ab have "startswith (c # s) p" by (auto simp: startswith_iff)
      then show ?thesis by simp
    next
      case (Cons x a')
      with ab have "s = a' @ p @ b" by simp
      with Cons.IH show ?thesis by auto
    qed
  qed
qed

text \<open>\<open>s.split(sep, n)\<close> for a one-character separator: at most \<open>n\<close> cuts.\<close>

fun py_split :: "codepoint \<Rightarrow> nat \<Rightarrow> pystr \<Rightarrow> pystr list" where
  "py_split d 0 s = [s]"
| "py_split d (Suc n) [] = [[]]"
| "py_split d (Suc n) (c # s) =
     (if c = d then [] # py_split d n s
      else case py_split d (Suc n) s of p # ps \<Rightarrow> (c # p) # ps | [] \<Rightarrow> [[c]])"

lemma py_split_not_Nil [simp]: "py_split d n s \<noteq> []"
  by (induction d n s rule: py_split.induct) (auto split: list.splits)

lemma py_split_nosep: "d \<notin> set s \<Longrightarrow> py_split d n s = [s]"
  by (induction d n s rule: py_split.induct) auto

lemma py_split_append: "d \<notin> set a \<Longrightarrow> py_split d (Suc n) (a @ d # s) = a # py_split d n s"
  by (induction a) auto

lemma length_py_split: "length (py_split d n s) \<le> Suc n"
  by (induction d n s rule: py_split.induct) (auto split: list.splits)

lemma py_split_Suc_cases:
  "(d \<notin> set s \<and> py_split d (Suc n) s = [s]) \<or>
   (\<exists>a t. s = a @ d # t \<and> d \<notin> set a \<and> py_split d (Suc n) s = a # py_split d n t)"
proof (cases "d \<in> set s")
  case True
  then obtain a t where "s = a @ d # t" "d \<notin> set a" by (metis split_list_first)
  then show ?thesis by (auto simp: py_split_append)
next
  case False
  then show ?thesis by (simp add: py_split_nosep)
qed

section \<open>Decimal integers\<close>

text \<open>\<open>str(n)\<close> of an integer, as f-strings print it, and \<open>int(s)\<close> of a digit string.\<close>

fun dec_nat :: "nat \<Rightarrow> pystr" where
  "dec_nat n = (if n < 10 then [48 + n] else dec_nat (n div 10) @ [48 + n mod 10])"

declare dec_nat.simps [simp del]

definition dec_int :: "int \<Rightarrow> pystr" where
  "dec_int i = (if i < 0 then 45 # dec_nat (nat (- i)) else dec_nat (nat i))"

text \<open>Conversion between integers and text is limited to 4300 digits
  (\<open>sys.get_int_max_str_digits\<close>).\<close>

definition int_digits_ok :: "nat \<Rightarrow> bool" where
  "int_digits_ok n \<longleftrightarrow> length (dec_nat n) \<le> 4300"

definition is_digit :: "codepoint \<Rightarrow> bool" where
  "is_digit c \<longleftrightarrow> 48 \<le> c \<and> c \<le> 57"

definition digits_val :: "pystr \<Rightarrow> nat" where
  "digits_val s = foldl (\<lambda>n c. 10 * n + (c - 48)) 0 s"

lemma dec_nat_not_Nil [simp]: "dec_nat n \<noteq> []"
  by (subst dec_nat.simps) simp

lemma dec_nat_digits: "c \<in> set (dec_nat n) \<Longrightarrow> is_digit c"
proof (induction n rule: dec_nat.induct)
  case (1 n)
  then show ?case
    by (cases "n < 10") (auto simp: dec_nat.simps [of n] is_digit_def)
qed

lemma digits_val_dec_nat [codec_simps]: "digits_val (dec_nat n) = n"
proof (induction n rule: dec_nat.induct)
  case (1 n)
  show ?case
  proof (cases "n < 10")
    case True
    then show ?thesis by (simp add: dec_nat.simps [of n] digits_val_def)
  next
    case False
    with 1 have "digits_val (dec_nat (n div 10)) = n div 10" by simp
    with False show ?thesis
      by (simp add: dec_nat.simps [of n] digits_val_def)
  qed
qed

lemma dec_nat_inject: "dec_nat m = dec_nat n \<longleftrightarrow> m = n"
  by (metis digits_val_dec_nat)

lemma hd_dec_nat: "0 < n \<Longrightarrow> hd (dec_nat n) \<noteq> 48"
proof (induction n rule: dec_nat.induct)
  case (1 n)
  show ?case
  proof (cases "n < 10")
    case True
    with 1 show ?thesis by (simp add: dec_nat.simps [of n])
  next
    case False
    then have "0 < n div 10" by simp
    with 1 False show ?thesis by (simp add: dec_nat.simps [of n])
  qed
qed

lemma length_dec_nat: "n < 10 ^ k \<Longrightarrow> 0 < k \<Longrightarrow> length (dec_nat n) \<le> k"
proof (induction k arbitrary: n)
  case 0
  then show ?case by simp
next
  case (Suc k)
  show ?case
  proof (cases "n < 10")
    case True
    then show ?thesis by (simp add: dec_nat.simps [of n])
  next
    case False
    with Suc.prems have "n div 10 < 10 ^ k" "0 < k"
      by (auto simp: less_mult_imp_div_less intro: gr0I)
    with Suc.IH False show ?thesis by (simp add: dec_nat.simps [of n])
  qed
qed

lemma int_digits_okI: "n < 10 ^ k \<Longrightarrow> 0 < k \<Longrightarrow> k \<le> 4300 \<Longrightarrow> int_digits_ok n"
  using length_dec_nat [of n k] by (simp add: int_digits_ok_def)

lemma hd_dec_nat_digit: "is_digit (hd (dec_nat n))"
  by (rule dec_nat_digits [of _ n]) simp

lemma dec_int_chars: "c \<in> set (dec_int i) \<Longrightarrow> c = 45 \<or> is_digit c"
  by (auto simp: dec_int_def dec_nat_digits split: if_splits)

lemma dec_int_nonneg_digits: "0 \<le> i \<Longrightarrow> c \<in> set (dec_int i) \<Longrightarrow> is_digit c"
  by (auto simp: dec_int_def dec_nat_digits split: if_splits)

lemma dec_int_inject: "dec_int i = dec_int j \<longleftrightarrow> i = j"
proof
  have d: "45 # t \<noteq> dec_nat n" for t n
  proof
    assume "45 # t = dec_nat n"
    then have "45 \<in> set (dec_nat n)" by (metis list.set_intros(1))
    then show False by (auto dest!: dec_nat_digits simp: is_digit_def)
  qed
  assume "dec_int i = dec_int j"
  then show "i = j"
    using d d [symmetric] by (auto simp: dec_int_def dec_nat_inject split: if_splits)
qed simp

lemma digits_val_less: "list_all is_digit s \<Longrightarrow> digits_val s < 10 ^ length s"
proof (induction s rule: rev_induct)
  case Nil
  then show ?case by (simp add: digits_val_def)
next
  case (snoc c s)
  then have "digits_val s < 10 ^ length s" "c \<le> 57" by (simp_all add: is_digit_def)
  then show ?case by (simp add: digits_val_def)
qed

end
