(* ===== verification/Utf8.thy ===== *)
theory Utf8
  imports PyText
begin

text \<open>
  \<open>str.encode("utf-8")\<close>, \<open>str.encode("ascii")\<close> and strict
  \<open>bytes.decode("utf-8")\<close> / \<open>bytes.decode("ascii")\<close>. Encoding a lone surrogate raises
  \<open>UnicodeEncodeError\<close>; the decoder refuses overlong forms, surrogates, truncated
  sequences and values above \<open>U+10FFFF\<close>. The main facts are the round trip and that the
  encoder is injective.
\<close>

section \<open>Octets\<close>

definition octets :: "nat list \<Rightarrow> bytes" where
  "octets ns = map of_nat ns"

definition octet_vals :: "bytes \<Rightarrow> nat list" where
  "octet_vals bs = map unat bs"

lemma octet_vals_octets: "\<forall>n \<in> set ns. n < 256 \<Longrightarrow> octet_vals (octets ns) = ns"
  by (induction ns) (simp_all add: octets_def octet_vals_def unat_of_nat)

lemma octets_octet_vals [simp]: "octets (octet_vals bs) = bs"
  by (induction bs) (simp_all add: octets_def octet_vals_def)

lemma octet_vals_less: "n \<in> set (octet_vals bs) \<Longrightarrow> n < 256"
  by (auto simp: octet_vals_def intro: order.strict_trans2 [OF unsigned_less])

lemma length_octets [simp]: "length (octets ns) = length ns"
  and length_octet_vals [simp]: "length (octet_vals bs) = length bs"
  by (simp_all add: octets_def octet_vals_def)

section \<open>Encoding\<close>

text \<open>A Unicode scalar value: a code point that is not a surrogate.\<close>

definition scalar :: "codepoint \<Rightarrow> bool" where
  "scalar c \<longleftrightarrow> c < 55296 \<or> (57343 < c \<and> c < 1114112)"

definition utf8_char :: "codepoint \<Rightarrow> nat list" where
  "utf8_char c =
     (if c < 128 then [c]
      else if c < 2048 then [192 + c div 64, 128 + c mod 64]
      else if c < 65536 then [224 + c div 4096, 128 + c div 64 mod 64, 128 + c mod 64]
      else [240 + c div 262144, 128 + c div 4096 mod 64, 128 + c div 64 mod 64, 128 + c mod 64])"

definition utf8_encode :: "pystr \<Rightarrow> bytes res" where
  "utf8_encode s =
     (if list_all scalar s then Inr (octets (concat (map utf8_char s)))
      else Inl (Py UnicodeEncodeError))"

definition ascii_encode :: "pystr \<Rightarrow> bytes res" where
  "ascii_encode s = (if ascii s then Inr (octets s) else Inl (Py UnicodeEncodeError))"

definition ascii_decode :: "bytes \<Rightarrow> pystr res" where
  "ascii_decode bs =
     (if list_all (\<lambda>b. unat b < 128) bs then Inr (octet_vals bs) else Inl (Py UnicodeDecodeError))"

section \<open>Decoding\<close>

definition is_cont :: "nat \<Rightarrow> bool" where
  "is_cont b \<longleftrightarrow> 128 \<le> b \<and> b < 192"

fun utf8_decode_vals :: "nat list \<Rightarrow> pystr option" where
  "utf8_decode_vals [] = Some []"
| "utf8_decode_vals (b # bs) =
     (if b < 128 then map_option ((#) b) (utf8_decode_vals bs)
      else if 194 \<le> b \<and> b < 224 then
        (case bs of
           b1 # r \<Rightarrow>
             if is_cont b1 then map_option ((#) ((b - 192) * 64 + (b1 - 128))) (utf8_decode_vals r)
             else None
         | _ \<Rightarrow> None)
      else if 224 \<le> b \<and> b < 240 then
        (case bs of
           b1 # b2 # r \<Rightarrow>
             (let c = (b - 224) * 4096 + (b1 - 128) * 64 + (b2 - 128) in
              if is_cont b1 \<and> is_cont b2 \<and> 2048 \<le> c \<and> scalar c
              then map_option ((#) c) (utf8_decode_vals r) else None)
         | _ \<Rightarrow> None)
      else if 240 \<le> b \<and> b < 245 then
        (case bs of
           b1 # b2 # b3 # r \<Rightarrow>
             (let c = (b - 240) * 262144 + (b1 - 128) * 4096 + (b2 - 128) * 64 + (b3 - 128) in
              if is_cont b1 \<and> is_cont b2 \<and> is_cont b3 \<and> 65536 \<le> c \<and> c < 1114112
              then map_option ((#) c) (utf8_decode_vals r) else None)
         | _ \<Rightarrow> None)
      else None)"

declare utf8_decode_vals.simps(2) [simp del]

definition utf8_decode :: "bytes \<Rightarrow> pystr res" where
  "utf8_decode bs =
     (case utf8_decode_vals (octet_vals bs) of
        Some s \<Rightarrow> Inr s | None \<Rightarrow> Inl (Py UnicodeDecodeError))"

section \<open>Round trip\<close>

lemma utf8_char_octet: "scalar c \<Longrightarrow> n \<in> set (utf8_char c) \<Longrightarrow> n < 256"
  by (auto simp: utf8_char_def scalar_def split: if_splits)

lemma split_64: "(c::nat) div 64 * 64 + c mod 64 = c"
  by simp

lemma split_4096: "(c::nat) div 4096 * 4096 + c div 64 mod 64 * 64 + c mod 64 = c"
proof -
  have h: "c div 4096 = c div 64 div 64" by (simp add: div_mult2_eq [symmetric])
  have a: "c div 64 div 64 * 64 + c div 64 mod 64 = c div 64" by (rule div_mult_mod_eq)
  have b: "c div 64 * 64 + c mod 64 = c" by (rule div_mult_mod_eq)
  from a b show ?thesis unfolding h by linarith
qed

lemma split_262144:
  "(c::nat) div 262144 * 262144 + c div 4096 mod 64 * 4096 + c div 64 mod 64 * 64 + c mod 64 = c"
proof -
  have h: "c div 262144 = c div 4096 div 64" by (simp add: div_mult2_eq [symmetric])
  have a: "c div 4096 div 64 * 64 + c div 4096 mod 64 = c div 4096" by (rule div_mult_mod_eq)
  from a split_4096 [of c] show ?thesis unfolding h by linarith
qed

lemma utf8_decode_char:
  assumes "scalar c"
  shows "utf8_decode_vals (utf8_char c @ r) = map_option ((#) c) (utf8_decode_vals r)"
proof -
  consider "c < 128" | "128 \<le> c" "c < 2048" | "2048 \<le> c" "c < 65536" | "65536 \<le> c" "c < 1114112"
    using assms by (force simp: scalar_def)
  then show ?thesis
  proof cases
    case 1
    then show ?thesis by (simp add: utf8_char_def utf8_decode_vals.simps(2))
  next
    case 2
    then have "2 \<le> c div 64" "c div 64 < 32" by simp_all
    with 2 show ?thesis
      by (simp add: utf8_char_def utf8_decode_vals.simps(2) is_cont_def split_64)
  next
    case 3
    then have "c div 4096 < 16" by simp
    with 3 assms show ?thesis
      by (simp add: utf8_char_def utf8_decode_vals.simps(2) is_cont_def split_4096 Let_def)
  next
    case 4
    then have "c div 262144 < 5" by simp
    with 4 show ?thesis
      by (simp add: utf8_char_def utf8_decode_vals.simps(2) is_cont_def split_262144 Let_def)
  qed
qed

lemma utf8_decode_chars:
  "list_all scalar s \<Longrightarrow> utf8_decode_vals (concat (map utf8_char s)) = Some s"
  by (induction s) (simp_all add: utf8_decode_char)

lemma utf8_roundtrip: "utf8_encode s = Inr bs \<Longrightarrow> utf8_decode bs = Inr s"
proof -
  assume "utf8_encode s = Inr bs"
  then have s: "list_all scalar s" and bs: "bs = octets (concat (map utf8_char s))"
    by (auto simp: utf8_encode_def split: if_splits)
  have "octet_vals bs = concat (map utf8_char s)"
    using s unfolding bs by (intro octet_vals_octets) (auto simp: list_all_iff utf8_char_octet)
  then show ?thesis by (simp add: utf8_decode_def utf8_decode_chars [OF s])
qed

lemma utf8_encode_inject:
  "utf8_encode s = Inr bs \<Longrightarrow> utf8_encode t = Inr bs \<Longrightarrow> s = t"
  by (metis sum.inject(2) utf8_roundtrip)

lemma scalar_ascii: "c < 128 \<Longrightarrow> scalar c"
  by (simp add: scalar_def)

lemma utf8_encode_ok: "list_all scalar s \<Longrightarrow> \<exists>bs. utf8_encode s = Inr bs"
  by (simp add: utf8_encode_def)

lemma utf8_encode_cases:
  "(\<exists>bs. utf8_encode s = Inr bs) \<or> utf8_encode s = Inl (Py UnicodeEncodeError)"
  by (simp add: utf8_encode_def)

lemma ascii_roundtrip: "ascii_encode s = Inr bs \<Longrightarrow> ascii_decode bs = Inr s"
proof -
  assume "ascii_encode s = Inr bs"
  then have a: "ascii s" "bs = octets s" by (auto simp: ascii_encode_def split: if_splits)
  then have v: "octet_vals bs = s"
    by (auto simp: ascii_def list_all_iff intro!: octet_vals_octets)
  then have "list_all (\<lambda>b. unat b < 128) bs"
    using a(1) by (auto simp: ascii_def list_all_iff octet_vals_def)
  with v show ?thesis by (simp add: ascii_decode_def)
qed

end
