(* ===== verification/Codec.thy ===== *)
theory Codec
  imports Utf8
begin

text \<open>
  The interface between the components that store or transmit data and the encodings they
  use: an encoder that may refuse a value and a decoder, with the promise that what was
  encoded decodes to the same value. Clients use the derived facts (encodings are
  unambiguous, codecs compose) and never unfold an encoder.
\<close>

locale codec =
  fixes ok :: "'a \<Rightarrow> bool"
    and enc :: "'a \<Rightarrow> 'b res"
    and dec :: "'b \<Rightarrow> 'a res"
  assumes dec_enc: "ok x \<Longrightarrow> enc x = Inr y \<Longrightarrow> dec y = Inr x"
begin

lemma enc_unambiguous: "ok x \<Longrightarrow> ok y \<Longrightarrow> enc x = Inr z \<Longrightarrow> enc y = Inr z \<Longrightarrow> x = y"
  using dec_enc by (metis sum.inject(2))

lemma dec_error_not_encoded: "dec y = Inl e \<Longrightarrow> ok x \<Longrightarrow> enc x \<noteq> Inr y"
  using dec_enc by fastforce

end

text \<open>Two codecs in a row, as when JSON text is turned into UTF-8 bytes.\<close>

locale codec_chain =
  first: codec ok1 enc1 dec1 + second: codec ok2 enc2 dec2
  for ok1 :: "'a \<Rightarrow> bool" and enc1 :: "'a \<Rightarrow> 'b res" and dec1 :: "'b \<Rightarrow> 'a res"
    and ok2 :: "'b \<Rightarrow> bool" and enc2 :: "'b \<Rightarrow> 'c res" and dec2 :: "'c \<Rightarrow> 'b res" +
  assumes fits: "ok1 x \<Longrightarrow> enc1 x = Inr y \<Longrightarrow> ok2 y"

sublocale codec_chain \<subseteq> chain: codec ok1 "\<lambda>x. bindR (enc1 x) enc2" "\<lambda>z. bindR (dec2 z) dec1"
proof unfold_locales
  fix x z
  assume "ok1 x" "bindR (enc1 x) enc2 = Inr z"
  then obtain y where y: "enc1 x = Inr y" "enc2 y = Inr z" by (auto simp: bindR_Inr_iff)
  have "dec2 z = Inr y" by (rule second.dec_enc [OF fits [OF \<open>ok1 x\<close> y(1)] y(2)])
  with first.dec_enc [OF \<open>ok1 x\<close> y(1)] show "bindR (dec2 z) dec1 = Inr x" by simp
qed

interpretation utf8: codec "\<lambda>_. True" utf8_encode utf8_decode
  by unfold_locales (rule utf8_roundtrip)

interpretation ascii_text: codec "\<lambda>_. True" ascii_encode ascii_decode
  by unfold_locales (rule ascii_roundtrip)

end
