(* ===== verification/Json.thy ===== *)
theory Json
  imports Codec
begin

text \<open>
  Python's \<open>json\<close> module as the program uses it: \<open>dumps\<close> with
  \<open>ensure_ascii=False, separators=(",", ":")\<close> and \<open>loads\<close>. The parser follows the
  scanner of the standard library (whitespace, escapes, surrogate pairs, numbers, last
  duplicate key wins) and takes a fuel argument that bounds its recursion; twice the length of
  the text is always enough, well-formed or not (\<open>json_loads_errors\<close>). Floats are given by the text
  \<open>dumps\<close> prints for them; the conversion from decimal text to that canonical text is a
  parameter \<open>F\<close> (the C library's \<open>strtod\<close> and shortest \<open>repr\<close>).
\<close>

section \<open>Values\<close>

datatype json =
    JNull | JBool bool | JInt int | JFloat pystr | JStr pystr
  | JArr "json list" | JObj "(pystr \<times> json) list"

type_synonym pyfloat = "pystr \<Rightarrow> pystr"

section \<open>\<open>dumps\<close>\<close>

definition hex_digit :: "nat \<Rightarrow> codepoint" where
  "hex_digit n = (if n < 10 then 48 + n else 87 + n)"

definition esc_char :: "codepoint \<Rightarrow> pystr" where
  "esc_char c =
     (if c = 34 then [92, 34] else if c = 92 then [92, 92]
      else if c = 10 then [92, 110] else if c = 13 then [92, 114]
      else if c = 9 then [92, 116] else if c = 12 then [92, 102]
      else if c = 8 then [92, 98]
      else if c < 32 then [92, 117, 48, 48, hex_digit (c div 16), hex_digit (c mod 16)]
      else [c])"

definition dump_str :: "pystr \<Rightarrow> pystr" where
  "dump_str s = 34 # concat (map esc_char s) @ [34]"

fun join :: "pystr list \<Rightarrow> pystr" where
  "join [] = []"
| "join [x] = x"
| "join (x # y # ys) = x @ [44] @ join (y # ys)"

primrec dump_text :: "json \<Rightarrow> pystr" where
  "dump_text JNull = lit ''null''"
| "dump_text (JBool b) = (if b then lit ''true'' else lit ''false'')"
| "dump_text (JInt i) = dec_int i"
| "dump_text (JFloat t) = t"
| "dump_text (JStr s) = dump_str s"
| "dump_text (JArr xs) = [91] @ join (map dump_text xs) @ [93]"
| "dump_text (JObj kvs) =
     [123] @ join (map (\<lambda>(k, t). dump_str k @ [58] @ t) (map (map_prod id dump_text) kvs)) @ [125]"

text \<open>\<open>int.__repr__\<close> refuses integers of more than 4300 digits with \<open>ValueError\<close>.\<close>

primrec printable :: "json \<Rightarrow> bool" where
  "printable JNull = True"
| "printable (JBool b) = True"
| "printable (JInt i) = int_digits_ok (nat \<bar>i\<bar>)"
| "printable (JFloat t) = True"
| "printable (JStr s) = True"
| "printable (JArr xs) = list_all id (map printable xs)"
| "printable (JObj kvs) = list_all snd (map (map_prod id printable) kvs)"

definition json_dumps :: "json \<Rightarrow> pystr res" where
  "json_dumps j = (if printable j then Inr (dump_text j) else Inl (Py ValueError))"

section \<open>\<open>loads\<close>\<close>

definition json_space :: "codepoint \<Rightarrow> bool" where
  "json_space c \<longleftrightarrow> c = 32 \<or> c = 9 \<or> c = 10 \<or> c = 13"

definition skip_ws :: "pystr \<Rightarrow> pystr" where
  "skip_ws s = dropWhile json_space s"

subsection \<open>Strings\<close>

definition hex_val :: "codepoint \<Rightarrow> nat option" where
  "hex_val c =
     (if 48 \<le> c \<and> c \<le> 57 then Some (c - 48)
      else if 97 \<le> c \<and> c \<le> 102 then Some (c - 87)
      else if 65 \<le> c \<and> c \<le> 70 then Some (c - 55) else None)"

fun hex4 :: "pystr \<Rightarrow> (nat \<times> pystr) option" where
  "hex4 (a # b # c # d # r) =
     (case (hex_val a, hex_val b, hex_val c, hex_val d) of
        (Some w, Some x, Some y, Some z) \<Rightarrow> Some (((w * 16 + x) * 16 + y) * 16 + z, r)
      | _ \<Rightarrow> None)"
| "hex4 _ = None"

definition simple_escape :: "codepoint \<Rightarrow> codepoint option" where
  "simple_escape c =
     (if c = 34 then Some 34 else if c = 92 then Some 92 else if c = 47 then Some 47
      else if c = 98 then Some 8 else if c = 102 then Some 12 else if c = 110 then Some 10
      else if c = 114 then Some 13 else if c = 116 then Some 9 else None)"

text \<open>A low surrogate escape right after a high one is joined with it.\<close>

definition join_surrogates :: "nat \<Rightarrow> pystr \<Rightarrow> nat \<times> pystr" where
  "join_surrogates u r =
     (if 55296 \<le> u \<and> u \<le> 56319 then
        (case r of
           b # c # r' \<Rightarrow>
             (if b = 92 \<and> c = 117 then
                (case hex4 r' of
                   Some (v, r'') \<Rightarrow>
                     if 56320 \<le> v \<and> v \<le> 57343
                     then (65536 + (u - 55296) * 1024 + (v - 56320), r'') else (u, r)
                 | None \<Rightarrow> (u, r))
              else (u, r))
         | _ \<Rightarrow> (u, r))
      else (u, r))"

text \<open>The characters after an opening quote, up to and including the closing one.\<close>

fun scan_string :: "nat \<Rightarrow> pystr \<Rightarrow> (pystr \<times> pystr) option" where
  "scan_string 0 s = None"
| "scan_string (Suc n) [] = None"
| "scan_string (Suc n) (c # s) =
     (if c = 34 then Some ([], s)
      else if c = 92 then
        (case s of
           [] \<Rightarrow> None
         | e # r \<Rightarrow>
             if e = 117 then
               (case hex4 r of
                  None \<Rightarrow> None
                | Some (u, r') \<Rightarrow>
                    (case join_surrogates u r' of
                       (x, r'') \<Rightarrow> map_option (apfst ((#) x)) (scan_string n r'')))
             else
               (case simple_escape e of
                  None \<Rightarrow> None
                | Some x \<Rightarrow> map_option (apfst ((#) x)) (scan_string n r)))
      else if c < 32 then None
      else map_option (apfst ((#) c)) (scan_string n s))"

subsection \<open>Numbers\<close>

definition int_part :: "pystr \<Rightarrow> pystr \<times> pystr" where
  "int_part s =
     (case s of
        [] \<Rightarrow> ([], [])
      | c # r \<Rightarrow> if c = 48 then ([48], r) else (takeWhile is_digit s, dropWhile is_digit s))"

definition frac_part :: "pystr \<Rightarrow> pystr \<times> pystr" where
  "frac_part s =
     (case s of
        c # r \<Rightarrow>
          if c = 46 \<and> takeWhile is_digit r \<noteq> [] then (46 # takeWhile is_digit r, dropWhile is_digit r)
          else ([], s)
      | [] \<Rightarrow> ([], s))"

definition exp_part :: "pystr \<Rightarrow> pystr \<times> pystr" where
  "exp_part s =
     (case s of
        e # r \<Rightarrow>
          if e = 101 \<or> e = 69 then
            (let sgn = (case r of c # _ \<Rightarrow> if c = 43 \<or> c = 45 then [c] else [] | [] \<Rightarrow> []);
                 r' = drop (length sgn) r
             in if takeWhile is_digit r' \<noteq> []
                then (e # sgn @ takeWhile is_digit r', dropWhile is_digit r') else ([], s))
          else ([], s)
      | [] \<Rightarrow> ([], s))"

definition sign_part :: "pystr \<Rightarrow> pystr \<times> pystr" where
  "sign_part s = (case s of c # r \<Rightarrow> if c = 45 then ([45], r) else ([], s) | [] \<Rightarrow> ([], s))"

text \<open>Sign, integer digits, fraction and exponent, with the rest of the text.\<close>

definition scan_number :: "pystr \<Rightarrow> (pystr \<times> pystr \<times> pystr \<times> pystr) option" where
  "scan_number s =
     (let (sg, s1) = sign_part s; (ip, s2) = int_part s1
      in if ip = [] then None
         else let (fp, s3) = frac_part s2; (ep, s4) = exp_part s3
              in Some (sg, ip, fp @ ep, s4))"

definition parse_number :: "pyfloat \<Rightarrow> pystr \<Rightarrow> (json \<times> pystr) res" where
  "parse_number F s =
     (case scan_number s of
        None \<Rightarrow> Inl (Py JSONDecodeError)
      | Some (sg, ip, fe, r) \<Rightarrow>
          if fe \<noteq> [] then Inr (JFloat (F (sg @ ip @ fe)), r)
          else if 4300 < length ip then Inl (Py ValueError)
          else Inr (JInt ((if sg = [] then 1 else -1) * int (digits_val ip)), r))"

subsection \<open>Values\<close>

text \<open>Assignment to a dict: an existing key keeps its place.\<close>

fun dict_set :: "'k \<Rightarrow> 'v \<Rightarrow> ('k \<times> 'v) list \<Rightarrow> ('k \<times> 'v) list" where
  "dict_set k v [] = [(k, v)]"
| "dict_set k v ((k', v') # d) = (if k' = k then (k, v) # d else (k', v') # dict_set k v d)"

definition LITERALS :: "(pystr \<times> json) list" where
  "LITERALS =
     [(lit ''null'', JNull), (lit ''true'', JBool True), (lit ''false'', JBool False),
      (lit ''NaN'', JFloat (lit ''NaN'')), (lit ''Infinity'', JFloat (lit ''Infinity'')),
      (lit ''-Infinity'', JFloat (lit ''-Infinity''))]"

definition find_literal :: "pystr \<Rightarrow> (json \<times> pystr) option" where
  "find_literal s =
     map_option (\<lambda>(t, v). (v, drop (length t) s)) (find (\<lambda>(t, v). startswith s t) LITERALS)"

fun parse_value :: "nat \<Rightarrow> pyfloat \<Rightarrow> pystr \<Rightarrow> (json \<times> pystr) res"
  and parse_elems :: "nat \<Rightarrow> pyfloat \<Rightarrow> json list \<Rightarrow> pystr \<Rightarrow> (json \<times> pystr) res"
  and parse_members ::
    "nat \<Rightarrow> pyfloat \<Rightarrow> (pystr \<times> json) list \<Rightarrow> pystr \<Rightarrow> (json \<times> pystr) res"
where
  "parse_value 0 F s = Inl (Py RuntimeError)"
| "parse_value (Suc n) F s =
     (case s of
        [] \<Rightarrow> Inl (Py JSONDecodeError)
      | c # r \<Rightarrow>
          if c = 34 then
            (case scan_string (Suc (length r)) r of
               None \<Rightarrow> Inl (Py JSONDecodeError) | Some (t, r') \<Rightarrow> Inr (JStr t, r'))
          else if c = 91 then
            (case skip_ws r of
               [] \<Rightarrow> Inl (Py JSONDecodeError)
             | d # r' \<Rightarrow> if d = 93 then Inr (JArr [], r') else parse_elems n F [] (d # r'))
          else if c = 123 then
            (case skip_ws r of
               [] \<Rightarrow> Inl (Py JSONDecodeError)
             | d # r' \<Rightarrow> if d = 125 then Inr (JObj [], r') else parse_members n F [] (d # r'))
          else (case find_literal s of Some res \<Rightarrow> Inr res | None \<Rightarrow> parse_number F s))"
| "parse_elems 0 F acc s = Inl (Py RuntimeError)"
| "parse_elems (Suc n) F acc s =
     bindR (parse_value n F s) (\<lambda>(v, r).
       case skip_ws r of
         [] \<Rightarrow> Inl (Py JSONDecodeError)
       | c # r' \<Rightarrow>
           if c = 93 then Inr (JArr (acc @ [v]), r')
           else if c = 44 then parse_elems n F (acc @ [v]) (skip_ws r')
           else Inl (Py JSONDecodeError))"
| "parse_members 0 F acc s = Inl (Py RuntimeError)"
| "parse_members (Suc n) F acc s =
     (case s of
        [] \<Rightarrow> Inl (Py JSONDecodeError)
      | q # s' \<Rightarrow>
          if q \<noteq> 34 then Inl (Py JSONDecodeError)
          else
            (case scan_string (Suc (length s')) s' of
               None \<Rightarrow> Inl (Py JSONDecodeError)
             | Some (k, r1) \<Rightarrow>
                 (case skip_ws r1 of
                    [] \<Rightarrow> Inl (Py JSONDecodeError)
                  | c # r2 \<Rightarrow>
                      if c \<noteq> 58 then Inl (Py JSONDecodeError)
                      else
                        bindR (parse_value n F (skip_ws r2)) (\<lambda>(v, r3).
                          case skip_ws r3 of
                            [] \<Rightarrow> Inl (Py JSONDecodeError)
                          | d # r4 \<Rightarrow>
                              if d = 125 then Inr (JObj (dict_set k v acc), r4)
                              else if d = 44 then parse_members n F (dict_set k v acc) (skip_ws r4)
                              else Inl (Py JSONDecodeError)))))"

definition json_loads :: "pyfloat \<Rightarrow> pystr \<Rightarrow> json res" where
  "json_loads F s =
     (if s \<noteq> [] \<and> hd s = 65279 then Inl (Py JSONDecodeError)
      else bindR (parse_value (Suc (2 * length s)) F (skip_ws s)) (\<lambda>(v, r).
        if skip_ws r = [] then Inr v else Inl (Py JSONDecodeError)))"

section \<open>Values that survive the round trip\<close>

text \<open>
  Dicts have distinct keys; integers are within the digit limit; a float is one of the three
  special texts or a number text with a fraction or an exponent that is its own canonical
  form.
\<close>

definition float_ok :: "pyfloat \<Rightarrow> pystr \<Rightarrow> bool" where
  "float_ok F t \<longleftrightarrow>
     t = lit ''NaN'' \<or> t = lit ''Infinity'' \<or> t = lit ''-Infinity'' \<or>
     (case scan_number t of
        Some (sg, ip, fe, r) \<Rightarrow> fe \<noteq> [] \<and> r = [] \<and> F (sg @ ip @ fe) = t
      | None \<Rightarrow> False)"

primrec wf_json :: "pyfloat \<Rightarrow> json \<Rightarrow> bool" where
  "wf_json F JNull = True"
| "wf_json F (JBool b) = True"
| "wf_json F (JInt i) = int_digits_ok (nat \<bar>i\<bar>)"
| "wf_json F (JFloat t) = float_ok F t"
| "wf_json F (JStr s) = True"
| "wf_json F (JArr xs) = list_all id (map (wf_json F) xs)"
| "wf_json F (JObj kvs) =
     (distinct (map fst kvs) \<and> list_all snd (map (map_prod id (wf_json F)) kvs))"

lemma wf_json_printable: "wf_json F j \<Longrightarrow> printable j"
  by (induction j) (auto simp: list_all_iff)

section \<open>Strings\<close>

lemma hex_val_digit: "n < 16 \<Longrightarrow> hex_val (hex_digit n) = Some n"
  by (auto simp: hex_val_def hex_digit_def)

lemma length_esc_char: "1 \<le> length (esc_char c)"
  by (simp add: esc_char_def)

lemma length_esc_string: "length s \<le> length (concat (map esc_char s))"
  by (induction s) (use length_esc_char in \<open>auto intro: add_le_mono [of 1, simplified]\<close>)

lemma hex4_control:
  assumes "c < 32"
  shows "hex4 (48 # 48 # hex_digit (c div 16) # hex_digit (c mod 16) # s) = Some (c, s)"
proof -
  have "hex_val 48 = Some 0" by (simp add: hex_val_def)
  moreover have "hex_val (hex_digit (c div 16)) = Some (c div 16)"
    using assms by (intro hex_val_digit) simp
  moreover have "hex_val (hex_digit (c mod 16)) = Some (c mod 16)"
    by (intro hex_val_digit) simp
  ultimately show ?thesis by simp
qed

lemma join_control: "c < 32 \<Longrightarrow> join_surrogates c s = (c, s)"
  by (simp add: join_surrogates_def)

lemma scan_esc_char:
  "scan_string (Suc n) (esc_char c @ s) = map_option (apfst ((#) c)) (scan_string n s)"
  by (simp add: esc_char_def simple_escape_def hex4_control join_control del: hex4.simps)

lemma scan_dump_string:
  "length s < n \<Longrightarrow> scan_string n (concat (map esc_char s) @ 34 # r) = Some (s, r)"
proof (induction s arbitrary: n)
  case Nil
  then obtain m where "n = Suc m" by (cases n) auto
  then show ?case by simp
next
  case (Cons c s)
  then obtain m where m: "n = Suc m" "length s < m" by (cases n) auto
  then show ?case using Cons.IH [of m] by (simp add: scan_esc_char del: scan_string.simps)
qed

lemma scan_dump_str:
  "scan_string (Suc (length (concat (map esc_char s) @ 34 # r))) (concat (map esc_char s) @ 34 # r)
     = Some (s, r)"
  using length_esc_string [of s] by (intro scan_dump_string) simp

section \<open>Numbers\<close>

text \<open>What follows a value inside a document.\<close>

definition delim :: "pystr \<Rightarrow> bool" where
  "delim r \<longleftrightarrow> r = [] \<or> hd r = 44 \<or> hd r = 93 \<or> hd r = 125"

lemma delim_simps [simp]: "delim []" "delim (44 # r)" "delim (93 # r)" "delim (125 # r)"
  by (simp_all add: delim_def)

lemma delim_takeWhile:
  "delim r \<Longrightarrow> takeWhile is_digit (t @ r) = takeWhile is_digit t"
  "delim r \<Longrightarrow> dropWhile is_digit (t @ r) = dropWhile is_digit t @ r"
  by (induction t; cases r; auto simp: delim_def is_digit_def)+

lemma sign_part_delim: "delim r \<Longrightarrow> sign_part (s @ r) = (fst (sign_part s), snd (sign_part s) @ r)"
  by (cases s; cases r; auto simp: sign_part_def delim_def)

lemma int_part_delim: "delim r \<Longrightarrow> int_part (s @ r) = (fst (int_part s), snd (int_part s) @ r)"
  using delim_takeWhile [of r "[]"]
  by (cases s; cases r; auto simp: int_part_def delim_takeWhile delim_def is_digit_def)

lemma frac_part_delim: "delim r \<Longrightarrow> frac_part (s @ r) = (fst (frac_part s), snd (frac_part s) @ r)"
  by (cases s; cases r; auto simp: frac_part_def delim_takeWhile delim_def)

lemma exp_part_delim:
  assumes "delim r" shows "exp_part (s @ r) = (fst (exp_part s), snd (exp_part s) @ r)"
proof (cases s)
  case Nil
  then show ?thesis using assms by (cases r) (auto simp: exp_part_def delim_def)
next
  case (Cons e t)
  show ?thesis
  proof (cases t)
    case Nil
    then show ?thesis using assms Cons delim_takeWhile [OF assms, of "[]"]
      by (cases r) (auto simp: exp_part_def delim_def)
  next
    case (Cons c u)
    with \<open>s = e # t\<close> show ?thesis
      using delim_takeWhile [OF assms, of u] delim_takeWhile [OF assms, of "c # u"]
      by (auto simp: exp_part_def Let_def)
  qed
qed

lemma scan_number_delim:
  assumes "scan_number t = Some (sg, ip, fe, [])" "delim r"
  shows "scan_number (t @ r) = Some (sg, ip, fe, r)"
  using assms(1)
  by (auto simp: scan_number_def Let_def sign_part_delim [OF assms(2)] int_part_delim [OF assms(2)]
      frac_part_delim [OF assms(2)] exp_part_delim [OF assms(2)] split: prod.splits if_splits)

lemma scan_number_dec_nat:
  assumes "delim r" shows "scan_number (dec_nat n @ r) = Some ([], dec_nat n, [], r)"
proof -
  obtain d ds where d: "dec_nat n = d # ds" "is_digit d" "list_all is_digit ds"
    using dec_nat_digits [of _ n] by (cases "dec_nat n") (auto simp: list_all_iff)
  have "int_part (dec_nat n) = (dec_nat n, [])"
  proof (cases "n = 0")
    case True
    then show ?thesis by (simp add: dec_nat.simps int_part_def)
  next
    case False
    then have "d \<noteq> 48" using hd_dec_nat [of n] d by simp
    moreover have "takeWhile is_digit ds = ds" "dropWhile is_digit ds = []"
      using d(3) by (simp_all add: takeWhile_eq_all_conv dropWhile_eq_Nil_conv list_all_iff)
    ultimately show ?thesis using d by (simp add: int_part_def)
  qed
  moreover have "sign_part (dec_nat n) = ([], dec_nat n)"
    using d by (auto simp: sign_part_def is_digit_def)
  moreover have "frac_part [] = ([], [])" "exp_part [] = ([], [])"
    by (simp_all add: frac_part_def exp_part_def)
  ultimately have "scan_number (dec_nat n) = Some ([], dec_nat n, [], [])"
    by (simp add: scan_number_def)
  then show ?thesis by (rule scan_number_delim [OF _ assms])
qed

lemma scan_number_neg:
  assumes "scan_number s = Some ([], ip, fe, r)" "is_digit (hd s)" "s \<noteq> []"
  shows "scan_number (45 # s) = Some ([45], ip, fe, r)"
proof -
  have "sign_part s = ([], s)" using assms(2,3) by (cases s) (auto simp: sign_part_def is_digit_def)
  moreover have "sign_part (45 # s) = ([45], s)" by (simp add: sign_part_def)
  ultimately show ?thesis
    using assms(1) by (auto simp: scan_number_def Let_def split: prod.splits if_splits)
qed

lemma parse_number_dec_int:
  assumes "delim r" "int_digits_ok (nat \<bar>i\<bar>)"
  shows "parse_number F (dec_int i @ r) = Inr (JInt i, r)"
proof -
  have len: "length (dec_nat n) \<le> 4300" if "int_digits_ok n" for n
    using that by (simp add: int_digits_ok_def)
  show ?thesis
  proof (cases "i < 0")
    case True
    let ?n = "nat (- i)"
    have "dec_nat ?n @ r \<noteq> []" by simp
    moreover have "is_digit (hd (dec_nat ?n @ r))" by (simp add: hd_append hd_dec_nat_digit)
    ultimately have "scan_number (45 # dec_nat ?n @ r) = Some ([45], dec_nat ?n, [], r)"
      using scan_number_neg [OF scan_number_dec_nat [OF assms(1)]] by blast
    with True assms(2) len [of ?n] show ?thesis
      by (simp add: parse_number_def dec_int_def codec_simps)
  next
    case False
    with scan_number_dec_nat [OF assms(1), of "nat i"] assms(2) len [of "nat i"] show ?thesis
      by (simp add: parse_number_def dec_int_def codec_simps)
  qed
qed

lemma parse_number_float:
  assumes "delim r" "scan_number t = Some (sg, ip, fe, [])" "fe \<noteq> []" "F (sg @ ip @ fe) = t"
  shows "parse_number F (t @ r) = Inr (JFloat t, r)"
  using scan_number_delim [OF assms(2,1)] assms(3,4) by (simp add: parse_number_def)

section \<open>Documents\<close>

lemma scan_number_head:
  assumes "scan_number t = Some (sg, ip, fe, q)"
  shows "(\<exists>c u. t = c # u \<and> is_digit c) \<or> (\<exists>c u. t = 45 # c # u \<and> is_digit c)"
proof -
  have i: "\<exists>c u. s = c # u \<and> is_digit c" if "int_part s = (ip, v)" "ip \<noteq> []" for s v
    using that by (auto simp: int_part_def is_digit_def split: list.splits if_splits)
  show ?thesis
  proof (cases t)
    case Nil
    then show ?thesis using assms by (simp add: scan_number_def sign_part_def int_part_def)
  next
    case (Cons c u)
    then show ?thesis
      using assms i [of t] i [of u]
      by (cases "c = 45") (auto simp: scan_number_def sign_part_def Let_def split: prod.splits if_splits)
  qed
qed

lemma LITERALS_vals:
  "LITERALS =
     [([110, 117, 108, 108], JNull), ([116, 114, 117, 101], JBool True),
      ([102, 97, 108, 115, 101], JBool False), ([78, 97, 78], JFloat [78, 97, 78]),
      ([73, 110, 102, 105, 110, 105, 116, 121], JFloat [73, 110, 102, 105, 110, 105, 116, 121]),
      ([45, 73, 110, 102, 105, 110, 105, 116, 121],
       JFloat [45, 73, 110, 102, 105, 110, 105, 116, 121])]"
  by (simp add: LITERALS_def text_simps)

lemma digit_no_word:
  "is_digit c \<Longrightarrow> c \<noteq> 110 \<and> c \<noteq> 116 \<and> c \<noteq> 102 \<and> c \<noteq> 78 \<and> c \<noteq> 73 \<and> c \<noteq> 45"
  by (auto simp: is_digit_def)

lemma no_literal_digit: "is_digit c \<Longrightarrow> find_literal (c # u) = None"
  using digit_no_word [of c]
  by (simp add: find_literal_def LITERALS_vals)

lemma no_literal_neg: "is_digit c \<Longrightarrow> find_literal (45 # c # u) = None"
  using digit_no_word [of c]
  by (simp add: find_literal_def LITERALS_vals)

lemma find_literal_all:
  "list_all (\<lambda>(t, v). \<forall>r. find_literal (t @ r) = Some (v, r)) LITERALS"
  by (simp add: find_literal_def LITERALS_vals)

lemma find_literal_text:
  assumes "(t, v) \<in> set LITERALS" shows "find_literal (t @ r) = Some (v, r)"
  using assms find_literal_all by (auto simp: list_all_iff)

text \<open>A number text is parsed as a number: it starts neither a string, a list, an object nor
  one of the words.\<close>

lemma parse_value_number:
  assumes "(\<exists>c u. s = c # u \<and> is_digit c) \<or> (\<exists>c u. s = 45 # c # u \<and> is_digit c)"
  shows "parse_value (Suc n) F s = parse_number F s"
  using assms by (auto simp: no_literal_digit no_literal_neg is_digit_def)

lemma parse_value_word:
  assumes "(t, v) \<in> set LITERALS" shows "parse_value (Suc n) F (t @ r) = Inr (v, r)"
proof -
  obtain c u where "t @ r = c # u" "c \<noteq> 34" "c \<noteq> 91" "c \<noteq> 123"
    using assms by (auto simp: LITERALS_vals)
  then show ?thesis using find_literal_text [OF assms, of r] by simp
qed

lemma dec_int_head:
  "(\<exists>c u. dec_int i @ r = c # u \<and> is_digit c) \<or> (\<exists>c u. dec_int i @ r = 45 # c # u \<and> is_digit c)"
proof -
  have d: "\<exists>c u. dec_nat m = c # u \<and> is_digit c" for m
    using hd_dec_nat_digit [of m] by (cases "dec_nat m") auto
  show ?thesis
    using d [of "nat i"] d [of "nat (- i)"] by (auto simp: dec_int_def)
qed

lemma dump_head:
  assumes "wf_json F j"
  shows "\<exists>c t. dump_text j = c # t \<and> \<not> json_space c \<and> c \<noteq> 93 \<and> c \<noteq> 125 \<and> c \<noteq> 65279"
proof (cases j)
  case (JInt i)
  then show ?thesis
    using dec_int_head [of i "[]"] by (auto simp: json_space_def is_digit_def)
next
  case (JFloat t)
  then have "float_ok F t" using assms by simp
  then show ?thesis using JFloat
    by (auto simp: float_ok_def text_simps json_space_def is_digit_def
        dest!: scan_number_head split: option.splits)
qed (auto simp: text_simps json_space_def dump_str_def)

lemma skip_ws_head: "\<not> json_space c \<Longrightarrow> skip_ws (c # t) = c # t"
  by (simp add: skip_ws_def)

lemma skip_ws_dump: "wf_json F j \<Longrightarrow> skip_ws (dump_text j @ r) = dump_text j @ r"
  using dump_head [of F j] by (auto simp: skip_ws_head)

lemma skip_ws_delims [simp]:
  "skip_ws (44 # t) = 44 # t" "skip_ws (93 # t) = 93 # t" "skip_ws (125 # t) = 125 # t"
  "skip_ws (58 # t) = 58 # t" "skip_ws (34 # t) = 34 # t"
  by (simp_all add: skip_ws_def json_space_def)

lemma parse_elems_dump:
  assumes "xs \<noteq> []" "length (join (map dump_text xs)) + 1 < n" "list_all (wf_json F) xs"
    and IH: "\<And>x m r. x \<in> set xs \<Longrightarrow> delim r \<Longrightarrow> length (dump_text x) < m \<Longrightarrow>
               parse_value m F (dump_text x @ r) = Inr (x, r)"
  shows "parse_elems n F acc (join (map dump_text xs) @ 93 # r) = Inr (JArr (acc @ xs), r)"
  using assms
proof (induction xs arbitrary: n acc)
  case Nil
  then show ?case by simp
next
  case (Cons x xs)
  from Cons.prems(2) obtain m where m: "n = Suc m" by (cases n) auto
  show ?case
  proof (cases xs)
    case Nil
    with Cons.prems m have "parse_value m F (dump_text x @ 93 # r) = Inr (x, 93 # r)" by simp
    with m Nil show ?thesis by simp
  next
    case (Cons y ys)
    let ?rest = "join (map dump_text xs) @ 93 # r"
    from Cons Cons.prems m have v: "parse_value m F (dump_text x @ 44 # ?rest) = Inr (x, 44 # ?rest)"
      by simp
    have sk: "skip_ws ?rest = ?rest"
      using Cons Cons.prems(3) skip_ws_dump [of F y]
      by (cases ys) auto
    have "parse_elems m F (acc @ [x]) ?rest = Inr (JArr ((acc @ [x]) @ xs), r)"
      using Cons Cons.prems m by (intro Cons.IH) auto
    with v sk m Cons show ?thesis by simp
  qed
qed

lemma dict_set_new: "k \<notin> fst ` set d \<Longrightarrow> dict_set k v d = d @ [(k, v)]"
  by (induction d) auto

abbreviation dump_member :: "pystr \<times> json \<Rightarrow> pystr" where
  "dump_member kv \<equiv> dump_str (fst kv) @ [58] @ dump_text (snd kv)"

lemma parse_members_dump:
  assumes "kvs \<noteq> []" "length (join (map dump_member kvs)) + 1 < n"
    "\<forall>kv \<in> set kvs. wf_json F (snd kv)" "distinct (map fst (acc @ kvs))"
    and IH: "\<And>kv m r. kv \<in> set kvs \<Longrightarrow> delim r \<Longrightarrow> length (dump_text (snd kv)) < m \<Longrightarrow>
               parse_value m F (dump_text (snd kv) @ r) = Inr (snd kv, r)"
  shows "parse_members n F acc (join (map dump_member kvs) @ 125 # r) = Inr (JObj (acc @ kvs), r)"
  using assms
proof (induction kvs arbitrary: n acc)
  case Nil
  then show ?case by simp
next
  case (Cons kv kvs)
  obtain k v where kv: "kv = (k, v)" by (cases kv)
  from Cons.prems(2) obtain m where m: "n = Suc m" by (cases n) auto
  have ds: "dict_set k v acc = acc @ [(k, v)]"
    using Cons.prems(4) kv by (intro dict_set_new) auto
  have sk: "skip_ws (dump_text v @ q) = dump_text v @ q" for q
    using Cons.prems(3) kv by (intro skip_ws_dump) auto
  have str: "scan_string (Suc (length (concat (map esc_char k) @ 34 # q)))
      (concat (map esc_char k) @ 34 # q) = Some (k, q)" for q
    by (rule scan_dump_str)
  have lv: "length (dump_text v) < m"
    using Cons.prems(2) m kv by (cases kvs) (auto simp: dump_str_def)
  show ?case
  proof (cases kvs)
    case Nil
    have "parse_value m F (dump_text v @ 125 # r) = Inr (v, 125 # r)"
      using Cons.prems(5) [of kv "125 # r" m] kv lv by simp
    with m Nil kv ds sk str show ?thesis
      by (simp add: dump_str_def del: scan_string.simps length_append)
  next
    case (Cons kv' kvs')
    let ?rest = "join (map dump_member kvs) @ 125 # r"
    have v: "parse_value m F (dump_text v @ 44 # ?rest) = Inr (v, 44 # ?rest)"
      using Cons.prems(5) [of kv "44 # ?rest" m] kv lv by simp
    have skr: "skip_ws ?rest = ?rest"
      using Cons by (cases kvs') (auto simp: dump_str_def)
    have "parse_members m F (acc @ [(k, v)]) ?rest = Inr (JObj ((acc @ [(k, v)]) @ kvs), r)"
      using Cons Cons.prems m kv by (intro Cons.IH) auto
    with v skr m Cons kv ds sk str show ?thesis
      by (simp add: dump_str_def del: scan_string.simps length_append)
  qed
qed

theorem parse_value_dump:
  "wf_json F j \<Longrightarrow> delim r \<Longrightarrow> length (dump_text j) < n \<Longrightarrow>
   parse_value n F (dump_text j @ r) = Inr (j, r)"
proof (induction j arbitrary: n r)
  case JNull
  then show ?case
    using parse_value_word [of "lit ''null''" JNull] by (cases n) (auto simp: LITERALS_def)
next
  case (JBool b)
  then show ?case
    using parse_value_word [of "lit ''true''" "JBool True"]
      parse_value_word [of "lit ''false''" "JBool False"]
    by (cases n) (auto simp: LITERALS_def)
next
  case (JInt i)
  then obtain m where "n = Suc m" by (cases n) auto
  with JInt show ?case
    using parse_value_number [OF dec_int_head] parse_number_dec_int by simp
next
  case (JFloat t)
  then obtain m where n: "n = Suc m" by (cases n) auto
  show ?case
  proof (cases "(t, JFloat t) \<in> set LITERALS")
    case True
    with n show ?thesis using parse_value_word by simp
  next
    case False
    with JFloat.prems obtain sg ip fe where
      f: "scan_number t = Some (sg, ip, fe, [])" "fe \<noteq> []" "F (sg @ ip @ fe) = t"
      by (auto simp: float_ok_def LITERALS_def split: option.splits)
    from scan_number_head [OF f(1)]
    have "(\<exists>c u. t @ r = c # u \<and> is_digit c) \<or> (\<exists>c u. t @ r = 45 # c # u \<and> is_digit c)"
      by auto
    then have "parse_value n F (t @ r) = parse_number F (t @ r)"
      unfolding n by (rule parse_value_number)
    also have "\<dots> = Inr (JFloat t, r)"
      by (intro parse_number_float [OF JFloat.prems(2) f(1,2)] f(3))
    finally show ?thesis by simp
  qed
next
  case (JStr s)
  then obtain m where "n = Suc m" by (cases n) auto
  with scan_dump_str [of s r] show ?case
    by (simp add: dump_str_def del: scan_string.simps length_append)
next
  case (JArr xs)
  then obtain m where n: "n = Suc m" by (cases n) auto
  show ?case
  proof (cases xs)
    case Nil
    with n show ?thesis by (simp add: skip_ws_def json_space_def)
  next
    case (Cons x ys)
    let ?body = "join (map dump_text xs) @ 93 # r"
    have wf: "list_all (wf_json F) xs" using JArr.prems(1) by (simp add: list_all_iff)
    obtain c t where h: "dump_text x = c # t" "\<not> json_space c" "c \<noteq> 93"
      using dump_head [of F x] wf Cons by auto
    then obtain u where b: "?body = c # u" using Cons by (cases ys) auto
    have "parse_elems m F [] ?body = Inr (JArr ([] @ xs), r)"
      using JArr wf n Cons by (intro parse_elems_dump) (auto simp: list_all_iff)
    with n h show ?thesis by (simp add: b skip_ws_head)
  qed
next
  case (JObj kvs)
  then obtain m where n: "n = Suc m" by (cases n) auto
  have d: "dump_text (JObj kvs) = [123] @ join (map dump_member kvs) @ [125]"
    by (simp add: comp_def case_prod_beta)
  show ?case
  proof (cases kvs)
    case Nil
    with n show ?thesis by (simp add: skip_ws_def json_space_def)
  next
    case (Cons kv ys)
    let ?body = "join (map dump_member kvs) @ 125 # r"
    obtain u where b: "?body = 34 # u" using Cons by (cases ys) (auto simp: dump_str_def)
    have "parse_members m F [] ?body = Inr (JObj ([] @ kvs), r)"
    proof (rule parse_members_dump)
      show "length (join (map dump_member kvs)) + 1 < m"
        using JObj.prems(3) n unfolding d by simp
      show "\<forall>kv \<in> set kvs. wf_json F (snd kv)" "distinct (map fst ([] @ kvs))"
        using JObj.prems(1) by (auto simp: list_all_iff)
      show "parse_value k F (dump_text (snd kv) @ q) = Inr (snd kv, q)"
        if "kv \<in> set kvs" "delim q" "length (dump_text (snd kv)) < k" for kv q k
        using that JObj.prems(1) by (intro JObj.IH) (auto simp: list_all_iff intro: snds.intros)
    qed (use Cons in simp)
    then have "parse_value n F ([123] @ ?body) = Inr (JObj kvs, r)"
      unfolding b n by simp
    then show ?thesis unfolding d by simp
  qed
qed

lemma json_roundtrip: "wf_json F j \<Longrightarrow> json_dumps j = Inr s \<Longrightarrow> json_loads F s = Inr j"
proof -
  assume wf: "wf_json F j" and s: "json_dumps j = Inr s"
  from s have st: "s = dump_text j" by (simp add: json_dumps_def split: if_splits)
  obtain c t where h: "dump_text j = c # t" "\<not> json_space c" using dump_head [OF wf] by blast
  have p: "parse_value (Suc (2 * length s)) F s = Inr (j, [])"
    using parse_value_dump [OF wf, of "[]" "Suc (2 * length s)"] st by simp
  have "skip_ws s = s" using h st by (simp add: skip_ws_head)
  moreover have "hd s \<noteq> 65279"
    using dump_head [OF wf] st by auto
  ultimately show ?thesis
    using p by (simp add: json_loads_def skip_ws_def del: parse_value.simps)
qed

lemma json_dumps_ok: "wf_json F j \<Longrightarrow> \<exists>s. json_dumps j = Inr s"
  using wf_json_printable by (simp add: json_dumps_def)

section \<open>The fuel is enough\<close>

text \<open>Every scanner leaves a rest that is shorter than what it was given.\<close>

lemma length_skip_ws: "length (skip_ws s) \<le> length s"
  by (simp add: skip_ws_def length_dropWhile_le)

lemma skip_ws_Cons: "skip_ws s = c # t \<Longrightarrow> length t < length s"
  using length_skip_ws [of s] by simp

lemma length_hex4: "hex4 s = Some (u, r) \<Longrightarrow> length r < length s"
  by (induction s rule: hex4.induct) (auto split: option.splits)

lemma length_join: "join_surrogates u r = (x, r') \<Longrightarrow> length r' \<le> length r"
  by (auto simp: join_surrogates_def split: if_splits list.splits option.splits dest!: length_hex4)

lemma length_scan_string: "scan_string n s = Some (t, r) \<Longrightarrow> length r < length s"
proof (induction n s arbitrary: t r rule: scan_string.induct)
  case (3 n c s)
  then show ?case by (fastforce split: if_splits list.splits option.splits prod.splits dest!: length_hex4 length_join)
qed simp_all

lemma length_int_part: "int_part s = (a, r) \<Longrightarrow> length a + length r = length s"
  by (auto simp: int_part_def length_append [symmetric] simp del: length_append split: list.splits if_splits)

lemma length_number_parts:
  "length (snd (sign_part s)) \<le> length s" "length (snd (frac_part s)) \<le> length s"
  "length (snd (exp_part s)) \<le> length s"
proof -
  note d = length_dropWhile_le [of is_digit]
  show "length (snd (sign_part s)) \<le> length s" by (simp add: sign_part_def split: list.split)
  show "length (snd (frac_part s)) \<le> length s" using le_SucI [OF d] by (simp add: frac_part_def split: list.split)
  show "length (snd (exp_part s)) \<le> length s"
    using le_trans [OF d] by (simp add: exp_part_def Let_def le_SucI split: list.split)
qed

lemma length_number:
  assumes "parse_number F s = Inr (v, r)" shows "length r < length s"
proof -
  obtain sg s1 ip s2 fp s3 ep s4 where p: "sign_part s = (sg, s1)" "int_part s1 = (ip, s2)"
    "frac_part s2 = (fp, s3)" "exp_part s3 = (ep, s4)" by (meson surj_pair)
  with assms have "ip \<noteq> []" "r = s4"
    by (auto simp: parse_number_def scan_number_def split: if_splits)
  then show ?thesis using p length_int_part [OF p(2)] length_number_parts(1) [of s]
    length_number_parts(2) [of s2] length_number_parts(3) [of s3]
    by (cases ip) auto
qed

lemma length_literal: 
  assumes "find_literal s = Some (v, r)" shows "length r < length s"
proof -
  from assms obtain t where "(t, v) \<in> set LITERALS" "startswith s t" "r = drop (length t) s"
    by (fastforce simp: find_literal_def find_Some_iff in_set_conv_nth)
  moreover from this have "t \<noteq> []" "s \<noteq> []" by (auto simp: LITERALS_def startswith_def lit_def)
  ultimately show ?thesis by (cases t; cases s) auto
qed

text \<open>What a call of the parser comes to: an answer, or calls on a shorter text.\<close>

lemma parse_value_cases:
  obtains e where "parse_value (Suc n) F s = Inl (Py e)" "e \<in> {JSONDecodeError, ValueError}"
  | v r where "parse_value (Suc n) F s = Inr (v, r)" "length r < length s"
  | t where "parse_value (Suc n) F s = parse_elems n F [] t" "length t < length s"
  | t where "parse_value (Suc n) F s = parse_members n F [] t" "length t < length s"
proof (cases s)
  case Nil
  then show ?thesis by (intro that(1) [of JSONDecodeError]) simp_all
next
  case (Cons c r)
  have w: "length (d # t) < length s" "length t < length s" if "skip_ws r = d # t" for d t
    using length_skip_ws [of r] that Cons by simp_all
  have num: "parse_number F s = Inl e \<Longrightarrow> e = Py JSONDecodeError \<or> e = Py ValueError" for e
    by (auto simp: parse_number_def split: option.splits if_splits)
  consider "c = 34" | "c = 91" | "c = 123" | "c \<noteq> 34" "c \<noteq> 91" "c \<noteq> 123" by blast
  then show ?thesis
  proof cases
    case 1
    then show ?thesis using Cons that(1) [of JSONDecodeError] that(2) length_scan_string [of "Suc (length r)" r]
      by (cases "scan_string (Suc (length r)) r") fastforce+
  next
    case 2
    then show ?thesis using Cons that(1) [of JSONDecodeError] that(2) [of "JArr []"] that(3) w
      by (cases "skip_ws r"; cases "hd (skip_ws r) = 93") auto
  next
    case 3
    then show ?thesis using Cons that(1) [of JSONDecodeError] that(2) [of "JObj []"] that(4) w
      by (cases "skip_ws r"; cases "hd (skip_ws r) = 125") auto
  next
    case 4
    then have "parse_value (Suc n) F s = (case find_literal s of Some res \<Rightarrow> Inr res | None \<Rightarrow> parse_number F s)"
      unfolding Cons by simp
    then show ?thesis using that(1,2) num length_number [of F s] length_literal [of s]
      by (cases "find_literal s"; cases "parse_number F s") fastforce+
  qed
qed

lemma parse_members_cases:
  obtains "parse_members (Suc n) F acc s = Inl (Py JSONDecodeError)"
  | k t where "length t < length s" "parse_members (Suc n) F acc s =
      bindR (parse_value n F t) (\<lambda>(v, r).
        case skip_ws r of
          [] \<Rightarrow> Inl (Py JSONDecodeError)
        | d # u \<Rightarrow>
            if d = 125 then Inr (JObj (dict_set k v acc), u)
            else if d = 44 then parse_members n F (dict_set k v acc) (skip_ws u)
            else Inl (Py JSONDecodeError))"
proof (cases "\<exists>s' k r c u. s = 34 # s' \<and> scan_string (Suc (length s')) s' = Some (k, r) \<and> skip_ws r = 58 # u")
  case True
  then obtain s' k r u where q: "s = 34 # s'" "scan_string (Suc (length s')) s' = Some (k, r)" "skip_ws r = 58 # u"
    by blast
  then have "length (skip_ws u) < length s"
    using length_skip_ws [of u] skip_ws_Cons [OF q(3)] length_scan_string [OF q(2)] by simp
  with q show ?thesis by (intro that(2) [of "skip_ws u" k]) simp_all
next
  case False
  then have "parse_members (Suc n) F acc s = Inl (Py JSONDecodeError)"
    by (auto split: list.split option.split)
  then show ?thesis by (rule that(1))
qed

lemmas parser_steps = parse_value.simps(2) parse_elems.simps(2) parse_members.simps(2)

declare parser_steps [simp del]

lemma length_parsed:
  "parse_value n F s = Inr (v, r) \<Longrightarrow> length r < length s"
  "parse_elems n F l s = Inr (v, r) \<Longrightarrow> length r < length s"
  "parse_members n F d s = Inr (v, r) \<Longrightarrow> length r < length s"
proof (induction n arbitrary: s l d v r)
  case (Suc n)
  have next': "length r < length u" if "skip_ws u = c # t" "r = t \<or> length r < length (skip_ws t)" for c r t u
    using skip_ws_Cons [OF that(1)] that(2) length_skip_ws [of t] by auto
  { case 1
    then show ?case by (rule_tac parse_value_cases [of n F s]) (auto dest: Suc.IH(2,3))
  next
    case 2
    then obtain x u where x: "parse_value n F s = Inr (x, u)" by (auto simp: bindR_Inr_iff parser_steps)
    with 2 obtain c t where t: "skip_ws u = c # t" by (auto simp: parser_steps split: list.splits)
    with x 2 have "r = t \<or> parse_elems n F (l @ [x]) (skip_ws t) = Inr (v, r)"
      by (simp add: parser_steps split: if_splits)
    then have "length r < length u" using Suc.IH(2) next' [OF t, of r] by metis
    then show ?case using Suc.IH(1) [OF x] by simp
  next
    case 3
    show ?case
    proof (rule parse_members_cases [of n F d s])
      fix k t assume t: "length t < length s" and m: "parse_members (Suc n) F d s =
        bindR (parse_value n F t) (\<lambda>(v, r). case skip_ws r of [] \<Rightarrow> Inl (Py JSONDecodeError)
          | d' # u \<Rightarrow> if d' = 125 then Inr (JObj (dict_set k v d), u)
              else if d' = 44 then parse_members n F (dict_set k v d) (skip_ws u) else Inl (Py JSONDecodeError))"
      from 3 obtain x u where x: "parse_value n F t = Inr (x, u)" unfolding m by (auto simp: bindR_Inr_iff)
      with m 3 obtain c q where q: "skip_ws u = c # q" by (auto split: list.splits)
      with x m 3 have "r = q \<or> parse_members n F (dict_set k x d) (skip_ws q) = Inr (v, r)"
        by (simp split: if_splits)
      then have "length r < length u" using Suc.IH(3) next' [OF q, of r] by metis
      then show ?case using Suc.IH(1) [OF x] t by simp
    qed (use 3 in simp)
  }
qed simp_all

text \<open>More fuel does not change what a scanner found, and above the length of the text it finds the same.\<close>

lemma scan_string_fuel: "length s < n \<Longrightarrow> length s < m \<Longrightarrow> scan_string n s = scan_string m s"
proof (induction n arbitrary: s m)
  case (Suc n)
  then obtain k where m: "m = Suc k" by (cases m) auto
  have eq: "scan_string n r = scan_string k r" if "length r < length s" for r
    using Suc.IH [of r k] Suc.prems that m by simp
  have "scan_string (Suc n) (c # t) = scan_string (Suc k) (c # t)" if "s = c # t" for c t
    using that eq by (auto split: list.split option.split prod.split dest!: length_hex4 length_join)
  then show ?case by (cases s) (simp_all add: m)
qed simp

text \<open>One level of nesting costs two calls and at least one character.\<close>

lemma parse_fuel:
  "parse_value n F s = Inl e \<Longrightarrow> 2 * length s < n \<Longrightarrow> e \<in> Py ` {JSONDecodeError, ValueError}"
  "parse_elems n F l s = Inl e \<Longrightarrow> 2 * length s + 1 < n \<Longrightarrow> e \<in> Py ` {JSONDecodeError, ValueError}"
  "parse_members n F d s = Inl e \<Longrightarrow> 2 * length s < n \<Longrightarrow> e \<in> Py ` {JSONDecodeError, ValueError}"
proof (induction n arbitrary: s l d)
  case (Suc n)
  have rest: "length (skip_ws u) < length t" if "parse_value n F t = Inr (x, r)" "skip_ws r = c # u" for t x r c u
    using length_parsed(1) [OF that(1)] skip_ws_Cons [OF that(2)] length_skip_ws [of u] by simp
  have shorter:
    "parse_elems n F l t = Inl e \<Longrightarrow> e \<in> Py ` {JSONDecodeError, ValueError}"
    "parse_members n F d t = Inl e \<Longrightarrow> e \<in> Py ` {JSONDecodeError, ValueError}"
    if "length t < length s" "2 * length s < Suc n" for s t l d
    using Suc.IH(2) [of l t] Suc.IH(3) [of d t] that by simp_all
  { case 1
    then show ?case using shorter [of _ s] by (rule_tac parse_value_cases [of n F s]) fastforce+
  next
    case 2
    then show ?case using Suc.IH(1) [of s] shorter(1) [OF rest]
      by (cases "parse_value n F s") (auto simp: parser_steps split: list.splits if_splits)
  next
    case 3
    show ?case
    proof (rule parse_members_cases [of n F d s])
      fix k t assume t: "length t < length s" and m: "parse_members (Suc n) F d s =
        bindR (parse_value n F t) (\<lambda>(v, r). case skip_ws r of [] \<Rightarrow> Inl (Py JSONDecodeError)
          | d' # u \<Rightarrow> if d' = 125 then Inr (JObj (dict_set k v d), u)
              else if d' = 44 then parse_members n F (dict_set k v d) (skip_ws u) else Inl (Py JSONDecodeError))"
      show ?case using 3 t Suc.IH(1) [of t] shorter(2) [OF rest] unfolding m
        by (cases "parse_value n F t") (auto split: list.splits if_splits)
    qed (use 3 in simp)
  }
qed simp_all

text \<open>A text is parsed or refused with a \<open>ValueError\<close>.\<close>

lemma json_loads_errors: "json_loads F s = Inl e \<Longrightarrow> e = Py JSONDecodeError \<or> e = Py ValueError"
  using parse_fuel(1) [of "Suc (2 * length s)" F "skip_ws s"] length_skip_ws [of s]
  by (auto simp: json_loads_def bindR_Inl_iff split: if_splits)

interpretation json_text: codec "wf_json F" json_dumps "json_loads F" for F
  by unfold_locales (rule json_roundtrip)

text \<open>JSON text as UTF-8 bytes, the form in which a KV secret is encrypted.\<close>

interpretation json_utf8:
  codec_chain "wf_json F" json_dumps "json_loads F" "\<lambda>_. True" utf8_encode utf8_decode for F
  by unfold_locales simp

end
