(* ===== verification/Base64.thy ===== *)
theory Base64
  imports Codec
begin

text \<open>
  \<open>src/core/encoding.py\<close>: \<open>encode_b64\<close> and \<open>decode_b64\<close>, with the parts of
  Python's \<open>base64\<close> and \<open>binascii\<close> modules they call. \<open>b64decode\<close> with
  \<open>validate=True\<close> is the strict mode of \<open>binascii.a2b_base64\<close>, written as the scanner
  it is: it reads the text once, with the position in the current group of four, the bits
  left over from the last character and the padding seen so far.
\<close>

section \<open>The alphabet\<close>

definition b64_char :: "nat \<Rightarrow> codepoint" where
  "b64_char n =
     (if n < 26 then 65 + n
      else if n < 52 then 97 + (n - 26)
      else if n < 62 then 48 + (n - 52)
      else if n = 62 then 43 else 47)"

definition b64_val :: "codepoint \<Rightarrow> nat option" where
  "b64_val c =
     (if 65 \<le> c \<and> c \<le> 90 then Some (c - 65)
      else if 97 \<le> c \<and> c \<le> 122 then Some (c - 97 + 26)
      else if 48 \<le> c \<and> c \<le> 57 then Some (c - 48 + 52)
      else if c = 43 then Some 62 else if c = 47 then Some 63 else None)"

abbreviation pad :: codepoint where "pad \<equiv> 61"

lemma b64_val_char: "n < 64 \<Longrightarrow> b64_val (b64_char n) = Some n"
  by (auto simp: b64_val_def b64_char_def)

lemma b64_char_not_pad: "b64_char n \<noteq> pad"
  by (auto simp: b64_char_def)

lemma b64_char_ascii: "b64_char n < 128"
  by (auto simp: b64_char_def)

lemma b64_char_not_colon: "b64_char n \<noteq> 58"
  by (auto simp: b64_char_def)

section \<open>\<open>base64.b64encode\<close>\<close>

fun b2a_base64 :: "nat list \<Rightarrow> pystr" where
  "b2a_base64 [] = []"
| "b2a_base64 [a] = [b64_char (a div 4), b64_char (a mod 4 * 16), pad, pad]"
| "b2a_base64 [a, b] =
     [b64_char (a div 4), b64_char (a mod 4 * 16 + b div 16), b64_char (b mod 16 * 4), pad]"
| "b2a_base64 (a # b # c # r) =
     b64_char (a div 4) # b64_char (a mod 4 * 16 + b div 16) #
     b64_char (b mod 16 * 4 + c div 64) # b64_char (c mod 64) # b2a_base64 r"

section \<open>\<open>base64.b64decode(_, validate=True)\<close>\<close>

text \<open>
  \<open>a2b q left pads padded cs\<close>: \<open>q\<close> characters of the current group have been read,
  \<open>left\<close> holds the bits of the last one that are not yet in an output byte.
\<close>

fun a2b_base64 :: "nat \<Rightarrow> nat \<Rightarrow> nat \<Rightarrow> bool \<Rightarrow> nat list \<Rightarrow> nat list res" where
  "a2b_base64 q left pads padded [] = (if q = 0 then Inr [] else Inl (Py BinasciiError))"
| "a2b_base64 q left pads padded (c # cs) =
     (if c = pad then
        (if 2 \<le> q \<and> 4 \<le> q + Suc pads then
           (if cs = [] then Inr [] else Inl (Py BinasciiError))
         else a2b_base64 q left (if 2 \<le> q then Suc pads else pads) True cs)
      else case b64_val c of
        None \<Rightarrow> Inl (Py BinasciiError)
      | Some v \<Rightarrow>
          if padded then Inl (Py BinasciiError)
          else if q = 0 then a2b_base64 1 v 0 padded cs
          else if q = 1 then
            bindR (a2b_base64 2 (v mod 16) 0 padded cs) (\<lambda>r. Inr ((left * 4 + v div 16) # r))
          else if q = 2 then
            bindR (a2b_base64 3 (v mod 4) 0 padded cs) (\<lambda>r. Inr ((left * 16 + v div 4) # r))
          else bindR (a2b_base64 0 0 0 padded cs) (\<lambda>r. Inr ((left * 64 + v) # r)))"

definition b64decode_strict :: "bytes \<Rightarrow> bytes res" where
  "b64decode_strict bs =
     (let cs = octet_vals bs in
      if cs \<noteq> [] \<and> hd cs = pad then Inl (Py BinasciiError)
      else bindR (a2b_base64 0 0 0 False cs) (\<lambda>r. Inr (octets r)))"

section \<open>The module's functions\<close>

definition encode_b64 :: "bytes \<Rightarrow> pystr" where
  "encode_b64 data = b2a_base64 (octet_vals data)"

definition decode_b64 :: "pyobj \<Rightarrow> bytes res" where
  "decode_b64 value =
     (case value of
        PyStr s \<Rightarrow> bindR (ascii_encode s) b64decode_strict
      | _ \<Rightarrow> Inl (Py ValueError))"

section \<open>Lemmas\<close>

lemma group_4_16: "(a::nat) div 4 * 4 + (a mod 4 * 16 + b) div 16 = a" if "b < 16"
proof -
  have "(a mod 4 * 16 + b) div 16 = a mod 4" using that by simp
  then show ?thesis by simp
qed

lemma a2b_b2a:
  "\<forall>n \<in> set ns. n < 256 \<Longrightarrow> a2b_base64 0 0 0 False (b2a_base64 ns) = Inr ns"
proof (induction ns rule: b2a_base64.induct)
  case 1
  then show ?case by simp
next
  case (2 a)
  then have "a div 4 < 64" "a mod 4 * 16 < 64" by auto
  then show ?case
    by (simp add: b64_val_char b64_char_not_pad)
next
  case (3 a b)
  then have "a div 4 < 64" "a mod 4 * 16 + b div 16 < 64" "b mod 16 * 4 < 64" "b div 16 < 16"
    by auto
  moreover have "b div 16 * 16 + b mod 16 = b" by (rule div_mult_mod_eq)
  moreover have "(a mod 4 * 16 + b div 16) mod 16 = b div 16"
    using \<open>b div 16 < 16\<close> by (simp add: mod_mult_left_eq)
  ultimately show ?case
    by (simp add: b64_val_char b64_char_not_pad group_4_16)
next
  case (4 a b c r)
  then have "a div 4 < 64" "a mod 4 * 16 + b div 16 < 64" "b mod 16 * 4 + c div 64 < 64"
    "c mod 64 < 64" "b div 16 < 16" "c div 64 < 4"
    by auto
  moreover have "(a mod 4 * 16 + b div 16) mod 16 = b div 16"
    using \<open>b div 16 < 16\<close> by simp
  moreover have "(b mod 16 * 4 + c div 64) div 4 = b mod 16"
    "(b mod 16 * 4 + c div 64) mod 4 = c div 64"
    using \<open>c div 64 < 4\<close> by simp_all
  ultimately show ?case
    using 4 by (simp add: b64_val_char b64_char_not_pad group_4_16)
qed

lemma b2a_base64_chars:
  "c \<in> set (b2a_base64 ns) \<Longrightarrow> c = pad \<or> (\<exists>n. c = b64_char n)"
  by (induction ns rule: b2a_base64.induct) auto

lemma hd_b2a_base64: "ns \<noteq> [] \<Longrightarrow> hd (b2a_base64 ns) \<noteq> pad"
  by (cases ns rule: b2a_base64.cases) (simp_all add: b64_char_not_pad)

lemma b2a_base64_Nil_iff [simp]: "b2a_base64 ns = [] \<longleftrightarrow> ns = []"
  by (cases ns rule: b2a_base64.cases) simp_all

lemma ascii_encode_b64: "ascii (encode_b64 bs)"
  using b2a_base64_chars [of _ "octet_vals bs"] b64_char_ascii
  by (force simp: ascii_def encode_b64_def list_all_iff)

lemma encode_b64_no_colon: "58 \<notin> set (encode_b64 bs)"
  using b2a_base64_chars [of 58 "octet_vals bs"] b64_char_not_colon [symmetric]
  by (auto simp: encode_b64_def)

lemma decode_encode_b64 [codec_simps]: "decode_b64 (PyStr (encode_b64 bs)) = Inr bs"
proof -
  let ?s = "encode_b64 bs"
  have e: "ascii_encode ?s = Inr (octets ?s)"
    by (simp add: ascii_encode_def ascii_encode_b64)
  have v: "octet_vals (octets ?s) = ?s"
    using ascii_encode_b64 [of bs] by (intro octet_vals_octets) (auto simp: ascii_def list_all_iff)
  have a: "a2b_base64 0 0 0 False ?s = Inr (octet_vals bs)"
    unfolding encode_b64_def using octet_vals_less by (intro a2b_b2a) auto
  have h: "\<not> (?s \<noteq> [] \<and> hd ?s = pad)"
    using hd_b2a_base64 [of "octet_vals bs"] by (auto simp: encode_b64_def octet_vals_def)
  show ?thesis
    using h by (simp add: decode_b64_def e b64decode_strict_def v a Let_def)
qed

interpretation b64: codec "\<lambda>_. True" "\<lambda>bs. Inr (encode_b64 bs)" "\<lambda>s. decode_b64 (PyStr s)"
  by unfold_locales (auto simp: codec_simps)

lemma encode_b64_inject: "encode_b64 a = encode_b64 b \<longleftrightarrow> a = b"
  using b64.enc_unambiguous by blast

text \<open>Every failure of \<open>decode_b64\<close> is a \<open>ValueError\<close> or a subclass of it, so the
  \<open>except\<close> clauses of the callers catch all of them.\<close>

lemma a2b_base64_error: "a2b_base64 q l p d cs = Inl e \<Longrightarrow> e = Py BinasciiError"
  by (induction q l p d cs rule: a2b_base64.induct)
     (auto simp: bindR_Inl_iff split: if_splits option.splits)

lemma decode_b64_error: "decode_b64 v = Inl e \<Longrightarrow> value_errors e"
  by (auto simp: decode_b64_def b64decode_strict_def ascii_encode_def bindR_Inl_iff Let_def
      dest: a2b_base64_error split: pyobj.splits if_splits)

lemma a2b_base64_bytes:
  "a2b_base64 q l p d cs = Inr ns \<Longrightarrow> (q = 1 \<longrightarrow> l < 64) \<Longrightarrow> (q = 2 \<longrightarrow> l < 16) \<Longrightarrow>
   (3 \<le> q \<longrightarrow> l < 4) \<Longrightarrow> \<forall>n \<in> set ns. n < 256"
proof (induction q l p d cs arbitrary: ns rule: a2b_base64.induct)
  case (1 q left pads padded)
  then show ?case by (auto split: if_splits)
next
  case (2 q left pads padded c cs)
  have v: "v < 64" if "b64_val c = Some v" for v
    using that by (auto simp: b64_val_def split: if_splits)
  show ?case
  proof (cases "c = pad")
    case True
    then show ?thesis using 2 by (auto split: if_splits)
  next
    case False
    then show ?thesis
      using 2 v by (auto simp: bindR_Inr_iff split: if_splits option.splits)
  qed
qed

lemma length_b2a_base64: "length (b2a_base64 ns) = 4 * ((length ns + 2) div 3)"
  by (induction ns rule: b2a_base64.induct) (simp_all, presburger)

section \<open>Property\<close>

text \<open>Decoding inverts encoding, the text is a third longer than the data, and whatever
  the argument is, the only failures are the \<open>ValueError\<close>s the callers catch.\<close>

theorem base64_round_trip:
  "decode_b64 (PyStr (encode_b64 bs)) = Inr bs
   \<and> length (encode_b64 bs) = 4 * ((length bs + 2) div 3)
   \<and> (case decode_b64 v of Inr _ \<Rightarrow> True | Inl e \<Rightarrow> value_errors e)"
  using decode_encode_b64 [of bs] decode_b64_error [of v]
  by (auto simp: encode_b64_def length_b2a_base64 octet_vals_def split: sum.split)

end
