(* ===== verification/PyTime.thy ===== *)
theory PyTime
  imports PyText
begin

text \<open>
  Python's UTC \<open>datetime\<close> as far as the program uses it: the proleptic Gregorian calendar
  of the \<open>datetime\<close> module (\<open>_ord2ymd\<close>, \<open>_ymd2ord\<close>), \<open>isoformat()\<close>,
  \<open>fromisoformat()\<close> on the texts \<open>isoformat\<close> prints, comparison and
  \<open>+ timedelta(minutes=m)\<close>. An aware UTC datetime is its number of microseconds since
  0001-01-01T00:00:00. The main fact is the round trip, on which session expiry and
  lockout rest: the database holds only the text.
\<close>

section \<open>Datetimes\<close>

datatype datetime = DT (instant: nat)

instantiation datetime :: linorder
begin

definition less_eq_datetime :: "datetime \<Rightarrow> datetime \<Rightarrow> bool" where
  "less_eq_datetime a b \<longleftrightarrow> instant a \<le> instant b"

definition less_datetime :: "datetime \<Rightarrow> datetime \<Rightarrow> bool" where
  "less_datetime a b \<longleftrightarrow> instant a < instant b"

instance
  by standard (auto simp: less_eq_datetime_def less_datetime_def datetime.expand)

end

text \<open>The first instant of year 10000, which no \<open>datetime\<close> reaches.\<close>

definition US_PER_DAY :: nat where "US_PER_DAY = 86400000000"
definition DATETIME_LIMIT :: nat where "DATETIME_LIMIT = 3652059 * US_PER_DAY"

definition datetime_ok :: "datetime \<Rightarrow> bool" where
  "datetime_ok d \<longleftrightarrow> instant d < DATETIME_LIMIT"

text \<open>\<open>d + timedelta(minutes=m)\<close> for a positive \<open>m\<close>.\<close>

definition add_minutes :: "datetime \<Rightarrow> int \<Rightarrow> datetime res" where
  "add_minutes d m =
     (let t = instant d + nat m * 60000000 in
      if t < DATETIME_LIMIT then Inr (DT t) else Inl (Py OverflowError))"

section \<open>The calendar\<close>

definition is_leap :: "nat \<Rightarrow> bool" where
  "is_leap y \<longleftrightarrow> y mod 4 = 0 \<and> (y mod 100 \<noteq> 0 \<or> y mod 400 = 0)"

definition DAYS_IN_MONTH :: "nat list" where
  "DAYS_IN_MONTH = [0, 31, 28, 31, 30, 31, 30, 31, 31, 30, 31, 30, 31]"

definition DAYS_BEFORE_MONTH :: "nat list" where
  "DAYS_BEFORE_MONTH = [0, 0, 31, 59, 90, 120, 151, 181, 212, 243, 273, 304, 334]"

definition days_in_month :: "bool \<Rightarrow> nat \<Rightarrow> nat" where
  "days_in_month leap m = (if m = 2 \<and> leap then 29 else DAYS_IN_MONTH ! m)"

definition days_before_month :: "bool \<Rightarrow> nat \<Rightarrow> nat" where
  "days_before_month leap m = DAYS_BEFORE_MONTH ! m + (if 2 < m \<and> leap then 1 else 0)"

definition days_before_year :: "nat \<Rightarrow> nat" where
  "days_before_year year = (let y = year - 1 in y * 365 + y div 4 - y div 100 + y div 400)"

definition ymd2ord :: "nat \<Rightarrow> nat \<Rightarrow> nat \<Rightarrow> nat" where
  "ymd2ord y m d = days_before_year y + days_before_month (is_leap y) m + d"

text \<open>The day of a year (from 0) to month and day of the month.\<close>

definition month_day :: "bool \<Rightarrow> nat \<Rightarrow> nat \<times> nat" where
  "month_day leap n =
     (let month = (n + 50) div 32;
          preceding = days_before_month leap month
      in if n < preceding then (month - 1, n - (preceding - days_in_month leap (month - 1)) + 1)
         else (month, n - preceding + 1))"

definition ord2ymd :: "nat \<Rightarrow> nat \<times> nat \<times> nat" where
  "ord2ymd ordinal =
     (let n = ordinal - 1;
          n400 = n div 146097; n = n mod 146097;
          n100 = n div 36524; n = n mod 36524;
          n4 = n div 1461; n = n mod 1461;
          n1 = n div 365; n = n mod 365;
          year = n400 * 400 + 1 + n100 * 100 + n4 * 4 + n1
      in if n1 = 4 \<or> n100 = 4 then (year - 1, 12, 31)
         else let leap = (n1 = 3 \<and> (n4 \<noteq> 24 \<or> n100 = 3)) in (year, month_day leap n))"

lemma month_day_ok:
  assumes n: "n < 365 + (if leap then 1 else 0)" and md: "month_day leap n = (m, d)"
  shows "1 \<le> m \<and> m \<le> 12 \<and> 1 \<le> d \<and> d \<le> days_in_month leap m
    \<and> days_before_month leap m + d = n + 1"
proof -
  define q where "q = (n + 50) div 32"
  have b: "32 * q \<le> n + 50" "n + 50 < 32 * q + 32" by (simp_all add: q_def)
  have "1 \<le> q" "q \<le> 12" using b n by (auto split: if_splits)
  then have "q = 1 \<or> q = 2 \<or> q = 3 \<or> q = 4 \<or> q = 5 \<or> q = 6 \<or> q = 7 \<or> q = 8 \<or> q = 9
    \<or> q = 10 \<or> q = 11 \<or> q = 12" by presburger
  with b n md show ?thesis
    unfolding month_day_def q_def [symmetric] Let_def
    by (elim disjE) (auto simp: days_before_month_def days_in_month_def DAYS_BEFORE_MONTH_def
        DAYS_IN_MONTH_def split: if_splits)
qed

text \<open>
  A day number split into 400-year, 100-year, 4-year cycles and years: \<open>_ymd2ord\<close> puts it
  together again.
\<close>

lemma cycle_years:
  assumes "b \<le> 3" "c \<le> 24" "d \<le> (3::nat)"
  shows "days_before_year (400 * a + 100 * b + 4 * c + d + 1)
           = 146097 * a + 36524 * b + 1461 * c + 365 * d"
    and "is_leap (400 * a + 100 * b + 4 * c + d + 1) \<longleftrightarrow> d = 3 \<and> (c \<noteq> 24 \<or> b = 3)"
proof -
  let ?y = "400 * a + 100 * b + 4 * c + d"
  have "?y div 4 = 100 * a + 25 * b + c" by (rule div_nat_eqI) (use assms in simp_all)
  moreover have "?y div 100 = 4 * a + b" by (rule div_nat_eqI) (use assms in simp_all)
  moreover have "?y div 400 = a" by (rule div_nat_eqI) (use assms in simp_all)
  ultimately show "days_before_year (?y + 1) = 146097 * a + 36524 * b + 1461 * c + 365 * d"
    by (simp add: days_before_year_def Let_def)
  have full: "m mod k = 0 \<longleftrightarrow> m = k" if "0 < m" "m \<le> k" for m k :: nat
    using that by (cases "m = k") simp_all
  have "?y + 1 = (d + 1) + 4 * (100 * a + 25 * b + c)"
    "?y + 1 = (4 * c + d + 1) + 100 * (4 * a + b)"
    "?y + 1 = (100 * b + 4 * c + d + 1) + 400 * a" by simp_all
  then have "(?y + 1) mod 4 = (d + 1) mod 4" "(?y + 1) mod 100 = (4 * c + d + 1) mod 100"
    "(?y + 1) mod 400 = (100 * b + 4 * c + d + 1) mod 400" by (metis mod_mult_self2)+
  moreover have "(d + 1) mod 4 = 0 \<longleftrightarrow> d = 3" using full [of "d + 1" 4] assms by simp
  moreover have "4 * c + d + 1 = 100 \<longleftrightarrow> c = 24 \<and> d = 3"
    using assms by (intro iffI conjI; linarith)
  then have "(4 * c + d + 1) mod 100 = 0 \<longleftrightarrow> c = 24 \<and> d = 3"
    using full [of "4 * c + d + 1" 100] assms by simp
  moreover have "100 * b + 4 * c + d + 1 = 400 \<longleftrightarrow> b = 3 \<and> c = 24 \<and> d = 3"
    using assms by (intro iffI conjI; linarith)
  then have "(100 * b + 4 * c + d + 1) mod 400 = 0 \<longleftrightarrow> b = 3 \<and> c = 24 \<and> d = 3"
    using full [of "100 * b + 4 * c + d + 1" 400] assms by simp
  ultimately show "is_leap (?y + 1) \<longleftrightarrow> d = 3 \<and> (c \<noteq> 24 \<or> b = 3)"
    unfolding is_leap_def by auto
qed

lemma year_end:
  "ymd2ord (400 * a + 400) 12 31 = 146097 * a + 146097"
  "b \<le> 3 \<Longrightarrow> c \<le> 24 \<Longrightarrow> (c = 24 \<Longrightarrow> b = 3) \<Longrightarrow>
     ymd2ord (400 * a + 100 * b + 4 * c + 4) 12 31 = 146097 * a + 36524 * b + 1461 * c + 1461"
proof -
  have e: "400 * a + 100 * b + 4 * c + 4 = 400 * a + 100 * b + 4 * c + 3 + (1::nat)" for b c
    by simp
  show "b \<le> 3 \<Longrightarrow> c \<le> 24 \<Longrightarrow> (c = 24 \<Longrightarrow> b = 3) \<Longrightarrow>
     ymd2ord (400 * a + 100 * b + 4 * c + 4) 12 31 = 146097 * a + 36524 * b + 1461 * c + 1461"
    for b c
    unfolding ymd2ord_def e using cycle_years [of b c 3 a]
    by (simp add: days_before_month_def DAYS_BEFORE_MONTH_def)
  from this [of 3 24] show "ymd2ord (400 * a + 400) 12 31 = 146097 * a + 146097"
    by (simp add: add.commute)
qed

lemma ymd2ord_ord2ymd:
  assumes "1 \<le> k" "ord2ymd k = (y, m, d)"
  shows "ymd2ord y m d = k \<and> 1 \<le> y \<and> 1 \<le> m \<and> m \<le> 12 \<and> 1 \<le> d \<and> d \<le> days_in_month (is_leap y) m"
proof -
  define n0 where "n0 = k - 1"
  define a where "a = n0 div 146097"
  define n1 where "n1 = n0 mod 146097"
  define b where "b = n1 div 36524"
  define n2 where "n2 = n1 mod 36524"
  define c where "c = n2 div 1461"
  define n3 where "n3 = n2 mod 1461"
  define e where "e = n3 div 365"
  define n4 where "n4 = n3 mod 365"
  have k: "k = 146097 * a + n1 + 1" using assms(1) by (simp add: a_def n1_def n0_def)
  have n1: "n1 = 36524 * b + n2" "n1 < 146097" by (simp_all add: b_def n2_def n1_def)
  have n2: "n2 = 1461 * c + n3" "n2 < 36524" by (simp_all add: c_def n3_def n2_def)
  have n3: "n3 = 365 * e + n4" "n3 < 1461" by (simp_all add: e_def n4_def n3_def)
  have n4: "n4 < 365" by (simp add: n4_def)
  have c24: "c \<le> 24" using n2 by linarith
  have b4: "b \<le> 4" using n1 by linarith
  have e4: "e \<le> 4" using n3 by linarith
  have r: "ord2ymd k = (if e = 4 \<or> b = 4 then (a * 400 + 1 + b * 100 + c * 4 + e - 1, 12, 31)
      else (a * 400 + 1 + b * 100 + c * 4 + e,
            month_day (e = 3 \<and> (c \<noteq> 24 \<or> b = 3)) n4))"
    unfolding ord2ymd_def Let_def n0_def [symmetric] a_def [symmetric] n1_def [symmetric]
      b_def [symmetric] n2_def [symmetric] c_def [symmetric] n3_def [symmetric]
      e_def [symmetric] n4_def [symmetric] by simp
  consider "b = 4" | "b \<le> 3" "e = 4" | "b \<le> 3" "e \<le> 3" using b4 e4 by linarith
  then show ?thesis
  proof cases
    case 1
    with n1 have "n2 = 0" by linarith
    with n2 n3 have z: "c = 0" "e = 0" "n4 = 0" by auto
    then have "y = 400 * a + 400" "m = 12" "d = 31" using assms(2) r 1 by auto
    moreover have "k = 146097 * a + 146097" using k n1 1 \<open>n2 = 0\<close> by simp
    ultimately show ?thesis
      using year_end(1) [of a] by (simp add: days_in_month_def DAYS_IN_MONTH_def)
  next
    case 2
    with n3 n2 have z: "n4 = 0" "c \<le> 23" by linarith+
    have y: "y = 400 * a + 100 * b + 4 * c + 4" "m = 12" "d = 31" using assms(2) r 2 by auto
    have "k = 146097 * a + 36524 * b + 1461 * c + 1461" using k n1 n2 n3 2 z by linarith
    with y z 2 show ?thesis
      using year_end(2) [of b c a] by (simp add: days_in_month_def DAYS_IN_MONTH_def)
  next
    case 3
    let ?leap = "e = 3 \<and> (c \<noteq> 24 \<or> b = 3)"
    have y: "y = 400 * a + 100 * b + 4 * c + e + 1" and md: "month_day ?leap n4 = (m, d)"
      using assms(2) r 3 by auto
    have leap: "is_leap y = ?leap" using cycle_years(2) [of b c e a] 3 c24 y by simp
    have "n4 < 365 + (if ?leap then 1 else 0)" using n4 by simp
    from month_day_ok [OF this md] have
      "1 \<le> m \<and> m \<le> 12 \<and> 1 \<le> d \<and> d \<le> days_in_month ?leap m
       \<and> days_before_month ?leap m + d = n4 + 1" .
    moreover have "days_before_year y = 146097 * a + 36524 * b + 1461 * c + 365 * e"
      using cycle_years(1) [of b c e a] 3 c24 y by simp
    ultimately show ?thesis
      using k n1 n2 n3 y leap unfolding ymd2ord_def by simp
  qed
qed

section \<open>\<open>isoformat\<close> and \<open>fromisoformat\<close>\<close>

text \<open>A value below \<open>10 ^ k\<close> printed with \<open>k\<close> digits (\<open>%0kd\<close>).\<close>

fun pad_dec :: "nat \<Rightarrow> nat \<Rightarrow> pystr" where
  "pad_dec 0 n = []"
| "pad_dec (Suc k) n = pad_dec k (n div 10) @ [48 + n mod 10]"

definition isoformat :: "datetime \<Rightarrow> pystr" where
  "isoformat t =
     (let day = instant t div US_PER_DAY; us = instant t mod US_PER_DAY;
          (y, m, d) = ord2ymd (day + 1);
          s = us div 1000000; frac = us mod 1000000
      in pad_dec 4 y @ [45] @ pad_dec 2 m @ [45] @ pad_dec 2 d @ [84]
         @ pad_dec 2 (s div 3600) @ [58] @ pad_dec 2 (s div 60 mod 60) @ [58] @ pad_dec 2 (s mod 60)
         @ (if frac = 0 then [] else [46] @ pad_dec 6 frac) @ lit ''+00:00'')"

text \<open>
  \<open>fromisoformat\<close> on the two shapes \<open>isoformat\<close> prints for UTC (the separator between
  date and time may be any character). Other ISO 8601 shapes, which the program never
  writes, are outside the model and answered with \<open>ValueError\<close>.
\<close>

datatype field = Digits nat | Char codepoint | AnyChar

fun scan :: "field list \<Rightarrow> pystr \<Rightarrow> nat list option" where
  "scan [] s = (if s = [] then Some [] else None)"
| "scan (Digits k # f) s =
     (if k \<le> length s \<and> list_all is_digit (take k s)
      then map_option ((#) (digits_val (take k s))) (scan f (drop k s)) else None)"
| "scan (Char c # f) s =
     (case s of [] \<Rightarrow> None | x # r \<Rightarrow> if x = c then scan f r else None)"
| "scan (AnyChar # f) s = (case s of [] \<Rightarrow> None | x # r \<Rightarrow> scan f r)"

definition ISO_SECONDS :: "field list" where
  "ISO_SECONDS =
     [Digits 4, Char 45, Digits 2, Char 45, Digits 2, AnyChar,
      Digits 2, Char 58, Digits 2, Char 58, Digits 2]"

definition make_datetime :: "nat list \<Rightarrow> datetime res" where
  "make_datetime vs =
     (case vs of
        [y, m, d, h, mi, s, us] \<Rightarrow>
          if 1 \<le> y \<and> 1 \<le> m \<and> m \<le> 12 \<and> 1 \<le> d \<and> d \<le> days_in_month (is_leap y) m
             \<and> h < 24 \<and> mi < 60 \<and> s < 60
          then Inr (DT ((ymd2ord y m d - 1) * US_PER_DAY
                        + ((h * 60 + mi) * 60 + s) * 1000000 + us))
          else Inl (Py ValueError)
      | _ \<Rightarrow> Inl (Py ValueError))"

definition fromisoformat :: "pystr \<Rightarrow> datetime res" where
  "fromisoformat s =
     (case scan (ISO_SECONDS @ map Char (lit ''+00:00'')) s of
        Some vs \<Rightarrow> make_datetime (vs @ [0])
      | None \<Rightarrow>
          (case scan (ISO_SECONDS @ [Char 46, Digits 6] @ map Char (lit ''+00:00'')) s of
             Some vs \<Rightarrow> make_datetime vs
           | None \<Rightarrow> Inl (Py ValueError)))"

lemma length_pad_dec [simp]: "length (pad_dec k n) = k"
  by (induction k arbitrary: n) simp_all

lemma pad_dec_digits: "list_all is_digit (pad_dec k n)"
  by (induction k arbitrary: n) (simp_all add: is_digit_def)

lemma digits_val_pad_dec: "n < 10 ^ k \<Longrightarrow> digits_val (pad_dec k n) = n"
proof (induction k arbitrary: n)
  case 0
  then show ?case by (simp add: digits_val_def)
next
  case (Suc k)
  then have "digits_val (pad_dec k (n div 10)) = n div 10"
    by (simp add: less_mult_imp_div_less)
  then show ?case by (simp add: digits_val_def)
qed

lemma scan_pad_dec:
  "n < 10 ^ k \<Longrightarrow> scan (Digits k # f) (pad_dec k n @ r) = map_option ((#) n) (scan f r)"
  by (simp add: pad_dec_digits digits_val_pad_dec)

lemma ord2ymd_year_limit:
  assumes "1 \<le> k" "k \<le> 3652059" "ord2ymd k = (y, m, d)"
  shows "y < 10000"
proof (rule ccontr)
  assume "\<not> y < 10000"
  then have y: "9999 \<le> y - 1" by simp
  from ymd2ord_ord2ymd [OF assms(1,3)] have k: "ymd2ord y m d = k" "1 \<le> d" by auto
  define p where "p = (y - 1) div 4"
  define q where "q = (y - 1) div 100"
  define r where "r = (y - 1) div 400"
  have "q = p div 25" by (simp add: p_def q_def div_mult2_eq [symmetric])
  then have "25 * q \<le> p" by simp
  moreover have "2499 \<le> p" unfolding p_def using y by linarith
  moreover have "24 \<le> r" unfolding r_def using y by linarith
  ultimately have "3652059 \<le> (y - 1) * 365 + p - q + r" using y by linarith
  then have "3652059 \<le> days_before_year y"
    by (simp only: days_before_year_def Let_def p_def q_def r_def)
  with k assms(2) show False by (simp add: ymd2ord_def)
qed

text \<open>Splitting an instant into the printed fields and putting it together again.\<close>

lemma time_of_day:
  assumes "us < US_PER_DAY"
  shows "us div 1000000 div 3600 < 24"
    and "((us div 1000000 div 3600 * 60 + us div 1000000 div 60 mod 60) * 60
           + us div 1000000 mod 60) * 1000000 + us mod 1000000 = us"
proof -
  define s where "s = us div 1000000"
  have "s < 86400" using assms by (simp add: s_def US_PER_DAY_def less_mult_imp_div_less)
  then show "us div 1000000 div 3600 < 24"
    unfolding s_def [symmetric] by (simp add: less_mult_imp_div_less)
  have "s div 3600 = s div 60 div 60" by (simp add: div_mult2_eq [symmetric])
  then have "(s div 3600 * 60 + s div 60 mod 60) * 60 + s mod 60 = s"
    by (simp only: div_mult_mod_eq)
  then show "((us div 1000000 div 3600 * 60 + us div 1000000 div 60 mod 60) * 60
           + us div 1000000 mod 60) * 1000000 + us mod 1000000 = us"
    unfolding s_def by (simp only: div_mult_mod_eq)
qed

lemma scan_tail: "scan (map Char cs) cs = Some []"
  by (induction cs) simp_all

lemma scan_tail_other: "x \<noteq> c \<Longrightarrow> scan (map Char (c # cs)) (x # r) = None"
  by simp

lemma pad_dec_field: "n < 60 \<Longrightarrow> scan (Digits 2 # f) (pad_dec 2 n @ r) = map_option ((#) n) (scan f r)"
  by (rule scan_pad_dec) simp

lemma pad_dec_year: "n < 10000 \<Longrightarrow> scan (Digits 4 # f) (pad_dec 4 n @ r) = map_option ((#) n) (scan f r)"
  by (rule scan_pad_dec) simp

lemma pad_dec_micros:
  "n < 1000000 \<Longrightarrow> scan (Digits 6 # f) (pad_dec 6 n @ r) = map_option ((#) n) (scan f r)"
  by (rule scan_pad_dec) simp

lemma fromisoformat_isoformat [codec_simps]:
  assumes "datetime_ok t" shows "fromisoformat (isoformat t) = Inr t"
proof -
  define day where "day = instant t div US_PER_DAY"
  define us where "us = instant t mod US_PER_DAY"
  define s where "s = us div 1000000"
  define frac where "frac = us mod 1000000"
  obtain y m d where o: "ord2ymd (day + 1) = (y, m, d)" by (metis prod_cases3)
  have pos: "0 < US_PER_DAY" by (simp add: US_PER_DAY_def)
  have day: "day < 3652059"
    using assms pos by (simp add: day_def datetime_ok_def DATETIME_LIMIT_def less_mult_imp_div_less)
  from ymd2ord_ord2ymd [OF _ o] have ord: "ymd2ord y m d = day + 1" "1 \<le> y" "1 \<le> m" "m \<le> 12"
    "1 \<le> d" "d \<le> days_in_month (is_leap y) m" by auto
  have dim: "days_in_month (is_leap y) m \<le> 31"
  proof -
    have "m \<in> set [1..<13]" using ord by auto
    then show ?thesis by (auto simp: upt_rec days_in_month_def DAYS_IN_MONTH_def)
  qed
  have y: "y < 10000" using ord2ymd_year_limit [OF _ _ o] day by simp
  have tod: "s div 3600 < 24"
    "((s div 3600 * 60 + s div 60 mod 60) * 60 + s mod 60) * 1000000 + frac = us"
    using time_of_day [of us] pos unfolding s_def frac_def us_def by simp_all
  have frac: "frac < 1000000" by (simp add: frac_def)
  have fields: "y < 10000" "m < 60" "d < 60" "s div 3600 < 60" "s div 60 mod 60 < 60" "s mod 60 < 60"
    using y ord dim tod by simp_all
  have whole: "day * US_PER_DAY + us = instant t" by (simp add: day_def us_def)
  have mk: "make_datetime [y, m, d, s div 3600, s div 60 mod 60, s mod 60, frac] = Inr t"
    using ord tod whole by (simp add: make_datetime_def add.assoc)
  have iso: "isoformat t = pad_dec 4 y @ [45] @ pad_dec 2 m @ [45] @ pad_dec 2 d @ [84]
         @ pad_dec 2 (s div 3600) @ [58] @ pad_dec 2 (s div 60 mod 60) @ [58] @ pad_dec 2 (s mod 60)
         @ (if frac = 0 then [] else [46] @ pad_dec 6 frac) @ lit ''+00:00''"
    unfolding isoformat_def Let_def day_def [symmetric] us_def [symmetric] o
      s_def [symmetric] frac_def [symmetric] by simp
  have head: "scan (ISO_SECONDS @ f) (pad_dec 4 y @ [45] @ pad_dec 2 m @ [45] @ pad_dec 2 d @ [84]
         @ pad_dec 2 (s div 3600) @ [58] @ pad_dec 2 (s div 60 mod 60) @ [58] @ pad_dec 2 (s mod 60)
         @ r) = map_option (\<lambda>x. y # m # d # s div 3600 # s div 60 mod 60 # s mod 60 # x) (scan f r)" for f r
    unfolding ISO_SECONDS_def
    by (simp add: pad_dec_year pad_dec_field fields option.map_comp comp_def del: scan.simps(2) pad_dec.simps)
  note head = head [simplified]
  show ?thesis
  proof (cases "frac = 0")
    case True
    with mk show ?thesis
      by (simp add: fromisoformat_def iso head scan_tail)
  next
    case False
    have "scan (map Char (lit ''+00:00'')) ([46] @ pad_dec 6 frac @ lit ''+00:00'') = None"
      by (simp add: text_simps)
    moreover have "scan ([Char 46, Digits 6] @ map Char (lit ''+00:00''))
        ([46] @ pad_dec 6 frac @ lit ''+00:00'') = Some [frac]"
      using frac by (simp add: pad_dec_micros scan_tail del: scan.simps(2))
    ultimately show ?thesis
      using False mk by (simp add: fromisoformat_def iso head del: scan.simps)
  qed
qed

lemma ascii_isoformat: "c \<in> set (isoformat t) \<Longrightarrow> c < 128"
proof -
  have d: "c < 128" if "c \<in> set (pad_dec n k)" for c n k
    using pad_dec_digits [of n k] that by (auto simp: list_all_iff is_digit_def)
  show "c \<in> set (isoformat t) \<Longrightarrow> c < 128"
    by (auto simp: isoformat_def Let_def text_simps split: prod.splits if_splits dest: d)
qed

end
