(* ===== verification/Settings.thy ===== *)
theory Settings
  imports Utf8
begin

text \<open>
  \<open>src/core/settings.py\<close>: configuration read from the environment. An unset, malformed or
  too small value falls back to the default, so every numeric setting is at least its
  minimum. \<open>int(raw)\<close> is Python's integer parser: surrounding whitespace, an optional
  sign, digits with single underscores between them, at most 4300 digits.
\<close>

section \<open>\<open>int(str)\<close>\<close>

definition c_space :: "codepoint \<Rightarrow> bool" where
  "c_space c \<longleftrightarrow> (9 \<le> c \<and> c \<le> 13) \<or> c = 32"

definition decimal_to_ascii :: "unidata \<Rightarrow> pystr \<Rightarrow> pystr" where
  "decimal_to_ascii U s =
     (if ascii s then s
      else map (\<lambda>c. if c < 127 then c else if py_space U c then 32
                    else case uni_digit U c of Some d \<Rightarrow> 48 + d | None \<Rightarrow> 63) s)"

definition strip_c_space :: "pystr \<Rightarrow> pystr" where
  "strip_c_space s = rev (dropWhile c_space (rev (dropWhile c_space s)))"

definition int_body_ok :: "pystr \<Rightarrow> bool" where
  "int_body_ok s \<longleftrightarrow>
     s \<noteq> [] \<and> list_all (\<lambda>c. is_digit c \<or> c = 95) s \<and> hd s \<noteq> 95 \<and> last s \<noteq> 95
     \<and> \<not> py_in [95, 95] s \<and> length (filter is_digit s) \<le> 4300"

definition py_int :: "unidata \<Rightarrow> pystr \<Rightarrow> int res" where
  "py_int U raw =
     (let s = strip_c_space (decimal_to_ascii U raw);
          neg = (s \<noteq> [] \<and> hd s = 45);
          body = (if s \<noteq> [] \<and> (hd s = 45 \<or> hd s = 43) then tl s else s)
      in if int_body_ok body then
           Inr ((if neg then -1 else 1) * int (digits_val (filter is_digit body)))
         else Inl (Py ValueError))"

section \<open>The module\<close>

type_synonym environ = "pystr \<Rightarrow> pystr option"

definition PREFIX :: pystr where "PREFIX = lit ''MINIVAULT_''"

definition DEFAULT_KDF_TIME_COST :: int where "DEFAULT_KDF_TIME_COST = 3"
definition DEFAULT_KDF_MEMORY_COST :: int where "DEFAULT_KDF_MEMORY_COST = 65536"
definition DEFAULT_KDF_PARALLELISM :: int where "DEFAULT_KDF_PARALLELISM = 4"
definition DEFAULT_KDF_HASH_LENGTH :: int where "DEFAULT_KDF_HASH_LENGTH = 32"
definition DEFAULT_SESSION_TTL_MINUTES :: int where "DEFAULT_SESSION_TTL_MINUTES = 30"
definition DEFAULT_LOCKOUT_MINUTES :: int where "DEFAULT_LOCKOUT_MINUTES = 5"
definition DEFAULT_MAX_FAILED_ATTEMPTS :: int where "DEFAULT_MAX_FAILED_ATTEMPTS = 5"
definition DEFAULT_CONFIG_PATH :: pystr where
  "DEFAULT_CONFIG_PATH = lit ''data/vault_config.json''"
definition DEFAULT_DATABASE_PATH :: pystr where
  "DEFAULT_DATABASE_PATH = lit ''data/mini_vault.db''"

lemmas setting_defaults =
  DEFAULT_KDF_TIME_COST_def DEFAULT_KDF_MEMORY_COST_def DEFAULT_KDF_PARALLELISM_def
  DEFAULT_KDF_HASH_LENGTH_def DEFAULT_SESSION_TTL_MINUTES_def DEFAULT_LOCKOUT_MINUTES_def
  DEFAULT_MAX_FAILED_ATTEMPTS_def DEFAULT_CONFIG_PATH_def DEFAULT_DATABASE_PATH_def

definition env_int :: "unidata \<Rightarrow> environ \<Rightarrow> pystr \<Rightarrow> int \<Rightarrow> int \<Rightarrow> int" where
  "env_int U env name dflt minimum =
     (case env (PREFIX @ name) of
        None \<Rightarrow> dflt
      | Some raw \<Rightarrow>
          (case py_int U raw of
             Inl _ \<Rightarrow> dflt
           | Inr value \<Rightarrow> if minimum \<le> value then value else dflt))"

definition env_path :: "environ \<Rightarrow> pystr \<Rightarrow> pystr \<Rightarrow> pystr" where
  "env_path env name dflt =
     (case env (PREFIX @ name) of None \<Rightarrow> dflt | Some p \<Rightarrow> p)"

record settings =
  kdf_time_cost :: int
  kdf_memory_cost :: int
  kdf_parallelism :: int
  kdf_hash_length :: int
  password_time_cost :: int
  password_memory_cost :: int
  password_parallelism :: int
  session_ttl_minutes :: int
  lockout_minutes :: int
  max_failed_attempts :: int
  config_path :: pystr
  database_path :: pystr

definition load :: "unidata \<Rightarrow> environ \<Rightarrow> settings" where
  "load U env =
     (let kdf_time = env_int U env (lit ''KDF_TIME_COST'') DEFAULT_KDF_TIME_COST 1;
          kdf_memory = env_int U env (lit ''KDF_MEMORY_COST'') DEFAULT_KDF_MEMORY_COST 8;
          kdf_par = env_int U env (lit ''KDF_PARALLELISM'') DEFAULT_KDF_PARALLELISM 1
      in \<lparr> kdf_time_cost = kdf_time,
           kdf_memory_cost = kdf_memory,
           kdf_parallelism = kdf_par,
           kdf_hash_length =
             env_int U env (lit ''KDF_HASH_LENGTH'') DEFAULT_KDF_HASH_LENGTH 32,
           password_time_cost = env_int U env (lit ''PASSWORD_TIME_COST'') kdf_time 1,
           password_memory_cost = env_int U env (lit ''PASSWORD_MEMORY_COST'') kdf_memory 8,
           password_parallelism = env_int U env (lit ''PASSWORD_PARALLELISM'') kdf_par 1,
           session_ttl_minutes =
             env_int U env (lit ''SESSION_TTL_MINUTES'') DEFAULT_SESSION_TTL_MINUTES 1,
           lockout_minutes =
             env_int U env (lit ''LOCKOUT_MINUTES'') DEFAULT_LOCKOUT_MINUTES 1,
           max_failed_attempts =
             env_int U env (lit ''MAX_FAILED_ATTEMPTS'') DEFAULT_MAX_FAILED_ATTEMPTS 1,
           config_path = env_path env (lit ''CONFIG_PATH'') DEFAULT_CONFIG_PATH,
           database_path = env_path env (lit ''DATABASE_PATH'') DEFAULT_DATABASE_PATH \<rparr>)"

section \<open>Lemmas\<close>

lemma env_int_min: "minimum \<le> dflt \<Longrightarrow> minimum \<le> env_int U env name dflt minimum"
  by (auto simp: env_int_def split: option.splits sum.splits)

lemma env_int_unset: "env (PREFIX @ name) = None \<Longrightarrow> env_int U env name d m = d"
  by (simp add: env_int_def)

text \<open>Every setting a run can see is at least its documented minimum.\<close>

definition settings_ok :: "settings \<Rightarrow> bool" where
  "settings_ok s \<longleftrightarrow>
     1 \<le> kdf_time_cost s \<and> 8 \<le> kdf_memory_cost s \<and> 1 \<le> kdf_parallelism s
     \<and> 32 \<le> kdf_hash_length s \<and> 1 \<le> password_time_cost s \<and> 8 \<le> password_memory_cost s
     \<and> 1 \<le> password_parallelism s \<and> 1 \<le> session_ttl_minutes s \<and> 1 \<le> lockout_minutes s
     \<and> 1 \<le> max_failed_attempts s"

lemma load_ok: "settings_ok (load U env)"
  by (simp add: settings_ok_def load_def Let_def env_int_min setting_defaults)

lemma int_body_ok_dec_nat:
  assumes "int_digits_ok n" shows "int_body_ok (dec_nat n)"
proof -
  have d: "\<And>c. c \<in> set (dec_nat n) \<Longrightarrow> is_digit c" by (rule dec_nat_digits)
  have no95: "95 \<notin> set (dec_nat n)" using d [of 95] by (auto simp: is_digit_def)
  have "\<not> py_in [95, 95] (dec_nat n)"
  proof
    assume "py_in [95, 95] (dec_nat n)"
    then obtain a b where "dec_nat n = a @ [95, 95] @ b" by (auto simp: py_in_iff)
    with no95 show False by simp
  qed
  moreover have "length (filter is_digit (dec_nat n)) \<le> 4300"
    using assms length_filter_le [of is_digit "dec_nat n"]
    unfolding int_digits_ok_def by linarith
  moreover have "hd (dec_nat n) \<noteq> 95" "last (dec_nat n) \<noteq> 95"
    using no95 by (metis dec_nat_not_Nil hd_in_set, metis dec_nat_not_Nil last_in_set)
  ultimately show ?thesis
    using d by (auto simp: int_body_ok_def list_all_iff)
qed

lemma strip_c_space_digits:
  assumes "list_all is_digit s" shows "strip_c_space s = s"
proof -
  have no: "\<not> c_space c" if "c \<in> set s" for c
    using that assms by (auto simp: list_all_iff is_digit_def c_space_def)
  have "dropWhile c_space t = t" if "set t \<subseteq> set s" for t
    using that no by (cases t) auto
  then show ?thesis by (simp add: strip_c_space_def)
qed

text \<open>\<open>int(str(n)) = n\<close> for naturals within the digit limit.\<close>

lemma py_int_dec_nat:
  assumes "int_digits_ok n" shows "py_int U (dec_nat n) = Inr (int n)"
proof -
  have d: "list_all is_digit (dec_nat n)" by (auto simp: list_all_iff dec_nat_digits)
  have a: "ascii (dec_nat n)"
    using d by (auto simp: ascii_def list_all_iff is_digit_def)
  have h: "hd (dec_nat n) \<noteq> 45 \<and> hd (dec_nat n) \<noteq> 43"
    using d by (cases "dec_nat n") (auto simp: is_digit_def)
  have f: "filter is_digit (dec_nat n) = dec_nat n"
    using d by (simp add: list_all_iff)
  show ?thesis
    using h a by (simp add: py_int_def decimal_to_ascii_def strip_c_space_digits [OF d]
        int_body_ok_dec_nat [OF assms] f codec_simps Let_def)
qed

text \<open>With an empty environment the settings are the documented defaults.\<close>

lemma load_default:
  "load U (\<lambda>_. None) =
     \<lparr> kdf_time_cost = 3, kdf_memory_cost = 65536, kdf_parallelism = 4, kdf_hash_length = 32,
       password_time_cost = 3, password_memory_cost = 65536, password_parallelism = 4,
       session_ttl_minutes = 30, lockout_minutes = 5, max_failed_attempts = 5,
       config_path = lit ''data/vault_config.json'',
       database_path = lit ''data/mini_vault.db'' \<rparr>"
  by (simp add: load_def env_int_def env_path_def setting_defaults)

section \<open>Property\<close>

text \<open>C33: whatever the environment holds, every numeric setting is at least its minimum, and
  with nothing set the settings are the documented defaults.\<close>

theorem settings_bounds:
  "settings_ok (load U env)
   \<and> load U (\<lambda>_. None) =
     \<lparr> kdf_time_cost = 3, kdf_memory_cost = 65536, kdf_parallelism = 4, kdf_hash_length = 32,
       password_time_cost = 3, password_memory_cost = 65536, password_parallelism = 4,
       session_ttl_minutes = 30, lockout_minutes = 5, max_failed_attempts = 5,
       config_path = lit ''data/vault_config.json'', database_path = lit ''data/mini_vault.db'' \<rparr>"
  using load_ok load_default by (simp add: DEFAULT_CONFIG_PATH_def DEFAULT_DATABASE_PATH_def)

end
