(* ===== verification/Passphrase.thy ===== *)
theory Passphrase
  imports Utf8
begin

text \<open>
  \<open>src/core/passphrase.py\<close>: the strength policy shared by the Master Passphrase and the
  user passphrases. \<open>evaluate\<close> reports the first rule that fails; the lemmas give each
  rule a declarative meaning (the run counter of \<open>_has_long_run\<close> finds exactly the
  passphrases with four equal characters in a row) and characterise acceptance.
\<close>

section \<open>Definitions\<close>

definition MIN_LENGTH :: nat where "MIN_LENGTH = 12"
definition MIN_CHARACTER_CLASSES :: nat where "MIN_CHARACTER_CLASSES = 3"
definition MAX_REPEATED_RUN :: nat where "MAX_REPEATED_RUN = 4"

definition is_lower_az :: "codepoint \<Rightarrow> bool" where
  "is_lower_az c \<longleftrightarrow> 97 \<le> c \<and> c \<le> 122"

definition is_upper_az :: "codepoint \<Rightarrow> bool" where
  "is_upper_az c \<longleftrightarrow> 65 \<le> c \<and> c \<le> 90"

definition is_symbol :: "codepoint \<Rightarrow> bool" where
  "is_symbol c \<longleftrightarrow> \<not> is_upper_az c \<and> \<not> is_lower_az c \<and> \<not> is_digit c"

definition CLASS_PATTERNS :: "(codepoint \<Rightarrow> bool) list" where
  "CLASS_PATTERNS = [is_lower_az, is_upper_az, is_digit, is_symbol]"

definition FORBIDDEN_SUBSTRINGS :: "pystr list" where
  "FORBIDDEN_SUBSTRINGS =
     [lit ''password'', lit ''passphrase'', lit ''minivault'', lit ''qwerty'',
      lit ''123456'', lit ''abcdef'', lit ''letmein'', lit ''admin'']"

record passphrase_issue =
  issue_code :: pystr
  issue_message :: pystr

fun run_loop :: "nat \<Rightarrow> (codepoint \<times> codepoint) list \<Rightarrow> bool" where
  "run_loop run [] = False"
| "run_loop run ((previous, current) # r) =
     (let run' = (if current = previous then run + 1 else 1) in
      if MAX_REPEATED_RUN \<le> run' then True else run_loop run' r)"

definition has_long_run :: "pystr \<Rightarrow> bool" where
  "has_long_run s = run_loop 1 (zip s (tl s))"

definition evaluate :: "unidata \<Rightarrow> pyobj \<Rightarrow> passphrase_issue option" where
  "evaluate U passphrase =
     (case passphrase of
        PyStr s \<Rightarrow>
          if length s < MIN_LENGTH then
            Some \<lparr>issue_code = lit ''TOO_SHORT'',
                  issue_message = lit ''Passphrase must contain at least ''
                    @ dec_nat MIN_LENGTH @ lit '' characters''\<rparr>
          else if py_strip U s \<noteq> s \<or> py_strip U s = [] then
            Some \<lparr>issue_code = lit ''SURROUNDING_WHITESPACE'',
                  issue_message = lit ''Passphrase must not be blank or padded with whitespace''\<rparr>
          else if length (filter (\<lambda>p. list_ex p s) CLASS_PATTERNS) < MIN_CHARACTER_CLASSES then
            Some \<lparr>issue_code = lit ''TOO_FEW_CHARACTER_CLASSES'',
                  issue_message = lit ''Passphrase must mix at least three of: ''
                    @ lit ''lowercase, uppercase, digits, symbols''\<rparr>
          else if has_long_run s then
            Some \<lparr>issue_code = lit ''REPEATED_CHARACTERS'',
                  issue_message = lit ''Passphrase must not repeat the same character ''
                    @ dec_nat MAX_REPEATED_RUN @ lit '' times in a row''\<rparr>
          else if list_ex (\<lambda>bad. py_in bad (py_lower U s)) FORBIDDEN_SUBSTRINGS then
            Some \<lparr>issue_code = lit ''COMMON_PATTERN'',
                  issue_message = lit ''Passphrase must not contain a common guessable word''\<rparr>
          else None
      | _ \<Rightarrow> Some \<lparr>issue_code = lit ''NOT_A_STRING'',
                    issue_message = lit ''Passphrase must be a string''\<rparr>)"

definition is_strong :: "unidata \<Rightarrow> pyobj \<Rightarrow> bool" where
  "is_strong U passphrase \<longleftrightarrow> evaluate U passphrase = None"

lemma evaluate_ascii: "ascii s \<Longrightarrow> evaluate U (PyStr s) = evaluate V (PyStr s)"
  using py_strip_ascii [of s U V] by (simp add: evaluate_def py_lower_def)

section \<open>The run counter\<close>

lemma no_run_across:
  assumes "q \<noteq> p" "n < 4" "sublist (replicate 4 c) (replicate n p @ q # t)"
  shows "sublist (replicate 4 c) (q # t)"
proof -
  have len: "\<not> sublist (replicate 4 c) (replicate n p)"
    using assms(2) sublist_length_le [of "replicate 4 c" "replicate n p"] by auto
  show ?thesis
  proof (rule ccontr)
    assume neg: "\<not> ?thesis"
    with assms(3) len obtain u v where uv: "replicate 4 c = u @ v"
      "suffix u (replicate n p)" "prefix v (q # t)"
      by (auto simp: sublist_append)
    show False
    proof (cases "u = [] \<or> v = []")
      case True
      with uv len neg show False by (auto dest: suffix_imp_sublist prefix_imp_sublist)
    next
      case False
      then obtain v' where v: "v = q # v'" using uv(3) by (cases v) auto
      have sub: "set (u @ v) \<subseteq> {c}" unfolding uv(1) [symmetric] by simp
      then have "c = q" using v by simp
      moreover have "set u \<subseteq> {p}" using set_mono_suffix [OF uv(2)] by auto
      moreover have "set u \<subseteq> {c}" using sub by simp
      moreover obtain x where "x \<in> set u" using False by (cases u) auto
      ultimately show False using assms(1) by auto
    qed
  qed
qed

lemma run_loop_iff:
  "1 \<le> n \<Longrightarrow> n < 4 \<Longrightarrow>
   run_loop n (zip (p # s) s) \<longleftrightarrow> (\<exists>c. sublist (replicate 4 c) (replicate n p @ s))"
proof (induction s arbitrary: n p)
  case Nil
  have "\<not> sublist (replicate 4 c) (replicate n p)" for c
    using Nil sublist_length_le [of "replicate 4 c" "replicate n p"] by auto
  then show ?case by simp
next
  case (Cons q t)
  have shift: "replicate n p @ p # t = p # replicate n p @ t"
    by (induction n) simp_all
  show ?case
  proof (cases "q = p")
    case True
    show ?thesis
    proof (cases "n = 3")
      case True
      then have "replicate n p @ p # t = [] @ replicate 4 p @ t"
        by (simp add: numeral_eq_Suc)
      then have "sublist (replicate 4 p) (replicate n p @ p # t)"
        by (metis sublist_appendI)
      with True \<open>q = p\<close> show ?thesis by (auto simp: MAX_REPEATED_RUN_def Let_def)
    next
      case False
      then have "run_loop n (zip (p # q # t) (q # t)) = run_loop (Suc n) (zip (p # t) t)"
        using Cons.prems \<open>q = p\<close> by (simp add: MAX_REPEATED_RUN_def Let_def)
      with False Cons.prems Cons.IH [of "Suc n" p] \<open>q = p\<close> show ?thesis
        by (simp add: shift)
    qed
  next
    case False
    have "(\<exists>c. sublist (replicate 4 c) (replicate n p @ q # t)) \<longleftrightarrow>
          (\<exists>c. sublist (replicate 4 c) (q # t))"
      using no_run_across [OF False] Cons.prems by (metis sublist_append)
    with False Cons.IH [of 1 q] show ?thesis
      by (simp add: MAX_REPEATED_RUN_def Let_def)
  qed
qed

lemma has_long_run_iff: "has_long_run s \<longleftrightarrow> (\<exists>a c b. s = a @ [c, c, c, c] @ b)"
proof (cases s)
  case Nil
  then show ?thesis by (simp add: has_long_run_def)
next
  case (Cons p t)
  have "has_long_run s \<longleftrightarrow> (\<exists>c. sublist (replicate 4 c) s)"
    using run_loop_iff [of 1 p t] Cons by (simp add: has_long_run_def)
  also have "\<dots> \<longleftrightarrow> (\<exists>c. sublist [c, c, c, c] s)"
    by (simp add: numeral_eq_Suc)
  finally show ?thesis by (auto simp: sublist_def)
qed

section \<open>The policy\<close>

lemma evaluate_not_str: "(\<And>s. v \<noteq> PyStr s) \<Longrightarrow> evaluate U v \<noteq> None"
  by (cases v) (auto simp: evaluate_def)

lemma evaluate_None_iff:
  "evaluate U (PyStr s) = None \<longleftrightarrow>
     12 \<le> length s
     \<and> \<not> py_space U (hd s) \<and> \<not> py_space U (last s)
     \<and> 3 \<le> length (filter (\<lambda>p. list_ex p s) CLASS_PATTERNS)
     \<and> \<not> has_long_run s
     \<and> (\<forall>bad \<in> set FORBIDDEN_SUBSTRINGS. \<not> py_in bad (py_lower U s))"
proof (cases "length s < 12")
  case True
  then show ?thesis by (simp add: evaluate_def MIN_LENGTH_def)
next
  case False
  then have "s \<noteq> []" by auto
  moreover have "py_strip U s \<noteq> s \<or> py_strip U s = [] \<longleftrightarrow> py_strip U s \<noteq> s"
    using \<open>s \<noteq> []\<close> by metis
  ultimately show ?thesis
    using False py_strip_id_iff [of U s]
    by (auto simp: evaluate_def MIN_LENGTH_def MIN_CHARACTER_CLASSES_def list_ex_iff)
qed

section \<open>Property\<close>

text \<open>C32: the policy accepts exactly the strings of at least 12 characters that are not padded
  with white space, mix three of the four character classes, repeat no character four times
  in a row and contain none of the forbidden words, whatever their case.\<close>

theorem passphrase_policy:
  "is_strong U v \<longleftrightarrow>
     (\<exists>s. v = PyStr s \<and> 12 \<le> length s \<and> \<not> py_space U (hd s) \<and> \<not> py_space U (last s)
        \<and> 3 \<le> length (filter (\<lambda>p. \<exists>c. c \<in> set s \<and> p c) CLASS_PATTERNS)
        \<and> \<not> (\<exists>a c b. s = a @ [c, c, c, c] @ b)
        \<and> \<not> (\<exists>bad a b. bad \<in> set FORBIDDEN_SUBSTRINGS \<and> py_lower U s = a @ bad @ b))"
proof (cases v)
  case (PyStr s)
  have "list_ex p s \<longleftrightarrow> (\<exists>c. c \<in> set s \<and> p c)" for p by (auto simp: list_ex_iff)
  then show ?thesis
    using PyStr by (simp add: is_strong_def evaluate_None_iff has_long_run_iff py_in_iff) blast
qed (use evaluate_not_str [of v U] in \<open>auto simp: is_strong_def\<close>)

end
