(* ===== verification/World.thy ===== *)
theory World
  imports Json Base64 PyTime Settings Passphrase
begin

text \<open>
  The state the program runs in and the operations of its surroundings. The SQLite database
  of \<open>src/storage/database.py\<close> is a record of tables (rows in insertion order, a counter
  for \<open>AUTOINCREMENT\<close> ids); the configuration file of \<open>src/storage/config_store.py\<close>
  is its content, with the temporary file beside it; \<open>VaultState\<close> is the in-memory DEK.
  The clock, the operating system's random source and I/O faults are arbitrary sequences
  consumed in order. Third-party primitives (AES-GCM, Argon2id, Ed25519, SHA-256) and the
  interpreter's tables are the parameter record \<open>ext\<close>.
\<close>

section \<open>Code outside the repository\<close>

record ext =
  aead_encrypt :: "bytes \<Rightarrow> bytes \<Rightarrow> bytes \<Rightarrow> bytes \<Rightarrow> bytes"
    \<comment> \<open>\<open>AESGCM(key).encrypt(nonce, data, associated_data)\<close>\<close>
  aead_decrypt :: "bytes \<Rightarrow> bytes \<Rightarrow> bytes \<Rightarrow> bytes \<Rightarrow> bytes option"
    \<comment> \<open>\<open>AESGCM(key).decrypt(nonce, data, associated_data)\<close>, \<open>None\<close> for \<open>InvalidTag\<close>\<close>
  argon2_raw :: "bytes \<Rightarrow> bytes \<Rightarrow> int \<Rightarrow> int \<Rightarrow> int \<Rightarrow> int \<Rightarrow> bytes option"
    \<comment> \<open>\<open>hash_secret_raw(secret, salt, time, memory, parallelism, hash_len, type=ID)\<close>\<close>
  argon2_hash :: "int \<Rightarrow> int \<Rightarrow> int \<Rightarrow> bytes \<Rightarrow> bytes \<Rightarrow> pystr option"
    \<comment> \<open>\<open>PasswordHasher(time, memory, parallelism).hash(password)\<close> with the given salt\<close>
  argon2_verify :: "pystr \<Rightarrow> bytes \<Rightarrow> bool"
    \<comment> \<open>\<open>PasswordHasher.verify(hash, password)\<close>, \<open>False\<close> for every raised error\<close>
  ed25519_public :: "bytes \<Rightarrow> bytes"
  ed25519_sign :: "bytes \<Rightarrow> bytes \<Rightarrow> bytes"
  ed25519_verify :: "bytes \<Rightarrow> bytes \<Rightarrow> bytes \<Rightarrow> bool"
    \<comment> \<open>public key, signature, message\<close>
  sha256_digest :: "bytes \<Rightarrow> bytes"
  float_text :: pyfloat
  float_to_int :: "pystr \<Rightarrow> int res"
  unicode :: unidata

section \<open>Tables\<close>

text \<open>Column names carry a short prefix per table.\<close>

record user_row =
  usr_id :: int
  usr_email :: pystr
  usr_password_hash :: pystr
  usr_failed_attempts :: int
  usr_locked_until :: "pystr option"
  usr_created_at :: pystr
  usr_updated_at :: pystr

record session_row =
  ses_id :: int
  ses_user_id :: int
  ses_token_hash :: pystr
  ses_expires_at :: pystr
  ses_revoked_at :: "pystr option"
  ses_created_at :: pystr

record kv_record_row =
  rec_id :: int
  rec_owner_email :: pystr
  rec_path :: pystr
  rec_latest_version :: int
  rec_created_at :: pystr
  rec_updated_at :: pystr

record kv_version_row =
  kvv_id :: int
  kvv_record_id :: int
  kvv_version :: int
  kvv_nonce_b64 :: pystr
  kvv_ciphertext_b64 :: pystr
  kvv_tag_b64 :: pystr
  kvv_created_at :: pystr

datatype key_usage = ENCRYPT_DECRYPT | SIGN_VERIFY

record named_key_row =
  key_id :: int
  key_owner_email :: pystr
  key_name :: pystr
  key_usage :: key_usage
  key_signing_algorithm :: "pystr option"
  key_latest_version :: int
  key_created_at :: pystr
  key_updated_at :: pystr

record key_version_row =
  kyv_id :: int
  kyv_key_id :: int
  kyv_version :: int
  kyv_nonce_b64 :: pystr
  kyv_material_b64 :: pystr
  kyv_tag_b64 :: pystr
  kyv_public_key_b64 :: "pystr option"
  kyv_created_at :: pystr

record audit_row =
  aud_sequence :: int
  aud_requester_email :: "pystr option"
  aud_action :: pystr
  aud_target_type :: pystr
  aud_target_identifier :: pystr
  aud_result :: pystr
  aud_created_at :: pystr
  aud_prev_hash :: pystr
  aud_entry_hash :: pystr

record 'r table =
  rows :: "'r list"
  next_id :: int

record database =
  table_names :: "pystr list"
  schema_metadata :: "pystr \<Rightarrow> pystr option"
  users :: "user_row table"
  sessions :: "session_row table"
  kv_records :: "kv_record_row table"
  kv_versions :: "kv_version_row table"
  named_keys :: "named_key_row table"
  named_key_versions :: "key_version_row table"
  audit_logs :: "audit_row table"

text \<open>A database file that does not exist yet.\<close>

definition empty_table :: "'r table" where
  "empty_table = \<lparr>rows = [], next_id = 1\<rparr>"

definition empty_database :: database where
  "empty_database = \<lparr>
     table_names = [], schema_metadata = (\<lambda>k. None), users = empty_table, sessions = empty_table,
     kv_records = empty_table, kv_versions = empty_table, named_keys = empty_table,
     named_key_versions = empty_table, audit_logs = empty_table \<rparr>"

lemma empty_database_fields [simp]:
  "table_names empty_database = []" "schema_metadata empty_database = (\<lambda>k. None)"
  "users empty_database = empty_table" "sessions empty_database = empty_table"
  "kv_records empty_database = empty_table" "kv_versions empty_database = empty_table"
  "named_keys empty_database = empty_table" "named_key_versions empty_database = empty_table"
  "audit_logs empty_database = empty_table" "rows empty_table = []" "next_id empty_table = 1"
  by (simp_all add: empty_database_def empty_table_def)

section \<open>The world\<close>

text \<open>
  What reading the configuration file yields: text that is not UTF-8, text \<open>json.load\<close>
  rejects, a document with an integer of more digits than \<open>int\<close> accepts, or a document.
\<close>

datatype file_content = BadUtf8 | BadJson | HugeInt | Doc json

text \<open>
  \<open>VaultState\<close>: the buffer that holds the DEK, if unlocked. \<open>vs_released\<close> records the
  final content of every buffer the object has let go of.
\<close>

record vault_state =
  vs_dek :: "bytes option"
  vs_released :: "bytes list"

record world =
  db :: database
  conf :: "file_content option"
  conf_tmp :: "file_content option"
  vstate :: vault_state
  dummy_hash :: "pystr option"
  environ :: environ
  clock :: "nat \<Rightarrow> datetime"
  ticks :: nat
  entropy :: "nat \<Rightarrow> byte"
  draws :: nat
  io_fault :: "nat \<Rightarrow> bool"
  ios :: nat

type_synonym 'a action = "(world, 'a) op"

definition now :: "datetime action" where
  "now = (\<lambda>w. (Inr (clock w (ticks w)), w\<lparr>ticks := Suc (ticks w)\<rparr>))"

text \<open>\<open>datetime.now(timezone.utc).isoformat()\<close>\<close>

definition now_text :: "pystr action" where
  "now_text = bindM now (\<lambda>t. ret (isoformat t))"

text \<open>\<open>secrets.token_bytes(n)\<close>, also the source of \<open>AESGCM.generate_key\<close>.\<close>

definition token_bytes :: "nat \<Rightarrow> bytes action" where
  "token_bytes n =
     (\<lambda>w. (Inr (map (entropy w) [draws w..<draws w + n]), w\<lparr>draws := draws w + n\<rparr>))"

text \<open>One call into the file system, which may fail.\<close>

definition io_call :: "unit action" where
  "io_call =
     (\<lambda>w. (if io_fault w (ios w) then Inl (Py OSError) else Inr (), w\<lparr>ios := Suc (ios w)\<rparr>))"

lemma io_call_run [op_simps]:
  "io_call w =
     (if io_fault w (ios w) then Inl (Py OSError) else Inr (), w\<lparr>ios := Suc (ios w)\<rparr>)"
  by (simp add: io_call_def)

lemma now_run [op_simps]: "now w = (Inr (clock w (ticks w)), w\<lparr>ticks := Suc (ticks w)\<rparr>)"
  by (simp add: now_def)

lemma now_text_run [op_simps]:
  "now_text w = (Inr (isoformat (clock w (ticks w))), w\<lparr>ticks := Suc (ticks w)\<rparr>)"
  by (simp add: now_text_def op_simps op_run)

lemma token_bytes_run [op_simps]:
  "token_bytes n w =
     (Inr (map (entropy w) [draws w..<draws w + n]), w\<lparr>draws := draws w + n\<rparr>)"
  by (simp add: token_bytes_def)

section \<open>SQL\<close>

text \<open>
  Binding a parameter: text must be encodable as UTF-8, an integer must fit 64 bits.
\<close>

definition bind_texts :: "pystr list \<Rightarrow> unit res" where
  "bind_texts ss = (if list_all (list_all scalar) ss then Inr () else Inl (Py UnicodeEncodeError))"

definition bind_int :: "int \<Rightarrow> unit res" where
  "bind_int i = (if - (2 ^ 63) \<le> i \<and> i < 2 ^ 63 then Inr () else Inl (Py OverflowError))"

text \<open>\<open>INSERT\<close> with an \<open>AUTOINCREMENT\<close> id and a \<open>UNIQUE\<close> constraint on \<open>key\<close>;
  the result is \<open>lastrowid\<close>.\<close>

definition tbl_insert :: "('r \<Rightarrow> 'k) \<Rightarrow> (int \<Rightarrow> 'r) \<Rightarrow> 'r table \<Rightarrow> (int \<times> 'r table) res" where
  "tbl_insert key mk t =
     (let r = mk (next_id t) in
      if \<exists>x \<in> set (rows t). key x = key r then Inl (Py IntegrityError)
      else Inr (next_id t, t\<lparr>rows := rows t @ [r], next_id := next_id t + 1\<rparr>))"

definition tbl_update :: "('r \<Rightarrow> bool) \<Rightarrow> ('r \<Rightarrow> 'r) \<Rightarrow> 'r table \<Rightarrow> 'r table" where
  "tbl_update P f t = t\<lparr>rows := map (\<lambda>r. if P r then f r else r) (rows t)\<rparr>"

definition tbl_delete :: "('r \<Rightarrow> bool) \<Rightarrow> 'r table \<Rightarrow> 'r table" where
  "tbl_delete P t = t\<lparr>rows := filter (\<lambda>r. \<not> P r) (rows t)\<rparr>"

text \<open>\<open>SELECT ... fetchone()\<close> and \<open>fetchall()\<close>.\<close>

definition tbl_one :: "('r \<Rightarrow> bool) \<Rightarrow> 'r table \<Rightarrow> 'r option" where
  "tbl_one P t = find P (rows t)"

definition tbl_all :: "('r \<Rightarrow> bool) \<Rightarrow> 'r table \<Rightarrow> 'r list" where
  "tbl_all P t = filter P (rows t)"

lemma rows_update [simp]: "rows (tbl_update P f t) = map (\<lambda>r. if P r then f r else r) (rows t)"
  and next_id_update [simp]: "next_id (tbl_update P f t) = next_id t"
  and rows_delete [simp]: "rows (tbl_delete P t) = filter (\<lambda>r. \<not> P r) (rows t)"
  and next_id_delete [simp]: "next_id (tbl_delete P t) = next_id t"
  by (simp_all add: tbl_update_def tbl_delete_def)

lemma tbl_insert_Inr_iff:
  "tbl_insert key mk t = Inr (i, t') \<longleftrightarrow>
     i = next_id t \<and> t' = t\<lparr>rows := rows t @ [mk (next_id t)], next_id := next_id t + 1\<rparr>
     \<and> (\<forall>x \<in> set (rows t). key x \<noteq> key (mk (next_id t)))"
  by (auto simp: tbl_insert_def Let_def)

lemma tbl_insert_ok:
  "(\<forall>x \<in> set (rows t). key x \<noteq> key (mk (next_id t))) \<Longrightarrow>
   tbl_insert key mk t =
     Inr (next_id t, t\<lparr>rows := rows t @ [mk (next_id t)], next_id := next_id t + 1\<rparr>)"
  by (simp add: tbl_insert_Inr_iff)

lemma tbl_insert_Inl: "tbl_insert key mk t = Inl e \<Longrightarrow> e = Py IntegrityError"
  by (auto simp: tbl_insert_def Let_def split: if_splits)

section \<open>Transactions\<close>

text \<open>
  \<open>Database.connection\<close>: commit when the block returns, roll the database back when it
  raises. Only the database is rolled back: randomness and time that were used stay used.
\<close>

definition connection :: "'a action \<Rightarrow> 'a action" where
  "connection body =
     (\<lambda>w. case body w of
        (Inr x, w') \<Rightarrow> (Inr x, w')
      | (Inl e, w') \<Rightarrow> (Inl e, w'\<lparr>db := db w\<rparr>))"

text \<open>\<open>Database.exclusive_connection\<close>: \<open>BEGIN IMMEDIATE\<close>, so the whole block is one
  step with respect to other writers; the same commit and rollback.\<close>

definition exclusive_connection :: "'a action \<Rightarrow> 'a action" where
  "exclusive_connection body =
     (\<lambda>w. case body w of
        (Inr x, w') \<Rightarrow> (Inr x, w')
      | (Inl e, w') \<Rightarrow> (Inl e, w'\<lparr>db := db w\<rparr>))"

lemma connection_Inr_iff: "connection body w = (Inr x, w') \<longleftrightarrow> body w = (Inr x, w')"
  by (auto simp: connection_def split: prod.splits sum.splits)

lemma exclusive_Inr_iff: "exclusive_connection body w = (Inr x, w') \<longleftrightarrow> body w = (Inr x, w')"
  by (auto simp: exclusive_connection_def split: prod.splits sum.splits)

lemma connection_Inl_db: "connection body w = (Inl e, w') \<Longrightarrow> db w' = db w"
  by (auto simp: connection_def split: prod.splits sum.splits)

lemma exclusive_Inl_db: "exclusive_connection body w = (Inl e, w') \<Longrightarrow> db w' = db w"
  by (auto simp: exclusive_connection_def split: prod.splits sum.splits)

lemma connection_Inl_iff:
  "connection body w = (Inl e, w') \<longleftrightarrow> (\<exists>w1. body w = (Inl e, w1) \<and> w' = w1\<lparr>db := db w\<rparr>)"
  by (auto simp: connection_def split: prod.splits sum.splits)

lemma exclusive_Inl_iff:
  "exclusive_connection body w = (Inl e, w') \<longleftrightarrow> (\<exists>w1. body w = (Inl e, w1) \<and> w' = w1\<lparr>db := db w\<rparr>)"
  by (auto simp: exclusive_connection_def split: prod.splits sum.splits)

text \<open>Statements: read the database, or replace it by the result of a fallible update.\<close>

definition query :: "(database \<Rightarrow> 'a) \<Rightarrow> 'a action" where
  "query q = (\<lambda>w. (Inr (q (db w)), w))"

definition execute :: "(database \<Rightarrow> ('a \<times> database) res) \<Rightarrow> 'a action" where
  "execute q =
     (\<lambda>w. case q (db w) of Inl e \<Rightarrow> (Inl e, w) | Inr (x, d) \<Rightarrow> (Inr x, w\<lparr>db := d\<rparr>))"

lemma query_run [op_simps]: "query q w = (Inr (q (db w)), w)"
  by (simp add: query_def)

lemma execute_run [op_simps]:
  "execute q w = (case q (db w) of Inl e \<Rightarrow> (Inl e, w) | Inr (x, d) \<Rightarrow> (Inr x, w\<lparr>db := d\<rparr>))"
  by (simp add: execute_def)

text \<open>An update that cannot fail.\<close>

definition execute_update :: "(database \<Rightarrow> database) \<Rightarrow> unit action" where
  "execute_update f = (\<lambda>w. (Inr (), w\<lparr>db := f (db w)\<rparr>))"

lemma execute_update_run [op_simps]: "execute_update f w = (Inr (), w\<lparr>db := f (db w)\<rparr>)"
  by (simp add: execute_update_def)

section \<open>What the primitives keep\<close>

text \<open>
  A part of the world is \<open>clockless\<close> in this sense when it does not read the counters of the
  clock and the random source.
\<close>

definition clockless :: "(world \<Rightarrow> 'c) \<Rightarrow> bool" where
  "clockless f \<longleftrightarrow> (\<forall>w n. f (w\<lparr>ticks := n\<rparr>) = f w) \<and> (\<forall>w n. f (w\<lparr>draws := n\<rparr>) = f w)"

lemma keeps_clock [keeps_rules]:
  "clockless f \<Longrightarrow> keeps f now" "clockless f \<Longrightarrow> keeps f now_text"
  "clockless f \<Longrightarrow> keeps f (token_bytes n)"
  by (simp_all add: clockless_def keeps_def op_simps)

lemma preserves_clock [preserves_rules]:
  "clockless P \<Longrightarrow> preserves P now" "clockless P \<Longrightarrow> preserves P now_text"
  "clockless P \<Longrightarrow> preserves P (token_bytes n)"
  by (simp_all add: clockless_def preserves_def op_simps)

lemma keeps_query [keeps_rules]: "keeps f (query q)"
  and preserves_query [preserves_rules]: "preserves P (query q)"
  by (simp_all add: keeps_def preserves_def op_simps)

text \<open>A transaction keeps what its block keeps: a rolled back database is the old one.\<close>

definition db_part :: "(world \<Rightarrow> 'c) \<Rightarrow> bool" where
  "db_part f \<longleftrightarrow> (\<exists>g. \<forall>w. f w = g (db w)) \<or> (\<forall>w d. f (w\<lparr>db := d\<rparr>) = f w)"

lemma db_partI [intro]: "db_part (\<lambda>w. g (db w))" "db_part vstate" "db_part conf" "db_part dummy_hash"
  "db_part environ"
  by (auto simp: db_part_def)

lemma clocklessI [intro]: "clockless (\<lambda>w. g (db w))" "clockless vstate" "clockless conf"
  "clockless dummy_hash" "clockless environ"
  by (auto simp: clockless_def)

lemma keeps_connection [keeps_rules]:
  assumes "db_part f" "keeps f body" shows "keeps f (connection body)"
proof (rule keepsI)
  fix w r w' assume c: "connection body w = (r, w')"
  from assms(1) have "f (w1\<lparr>db := db w\<rparr>) = f w" if "f w1 = f w" for w1
    using that by (auto simp: db_part_def)
  with c assms(2) show "f w' = f w"
    by (auto simp: connection_def dest: keeps_run split: prod.splits sum.splits)
qed

lemma exclusive_eq: "exclusive_connection body = connection body"
  by (simp add: exclusive_connection_def connection_def)

lemma keeps_exclusive [keeps_rules]: "db_part f \<Longrightarrow> keeps f body \<Longrightarrow> keeps f (exclusive_connection body)"
  by (simp add: exclusive_eq keeps_connection)

lemma preserves_connection [preserves_rules]:
  assumes "preserves (\<lambda>w. P (db w)) body" shows "preserves (\<lambda>w. P (db w)) (connection body)"
proof (rule preservesI)
  fix w :: world assume P: "P (db w)"
  obtain r w' where b: "body w = (r, w')" by (rule prod.exhaust)
  with preserves_run [OF assms b P] P show "P (db (snd (connection body w)))"
    by (auto simp: connection_def split: sum.split)
qed

lemma preserves_exclusive [preserves_rules]:
  "preserves (\<lambda>w. P (db w)) body \<Longrightarrow> preserves (\<lambda>w. P (db w)) (exclusive_connection body)"
  by (simp add: exclusive_eq preserves_connection)

text \<open>Statements on other tables.\<close>

lemma keeps_execute:
  "(\<And>d x d'. q d = Inr (x, d') \<Longrightarrow> g d' = g d) \<Longrightarrow> keeps (\<lambda>w. g (db w)) (execute q)"
  by (auto simp: keeps_def op_simps split: sum.split)

lemma keeps_execute_world [keeps_rules]:
  "keeps vstate (execute q)" "keeps conf (execute q)" "keeps environ (execute q)"
  "keeps vstate (execute_update f)" "keeps conf (execute_update f)" "keeps environ (execute_update f)"
  by (auto simp: keeps_def op_simps split: sum.split)

lemma keeps_execute_update:
  "(\<And>d. g (f d) = g d) \<Longrightarrow> keeps (\<lambda>w. g (db w)) (execute_update f)"
  by (auto simp: keeps_def op_simps)

end
