(* ===== verification/Crypto.thy ===== *)
theory Crypto
  imports World
begin

text \<open>
  \<open>src/core/crypto.py\<close> and \<open>src/core/kdf.py\<close>: the AES-256-GCM wrappers with their length
  checks and the split of ciphertext and tag, and the derivation of the wrapping key. What
  the wrappers rely on of the AES-GCM implementation is stated as \<open>aead_ok\<close> (decryption
  inverts encryption, the output carries a 16-byte tag) and \<open>aead_sound\<close> (decryption
  accepts only what encryption with the same key, nonce and associated data outputs).
\<close>

section \<open>\<open>crypto.py\<close>\<close>

definition AES_256_KEY_LENGTH :: nat where "AES_256_KEY_LENGTH = 32"
definition GCM_NONCE_LENGTH :: nat where "GCM_NONCE_LENGTH = 12"
definition GCM_TAG_LENGTH :: nat where "GCM_TAG_LENGTH = 16"

lemmas crypto_lengths = AES_256_KEY_LENGTH_def GCM_NONCE_LENGTH_def GCM_TAG_LENGTH_def

record encrypted_blob =
  blob_nonce :: bytes
  blob_ciphertext :: bytes
  blob_tag :: bytes

definition generate_dek :: "bytes action" where
  "generate_dek = token_bytes AES_256_KEY_LENGTH"

definition encrypt_aes_gcm :: "ext \<Rightarrow> bytes \<Rightarrow> bytes \<Rightarrow> bytes \<Rightarrow> encrypted_blob action" where
  "encrypt_aes_gcm E key plaintext associated_data =
     (if length key \<noteq> AES_256_KEY_LENGTH then throw (Py ValueError)
      else bindM (token_bytes GCM_NONCE_LENGTH) (\<lambda>nonce.
        let encrypted = aead_encrypt E key nonce plaintext associated_data;
            cut = length encrypted - GCM_TAG_LENGTH
        in ret \<lparr>blob_nonce = nonce, blob_ciphertext = take cut encrypted,
                blob_tag = drop cut encrypted\<rparr>))"

definition decrypt_aes_gcm :: "ext \<Rightarrow> bytes \<Rightarrow> encrypted_blob \<Rightarrow> bytes \<Rightarrow> bytes res" where
  "decrypt_aes_gcm E key blob associated_data =
     (if length key \<noteq> AES_256_KEY_LENGTH then Inl (Py ValueError)
      else if length (blob_nonce blob) \<noteq> GCM_NONCE_LENGTH then Inl (Py ValueError)
      else if length (blob_tag blob) \<noteq> GCM_TAG_LENGTH then Inl (Py ValueError)
      else case aead_decrypt E key (blob_nonce blob)
                  (blob_ciphertext blob @ blob_tag blob) associated_data of
             None \<Rightarrow> Inl (Py InvalidTag)
           | Some plaintext \<Rightarrow> Inr plaintext)"

section \<open>\<open>kdf.py\<close>\<close>

record kdf_params =
  time_cost :: int
  memory_cost :: int
  parallelism :: int
  hash_len :: int

definition current_parameters :: "unidata \<Rightarrow> environ \<Rightarrow> kdf_params" where
  "current_parameters U env =
     (let configured = load U env
      in \<lparr>time_cost = kdf_time_cost configured, memory_cost = kdf_memory_cost configured,
          parallelism = kdf_parallelism configured, hash_len = kdf_hash_length configured\<rparr>)"

definition derive_wrapping_key :: "ext \<Rightarrow> pyobj \<Rightarrow> bytes \<Rightarrow> kdf_params \<Rightarrow> bytes res" where
  "derive_wrapping_key E master_passphrase salt parameters =
     (case master_passphrase of
        PyStr s \<Rightarrow>
          if s = [] then Inl (Py ValueError)
          else if length salt < 16 then Inl (Py ValueError)
          else bindR (utf8_encode s) (\<lambda>secret.
            case argon2_raw E secret salt (time_cost parameters) (memory_cost parameters)
                   (parallelism parameters) (hash_len parameters) of
              None \<Rightarrow> Inl (Py HashingError)
            | Some key \<Rightarrow> Inr key)
      | _ \<Rightarrow> Inl (Py TypeError))"

section \<open>What is relied on\<close>

definition aead_ok :: "ext \<Rightarrow> bool" where
  "aead_ok E \<longleftrightarrow>
     (\<forall>k n p a. length k = 32 \<longrightarrow> length n = 12 \<longrightarrow>
        length (aead_encrypt E k n p a) = length p + 16
        \<and> aead_decrypt E k n (aead_encrypt E k n p a) a = Some p)"

definition aead_sound :: "ext \<Rightarrow> bool" where
  "aead_sound E \<longleftrightarrow>
     (\<forall>k n c a p. aead_decrypt E k n c a = Some p \<longrightarrow> c = aead_encrypt E k n p a)"

text \<open>Argon2id returns as many bytes as it was asked for.\<close>

definition argon2_ok :: "ext \<Rightarrow> bool" where
  "argon2_ok E \<longleftrightarrow>
     (\<forall>s salt t m p n key. argon2_raw E s salt t m p n = Some key \<longrightarrow> int (length key) = n)"

section \<open>Lemmas\<close>

lemma blob_eta [simp]:
  "\<lparr>blob_nonce = blob_nonce b, blob_ciphertext = blob_ciphertext b, blob_tag = blob_tag b\<rparr> = b"
  by simp

lemma encrypt_aes_gcm_run:
  assumes "length key = 32"
  shows "encrypt_aes_gcm E key p a w =
    (let nonce = map (entropy w) [draws w..<draws w + 12];
         c = aead_encrypt E key nonce p a
     in (Inr \<lparr>blob_nonce = nonce, blob_ciphertext = take (length c - 16) c,
              blob_tag = drop (length c - 16) c\<rparr>, w\<lparr>draws := draws w + 12\<rparr>))"
  using assms by (simp add: encrypt_aes_gcm_def crypto_lengths op_simps op_run Let_def)

lemma encrypt_aes_gcm_bad_key:
  "length key \<noteq> 32 \<Longrightarrow> encrypt_aes_gcm E key p a w = (Inl (Py ValueError), w)"
  by (simp add: encrypt_aes_gcm_def crypto_lengths op_simps op_run)

lemma encrypt_aes_gcm_world:
  "encrypt_aes_gcm E key p a w = (r, w') \<Longrightarrow> \<exists>n. w' = w\<lparr>draws := n\<rparr>"
  by (cases "length key = 32")
     (auto simp: encrypt_aes_gcm_run encrypt_aes_gcm_bad_key Let_def intro: exI [of _ "draws w"])

lemma encrypt_aes_gcm_Inr:
  assumes "encrypt_aes_gcm E key p a w = (Inr b, w')"
  shows "length key = 32 \<and> length (blob_nonce b) = 12
    \<and> blob_ciphertext b @ blob_tag b = aead_encrypt E key (blob_nonce b) p a
    \<and> w' = w\<lparr>draws := draws w + 12\<rparr>"
proof (cases "length key = 32")
  case True
  with assms show ?thesis by (auto simp: encrypt_aes_gcm_run Let_def)
next
  case False
  with assms show ?thesis by (simp add: encrypt_aes_gcm_bad_key)
qed

text \<open>The AEAD wrapper only draws a nonce.\<close>

lemma keeps_encrypt [keeps_rules]: "clockless f \<Longrightarrow> keeps f (encrypt_aes_gcm E key p a)"
  by (rule keepsI) (auto simp: clockless_def dest!: encrypt_aes_gcm_world)

lemma preserves_encrypt [preserves_rules]: "clockless P \<Longrightarrow> preserves P (encrypt_aes_gcm E key p a)"
  using keeps_encrypt [of P E key p a] by (simp add: keeps_def preserves_def)

lemma encrypt_lengths:
  assumes "aead_ok E" "encrypt_aes_gcm E key p a w = (Inr b, w')"
  shows "length (blob_ciphertext b) = length p \<and> length (blob_tag b) = 16"
proof -
  from encrypt_aes_gcm_Inr [OF assms(2)] have k: "length key = 32" by simp
  have "length (aead_encrypt E key n p a) = length p + 16" if "length n = 12" for n
    using assms(1) k that by (simp add: aead_ok_def)
  with assms(2) k show ?thesis by (auto simp: encrypt_aes_gcm_run Let_def)
qed

text \<open>What \<open>encrypt_aes_gcm\<close> returns, \<open>decrypt_aes_gcm\<close> opens under the same key and
  associated data.\<close>

lemma decrypt_encrypt:
  assumes "aead_ok E" "encrypt_aes_gcm E key p a w = (Inr b, w')"
  shows "decrypt_aes_gcm E key b a = Inr p"
proof -
  note b = encrypt_aes_gcm_Inr [OF assms(2)]
  have "aead_decrypt E key (blob_nonce b) (blob_ciphertext b @ blob_tag b) a = Some p"
    using assms(1) b by (simp add: aead_ok_def)
  with b encrypt_lengths [OF assms] show ?thesis
    by (simp add: decrypt_aes_gcm_def crypto_lengths)
qed

lemma decrypt_sound:
  assumes "aead_sound E" "decrypt_aes_gcm E key b a = Inr p"
  shows "length key = 32 \<and> length (blob_nonce b) = 12 \<and> length (blob_tag b) = 16
    \<and> blob_ciphertext b @ blob_tag b = aead_encrypt E key (blob_nonce b) p a"
  using assms by (auto simp: decrypt_aes_gcm_def aead_sound_def crypto_lengths
      split: if_splits option.splits)

lemma decrypt_error:
  "decrypt_aes_gcm E key b a = Inl e \<Longrightarrow> e = Py ValueError \<or> e = Py InvalidTag"
  by (auto simp: decrypt_aes_gcm_def split: if_splits option.splits)

lemma decrypt_error_caught: "decrypt_aes_gcm E key b a = Inl e \<Longrightarrow> tag_or_value_errors e"
  by (auto dest!: decrypt_error)

lemma derive_wrapping_key_length:
  "argon2_ok E \<Longrightarrow> derive_wrapping_key E pw salt ps = Inr key \<Longrightarrow> int (length key) = hash_len ps"
  by (auto simp: derive_wrapping_key_def argon2_ok_def bindR_Inr_iff
      split: pyobj.splits if_splits option.splits)

section \<open>Property\<close>

text \<open>A call of \<open>encrypt_aes_gcm\<close> draws a fresh 12-byte nonce and yields a blob that
  opens to the plaintext under the same key and associated data, with a 16-byte tag and a
  ciphertext as long as the plaintext; and what \<open>decrypt_aes_gcm\<close> accepts under any other
  associated data was produced by an encryption with that data.\<close>

theorem aes_gcm_wrappers:
  assumes "aead_ok E" "aead_sound E" "encrypt_aes_gcm E key p a w = (Inr b, w')"
  shows "blob_nonce b = map (entropy w) [draws w..<draws w + 12] \<and> draws w' = draws w + 12
    \<and> length (blob_ciphertext b) = length p \<and> length (blob_tag b) = 16
    \<and> decrypt_aes_gcm E key b a = Inr p
    \<and> (case decrypt_aes_gcm E key b other of
         Inr q \<Rightarrow> blob_ciphertext b @ blob_tag b = aead_encrypt E key (blob_nonce b) q other
       | Inl e \<Rightarrow> e = Py InvalidTag \<or> e = Py ValueError)"
proof -
  note i = encrypt_aes_gcm_Inr [OF assms(3)]
  have "blob_nonce b = map (entropy w) [draws w..<draws w + 12]"
    using assms(3) i by (auto simp: encrypt_aes_gcm_run Let_def)
  then show ?thesis
    using i encrypt_lengths [OF assms(1,3)] decrypt_encrypt [OF assms(1,3)]
      decrypt_sound [OF assms(2), of key b other] decrypt_error [of E key b other]
    by (auto split: sum.split)
qed

end
