(* ===== verification/Sample.thy ===== *)
theory Sample
  imports Crypto
begin

text \<open>
  Concrete values for the parameters of the model: a small AEAD, password hash, signature
  scheme and digest that satisfy the stated hypotheses, and a start state. The examples that
  show a theorem applies are evaluated on them; no property depends on them.
\<close>

definition toy_sum :: "bytes \<Rightarrow> byte" where
  "toy_sum bs = foldl (\<lambda>h b. h * 3 + b) 7 bs"

definition toy_tag :: "bytes \<Rightarrow> bytes \<Rightarrow> bytes \<Rightarrow> bytes" where
  "toy_tag k n a = replicate 16 (toy_sum (k @ n @ a))"

definition toy_encrypt :: "bytes \<Rightarrow> bytes \<Rightarrow> bytes \<Rightarrow> bytes \<Rightarrow> bytes" where
  "toy_encrypt k n p a = p @ toy_tag k n a"

definition toy_decrypt :: "bytes \<Rightarrow> bytes \<Rightarrow> bytes \<Rightarrow> bytes \<Rightarrow> bytes option" where
  "toy_decrypt k n c a =
     (let cut = length c - 16
      in if drop cut c = toy_tag k n a then Some (take cut c) else None)"

definition toy_unicode :: unidata where
  "toy_unicode = \<lparr>uni_lower = id, uni_upper = id, uni_space = (\<lambda>c. False), uni_digit = (\<lambda>c. None)\<rparr>"

definition toy :: ext where
  "toy = \<lparr>
     aead_encrypt = toy_encrypt,
     aead_decrypt = toy_decrypt,
     argon2_raw = (\<lambda>secret salt t m p n.
       if n < 0 then None else Some (take (nat n) (secret @ salt @ replicate (nat n) 0))),
     argon2_hash = (\<lambda>t m p salt pw. if m < 8 * p then None else Some (map unat (salt @ pw))),
     argon2_verify = (\<lambda>h pw. drop 16 h = map unat pw),
     ed25519_public = id,
     ed25519_sign = (\<lambda>seed msg. [toy_sum (seed @ msg)]),
     ed25519_verify = (\<lambda>pub sig msg. sig = [toy_sum (pub @ msg)]),
     sha256_digest = (\<lambda>bs. replicate 31 0 @ [toy_sum bs]),
     float_text = id,
     float_to_int = (\<lambda>t. Inl (Py ValueError)),
     unicode = toy_unicode \<rparr>"

text \<open>A clock that advances by one second per reading, an entropy source that counts.\<close>

definition toy_world :: world where
  "toy_world = \<lparr>
     db = empty_database, conf = None, conf_tmp = None,
     vstate = \<lparr>vs_dek = None, vs_released = []\<rparr>, dummy_hash = None,
     environ = (\<lambda>k. None), clock = (\<lambda>n. DT (63000000000000000 + n * 1000000)), ticks = 0,
     entropy = of_nat, draws = 0, io_fault = (\<lambda>n. False), ios = 0 \<rparr>"

text \<open>The same, unlocked.\<close>

definition toy_dek :: bytes where "toy_dek = replicate 32 5"

definition toy_unlocked :: world where
  "toy_unlocked = toy_world\<lparr>vstate := \<lparr>vs_dek = Some toy_dek, vs_released = []\<rparr>\<rparr>"

lemma length_toy_tag [simp]: "length (toy_tag k n a) = 16"
  by (simp add: toy_tag_def)

lemma toy_aead_ok: "aead_ok toy"
  by (simp add: aead_ok_def toy_def toy_encrypt_def toy_decrypt_def Let_def)

lemma toy_aead_sound: "aead_sound toy"
  by (auto simp: aead_sound_def toy_def toy_encrypt_def toy_decrypt_def Let_def
      split: if_splits) (metis append_take_drop_id)

lemma toy_argon2_ok: "argon2_ok toy"
  by (auto simp: argon2_ok_def toy_def split: if_splits)

text \<open>Facts that read the start states.\<close>

lemma toy_world_fields [simp]:
  "db toy_world = empty_database" "conf toy_world = None" "environ toy_world = (\<lambda>k. None)"
  "vstate toy_world = \<lparr>vs_dek = None, vs_released = []\<rparr>" "io_fault toy_world = (\<lambda>n. False)"
  "clock toy_world = (\<lambda>n. DT (63000000000000000 + n * 1000000))" "ticks toy_world = 0"
  "draws toy_world = 0" "dummy_hash toy_world = None"
  by (simp_all add: toy_world_def)

lemma toy_unlocked_fields [simp]:
  "db toy_unlocked = empty_database" "environ toy_unlocked = (\<lambda>k. None)"
  "vstate toy_unlocked = \<lparr>vs_dek = Some toy_dek, vs_released = []\<rparr>"
  "clock toy_unlocked = (\<lambda>n. DT (63000000000000000 + n * 1000000))" "ticks toy_unlocked = 0"
  by (simp_all add: toy_unlocked_def)

lemma length_toy_dek [simp]: "length toy_dek = 32"
  by (simp add: toy_dek_def)

text \<open>The same with the identity for a digest: no two inputs collide.\<close>

definition toy_plain :: ext where "toy_plain = toy\<lparr>sha256_digest := id\<rparr>"

lemma unicode_toy [simp]: "unicode toy = toy_unicode"
  by (simp add: toy_def)

theorem aes_gcm_wrappers_witness:
  "\<exists>b. decrypt_aes_gcm toy toy_dek b [1, 2] = Inr [42]
    \<and> blob_nonce b = map (entropy toy_world) [0..<12]"
proof -
  obtain b w' where b: "encrypt_aes_gcm toy toy_dek [42] [1, 2] toy_world = (Inr b, w')"
    by (simp add: encrypt_aes_gcm_run Let_def)
  from aes_gcm_wrappers [OF toy_aead_ok toy_aead_sound b] show ?thesis by auto
qed

section \<open>A master passphrase\<close>

definition toy_passphrase :: pystr where "toy_passphrase = lit ''Correct-Horse-42x''"

lemma toy_passphrase_ok: "evaluate toy_unicode (PyStr toy_passphrase) = None"
  by code_simp

lemma toy_derive:
  assumes "length salt = 16" "pw \<noteq> []" "list_all scalar pw"
  shows "\<exists>key. length key = 32 \<and> derive_wrapping_key toy (PyStr pw) salt
     (current_parameters toy_unicode (\<lambda>k. None)) = Inr key"
proof -
  obtain u where "utf8_encode pw = Inr u" using utf8_encode_ok assms(3) by blast
  then show ?thesis using assms
    by (simp add: derive_wrapping_key_def toy_def current_parameters_def load_default Let_def)
qed

end
