(* ===== verification/SortedJson.thy ===== *)
theory SortedJson
  imports Json "HOL-Library.List_Lexorder"
begin

text \<open>
  \<open>sort_keys=True\<close> of \<open>json.dump\<close> and \<open>json.dumps\<close>: the keys of every object in code point
  order, at every depth. Used by the configuration store and by the audit chain.
\<close>

primrec sort_json :: "json \<Rightarrow> json" where
  "sort_json JNull = JNull"
| "sort_json (JBool b) = JBool b"
| "sort_json (JInt i) = JInt i"
| "sort_json (JFloat t) = JFloat t"
| "sort_json (JStr s) = JStr s"
| "sort_json (JArr xs) = JArr (map sort_json xs)"
| "sort_json (JObj d) = JObj (sort_key fst (map (map_prod id sort_json) d))"

lemma map_of_sort_key:
  fixes d :: "(pystr \<times> 'v) list"
  assumes "distinct (map fst d)" shows "map_of (sort_key fst d) = map_of d"
proof -
  have "distinct (map fst (sort_key fst d))"
    using assms by (simp add: distinct_map)
  with assms show ?thesis by (simp add: map_of_inject_set)
qed

lemma map_of_sort_json:
  fixes d :: "(pystr \<times> json) list"
  assumes "distinct (map fst d)"
  shows "map_of (sort_key fst (map (map_prod id sort_json) d)) k = map_option sort_json (map_of d k)"
proof -
  have "map fst (map (map_prod id sort_json) d) = map fst d" by simp
  then have "map_of (sort_key fst (map (map_prod id sort_json) d)) = map_of (map (map_prod id sort_json) d)"
    using assms by (intro map_of_sort_key) simp
  moreover have "map_of (map (map_prod id sort_json) d) k = map_option sort_json (map_of d k)"
    by (induction d) auto
  ultimately show ?thesis by simp
qed

section \<open>Encodable documents\<close>

text \<open>No string of the document contains a lone surrogate, so its text encodes as UTF-8.\<close>

primrec json_scalar :: "json \<Rightarrow> bool" where
  "json_scalar JNull = True"
| "json_scalar (JBool b) = True"
| "json_scalar (JInt i) = True"
| "json_scalar (JFloat t) = list_all scalar t"
| "json_scalar (JStr s) = list_all scalar s"
| "json_scalar (JArr xs) = list_all id (map json_scalar xs)"
| "json_scalar (JObj kvs) =
     (list_all (\<lambda>kv. list_all scalar (fst kv)) kvs \<and> list_all snd (map (map_prod id json_scalar) kvs))"

lemma scalar_digit: "is_digit c \<Longrightarrow> scalar c"
  by (simp add: is_digit_def scalar_def)

lemma scalar_dec_int: "list_all scalar (dec_int i)"
  by (auto simp: list_all_iff scalar_digit scalar_ascii dest: dec_int_chars)

lemma scalar_lit: "\<forall>c \<in> set s. of_char c < (128 :: nat) \<Longrightarrow> list_all scalar (lit s)"
  by (auto simp: lit_def list_all_iff intro: scalar_ascii)

lemma scalar_esc_char: "scalar c \<Longrightarrow> list_all scalar (esc_char c)"
  by (auto simp: esc_char_def hex_digit_def intro!: scalar_ascii)

lemma scalar_dump_str: "list_all scalar s \<Longrightarrow> list_all scalar (dump_str s)"
proof -
  assume "list_all scalar s"
  then have "list_all scalar (concat (map esc_char s))"
    by (induction s) (simp_all add: scalar_esc_char)
  then show ?thesis by (simp add: dump_str_def scalar_ascii)
qed

lemma scalar_join: "list_all (list_all scalar) ts \<Longrightarrow> list_all scalar (join ts)"
  by (induction ts rule: join.induct) (simp_all add: scalar_ascii)

lemma scalar_dump_text: "json_scalar j \<Longrightarrow> list_all scalar (dump_text j)"
proof (induction j)
  case (JArr xs)
  then have "list_all (list_all scalar) (map dump_text xs)" by (simp add: list_all_iff)
  then show ?case by (simp add: scalar_ascii scalar_join)
next
  case (JObj kvs)
  have "list_all scalar (dump_str (fst kv) @ [58] @ dump_text (snd kv))" if "kv \<in> set kvs" for kv
  proof -
    have "list_all scalar (dump_str (fst kv))"
      using JObj.prems that by (intro scalar_dump_str) (auto simp: list_all_iff)
    moreover have "list_all scalar (dump_text (snd kv))"
      using JObj.prems JObj.IH [of kv "snd kv"] that
      by (cases kv) (auto simp: list_all_iff)
    ultimately show ?thesis by (simp add: scalar_ascii)
  qed
  then have "list_all (list_all scalar)
      (map (\<lambda>(k, t). dump_str k @ [58] @ t) (map (map_prod id dump_text) kvs))"
    by (auto simp: list_all_iff)
  then show ?case by (simp add: scalar_ascii scalar_join)
qed (simp_all add: scalar_dec_int scalar_dump_str text_simps scalar_ascii)

end
