(* ===== verification/Vault.thy ===== *)
theory Vault
  imports Sample SortedJson
begin

text \<open>
  The vault core: \<open>src/core/state.py\<close> (the buffer that holds the DEK),
  \<open>src/storage/config_store.py\<close> (the configuration file and its atomic replacement) and
  \<open>src/core/vault.py\<close> (initialise, unlock, lock, status).
\<close>

section \<open>\<open>VaultState\<close>\<close>

definition is_unlocked :: "bool action" where
  "is_unlocked = gets (\<lambda>w. vs_dek (vstate w) \<noteq> None)"

text \<open>The loop that overwrites the buffer, one index after the other.\<close>

definition zero_buffer :: "bytes \<Rightarrow> bytes" where
  "zero_buffer buf = foldl (\<lambda>b index. b[index := 0]) buf [0..<length buf]"

definition clear_without_lock :: "vault_state \<Rightarrow> vault_state" where
  "clear_without_lock s =
     (case vs_dek s of
        None \<Rightarrow> s
      | Some buf \<Rightarrow> s\<lparr>vs_dek := None, vs_released := zero_buffer buf # vs_released s\<rparr>)"

definition set_dek :: "bytes \<Rightarrow> unit action" where
  "set_dek dek =
     (if length dek \<noteq> 32 then throw (Py ValueError)
      else modify (\<lambda>w. w\<lparr>vstate := (clear_without_lock (vstate w))\<lparr>vs_dek := Some dek\<rparr>\<rparr>))"

definition get_dek :: "bytes action" where
  "get_dek =
     bindM (gets (\<lambda>w. vs_dek (vstate w))) (\<lambda>d.
     case d of None \<Rightarrow> throw (Vault VaultLockedError) | Some buf \<Rightarrow> ret buf)"

definition state_lock :: "unit action" where
  "state_lock = modify (\<lambda>w. w\<lparr>vstate := clear_without_lock (vstate w)\<rparr>)"

section \<open>\<open>JsonConfigStore\<close>\<close>

definition is_os_error :: "exn \<Rightarrow> bool" where
  "is_os_error e \<longleftrightarrow> e = Py OSError \<or> e = Py FileNotFoundError"

definition store_exists :: "bool action" where
  "store_exists = gets (\<lambda>w. conf w \<noteq> None)"

definition store_load :: "(pystr \<times> json) list action" where
  "store_load =
     bindM store_exists (\<lambda>found.
     if \<not> found then throw (Py FileNotFoundError)
     else bindM (catchM io_call is_os_error (Vault StorageError)) (\<lambda>_.
       bindM (gets conf) (\<lambda>content.
       case content of
         None \<Rightarrow> throw (Vault StorageError)
       | Some BadUtf8 \<Rightarrow> throw (Py UnicodeDecodeError)
       | Some BadJson \<Rightarrow> throw (Vault VaultConfigCorruptedError)
       | Some HugeInt \<Rightarrow> throw (Py ValueError)
       | Some (Doc data) \<Rightarrow>
           (case data of JObj d \<Rightarrow> ret d | _ \<Rightarrow> throw (Vault VaultConfigCorruptedError)))))"

text \<open>
  The body of the \<open>try\<close> of \<open>save_atomic\<close>, one step per call into the file system. Between
  opening the temporary file and flushing it, its content is some prefix of the document.
\<close>

definition save_steps :: "(pystr \<times> json) list \<Rightarrow> unit action list" where
  "save_steps data =
     [bindM io_call (\<lambda>_. modify (\<lambda>w. w\<lparr>conf_tmp := Some BadJson\<rparr>)),
      bindM io_call (\<lambda>_. modify (\<lambda>w. w\<lparr>conf_tmp := Some (Doc (sort_json (JObj data)))\<rparr>)),
      io_call,
      bindM io_call (\<lambda>_. modify (\<lambda>w. w\<lparr>conf := conf_tmp w, conf_tmp := None\<rparr>))]"

primrec run_steps :: "unit action list \<Rightarrow> unit action" where
  "run_steps [] = ret ()"
| "run_steps (a # as) = bindM a (\<lambda>_. run_steps as)"

text \<open>\<open>unlink(missing_ok=True)\<close>, with its own errors swallowed.\<close>

definition unlink_temporary :: "unit action" where
  "unlink_temporary =
     (\<lambda>w. case io_call w of
        (Inl e, w') \<Rightarrow> (Inr (), w')
      | (Inr _, w') \<Rightarrow> (Inr (), w'\<lparr>conf_tmp := None\<rparr>))"

definition save_atomic :: "(pystr \<times> json) list \<Rightarrow> unit action" where
  "save_atomic data =
     bindM io_call (\<lambda>_.
     \<lambda>w. case run_steps (save_steps data) w of
        (Inr _, w') \<Rightarrow> (Inr (), w')
      | (Inl e, w') \<Rightarrow>
          if is_os_error e
          then bindM unlink_temporary (\<lambda>_. throw (Vault StorageError)) w'
          else (Inl e, w'))"

section \<open>\<open>VaultService\<close>\<close>

definition CONFIG_VERSION :: int where "CONFIG_VERSION = 1"

definition DEK_WRAP_AAD :: bytes where "DEK_WRAP_AAD = octets (lit ''mini-vault:dek-wrap:v1'')"

record status_response =
  initialized :: bool
  status_text :: pystr

definition is_initialized :: "bool action" where
  "is_initialized = store_exists"

definition status :: "status_response action" where
  "status =
     bindM is_initialized (\<lambda>i.
     if \<not> i then ret \<lparr>initialized = False, status_text = lit ''not_initialized''\<rparr>
     else bindM is_unlocked (\<lambda>u.
       ret \<lparr>initialized = True, status_text = if u then lit ''unlocked'' else lit ''locked''\<rparr>))"

definition validate_master_passphrase :: "ext \<Rightarrow> pystr \<Rightarrow> unit res" where
  "validate_master_passphrase E master_passphrase =
     (case evaluate (unicode E) (PyStr master_passphrase) of
        None \<Rightarrow> Inr ()
      | Some issue \<Rightarrow> Inl (Vault (InvalidMasterPassphrasePolicyError (issue_code issue))))"

definition config_document :: "bytes \<Rightarrow> kdf_params \<Rightarrow> encrypted_blob \<Rightarrow> (pystr \<times> json) list" where
  "config_document salt parameters wrapped =
     [(lit ''version'', JInt CONFIG_VERSION),
      (lit ''status'', JStr (lit ''locked'')),
      (lit ''kdf'', JStr (lit ''argon2id'')),
      (lit ''kdf_salt_b64'', JStr (encode_b64 salt)),
      (lit ''kdf_parameters'',
        JObj [(lit ''time_cost'', JInt (time_cost parameters)),
              (lit ''memory_cost'', JInt (memory_cost parameters)),
              (lit ''parallelism'', JInt (parallelism parameters)),
              (lit ''hash_len'', JInt (hash_len parameters))]),
      (lit ''dek_nonce_b64'', JStr (encode_b64 (blob_nonce wrapped))),
      (lit ''encrypted_dek_b64'', JStr (encode_b64 (blob_ciphertext wrapped))),
      (lit ''dek_tag_b64'', JStr (encode_b64 (blob_tag wrapped)))]"

definition vault_initialize :: "ext \<Rightarrow> pystr \<Rightarrow> status_response action" where
  "vault_initialize E master_passphrase =
     bindM is_initialized (\<lambda>i.
     if i then throw (Vault VaultAlreadyInitializedError)
     else bindM (liftR (validate_master_passphrase E master_passphrase)) (\<lambda>_.
       bindM (token_bytes 16) (\<lambda>salt.
       bindM (gets (\<lambda>w. current_parameters (unicode E) (environ w))) (\<lambda>parameters.
       bindM (liftR (derive_wrapping_key E (PyStr master_passphrase) salt parameters)) (\<lambda>wrapping_key.
       bindM generate_dek (\<lambda>dek.
       bindM (encrypt_aes_gcm E wrapping_key dek DEK_WRAP_AAD) (\<lambda>wrapped.
       bindM (save_atomic (config_document salt parameters wrapped)) (\<lambda>_.
       bindM state_lock (\<lambda>_.
       status)))))))))"

definition required :: "pystr list" where
  "required =
     [lit ''version'', lit ''status'', lit ''kdf'', lit ''kdf_salt_b64'', lit ''kdf_parameters'',
      lit ''dek_nonce_b64'', lit ''encrypted_dek_b64'', lit ''dek_tag_b64'']"

text \<open>\<open>value == 1\<close> holds for \<open>1\<close>, \<open>1.0\<close> and \<open>True\<close>.\<close>

definition equals_int :: "int \<Rightarrow> json \<Rightarrow> bool" where
  "equals_int n j =
     (case j of
        JInt i \<Rightarrow> i = n
      | JBool b \<Rightarrow> n = (if b then 1 else 0)
      | JFloat t \<Rightarrow> t = dec_int n @ lit ''.0''
      | _ \<Rightarrow> False)"

definition load_and_validate_config :: "(pystr \<times> json) list action" where
  "load_and_validate_config =
     bindM store_load (\<lambda>config.
     if \<not> list_all (\<lambda>k. map_of config k \<noteq> None) required
     then throw (Vault VaultConfigCorruptedError)
     else if \<not> equals_int CONFIG_VERSION (the (map_of config (lit ''version'')))
          \<or> map_of config (lit ''kdf'') \<noteq> Some (JStr (lit ''argon2id''))
     then throw (Vault VaultConfigCorruptedError)
     else ret config)"

text \<open>\<open>value[key]\<close> and \<open>int(value)\<close> on what \<open>json.load\<close> returns.\<close>

definition json_get :: "json \<Rightarrow> pystr \<Rightarrow> json res" where
  "json_get j k =
     (case j of
        JObj d \<Rightarrow> (case map_of d k of None \<Rightarrow> Inl (Py KeyError) | Some v \<Rightarrow> Inr v)
      | _ \<Rightarrow> Inl (Py TypeError))"

definition json_int :: "ext \<Rightarrow> json \<Rightarrow> int res" where
  "json_int E j =
     (case j of
        JInt i \<Rightarrow> Inr i
      | JBool b \<Rightarrow> Inr (if b then 1 else 0)
      | JFloat t \<Rightarrow> float_to_int E t
      | JStr s \<Rightarrow> py_int (unicode E) s
      | _ \<Rightarrow> Inl (Py TypeError))"

definition json_obj :: "json \<Rightarrow> pyobj" where
  "json_obj j = (case j of JStr s \<Rightarrow> PyStr s | JInt i \<Rightarrow> PyInt i | JBool b \<Rightarrow> PyBool b | _ \<Rightarrow> PyNone)"

definition get_int :: "ext \<Rightarrow> json \<Rightarrow> pystr \<Rightarrow> int res" where
  "get_int E j k = bindR (json_get j k) (json_int E)"

definition get_b64 :: "(pystr \<times> json) list \<Rightarrow> pystr \<Rightarrow> bytes res" where
  "get_b64 config k = bindR (json_get (JObj config) k) (\<lambda>v. decode_b64 (json_obj v))"

text \<open>The body of the \<open>try\<close> of \<open>unlock\<close>, in the order of evaluation.\<close>

definition unwrap_dek :: "ext \<Rightarrow> pystr \<Rightarrow> (pystr \<times> json) list \<Rightarrow> bytes res" where
  "unwrap_dek E master_passphrase config =
     bindR (json_get (JObj config) (lit ''kdf_parameters'')) (\<lambda>parameter_data.
     bindR (get_int E parameter_data (lit ''time_cost'')) (\<lambda>t.
     bindR (get_int E parameter_data (lit ''memory_cost'')) (\<lambda>m.
     bindR (get_int E parameter_data (lit ''parallelism'')) (\<lambda>p.
     bindR (get_int E parameter_data (lit ''hash_len'')) (\<lambda>n.
     bindR (get_b64 config (lit ''kdf_salt_b64'')) (\<lambda>salt.
     bindR (derive_wrapping_key E (PyStr master_passphrase) salt
              \<lparr>time_cost = t, memory_cost = m, parallelism = p, hash_len = n\<rparr>) (\<lambda>wrapping_key.
     bindR (get_b64 config (lit ''dek_nonce_b64'')) (\<lambda>nonce.
     bindR (get_b64 config (lit ''encrypted_dek_b64'')) (\<lambda>ciphertext.
     bindR (get_b64 config (lit ''dek_tag_b64'')) (\<lambda>tag.
     decrypt_aes_gcm E wrapping_key
       \<lparr>blob_nonce = nonce, blob_ciphertext = ciphertext, blob_tag = tag\<rparr> DEK_WRAP_AAD))))))))))"

fun unlock_except :: "bytes res \<Rightarrow> bytes res" where
  "unlock_except (Inl (Py e)) =
     (if e = InvalidTag then Inl (Vault InvalidMasterPassphraseError)
      else if e = KeyError \<or> e = TypeError \<or> is_ValueError e
      then Inl (Vault VaultConfigCorruptedError) else Inl (Py e))"
| "unlock_except r = r"

definition vault_unlock :: "ext \<Rightarrow> pystr \<Rightarrow> status_response action" where
  "vault_unlock E master_passphrase =
     bindM is_initialized (\<lambda>i.
     if \<not> i then throw (Vault VaultNotInitializedError)
     else bindM state_lock (\<lambda>_.
       bindM load_and_validate_config (\<lambda>config.
       bindM (liftR (unlock_except (unwrap_dek E master_passphrase config))) (\<lambda>dek.
       if length dek \<noteq> 32 then throw (Vault VaultConfigCorruptedError)
       else bindM (set_dek dek) (\<lambda>_. status)))))"

definition vault_lock :: "status_response action" where
  "vault_lock = bindM state_lock (\<lambda>_. status)"

definition require_unlocked :: "unit action" where
  "require_unlocked = bindM get_dek (\<lambda>_. ret ())"

section \<open>The buffer\<close>

lemma zero_loop: "n \<le> length b \<Longrightarrow>
    foldl (\<lambda>b index. b[index := (0 :: byte)]) b [0..<n] = replicate n 0 @ drop n b"
proof (induction n)
  case (Suc n)
  then have "drop n b = b ! n # drop (Suc n) b" by (simp add: Cons_nth_drop_Suc)
  with Suc show ?case by (simp add: list_update_append replicate_append_same [symmetric])
qed simp

lemma zero_buffer_eq: "zero_buffer buf = replicate (length buf) 0"
  by (simp add: zero_buffer_def zero_loop)

definition released_zeroed :: "vault_state \<Rightarrow> bool" where
  "released_zeroed s \<longleftrightarrow> (\<forall>buf \<in> set (vs_released s). \<forall>x \<in> set buf. x = 0)"

definition dek_length_ok :: "vault_state \<Rightarrow> bool" where
  "dek_length_ok s \<longleftrightarrow> (\<forall>d. vs_dek s = Some d \<longrightarrow> length d = 32)"

text \<open>The invariant of \<open>VaultState\<close>: 32 bytes or nothing, and nothing readable left behind.\<close>

definition vault_ok :: "world \<Rightarrow> bool" where
  "vault_ok w \<longleftrightarrow> released_zeroed (vstate w) \<and> dek_length_ok (vstate w)"

lemma vs_dek_clear [simp]: "vs_dek (clear_without_lock s) = None"
  by (auto simp: clear_without_lock_def split: option.splits)

lemma clear_locked: "vs_dek s = None \<Longrightarrow> clear_without_lock s = s"
  by (simp add: clear_without_lock_def)

lemma vault_ok_clear:
  "released_zeroed s \<Longrightarrow> released_zeroed (clear_without_lock s)"
  by (auto simp: clear_without_lock_def released_zeroed_def zero_buffer_eq split: option.splits)

lemma preserves_state_lock: "preserves vault_ok state_lock"
  unfolding state_lock_def
  by (intro preserves_modify) (simp add: vault_ok_def vault_ok_clear dek_length_ok_def)

lemma preserves_set_dek: "preserves vault_ok (set_dek d)"
  unfolding set_dek_def
  by (intro preserves_if preserves_throw preserves_modify)
     (use vault_ok_clear in \<open>auto simp: vault_ok_def dek_length_ok_def released_zeroed_def\<close>)

lemma state_lock_run [op_simps]:
  "state_lock w = (Inr (), w\<lparr>vstate := clear_without_lock (vstate w)\<rparr>)"
  by (simp add: state_lock_def op_simps)

lemma store_exists_run [op_simps]: "store_exists w = (Inr (conf w \<noteq> None), w)"
  by (simp add: store_exists_def op_simps)

lemma is_initialized_run [op_simps]: "is_initialized w = (Inr (conf w \<noteq> None), w)"
  by (simp add: is_initialized_def op_simps)

lemma status_run [op_simps]:
  "status w =
     (Inr (if conf w = None then \<lparr>initialized = False, status_text = lit ''not_initialized''\<rparr>
           else \<lparr>initialized = True,
                 status_text = if vs_dek (vstate w) \<noteq> None then lit ''unlocked'' else lit ''locked''\<rparr>), w)"
  by (simp add: status_def is_unlocked_def op_simps op_run)

lemma get_dek_run [op_simps]:
  "get_dek w = (case vs_dek (vstate w) of None \<Rightarrow> Inl (Vault VaultLockedError) | Some d \<Rightarrow> Inr d, w)"
  by (simp add: get_dek_def op_simps op_run split: option.splits)

lemma require_unlocked_run [op_simps]:
  "require_unlocked w =
     (if vs_dek (vstate w) = None then Inl (Vault VaultLockedError) else Inr (), w)"
  by (simp add: require_unlocked_def op_simps op_run split: option.splits)

lemma preserves_get_dek [preserves_rules]: "preserves P get_dek"
  and preserves_require_unlocked [preserves_rules]: "preserves P require_unlocked"
  and keeps_get_dek [keeps_rules]: "keeps f get_dek"
  and keeps_require_unlocked [keeps_rules]: "keeps f require_unlocked"
  by (simp_all add: preserves_def keeps_def op_simps)

lemma vault_lock_run:
  "vault_lock w = (let w' = w\<lparr>vstate := clear_without_lock (vstate w)\<rparr> in (fst (status w'), w'))"
  by (simp add: vault_lock_def op_simps op_run Let_def)

section \<open>Saving\<close>

text \<open>Running any number of the steps leaves either the old or the new configuration, and
  never touches anything but the two files and the I/O counter.\<close>

definition only_files :: "world \<Rightarrow> world \<Rightarrow> bool" where
  "only_files w w' \<longleftrightarrow>
     w'\<lparr>conf := None, conf_tmp := None, ios := 0\<rparr> = w\<lparr>conf := None, conf_tmp := None, ios := 0\<rparr>"

lemma only_files_fields:
  "only_files w w' \<Longrightarrow> db w' = db w \<and> vstate w' = vstate w \<and> dummy_hash w' = dummy_hash w
    \<and> environ w' = environ w \<and> clock w' = clock w \<and> ticks w' = ticks w \<and> entropy w' = entropy w
    \<and> draws w' = draws w \<and> io_fault w' = io_fault w"
  by (cases w, cases w') (simp add: only_files_def)

lemma save_prefix_cases:
  assumes "run_steps (take n (save_steps data)) w = (r, w')"
  shows "(conf w' = conf w \<or> (conf w' = Some (Doc (sort_json (JObj data))) \<and> r = Inr () \<and> 4 \<le> n))
    \<and> only_files w w'"
proof (cases "n < 4")
  case True
  then have "n = 0 \<or> n = 1 \<or> n = 2 \<or> n = 3" by auto
  with assms show ?thesis
    by (elim disjE)
       (auto simp: save_steps_def op_simps op_run only_files_def numeral_3_eq_3 numeral_2_eq_2 split: if_splits)
next
  case False
  then have "take n (save_steps data) = save_steps data" by (simp add: save_steps_def)
  with assms False show ?thesis
    by (auto simp: save_steps_def op_simps op_run only_files_def split: if_splits)
qed

lemma run_steps_error: "run_steps (save_steps data) w = (Inl e, w') \<Longrightarrow> e = Py OSError"
  by (auto simp: save_steps_def bindM_Inl_iff op_simps split: if_splits)

lemma save_steps_all: "take 4 (save_steps data) = save_steps data"
  by (simp add: save_steps_def)

lemma save_atomic_cases:
  assumes "save_atomic data w = (r, w')"
  shows "only_files w w' \<and>
    (r = Inr () \<and> conf w' = Some (Doc (sort_json (JObj data)))
     \<or> r \<in> {Inl (Py OSError), Inl (Vault StorageError)} \<and> conf w' = conf w)"
proof (cases "io_fault w (ios w)")
  case True
  with assms show ?thesis
    by (auto simp: save_atomic_def op_simps op_run only_files_def)
next
  case False
  define w1 where "w1 = w\<lparr>ios := Suc (ios w)\<rparr>"
  have w1: "only_files w w1" "conf w1 = conf w"
    by (auto simp: w1_def only_files_def)
  obtain r1 w2 where s: "run_steps (save_steps data) w1 = (r1, w2)" by (cases "run_steps (save_steps data) w1")
  with save_prefix_cases [of 4 data w1 r1 w2] save_steps_all
  have p: "conf w2 = conf w1 \<or> conf w2 = Some (Doc (sort_json (JObj data))) \<and> r1 = Inr ()"
    "only_files w1 w2" by auto
  have f: "only_files w w2" using w1 p(2) by (auto simp: only_files_def w1_def)
  show ?thesis
  proof (cases r1)
    case (Inl e)
    with s run_steps_error have e: "e = Py OSError" by blast
    with assms False Inl s p w1(2) f show ?thesis
      by (auto simp: save_atomic_def op_simps op_run w1_def [symmetric] is_os_error_def
          unlink_temporary_def only_files_def split: if_splits)
  next
    case (Inr u)
    with s have "conf w2 = Some (Doc (sort_json (JObj data)))"
      by (auto simp: save_steps_def bindM_Inr_iff op_simps split: if_splits)
    with assms False Inr s f show ?thesis
      by (auto simp: save_atomic_def op_simps op_run w1_def [symmetric])
  qed
qed

text \<open>A failed save leaves no temporary file, unless the file system refuses to remove it too.\<close>

lemma save_atomic_failed:
  assumes "save_atomic data w = (Inl e, w')"
  shows "w' = w\<lparr>ios := ios w', conf_tmp := conf_tmp w'\<rparr>
    \<and> (e = Py OSError \<and> conf_tmp w' = conf_tmp w
       \<or> e = Vault StorageError
         \<and> (conf_tmp w' = None \<or> (\<exists>i \<ge> ios w. ios w' = i + 2 \<and> io_fault w i \<and> io_fault w (i + 1))))"
  using assms
  by (auto simp: save_atomic_def save_steps_def op_simps op_run unlink_temporary_def is_os_error_def
      split: if_splits intro: exI [of _ "ios w"])

lemma save_atomic_ok:
  assumes "\<And>n. n < 5 \<Longrightarrow> \<not> io_fault w (ios w + n)"
  shows "save_atomic data w =
    (Inr (), w\<lparr>conf := Some (Doc (sort_json (JObj data))), conf_tmp := None, ios := ios w + 5\<rparr>)"
  using assms [of 0] assms [of 1] assms [of 2] assms [of 3] assms [of 4]
  by (simp add: save_atomic_def save_steps_def op_simps op_run numeral_eq_Suc)

section \<open>Reading back a saved document\<close>

definition saved_config :: "bytes \<Rightarrow> kdf_params \<Rightarrow> encrypted_blob \<Rightarrow> (pystr \<times> json) list" where
  "saved_config salt ps blob = sort_key fst (map (map_prod id sort_json) (config_document salt ps blob))"

lemma sort_json_config: "sort_json (JObj (config_document salt ps blob)) = JObj (saved_config salt ps blob)"
  by (simp add: saved_config_def)

lemma config_keys_distinct: "distinct (map fst (config_document salt ps blob))"
  by (simp add: config_document_def text_simps)

lemma map_of_saved_config:
  "map_of (saved_config salt ps blob) k = map_option sort_json (map_of (config_document salt ps blob) k)"
  unfolding saved_config_def by (rule map_of_sort_json [OF config_keys_distinct])

lemma lookup_saved_config:
  "map_of (saved_config salt ps blob) (lit ''version'') = Some (JInt 1)"
  "map_of (saved_config salt ps blob) (lit ''status'') = Some (JStr (lit ''locked''))"
  "map_of (saved_config salt ps blob) (lit ''kdf'') = Some (JStr (lit ''argon2id''))"
  "map_of (saved_config salt ps blob) (lit ''kdf_salt_b64'') = Some (JStr (encode_b64 salt))"
  "map_of (saved_config salt ps blob) (lit ''dek_nonce_b64'') = Some (JStr (encode_b64 (blob_nonce blob)))"
  "map_of (saved_config salt ps blob) (lit ''encrypted_dek_b64'') = Some (JStr (encode_b64 (blob_ciphertext blob)))"
  "map_of (saved_config salt ps blob) (lit ''dek_tag_b64'') = Some (JStr (encode_b64 (blob_tag blob)))"
  by (simp_all add: map_of_saved_config config_document_def text_simps CONFIG_VERSION_def)

definition saved_parameters :: "kdf_params \<Rightarrow> json" where
  "saved_parameters ps = sort_json (JObj
     [(lit ''time_cost'', JInt (time_cost ps)), (lit ''memory_cost'', JInt (memory_cost ps)),
      (lit ''parallelism'', JInt (parallelism ps)), (lit ''hash_len'', JInt (hash_len ps))])"

lemma lookup_saved_parameters:
  "map_of (saved_config salt ps blob) (lit ''kdf_parameters'') = Some (saved_parameters ps)"
  by (simp add: map_of_saved_config config_document_def text_simps saved_parameters_def
      del: sort_json.simps)

lemma get_saved_parameter:
  assumes "map_of [(lit ''time_cost'', JInt (time_cost ps)), (lit ''memory_cost'', JInt (memory_cost ps)),
      (lit ''parallelism'', JInt (parallelism ps)), (lit ''hash_len'', JInt (hash_len ps))] k = Some (JInt i)"
  shows "get_int E (saved_parameters ps) k = Inr i"
proof -
  let ?d = "[(lit ''time_cost'', JInt (time_cost ps)), (lit ''memory_cost'', JInt (memory_cost ps)),
      (lit ''parallelism'', JInt (parallelism ps)), (lit ''hash_len'', JInt (hash_len ps))]"
  have "distinct (map fst ?d)" by (simp add: text_simps)
  from map_of_sort_json [OF this, of k] assms show ?thesis
    by (simp only: saved_parameters_def sort_json.simps get_int_def json_get_def json.simps
        option.simps bindR.simps json_int_def)
qed

lemma get_saved_parameters:
  "get_int E (saved_parameters ps) (lit ''time_cost'') = Inr (time_cost ps)"
  "get_int E (saved_parameters ps) (lit ''memory_cost'') = Inr (memory_cost ps)"
  "get_int E (saved_parameters ps) (lit ''parallelism'') = Inr (parallelism ps)"
  "get_int E (saved_parameters ps) (lit ''hash_len'') = Inr (hash_len ps)"
  by (rule get_saved_parameter, simp add: text_simps)+

lemma get_b64_saved:
  "map_of config k = Some (JStr (encode_b64 bs)) \<Longrightarrow> get_b64 config k = Inr bs"
  by (simp add: get_b64_def json_get_def json_obj_def codec_simps)

text \<open>What \<open>unwrap_dek\<close> computes on a document \<open>initialize\<close> wrote.\<close>

lemma unwrap_saved:
  "unwrap_dek E pw (saved_config salt ps blob) =
     bindR (derive_wrapping_key E (PyStr pw) salt ps) (\<lambda>key. decrypt_aes_gcm E key blob DEK_WRAP_AAD)"
proof -
  have ps: "\<lparr>time_cost = time_cost ps, memory_cost = memory_cost ps, parallelism = parallelism ps,
    hash_len = hash_len ps\<rparr> = ps" by simp
  have b: "\<lparr>blob_nonce = blob_nonce blob, blob_ciphertext = blob_ciphertext blob,
    blob_tag = blob_tag blob\<rparr> = blob" by simp
  have g: "json_get (JObj (saved_config salt ps blob)) (lit ''kdf_parameters'') = Inr (saved_parameters ps)"
    by (simp add: json_get_def lookup_saved_parameters)
  show ?thesis
    unfolding unwrap_dek_def
    by (simp only: g get_saved_parameters get_b64_saved [OF lookup_saved_config(4)]
        get_b64_saved [OF lookup_saved_config(5)] get_b64_saved [OF lookup_saved_config(6)]
        get_b64_saved [OF lookup_saved_config(7)] bindR.simps ps b)
qed

lemma load_saved:
  assumes "conf w = Some (Doc (JObj (saved_config salt ps blob)))" "\<not> io_fault w (ios w)"
  shows "load_and_validate_config w = (Inr (saved_config salt ps blob), w\<lparr>ios := Suc (ios w)\<rparr>)"
  using assms
  by (simp add: load_and_validate_config_def store_load_def op_simps op_run required_def
      lookup_saved_config lookup_saved_parameters equals_int_def CONFIG_VERSION_def)

section \<open>\<open>initialize\<close>\<close>

lemma vault_initialize_Inr:
  assumes "vault_initialize E pw w = (Inr st, w')"
  obtains salt ps key dek blob where
    "conf w = None" "evaluate (unicode E) (PyStr pw) = None"
    "salt = map (entropy w) [draws w..<draws w + 16]"
    "ps = current_parameters (unicode E) (environ w)"
    "derive_wrapping_key E (PyStr pw) salt ps = Inr key"
    "dek = map (entropy w) [draws w + 16..<draws w + 48]"
    "encrypt_aes_gcm E key dek DEK_WRAP_AAD (w\<lparr>draws := draws w + 48\<rparr>) = (Inr blob, w\<lparr>draws := draws w + 60\<rparr>)"
    "conf w' = Some (Doc (JObj (saved_config salt ps blob)))"
    "vstate w' = clear_without_lock (vstate w)" "db w' = db w"
    "st = \<lparr>initialized = True, status_text = lit ''locked''\<rparr>"
proof -
  let ?salt = "map (entropy w) [draws w..<draws w + 16]"
  let ?ps = "current_parameters (unicode E) (environ w)"
  let ?dek = "map (entropy w) [draws w + 16..<draws w + 48]"
  have st_iff: "status w1 = (Inr r, w2) \<longleftrightarrow> w2 = w1 \<and> fst (status w1) = Inr r" for w1 w2 r
    by (auto simp: status_run)
  from assms obtain key blob w2 w3 where
    c: "conf w = None" and v: "validate_master_passphrase E pw = Inr ()" and
    k: "derive_wrapping_key E (PyStr pw) ?salt ?ps = Inr key" and
    e: "encrypt_aes_gcm E key ?dek DEK_WRAP_AAD (w\<lparr>draws := draws w + 48\<rparr>) = (Inr blob, w2)" and
    s: "save_atomic (config_document ?salt ?ps blob) w2 = (Inr (), w3)" and
    w': "w' = w3\<lparr>vstate := clear_without_lock (vstate w3)\<rparr>" and
    st: "fst (status w') = Inr st"
    by (auto simp: vault_initialize_def bindM_Inr_iff op_simps generate_dek_def crypto_lengths st_iff
        add.commute [of 48] simp del: status_run split: if_splits)
  from encrypt_aes_gcm_Inr [OF e] have w2: "w2 = w\<lparr>draws := draws w + 60\<rparr>" by simp
  from save_atomic_cases [OF s] have f: "only_files w2 w3"
    and c3: "conf w3 = Some (Doc (JObj (saved_config ?salt ?ps blob)))"
    by (simp_all add: sort_json_config del: sort_json.simps)
  show thesis
    using that [OF c _ refl refl k refl] v e w2 c3 w' only_files_fields [OF f] st
    by (auto simp: validate_master_passphrase_def op_simps split: option.splits)
qed

lemma vault_initialize_failed:
  assumes "vault_initialize E pw w = (Inl e, w')"
  shows "w' = w\<lparr>draws := draws w', ios := ios w', conf_tmp := conf_tmp w'\<rparr>
    \<and> (conf_tmp w' = conf_tmp w
       \<or> e = Vault StorageError
         \<and> (conf_tmp w' = None \<or> (\<exists>i \<ge> ios w. ios w' = i + 2 \<and> io_fault w i \<and> io_fault w (i + 1))))"
proof -
  have same: "\<exists>k. v = v\<lparr>draws := k\<rparr>" for v :: world by (rule exI [of _ "draws v"]) simp
  have "(\<exists>k. w' = w\<lparr>draws := k\<rparr>) \<or> (\<exists>data k. save_atomic data (w\<lparr>draws := k\<rparr>) = (Inl e, w'))"
    using assms same
    by (auto simp: vault_initialize_def bindM_Inl_iff op_simps generate_dek_def crypto_lengths
        split: if_splits dest!: encrypt_aes_gcm_world)
  then consider "\<exists>k. w' = w\<lparr>draws := k\<rparr>" | data k where "save_atomic data (w\<lparr>draws := k\<rparr>) = (Inl e, w')"
    by blast
  then show ?thesis
  proof cases
    case 1
    then show ?thesis by auto
  next
    case 2
    note failed = save_atomic_failed [OF this]
    then have "draws w' = k" by (auto dest: arg_cong [where f = draws])
    with failed show ?thesis by auto
  qed
qed

lemma vault_initialize_Inl:
  assumes "vault_initialize E pw w = (Inl e, w')"
  shows "conf w' = conf w \<and> vstate w' = vstate w \<and> db w' = db w"
proof -
  let ?v = "w\<lparr>draws := draws w', ios := ios w', conf_tmp := conf_tmp w'\<rparr>"
  have "w' = ?v" using vault_initialize_failed [OF assms] by blast
  then have "conf w' = conf ?v" "vstate w' = vstate ?v" "db w' = db ?v" by (rule arg_cong)+
  then show ?thesis by simp
qed

lemma vault_initialize_ok:
  assumes "conf w = None" "evaluate (unicode E) (PyStr pw) = None"
    and "\<And>salt. length salt = 16 \<Longrightarrow> \<exists>key. length key = 32 \<and>
      derive_wrapping_key E (PyStr pw) salt (current_parameters (unicode E) (environ w)) = Inr key"
    and "\<And>n. \<not> io_fault w n"
  shows "\<exists>w'. vault_initialize E pw w = (Inr \<lparr>initialized = True, status_text = lit ''locked''\<rparr>, w')
    \<and> io_fault w' = io_fault w"
proof -
  obtain key where k: "length key = 32" "derive_wrapping_key E (PyStr pw)
      (map (entropy w) [draws w..<draws w + 16]) (current_parameters (unicode E) (environ w)) = Inr key"
    using assms(3) [of "map (entropy w) [draws w..<draws w + 16]"] by auto
  have s: "save_atomic data v =
      (Inr (), v\<lparr>conf := Some (Doc (sort_json (JObj data))), conf_tmp := None, ios := ios v + 5\<rparr>)"
    if "io_fault v = io_fault w" for v data
    using save_atomic_ok [of v data] assms(4) that by simp
  show ?thesis
    using assms(1,2) k
    by (simp add: vault_initialize_def op_simps op_run validate_master_passphrase_def generate_dek_def
        crypto_lengths encrypt_aes_gcm_run Let_def s)
qed

section \<open>\<open>unlock\<close>\<close>

lemma store_load_world: "store_load w = (r, w') \<Longrightarrow> \<exists>n. w' = w\<lparr>ios := n\<rparr>"
  by (auto simp: store_load_def op_simps op_run split: if_splits option.splits
      file_content.splits json.splits intro: exI [of _ "ios w"])

lemma load_config_world: "load_and_validate_config w = (r, w') \<Longrightarrow> \<exists>n. w' = w\<lparr>ios := n\<rparr>"
  by (auto simp: load_and_validate_config_def op_simps op_run split: if_splits prod.splits sum.splits
      dest!: store_load_world)

lemma preserves_vault_initialize: "preserves vault_ok (vault_initialize E pw)"
proof (rule preservesI)
  fix w assume ok: "vault_ok w"
  obtain r w' where v: "vault_initialize E pw w = (r, w')" by (rule prod.exhaust)
  show "vault_ok (snd (vault_initialize E pw w))"
  proof (cases r)
    case (Inl e)
    with vault_initialize_Inl [of E pw w e w'] v ok show ?thesis by (simp add: vault_ok_def)
  next
    case (Inr st)
    with v have r: "vault_initialize E pw w = (Inr st, w')" by simp
    then have "vstate w' = clear_without_lock (vstate w)" by (rule vault_initialize_Inr)
    with v ok show ?thesis by (simp add: vault_ok_def vault_ok_clear dek_length_ok_def)
  qed
qed

lemma preserves_vault_reads:
  "preserves vault_ok load_and_validate_config" "preserves vault_ok status" "preserves vault_ok is_initialized"
proof -
  show "preserves vault_ok load_and_validate_config"
  proof (rule preservesI)
    fix w assume "vault_ok w"
    moreover obtain r w' where "load_and_validate_config w = (r, w')" by (rule prod.exhaust)
    ultimately show "vault_ok (snd (load_and_validate_config w))"
      using load_config_world [of w r w'] by (auto simp: vault_ok_def)
  qed
qed (simp_all add: preserves_def op_simps)

lemma preserves_vault_unlock: "preserves vault_ok (vault_unlock E pw)"
  unfolding vault_unlock_def
  by (intro preserves_rules preserves_vault_reads preserves_state_lock preserves_set_dek)

lemma preserves_vault_lock: "preserves vault_ok vault_lock"
  unfolding vault_lock_def by (intro preserves_rules preserves_vault_reads preserves_state_lock)

text \<open>No operation of the vault touches the database.\<close>

lemma keeps_db_files: "keeps (\<lambda>w. g (db w)) (save_atomic data)" "keeps (\<lambda>w. g (db w)) load_and_validate_config"
  by (rule keepsI, auto dest!: save_atomic_cases load_config_world only_files_fields)+

lemma keeps_db_vault:
  "keeps (\<lambda>w. g (db w)) (vault_initialize E pw)" "keeps (\<lambda>w. g (db w)) (vault_unlock E pw)"
  "keeps (\<lambda>w. g (db w)) vault_lock" "keeps f status"
proof -
  have s: "keeps f status" "keeps f is_initialized" "keeps (\<lambda>w. g (db w)) state_lock"
    "keeps (\<lambda>w. g (db w)) (set_dek dek)" for f :: "world \<Rightarrow> 'd" and g :: "database \<Rightarrow> 'e" and dek
    by (simp_all add: keeps_def op_simps set_dek_def)
  show "keeps (\<lambda>w. g (db w)) (vault_initialize E pw)"
    unfolding vault_initialize_def generate_dek_def
    by (intro keeps_rules s keeps_db_files keeps_encrypt clocklessI)
  show "keeps (\<lambda>w. g (db w)) (vault_unlock E pw)"
    unfolding vault_unlock_def by (intro keeps_rules s keeps_db_files)
  show "keeps (\<lambda>w. g (db w)) vault_lock" unfolding vault_lock_def by (intro keeps_rules s)
  show "keeps f status" by (rule s)
qed

lemma vault_unlock_Inl:
  assumes "vault_unlock E pw w = (Inl e, w')"
  shows "db w' = db w \<and> conf w' = conf w \<and>
    (if conf w = None then e = Vault VaultNotInitializedError \<and> w' = w
     else vstate w' = clear_without_lock (vstate w))"
  using assms
  by (auto simp: vault_unlock_def bindM_Inl_iff op_simps set_dek_def split: if_splits
      dest!: load_config_world)

lemma vault_unlock_Inr:
  assumes "vault_unlock E pw w = (Inr st, w')"
  shows "\<exists>config dek. conf w = Some (Doc (JObj config)) \<and> unwrap_dek E pw config = Inr dek
    \<and> length dek = 32 \<and> vs_dek (vstate w') = Some dek \<and> db w' = db w \<and> conf w' = conf w
    \<and> st = \<lparr>initialized = True, status_text = lit ''unlocked''\<rparr>"
proof -
  have u: "unwrap_dek E pw c = Inr d" if "unlock_except (unwrap_dek E pw c) = Inr d" for c d
    using that by (cases "unwrap_dek E pw c" rule: unlock_except.cases) (auto split: if_splits)
  have l: "conf w1 = Some (Doc (JObj config)) \<and> (\<exists>n. w2 = w1\<lparr>ios := n\<rparr>)"
    if "load_and_validate_config w1 = (Inr config, w2)" for w1 w2 config
    using that
    by (auto simp: load_and_validate_config_def store_load_def bindM_Inr_iff catchM_Inr_iff op_simps
        split: if_splits option.splits file_content.splits json.splits)
  from assms show ?thesis
    by (auto simp: vault_unlock_def bindM_Inr_iff op_simps set_dek_def split: if_splits
        dest!: l u)
qed

lemma vault_unlock_saved:
  assumes "conf w = Some (Doc (JObj (saved_config salt ps blob)))" "\<not> io_fault w (ios w)"
    and "derive_wrapping_key E (PyStr pw) salt ps = Inr key"
    and "decrypt_aes_gcm E key blob DEK_WRAP_AAD = Inr dek" "length dek = 32"
  shows "vault_unlock E pw w =
    (Inr \<lparr>initialized = True, status_text = lit ''unlocked''\<rparr>,
     w\<lparr>ios := Suc (ios w), vstate := (clear_without_lock (vstate w))\<lparr>vs_dek := Some dek\<rparr>\<rparr>)"
proof -
  let ?w = "w\<lparr>vstate := clear_without_lock (vstate w)\<rparr>"
  have l: "load_and_validate_config ?w = (Inr (saved_config salt ps blob), ?w\<lparr>ios := Suc (ios w)\<rparr>)"
    using load_saved [of ?w] assms(1,2) by simp
  show ?thesis
    using assms(1,3,4,5) l
    by (simp add: vault_unlock_def op_simps op_run set_dek_def unwrap_saved clear_locked)
qed

lemma unlock_after_initialize:
  assumes "aead_ok E" "vault_initialize E pw w = (Inr st, w')"
    and "conf v = conf w'" "\<not> io_fault v (ios v)"
  shows "\<exists>v'. vault_unlock E pw v = (Inr \<lparr>initialized = True, status_text = lit ''unlocked''\<rparr>, v')
    \<and> vs_dek (vstate v') = Some (map (entropy w) [draws w + 16..<draws w + 48])
    \<and> conf v' = conf v \<and> db v' = db v"
proof -
  from assms(2) obtain salt ps key dek blob where
    i: "derive_wrapping_key E (PyStr pw) salt ps = Inr key"
    "dek = map (entropy w) [draws w + 16..<draws w + 48]"
    "encrypt_aes_gcm E key dek DEK_WRAP_AAD (w\<lparr>draws := draws w + 48\<rparr>) = (Inr blob, w\<lparr>draws := draws w + 60\<rparr>)"
    "conf w' = Some (Doc (JObj (saved_config salt ps blob)))"
    by (rule vault_initialize_Inr) blast
  have "decrypt_aes_gcm E key blob DEK_WRAP_AAD = Inr dek" by (rule decrypt_encrypt [OF assms(1) i(3)])
  moreover have "length dek = 32" by (simp add: i(2))
  ultimately show ?thesis
    using vault_unlock_saved [of v salt ps blob E pw key dek] assms(3,4) i by simp
qed

text \<open>The start state of the examples can be initialised.\<close>

lemma toy_initialize:
  "\<exists>w'. vault_initialize toy toy_passphrase toy_world =
     (Inr \<lparr>initialized = True, status_text = lit ''locked''\<rparr>, w') \<and> io_fault w' = (\<lambda>n. False)"
proof -
  have n: "toy_passphrase \<noteq> []" "list_all scalar toy_passphrase"
    by (simp_all add: toy_passphrase_def text_simps scalar_def)
  have "\<exists>w'. vault_initialize toy toy_passphrase toy_world =
     (Inr \<lparr>initialized = True, status_text = lit ''locked''\<rparr>, w') \<and> io_fault w' = io_fault toy_world"
  proof (rule vault_initialize_ok)
    show "\<exists>key. length key = 32 \<and> derive_wrapping_key toy (PyStr toy_passphrase) salt
      (current_parameters (unicode toy) (environ toy_world)) = Inr key" if "length salt = 16" for salt
      using toy_derive [OF that n] by simp
  qed (simp_all add: toy_passphrase_ok)
  then show ?thesis by simp
qed

section \<open>Properties\<close>

text \<open>C16: initialising and unlocking with the same passphrase installs the DEK that was
  drawn, whatever happened in between (time, environment variables, other data) as long as
  the configuration file is the one \<open>initialize\<close> wrote; until then the vault is locked.\<close>

theorem init_then_unlock:
  assumes "aead_ok E" "vault_initialize E pw w = (Inr st, w')"
    and "conf v = conf w'" "\<not> io_fault v (ios v)"
  shows "st = \<lparr>initialized = True, status_text = lit ''locked''\<rparr> \<and> vs_dek (vstate w') = None
    \<and> (\<exists>v'. vault_unlock E pw v = (Inr \<lparr>initialized = True, status_text = lit ''unlocked''\<rparr>, v')
        \<and> vs_dek (vstate v') = Some (map (entropy w) [draws w + 16..<draws w + 48])
        \<and> conf v' = conf v \<and> db v' = db v)"
proof -
  have "st = \<lparr>initialized = True, status_text = lit ''locked''\<rparr> \<and> vs_dek (vstate w') = None"
    by (rule vault_initialize_Inr [OF assms(2)]) simp
  with unlock_after_initialize [OF assms] show ?thesis by simp
qed

theorem init_then_unlock_witness:
  "\<exists>w' v'. fst (vault_initialize toy toy_passphrase toy_world) =
      Inr \<lparr>initialized = True, status_text = lit ''locked''\<rparr>
    \<and> vault_unlock toy toy_passphrase w' = (Inr \<lparr>initialized = True, status_text = lit ''unlocked''\<rparr>, v')
    \<and> vs_dek (vstate v') = Some (map (entropy toy_world) [16..<48])"
proof -
  obtain w' where w: "vault_initialize toy toy_passphrase toy_world =
     (Inr \<lparr>initialized = True, status_text = lit ''locked''\<rparr>, w')" "io_fault w' = (\<lambda>n. False)"
    using toy_initialize by blast
  then show ?thesis using init_then_unlock [OF toy_aead_ok w(1), of w'] by auto
qed

text \<open>C26: an unlock that is accepted opened, under the key derived from the given passphrase,
  exactly the ciphertext the configuration holds: a different passphrase is accepted only if
  the AEAD maps both keys to the same output.\<close>

theorem unlock_accepts_only:
  assumes "aead_sound E" "vault_initialize E pw w = (Inr st, w')"
    and "conf v = conf w'" "vault_unlock E other v = (Inr st', v')"
  shows "\<exists>salt ps nonce key key' dek'.
    derive_wrapping_key E (PyStr pw) salt ps = Inr key
    \<and> derive_wrapping_key E (PyStr other) salt ps = Inr key'
    \<and> vs_dek (vstate v') = Some dek'
    \<and> aead_encrypt E key' nonce dek' DEK_WRAP_AAD =
      aead_encrypt E key nonce (map (entropy w) [draws w + 16..<draws w + 48]) DEK_WRAP_AAD"
proof -
  from assms(2) obtain salt ps key dek blob where
    i: "derive_wrapping_key E (PyStr pw) salt ps = Inr key"
    "dek = map (entropy w) [draws w + 16..<draws w + 48]"
    "encrypt_aes_gcm E key dek DEK_WRAP_AAD (w\<lparr>draws := draws w + 48\<rparr>) = (Inr blob, w\<lparr>draws := draws w + 60\<rparr>)"
    "conf w' = Some (Doc (JObj (saved_config salt ps blob)))"
    by (rule vault_initialize_Inr) blast
  from vault_unlock_Inr [OF assms(4)] assms(3) i(4) obtain dek' where
    d: "unwrap_dek E other (saved_config salt ps blob) = Inr dek'" "vs_dek (vstate v') = Some dek'"
    by auto
  from d(1) obtain key' where k: "derive_wrapping_key E (PyStr other) salt ps = Inr key'"
    "decrypt_aes_gcm E key' blob DEK_WRAP_AAD = Inr dek'"
    by (auto simp: unwrap_saved bindR_Inr_iff)
  from decrypt_sound [OF assms(1) k(2)] encrypt_aes_gcm_Inr [OF i(3)] k d i show ?thesis by metis
qed

theorem unlock_accepts_only_witness:
  "\<exists>(v' :: world) dek'. vs_dek (vstate v') = Some dek' \<and> (\<exists>nonce key key'.
    aead_encrypt toy key' nonce dek' DEK_WRAP_AAD =
      aead_encrypt toy key nonce (map (entropy toy_world) [16..<48]) DEK_WRAP_AAD)"
proof -
  obtain w' where w: "vault_initialize toy toy_passphrase toy_world =
     (Inr \<lparr>initialized = True, status_text = lit ''locked''\<rparr>, w')" "io_fault w' = (\<lambda>n. False)"
    using toy_initialize by blast
  have "\<exists>st' v'. vault_unlock toy toy_passphrase w' = (Inr st', v')"
    using unlock_after_initialize [OF toy_aead_ok w(1) refl] w(2) by auto
  then obtain v' st' where "vault_unlock toy toy_passphrase w' = (Inr st', v')" by blast
  from unlock_accepts_only [OF toy_aead_sound w(1) refl this]
  obtain nonce key key' dek' where "vs_dek (vstate v') = Some dek'"
    "aead_encrypt toy key' nonce dek' DEK_WRAP_AAD =
      aead_encrypt toy key nonce (map (entropy toy_world) [16..<48]) DEK_WRAP_AAD"
    unfolding toy_world_fields add_0 by (elim exE conjE)
  then show ?thesis by blast
qed

text \<open>C17: an unlock that fails on an initialised vault leaves it locked, also when it was
  unlocked before, and changes neither the configuration nor the database.\<close>

theorem failed_unlock_locks:
  assumes "vault_unlock E pw w = (Inl e, w')" "conf w \<noteq> None"
  shows "vs_dek (vstate w') = None \<and> fst (get_dek w') = Inl (Vault VaultLockedError)
    \<and> conf w' = conf w \<and> db w' = db w"
  using vault_unlock_Inl [OF assms(1)] assms(2) by (simp add: get_dek_run)

theorem failed_unlock_locks_witness:
  "vs_dek (vstate (snd (vault_unlock toy toy_passphrase (toy_unlocked\<lparr>conf := Some BadJson\<rparr>)))) = None"
proof -
  have "vault_unlock toy toy_passphrase (toy_unlocked\<lparr>conf := Some BadJson\<rparr>) =
     (Inl (Vault VaultConfigCorruptedError),
      snd (vault_unlock toy toy_passphrase (toy_unlocked\<lparr>conf := Some BadJson\<rparr>)))"
    by (simp add: vault_unlock_def op_simps op_run load_and_validate_config_def store_load_def
        toy_unlocked_def)
  from failed_unlock_locks [OF this] show ?thesis by simp
qed

text \<open>Every operation of the vault keeps the DEK buffer at 32 bytes and overwrites with
  zeros every buffer it lets go of; after \<open>lock\<close> no DEK is held.\<close>

theorem dek_buffer_invariant:
  "preserves vault_ok (vault_initialize E pw) \<and> preserves vault_ok (vault_unlock E pw)
   \<and> preserves vault_ok vault_lock \<and> vs_dek (vstate (snd (vault_lock w))) = None"
  using preserves_vault_initialize preserves_vault_unlock preserves_vault_lock
  by (simp add: vault_lock_run Let_def)

text \<open>C30: whichever of its file-system calls a crash interrupts, saving leaves the old
  configuration or the complete new one, never a partial file; and a call that reports
  failure left the old one.\<close>

theorem save_crash_safe:
  "conf (snd (run_steps (take n (save_steps data)) w))
     \<in> {conf w, Some (Doc (sort_json (JObj data)))}
   \<and> conf (snd (save_atomic data w))
     = (if fst (save_atomic data w) = Inr () then Some (Doc (sort_json (JObj data))) else conf w)
   \<and> db (snd (save_atomic data w)) = db w"
proof -
  obtain r w' where s: "run_steps (take n (save_steps data)) w = (r, w')"
    by (cases "run_steps (take n (save_steps data)) w")
  obtain r1 w1 where a: "save_atomic data w = (r1, w1)" by (cases "save_atomic data w")
  show ?thesis
    using save_prefix_cases [OF s] save_atomic_cases [OF a] only_files_fields [of w w1] s a
    by (auto simp del: sort_json.simps)
qed

text \<open>C31: an initialise request that runs by itself. On an initialised vault it is refused, a weak
  master passphrase is refused, both before anything is drawn, read or written. Any failed
  initialisation (a refused key derivation, a wrapping key of the wrong length, a fault of the file
  system) leaves configuration, database, memory and everything else as they were, except for random
  bytes drawn and the temporary file: this is as it was or gone after a failed write, unless the write
  and then the attempt to remove the file both met a fault.\<close>

theorem initialize_errors:
  "(conf w \<noteq> None \<longrightarrow> vault_initialize E pw w = (Inl (Vault VaultAlreadyInitializedError), w))
   \<and> (conf w = None \<and> evaluate (unicode E) (PyStr pw) = Some issue \<longrightarrow>
       vault_initialize E pw w = (Inl (Vault (InvalidMasterPassphrasePolicyError (issue_code issue))), w))
   \<and> (\<forall>e w'. vault_initialize E pw w = (Inl e, w') \<longrightarrow>
        conf w' = conf w \<and> vstate w' = vstate w \<and> db w' = db w
        \<and> w' = w\<lparr>draws := draws w', ios := ios w', conf_tmp := conf_tmp w'\<rparr>
        \<and> (conf_tmp w' = conf_tmp w
           \<or> e = Vault StorageError
             \<and> (conf_tmp w' = None \<or> (\<exists>i \<ge> ios w. ios w' = i + 2 \<and> io_fault w i \<and> io_fault w (i + 1)))))"
proof (intro conjI allI impI)
  show "vault_initialize E pw w = (Inl (Vault VaultAlreadyInitializedError), w)" if "conf w \<noteq> None"
    using that by (simp add: vault_initialize_def op_simps op_run)
  show "vault_initialize E pw w = (Inl (Vault (InvalidMasterPassphrasePolicyError (issue_code issue))), w)"
    if "conf w = None \<and> evaluate (unicode E) (PyStr pw) = Some issue"
    using that by (simp add: vault_initialize_def op_simps op_run validate_master_passphrase_def)
qed (use vault_initialize_Inl vault_initialize_failed in blast)+

theorem initialize_errors_witness:
  "vault_initialize toy (lit ''short'') toy_world =
     (Inl (Vault (InvalidMasterPassphrasePolicyError (lit ''TOO_SHORT''))), toy_world)"
proof -
  let ?issue = "the (evaluate toy_unicode (PyStr (lit ''short'')))"
  have "evaluate toy_unicode (PyStr (lit ''short'')) = Some ?issue \<and> issue_code ?issue = lit ''TOO_SHORT''"
    by code_simp
  then show ?thesis
    using initialize_errors [of toy_world toy "lit ''short''" ?issue] by simp
qed

text \<open>With \<open>MINIVAULT_KDF_HASH_LENGTH\<close> set to anything but 32 (the settings accept every
  larger value) the vault can never be initialised: the wrapping key has the wrong length
  for AES-256.\<close>

theorem hash_length_blocks_initialize:
  assumes "argon2_ok E" "kdf_hash_length (load (unicode E) (environ w)) \<noteq> 32"
  shows "\<exists>e w'. vault_initialize E pw w = (Inl e, w')"
proof (rule ccontr)
  assume "\<not> ?thesis"
  then obtain st w' where "vault_initialize E pw w = (Inr st, w')"
    by (metis old.sum.exhaust surj_pair)
  then obtain salt ps key dek blob where
    i: "ps = current_parameters (unicode E) (environ w)"
    "derive_wrapping_key E (PyStr pw) salt ps = Inr key"
    "encrypt_aes_gcm E key dek DEK_WRAP_AAD (w\<lparr>draws := draws w + 48\<rparr>) = (Inr blob, w\<lparr>draws := draws w + 60\<rparr>)"
    by (rule vault_initialize_Inr) blast
  from derive_wrapping_key_length [OF assms(1) i(2)] encrypt_aes_gcm_Inr [OF i(3)] i(1) assms(2)
  show False by (simp add: current_parameters_def Let_def)
qed

theorem hash_length_blocks_initialize_witness:
  "\<exists>e w'. vault_initialize toy toy_passphrase
     (toy_world\<lparr>environ := (\<lambda>k. None)(PREFIX @ lit ''KDF_HASH_LENGTH'' \<mapsto> lit ''64'')\<rparr>) = (Inl e, w')"
proof (rule hash_length_blocks_initialize [OF toy_argon2_ok])
  have "kdf_hash_length (load toy_unicode
     ((\<lambda>k. None)(PREFIX @ lit ''KDF_HASH_LENGTH'' \<mapsto> lit ''64''))) = 64" by code_simp
  then show "kdf_hash_length (load (unicode toy) (environ (toy_world\<lparr>environ :=
      (\<lambda>k. None)(PREFIX @ lit ''KDF_HASH_LENGTH'' \<mapsto> lit ''64'')\<rparr>))) \<noteq> 32" by simp
qed

end
