(* ===== verification/DbSchema.thy ===== *)
theory DbSchema
  imports World
begin

text \<open>
  The schema part of \<open>src/storage/database.py\<close>: which tables exist, the version recorded
  in \<open>schema_metadata\<close>, the guard against databases of an older schema and
  \<open>Database.initialize\<close>. The transaction helpers are in \<open>World\<close>.
\<close>

definition SCHEMA_VERSION :: int where "SCHEMA_VERSION = 2"

definition DATABASE_SCHEMA :: "pystr list" where
  "DATABASE_SCHEMA =
     [lit ''schema_metadata'', lit ''users'', lit ''sessions'', lit ''kv_records'',
      lit ''kv_versions'', lit ''named_keys'', lit ''named_key_versions'', lit ''audit_logs'']"

definition VERSIONED_TABLES :: "pystr list" where
  "VERSIONED_TABLES = [lit ''kv_records'', lit ''named_keys'', lit ''audit_logs'']"

definition guard_legacy_schema :: "unidata \<Rightarrow> database \<Rightarrow> unit res" where
  "guard_legacy_schema U d =
     (if \<not> list_ex (\<lambda>t. List.member (table_names d) t) VERSIONED_TABLES then Inr ()
      else if List.member (table_names d) (lit ''schema_metadata'') then
        (case schema_metadata d (lit ''schema_version'') of
           None \<Rightarrow> Inl (Vault LegacySchemaError)
         | Some v \<Rightarrow>
             bindR (py_int U v) (\<lambda>n.
               if SCHEMA_VERSION \<le> n then Inr () else Inl (Vault LegacySchemaError)))
      else Inl (Vault LegacySchemaError))"

definition create_missing_tables :: "database \<Rightarrow> database" where
  "create_missing_tables d =
     d\<lparr>table_names :=
         table_names d @ filter (\<lambda>t. \<not> List.member (table_names d) t) DATABASE_SCHEMA\<rparr>"

text \<open>
  The guard only reads; \<open>executescript\<close> commits what is pending and lets every statement of the
  script commit by itself; the version is written in a transaction of its own after that.
\<close>

definition db_initialize :: "unidata \<Rightarrow> unit action" where
  "db_initialize U =
     bindM io_call (\<lambda>_.
     bindM (connection (bindM (query (guard_legacy_schema U)) liftR)) (\<lambda>_.
     bindM (connection (execute_update create_missing_tables)) (\<lambda>_.
     connection (execute_update (\<lambda>d.
       d\<lparr>schema_metadata :=
           (schema_metadata d)(lit ''schema_version'' \<mapsto> dec_int SCHEMA_VERSION)\<rparr>)))))"

section \<open>Lemmas\<close>

definition current_schema :: "database \<Rightarrow> bool" where
  "current_schema d \<longleftrightarrow>
     set DATABASE_SCHEMA \<subseteq> set (table_names d)
     \<and> schema_metadata d (lit ''schema_version'') = Some (dec_int SCHEMA_VERSION)"

definition same_data :: "database \<Rightarrow> database \<Rightarrow> bool" where
  "same_data d d' \<longleftrightarrow>
     users d' = users d \<and> sessions d' = sessions d \<and> kv_records d' = kv_records d
     \<and> kv_versions d' = kv_versions d \<and> named_keys d' = named_keys d
     \<and> named_key_versions d' = named_key_versions d \<and> audit_logs d' = audit_logs d"

lemma py_int_schema_version: "py_int U (dec_int SCHEMA_VERSION) = Inr 2"
  using py_int_dec_nat [of 2 U] int_digits_okI [of 2 1]
  by (simp add: dec_int_def SCHEMA_VERSION_def)

lemma guard_current: "current_schema d \<Longrightarrow> guard_legacy_schema U d = Inr ()"
  by (auto simp: guard_legacy_schema_def current_schema_def DATABASE_SCHEMA_def
      py_int_schema_version SCHEMA_VERSION_def [symmetric])

lemma guard_fresh: "table_names d = [] \<Longrightarrow> guard_legacy_schema U d = Inr ()"
  by (simp add: guard_legacy_schema_def list_ex_iff VERSIONED_TABLES_def)

lemma create_missing_idem:
  assumes "set DATABASE_SCHEMA \<subseteq> set (table_names d)" shows "create_missing_tables d = d"
proof -
  have "filter (\<lambda>t. t \<notin> set (table_names d)) DATABASE_SCHEMA = []"
    using assms by (auto simp: filter_empty_conv)
  then show ?thesis by (simp add: create_missing_tables_def)
qed

lemma create_missing_all: "set DATABASE_SCHEMA \<subseteq> set (table_names (create_missing_tables d))"
  by (auto simp: create_missing_tables_def)

lemma db_initialize_run:
  "db_initialize U w =
     (let w1 = w\<lparr>ios := Suc (ios w)\<rparr>
      in if io_fault w (ios w) then (Inl (Py OSError), w1)
         else case guard_legacy_schema U (db w) of
           Inl e \<Rightarrow> (Inl e, w1)
         | Inr _ \<Rightarrow> (Inr (), w1\<lparr>db := (create_missing_tables (db w))\<lparr>schema_metadata :=
               (schema_metadata (db w))(lit ''schema_version'' \<mapsto> dec_int SCHEMA_VERSION)\<rparr>\<rparr>))"
  by (simp add: db_initialize_def connection_def op_simps op_run create_missing_tables_def Let_def split: sum.split)

lemma db_initialize_ok:
  assumes "db_initialize U w = (Inr (), w')"
  shows "current_schema (db w') \<and> same_data (db w) (db w')"
  using assms create_missing_all [of "db w"]
  by (auto simp: db_initialize_run Let_def current_schema_def same_data_def create_missing_tables_def
      split: if_splits sum.splits)

section \<open>Property\<close>

text \<open>What \<open>initialize\<close> should answer, from the directory, the tables and the recorded version alone:
  it refuses a database that has one of the three tables whose shape changed and does not record
  version 2 or later; a recorded version that is no number is an error of \<open>int\<close>.\<close>

definition start_answer :: "unidata \<Rightarrow> bool \<Rightarrow> pystr list \<Rightarrow> pystr option \<Rightarrow> unit res" where
  "start_answer U made tables version =
     (if \<not> made then Inl (Py OSError)
      else if lit ''kv_records'' \<notin> set tables \<and> lit ''named_keys'' \<notin> set tables \<and> lit ''audit_logs'' \<notin> set tables
      then Inr ()
      else if lit ''schema_metadata'' \<notin> set tables then Inl (Vault LegacySchemaError)
      else case version of
        None \<Rightarrow> Inl (Vault LegacySchemaError)
      | Some v \<Rightarrow> bindR (py_int U v) (\<lambda>n. if n < 2 then Inl (Vault LegacySchemaError) else Inr ()))"

lemma guard_answer: "guard_legacy_schema U d = start_answer U True (table_names d) (schema_metadata d (lit ''schema_version''))"
proof -
  have "(\<lambda>n :: int. if n < 2 then Inl (Vault LegacySchemaError) else Inr ()) =
      (\<lambda>n. if 2 \<le> n then Inr () else Inl (Vault LegacySchemaError))" by auto
  then show ?thesis
    by (auto simp: guard_legacy_schema_def start_answer_def VERSIONED_TABLES_def SCHEMA_VERSION_def
        split: option.split)
qed

text \<open>C34: \<open>Database.initialize\<close> fails if the directory cannot be made, refuses a database of an older
  schema (one that has a table whose shape changed between the versions, and no recorded version or
  one below 2), fails on a recorded version that is no number, and accepts everything else, a new file
  and a later version included. When it fails the database is untouched. When it succeeds the database
  has all the tables it had and all of the schema, the recorded version is 2 (a later one is
  overwritten), and no row and no other entry of the metadata has changed. Failures of SQLite itself
  are not modelled.\<close>

theorem schema_initialize:
  "\<exists>r w'. db_initialize U w = (r, w')
    \<and> r = start_answer U (\<not> io_fault w (ios w)) (table_names (db w)) (schema_metadata (db w) (lit ''schema_version''))
    \<and> (case r of
         Inl _ \<Rightarrow> db w' = db w
       | Inr _ \<Rightarrow> set (table_names (db w')) = set (table_names (db w)) \<union> set DATABASE_SCHEMA
           \<and> schema_metadata (db w') = (schema_metadata (db w))(lit ''schema_version'' \<mapsto> lit ''2'')
           \<and> same_data (db w) (db w'))"
proof -
  have two: "dec_int SCHEMA_VERSION = lit ''2''" by code_simp
  let ?g = "guard_legacy_schema U (db w)"
  show ?thesis
  proof (cases "io_fault w (ios w)")
    case True
    then show ?thesis by (simp add: db_initialize_run Let_def start_answer_def)
  next
    case False
    with two show ?thesis
      by (cases ?g) (auto simp: db_initialize_run Let_def guard_answer [symmetric] create_missing_tables_def same_data_def)
  qed
qed

end
