(* ===== verification/HashChain.thy ===== *)
theory HashChain
  imports Prelude
begin

text \<open>
  The contract of a hash chain, independent of what is hashed: \<open>link\<close> commits a head to the
  next entry, entries carry their position, and two different commitments with the same
  result clash. Two numbered chains with the same head are then the same chain, or an entry of
  one clashes with an entry of the other.
\<close>

fun chain_from :: "('h \<Rightarrow> 'e \<Rightarrow> 'h option) \<Rightarrow> 'h \<Rightarrow> 'e list \<Rightarrow> 'h option" where
  "chain_from link h [] = Some h"
| "chain_from link h (e # es) =
     (case link h e of None \<Rightarrow> None | Some h' \<Rightarrow> chain_from link h' es)"

text \<open>The commitments of a chain: each entry with the head it is linked to.\<close>

fun commitments :: "('h \<Rightarrow> 'e \<Rightarrow> 'h option) \<Rightarrow> 'h \<Rightarrow> 'e list \<Rightarrow> ('h \<times> 'e) list" where
  "commitments link h [] = []"
| "commitments link h (e # es) =
     (h, e) # (case link h e of None \<Rightarrow> [] | Some h' \<Rightarrow> commitments link h' es)"

lemma commitments_snoc:
  "chain_from link h es = Some y \<Longrightarrow> commitments link h (es @ [e]) = commitments link h es @ [(y, e)]"
  by (induction es arbitrary: h) (auto split: option.splits)

lemma chain_from_append:
  "chain_from link h (es @ fs) =
     (case chain_from link h es of None \<Rightarrow> None | Some h' \<Rightarrow> chain_from link h' fs)"
  by (induction es arbitrary: h) (auto split: option.splits)

definition numbered :: "('e \<Rightarrow> int) \<Rightarrow> 'e list \<Rightarrow> bool" where
  "numbered pos es \<longleftrightarrow> map pos es = map (\<lambda>n. int n + 1) [0..<length es]"

lemma numbered_Nil [simp]: "numbered pos []"
  by (simp add: numbered_def)

lemma numbered_snoc: "numbered pos (es @ [e]) \<longleftrightarrow> numbered pos es \<and> pos e = int (length es) + 1"
  by (auto simp: numbered_def)

locale hash_chain =
  fixes link :: "'h \<Rightarrow> 'e \<Rightarrow> 'h option"
    and pos :: "'e \<Rightarrow> int"
    and ok :: "'h \<Rightarrow> bool"
    and clash :: "'h \<times> 'e \<Rightarrow> 'h \<times> 'e \<Rightarrow> bool"
  assumes link_ok: "link h e = Some h' \<Longrightarrow> ok h'"
    and link_binds: "ok h \<Longrightarrow> ok h' \<Longrightarrow> link h e = Some x \<Longrightarrow> link h' e' = Some x \<Longrightarrow>
      clash (h, e) (h', e') \<or> h = h' \<and> e = e'"
begin

lemma chain_ok: "ok h \<Longrightarrow> chain_from link h es = Some x \<Longrightarrow> ok x"
  by (induction es arbitrary: h) (auto split: option.splits intro: link_ok)

lemma chain_snoc:
  "chain_from link h (es @ [e]) = Some x \<longleftrightarrow>
     (\<exists>y. chain_from link h es = Some y \<and> link y e = Some x)"
  by (auto simp: chain_from_append split: option.splits)

text \<open>Some commitment of the first chain clashes with one of the second.\<close>

definition clashing :: "'h \<Rightarrow> 'e list \<Rightarrow> 'e list \<Rightarrow> bool" where
  "clashing h es fs \<longleftrightarrow>
     (\<exists>c \<in> set (commitments link h es). \<exists>c' \<in> set (commitments link h fs). clash c c')"

lemma clashing_prefix:
  "chain_from link h es = Some y \<Longrightarrow> chain_from link h fs = Some z \<Longrightarrow> clashing h es fs \<Longrightarrow>
   clashing h (es @ [e]) (fs @ [f])"
  by (auto simp: clashing_def commitments_snoc)

lemma clashing_last:
  "chain_from link h es = Some y \<Longrightarrow> chain_from link h fs = Some z \<Longrightarrow> clash (y, e) (z, f) \<Longrightarrow>
   clashing h (es @ [e]) (fs @ [f])"
  by (auto simp: clashing_def commitments_snoc)

text \<open>Equal heads, equal lengths.\<close>

lemma same_length_binds:
  assumes "ok h" "length es = length fs"
    and "chain_from link h es = Some x" "chain_from link h fs = Some x"
  shows "clashing h es fs \<or> es = fs"
  using assms(2-)
proof (induction es arbitrary: fs x rule: rev_induct)
  case Nil
  then show ?case by simp
next
  case (snoc e es)
  then obtain f fs' where fs: "fs = fs' @ [f]" by (cases fs rule: rev_cases) auto
  from snoc.prems obtain y z where
    y: "chain_from link h es = Some y" "link y e = Some x" and
    z: "chain_from link h fs' = Some z" "link z f = Some x"
    by (auto simp: fs chain_snoc)
  from link_binds [OF chain_ok [OF assms(1) y(1)] chain_ok [OF assms(1) z(1)] y(2) z(2)]
  consider "clash (y, e) (z, f)" | "y = z" "e = f" by auto
  then show ?case
  proof cases
    case 1
    then show ?thesis using clashing_last [OF y(1) z(1)] fs by blast
  next
    case 2
    have "length es = length fs'" using snoc.prems(1) fs by simp
    from snoc.IH [OF this y(1)] z(1) 2 fs clashing_prefix [OF y(1) z(1)] show ?thesis by auto
  qed
qed

text \<open>Equal heads and numbered entries.\<close>

lemma head_binds:
  assumes "ok h" "numbered pos es" "numbered pos fs" "es \<noteq> []" "fs \<noteq> []"
    and "chain_from link h es = Some x" "chain_from link h fs = Some x"
  shows "clashing h es fs \<or> es = fs"
proof -
  obtain es' e fs' f where s: "es = es' @ [e]" "fs = fs' @ [f]"
    using assms(4,5) by (cases es rule: rev_cases; cases fs rule: rev_cases) auto
  from assms(6,7) obtain y z where
    y: "chain_from link h es' = Some y" "link y e = Some x" and
    z: "chain_from link h fs' = Some z" "link z f = Some x"
    by (auto simp: s chain_snoc)
  from link_binds [OF chain_ok [OF assms(1) y(1)] chain_ok [OF assms(1) z(1)] y(2) z(2)]
  consider "clash (y, e) (z, f)" | "e = f" by auto
  then show ?thesis
  proof cases
    case 1
    then show ?thesis using clashing_last [OF y(1) z(1)] s by simp
  next
    case 2
    with assms(2,3) have "length es = length fs" by (simp add: s numbered_snoc)
    from same_length_binds [OF assms(1) this assms(6,7)] show ?thesis .
  qed
qed

end

end
