(* ===== verification/AuditLog.thy ===== *)
theory AuditLog
  imports Sample SortedJson HashChain
begin

text \<open>
  The tamper-evident audit log: \<open>src/audit/chain.py\<close> (what an entry commits to, and the
  recomputation of the chain) and \<open>src/audit/repository.py\<close> (appending in an exclusive
  transaction, the caller's own entries, verification against the stored head).
\<close>

section \<open>\<open>chain.py\<close>\<close>

definition GENESIS_HASH :: pystr where "GENESIS_HASH = replicate 64 48"

definition HASHED_FIELDS :: "pystr list" where
  "HASHED_FIELDS =
     [lit ''sequence'', lit ''requester_email'', lit ''action'', lit ''target_type'',
      lit ''target_identifier'', lit ''result'', lit ''created_at'']"

definition hexdigest :: "bytes \<Rightarrow> pystr" where
  "hexdigest bs = concat (map (\<lambda>b. [hex_digit (unat b div 16), hex_digit (unat b mod 16)]) bs)"

definition json_option :: "pystr option \<Rightarrow> json" where
  "json_option v = (case v of None \<Rightarrow> JNull | Some s \<Rightarrow> JStr s)"

text \<open>The pre-image of an entry hash.\<close>

definition chain_material :: "pystr \<Rightarrow> (pystr \<times> json) list \<Rightarrow> bytes res" where
  "chain_material prev_hash entry =
     (let payload = map (\<lambda>field. (field, case map_of entry field of None \<Rightarrow> JNull | Some v \<Rightarrow> v))
                        HASHED_FIELDS
      in bindR (json_dumps (sort_json (JObj payload))) (\<lambda>canonical.
         utf8_encode (prev_hash @ lit ''|'' @ canonical)))"

definition compute_entry_hash :: "ext \<Rightarrow> pystr \<Rightarrow> (pystr \<times> json) list \<Rightarrow> pystr res" where
  "compute_entry_hash E prev_hash entry =
     bindR (chain_material prev_hash entry) (\<lambda>material. Inr (hexdigest (sha256_digest E material)))"

record chain_report =
  report_valid :: bool
  entry_count :: nat
  head_hash :: pystr
  first_invalid_sequence :: "int option"
  reason :: "pystr option"

definition chain_failure :: "nat \<Rightarrow> int \<Rightarrow> pystr \<Rightarrow> pystr \<Rightarrow> chain_report" where
  "chain_failure count sequence why head =
     \<lparr>report_valid = False, entry_count = count, head_hash = head,
      first_invalid_sequence = Some sequence, reason = Some why\<rparr>"

definition row_entry :: "audit_row \<Rightarrow> (pystr \<times> json) list" where
  "row_entry row =
     [(lit ''sequence'', JInt (aud_sequence row)),
      (lit ''requester_email'', json_option (aud_requester_email row)),
      (lit ''action'', JStr (aud_action row)),
      (lit ''target_type'', JStr (aud_target_type row)),
      (lit ''target_identifier'', JStr (aud_target_identifier row)),
      (lit ''result'', JStr (aud_result row)),
      (lit ''created_at'', JStr (aud_created_at row))]"

text \<open>The loop of \<open>verify_chain\<close> with its variables, and the checks after it.\<close>

fun verify_loop ::
  "ext \<Rightarrow> pystr option \<Rightarrow> audit_row list \<Rightarrow> pystr \<Rightarrow> int \<Rightarrow> nat \<Rightarrow> chain_report res"
where
  "verify_loop E expected_head [] prev_hash expected_sequence count =
     (if expected_head \<noteq> None \<and> expected_head \<noteq> Some prev_hash then
        Inr \<lparr>report_valid = False, entry_count = count, head_hash = prev_hash,
             first_invalid_sequence = None, reason = Some (lit ''HEAD_MISMATCH'')\<rparr>
      else Inr \<lparr>report_valid = True, entry_count = count, head_hash = prev_hash,
                first_invalid_sequence = None, reason = None\<rparr>)"
| "verify_loop E expected_head (row # rest) prev_hash expected_sequence count =
     (if aud_sequence row \<noteq> expected_sequence then
        Inr (chain_failure (Suc count) (aud_sequence row) (lit ''SEQUENCE_GAP'') prev_hash)
      else if aud_prev_hash row \<noteq> prev_hash then
        Inr (chain_failure (Suc count) (aud_sequence row) (lit ''PREV_HASH_MISMATCH'') prev_hash)
      else bindR (compute_entry_hash E prev_hash (row_entry row)) (\<lambda>recomputed.
        if recomputed \<noteq> aud_entry_hash row then
          Inr (chain_failure (Suc count) (aud_sequence row) (lit ''ENTRY_HASH_MISMATCH'') prev_hash)
        else verify_loop E expected_head rest recomputed (expected_sequence + 1) (Suc count)))"

definition verify_chain :: "ext \<Rightarrow> audit_row list \<Rightarrow> pystr option \<Rightarrow> chain_report res" where
  "verify_chain E rws expected_head = verify_loop E expected_head rws GENESIS_HASH 1 0"

section \<open>\<open>repository.py\<close>\<close>

definition HEAD_KEY :: pystr where "HEAD_KEY = lit ''audit_chain_head''"
definition ACCESS_DENIED :: pystr where "ACCESS_DENIED = lit ''ACCESS_DENIED''"

text \<open>\<open>ORDER BY sequence ASC\<close> and \<open>ORDER BY sequence DESC LIMIT 1\<close>.\<close>

definition audit_rows_asc :: "database \<Rightarrow> audit_row list" where
  "audit_rows_asc d = sort_key aud_sequence (rows (audit_logs d))"

definition audit_head :: "database \<Rightarrow> audit_row option" where
  "audit_head d = (case rev (audit_rows_asc d) of [] \<Rightarrow> None | r # _ \<Rightarrow> Some r)"

definition audit_insert :: "audit_row \<Rightarrow> database \<Rightarrow> (unit \<times> database) res" where
  "audit_insert row d =
     bindR (tbl_insert aud_sequence (\<lambda>_. row) (audit_logs d)) (\<lambda>(i, t).
       Inr ((), d\<lparr>audit_logs := t\<rparr>))"

text \<open>The transaction of \<open>log\<close>, at the time the caller read.\<close>

definition audit_log_at ::
  "ext \<Rightarrow> pystr option \<Rightarrow> pystr \<Rightarrow> pystr \<Rightarrow> pystr \<Rightarrow> pystr \<Rightarrow> pystr \<Rightarrow> unit action"
where
  "audit_log_at E requester_email action target_type target_identifier result created =
     exclusive_connection
       (bindM (query audit_head) (\<lambda>head.
        let sequence = (case head of None \<Rightarrow> 1 | Some h \<Rightarrow> aud_sequence h + 1);
            prev_hash = (case head of None \<Rightarrow> GENESIS_HASH | Some h \<Rightarrow> aud_entry_hash h);
            entry =
              [(lit ''sequence'', JInt sequence),
               (lit ''requester_email'', json_option requester_email),
               (lit ''action'', JStr action),
               (lit ''target_type'', JStr target_type),
               (lit ''target_identifier'', JStr target_identifier),
               (lit ''result'', JStr result),
               (lit ''created_at'', JStr created)]
        in bindM (liftR (compute_entry_hash E prev_hash entry)) (\<lambda>entry_hash.
           bindM (liftR (bind_int sequence)) (\<lambda>_.
           bindM (execute (audit_insert
             \<lparr>aud_sequence = sequence, aud_requester_email = requester_email, aud_action = action,
              aud_target_type = target_type, aud_target_identifier = target_identifier,
              aud_result = result, aud_created_at = created, aud_prev_hash = prev_hash,
              aud_entry_hash = entry_hash\<rparr>)) (\<lambda>_.
           execute_update (\<lambda>d.
             d\<lparr>schema_metadata := (schema_metadata d)(HEAD_KEY \<mapsto> entry_hash)\<rparr>))))))"

definition audit_log ::
  "ext \<Rightarrow> pystr option \<Rightarrow> pystr \<Rightarrow> pystr \<Rightarrow> pystr \<Rightarrow> pystr \<Rightarrow> unit action"
where
  "audit_log E requester_email action target_type target_identifier result =
     bindM now_text (audit_log_at E requester_email action target_type target_identifier result)"

definition log_denied_access :: "ext \<Rightarrow> pystr \<Rightarrow> pystr \<Rightarrow> pystr \<Rightarrow> unit action" where
  "log_denied_access E requester_email target_type target_identifier =
     audit_log E (Some requester_email) ACCESS_DENIED target_type target_identifier (lit ''DENIED'')"

record audit_view =
  view_sequence :: int
  view_action :: pystr
  view_target_type :: pystr
  view_target_identifier :: pystr
  view_result :: pystr
  view_created_at :: pystr

definition audit_view_of :: "audit_row \<Rightarrow> audit_view" where
  "audit_view_of r =
     \<lparr>view_sequence = aud_sequence r, view_action = aud_action r,
      view_target_type = aud_target_type r, view_target_identifier = aud_target_identifier r,
      view_result = aud_result r, view_created_at = aud_created_at r\<rparr>"

text \<open>A negative \<open>LIMIT\<close> means none.\<close>

definition sql_limit :: "int \<Rightarrow> 'a list \<Rightarrow> 'a list" where
  "sql_limit limit xs = (if limit < 0 then xs else take (nat limit) xs)"

definition list_for_requester :: "pystr \<Rightarrow> int \<Rightarrow> audit_view list action" where
  "list_for_requester requester_email limit =
     connection
       (bindM (liftR (bind_texts [requester_email])) (\<lambda>_.
        bindM (liftR (bind_int limit)) (\<lambda>_.
        query (\<lambda>d. map audit_view_of (sql_limit limit
          (rev (filter (\<lambda>r. aud_requester_email r = Some requester_email) (audit_rows_asc d))))))))"

definition stored_head :: "pystr option action" where
  "stored_head = connection (query (\<lambda>d. schema_metadata d HEAD_KEY))"

text \<open>
  \<open>verify\<close> reads the rows and the stored head in two transactions; \<open>between\<close> is what other
  requests do to the database from one to the other.
\<close>

definition audit_verify_around :: "ext \<Rightarrow> unit action \<Rightarrow> chain_report action" where
  "audit_verify_around E between =
     bindM (connection (query audit_rows_asc)) (\<lambda>rws.
     bindM between (\<lambda>_.
     bindM stored_head (\<lambda>stored.
     liftR (verify_chain E rws (if rws \<noteq> [] then stored else None)))))"

definition audit_verify :: "ext \<Rightarrow> chain_report action" where
  "audit_verify E = audit_verify_around E (ret ())"

section \<open>What an entry hash commits to\<close>

type_synonym audit_fields = "int \<times> pystr option \<times> pystr \<times> pystr \<times> pystr \<times> pystr \<times> pystr"

definition fields_of :: "audit_row \<Rightarrow> audit_fields" where
  "fields_of r =
     (aud_sequence r, aud_requester_email r, aud_action r, aud_target_type r,
      aud_target_identifier r, aud_result r, aud_created_at r)"

fun fields_entry :: "audit_fields \<Rightarrow> (pystr \<times> json) list" where
  "fields_entry (s, e, a, tt, ti, r, c) =
     [(lit ''sequence'', JInt s), (lit ''requester_email'', json_option e), (lit ''action'', JStr a),
      (lit ''target_type'', JStr tt), (lit ''target_identifier'', JStr ti),
      (lit ''result'', JStr r), (lit ''created_at'', JStr c)]"

lemma row_entry_fields: "row_entry r = fields_entry (fields_of r)"
  by (simp add: row_entry_def fields_of_def)

fun canonical_json :: "audit_fields \<Rightarrow> json" where
  "canonical_json (s, e, a, tt, ti, r, c) = JObj
     [(lit ''action'', JStr a), (lit ''created_at'', JStr c),
      (lit ''requester_email'', json_option e), (lit ''result'', JStr r),
      (lit ''sequence'', JInt s), (lit ''target_identifier'', JStr ti), (lit ''target_type'', JStr tt)]"

lemma chain_material_fields:
  "chain_material prev (fields_entry f) =
     bindR (json_dumps (canonical_json f)) (\<lambda>c. utf8_encode (prev @ lit ''|'' @ c))"
proof -
  obtain s e a tt ti r c where f: "f = (s, e, a, tt, ti, r, c)" by (cases f) auto
  have "sort_json (json_option e) = json_option e" by (cases e) (simp_all add: json_option_def)
  then show ?thesis
    by (simp add: f chain_material_def HASHED_FIELDS_def text_simps)
qed

lemma canonical_wf: "printable (canonical_json f) \<Longrightarrow> wf_json F (canonical_json f)"
proof -
  assume "printable (canonical_json f)"
  moreover obtain s e a tt ti r c where "f = (s, e, a, tt, ti, r, c)" by (cases f) auto
  ultimately show ?thesis by (cases e) (simp_all add: json_option_def text_simps)
qed

lemma canonical_inject: "canonical_json f = canonical_json g \<Longrightarrow> f = g"
  by (cases f; cases g) (auto simp: json_option_def split: option.splits)

lemma canonical_unambiguous:
  assumes "json_dumps (canonical_json f) = Inr t" "json_dumps (canonical_json g) = Inr t"
  shows "f = g"
proof -
  have "printable (canonical_json f)" "printable (canonical_json g)"
    using assms by (auto simp: json_dumps_def split: if_splits)
  then have "canonical_json f = canonical_json g"
    using json_text.enc_unambiguous [OF canonical_wf canonical_wf assms] by simp
  then show ?thesis by (rule canonical_inject)
qed

text \<open>Hashes never contain the separator.\<close>

definition hash_text :: "pystr \<Rightarrow> bool" where
  "hash_text h \<longleftrightarrow> 124 \<notin> set h"

lemma hash_text_genesis: "hash_text GENESIS_HASH"
  by (simp add: hash_text_def GENESIS_HASH_def)

lemma byte_halves: "unat (b :: byte) div 16 < 16" "unat b mod 16 < 16"
proof -
  have "unat b < 256" using octet_vals_less [of "unat b" "[b]"] by (simp add: octet_vals_def)
  then show "unat b div 16 < 16" "unat b mod 16 < 16" by simp_all
qed

lemma hash_text_hexdigest: "hash_text (hexdigest bs)"
proof -
  have "hex_digit n \<noteq> 124" if "n < 16" for n
    using that by (auto simp: hex_digit_def)
  then show ?thesis using byte_halves by (fastforce simp: hash_text_def hexdigest_def)
qed

lemma chain_material_inject:
  assumes "chain_material h (fields_entry f) = Inr m" "chain_material h' (fields_entry g) = Inr m"
    and "hash_text h" "hash_text h'"
  shows "h = h' \<and> f = g"
proof -
  from assms(1,2) obtain c d where
    c: "json_dumps (canonical_json f) = Inr c" "utf8_encode (h @ lit ''|'' @ c) = Inr m" and
    d: "json_dumps (canonical_json g) = Inr d" "utf8_encode (h' @ lit ''|'' @ d) = Inr m"
    by (auto simp: chain_material_fields bindR_Inr_iff)
  from utf8_encode_inject [OF c(2) d(2)] have "h @ 124 # c = h' @ 124 # d"
    by (simp add: text_simps)
  with append_eq_first_sep assms(3,4) have "h = h'" "c = d"
    by (auto simp: hash_text_def dest: append_eq_first_sep)
  with canonical_unambiguous c(1) d(1) show ?thesis by blast
qed

lemma hex_digit_inject: "a < 16 \<Longrightarrow> b < 16 \<Longrightarrow> hex_digit a = hex_digit b \<Longrightarrow> a = b"
  by (auto simp: hex_digit_def split: if_splits)

lemma hexdigest_inject: "hexdigest a = hexdigest b \<Longrightarrow> a = b"
proof (induction a arbitrary: b)
  case Nil
  then show ?case by (cases b) (auto simp: hexdigest_def)
next
  case (Cons x a)
  then obtain y b' where b: "b = y # b'" by (cases b) (auto simp: hexdigest_def)
  have "unat x div 16 = unat y div 16" "unat x mod 16 = unat y mod 16" "hexdigest a = hexdigest b'"
    using Cons.prems byte_halves hex_digit_inject by (auto simp: b hexdigest_def)
  then have "unat x = unat y" by (metis div_mult_mod_eq)
  then show ?case
    using Cons.IH [OF \<open>hexdigest a = hexdigest b'\<close>] b by (simp add: word_unat_eq_iff)
qed

section \<open>The chain\<close>

text \<open>Two given commitments are a SHA-256 collision: their inputs differ and have the same digest.\<close>

fun colliding :: "ext \<Rightarrow> pystr \<times> (pystr \<times> json) list \<Rightarrow> pystr \<times> (pystr \<times> json) list \<Rightarrow> bool" where
  "colliding E (h, e) (h', e') \<longleftrightarrow>
     (case (chain_material h e, chain_material h' e') of
        (Inr m, Inr m') \<Rightarrow> m \<noteq> m' \<and> sha256_digest E m = sha256_digest E m'
      | _ \<Rightarrow> False)"

text \<open>What the hash of a stored row was computed from.\<close>

definition commitment :: "audit_row \<Rightarrow> pystr \<times> (pystr \<times> json) list" where
  "commitment r = (aud_prev_hash r, row_entry r)"

definition chain_link :: "ext \<Rightarrow> pystr \<Rightarrow> audit_fields \<Rightarrow> pystr option" where
  "chain_link E h f = (case compute_entry_hash E h (fields_entry f) of Inl _ \<Rightarrow> None | Inr x \<Rightarrow> Some x)"

lemma chain_link_Some:
  "chain_link E h f = Some x \<longleftrightarrow> compute_entry_hash E h (fields_entry f) = Inr x"
  by (simp add: chain_link_def split: sum.splits)

lemma compute_entry_hash_Inr:
  "compute_entry_hash E h e = Inr x \<longleftrightarrow>
     (\<exists>m. chain_material h e = Inr m \<and> x = hexdigest (sha256_digest E m))"
  by (auto simp: compute_entry_hash_def bindR_Inr_iff)

interpretation audit_chain: hash_chain "chain_link E" fst hash_text
    "\<lambda>c c'. colliding E (apsnd fields_entry c) (apsnd fields_entry c')" for E
proof
  show "hash_text h'" if "chain_link E h e = Some h'" for h e h'
    using that hash_text_hexdigest by (auto simp: chain_link_Some compute_entry_hash_Inr)
next
  fix h h' e e' x
  assume ok: "hash_text h" "hash_text h'"
    and l: "chain_link E h e = Some x" "chain_link E h' e' = Some x"
  from l obtain m m' where m: "chain_material h (fields_entry e) = Inr m"
    "chain_material h' (fields_entry e') = Inr m'" "sha256_digest E m = sha256_digest E m'"
    by (auto simp: chain_link_Some compute_entry_hash_Inr dest: hexdigest_inject)
  show "colliding E (apsnd fields_entry (h, e)) (apsnd fields_entry (h', e')) \<or> h = h' \<and> e = e'"
  proof (cases "m = m'")
    case True
    with m chain_material_inject [OF m(1) _ ok] show ?thesis by simp
  next
    case False
    with m show ?thesis by simp
  qed
qed

section \<open>Consistent logs\<close>

text \<open>The rows form the chain from \<open>prev\<close>, numbered from \<open>n\<close>, with head \<open>h\<close>.\<close>

fun linked :: "ext \<Rightarrow> pystr \<Rightarrow> int \<Rightarrow> audit_row list \<Rightarrow> pystr \<Rightarrow> bool" where
  "linked E prev n [] h \<longleftrightarrow> h = prev"
| "linked E prev n (r # rs) h \<longleftrightarrow>
     aud_sequence r = n \<and> aud_prev_hash r = prev
     \<and> compute_entry_hash E prev (row_entry r) = Inr (aud_entry_hash r)
     \<and> linked E (aud_entry_hash r) (n + 1) rs h"

lemma linked_snoc:
  "linked E prev n (rs @ [r]) h \<longleftrightarrow>
     (\<exists>g. linked E prev n rs g \<and> aud_sequence r = n + int (length rs) \<and> aud_prev_hash r = g
        \<and> compute_entry_hash E g (row_entry r) = Inr (aud_entry_hash r) \<and> h = aud_entry_hash r)"
  by (induction rs arbitrary: prev n) (auto simp: algebra_simps)

lemma linked_chain: "linked E prev n rs h \<Longrightarrow> chain_from (chain_link E) prev (map fields_of rs) = Some h"
  by (induction rs arbitrary: prev n) (auto simp: row_entry_fields chain_link_def)

lemma linked_commitments:
  "linked E prev n rs h \<Longrightarrow>
   commitments (chain_link E) prev (map fields_of rs) = map (\<lambda>r. (aud_prev_hash r, fields_of r)) rs"
  by (induction rs arbitrary: prev n) (auto simp: row_entry_fields chain_link_def)

lemma linked_sequences: "linked E prev n rs h \<Longrightarrow> map aud_sequence rs = map (\<lambda>i. n + int i) [0..<length rs]"
proof (induction rs arbitrary: h rule: rev_induct)
  case (snoc r rs)
  then show ?case by (auto simp: linked_snoc)
qed simp

lemma linked_numbered: "linked E prev 1 rs h \<Longrightarrow> numbered fst (map fields_of rs)"
  using linked_sequences [of E prev 1 rs h]
  by (simp add: numbered_def fields_of_def comp_def add.commute)

lemma linked_ascending: "linked E prev n rs h \<Longrightarrow> sort_key aud_sequence rs = rs"
proof -
  assume "linked E prev n rs h"
  from linked_sequences [OF this] have "sorted (map aud_sequence rs)"
    by (simp add: sorted_iff_nth_mono)
  then show ?thesis by (rule sort_key_id_if_sorted)
qed

lemma row_eqI:
  "fields_of r = fields_of s \<Longrightarrow> aud_prev_hash r = aud_prev_hash s \<Longrightarrow>
   aud_entry_hash r = aud_entry_hash s \<Longrightarrow> r = s"
  for r s :: audit_row
  by (cases r; cases s) (simp add: fields_of_def)

lemma linked_fields_eq:
  "linked E prev n rs h \<Longrightarrow> linked E prev n ss g \<Longrightarrow> map fields_of rs = map fields_of ss \<Longrightarrow> rs = ss"
proof (induction rs arbitrary: prev n ss)
  case Nil
  then show ?case by simp
next
  case (Cons r rs)
  then obtain s ss' where ss: "ss = s # ss'" by (cases ss) auto
  with Cons.prems have "r = s" by (intro row_eqI) (auto simp: row_entry_fields)
  with Cons ss show ?case by auto
qed

text \<open>The loop accepts exactly the linked lists whose head is the expected one.\<close>

lemma verify_loop_valid:
  "verify_loop E eh rs prev n c = Inr rep \<and> report_valid rep \<longleftrightarrow>
     (\<exists>h. linked E prev n rs h \<and> (eh = None \<or> eh = Some h)
        \<and> rep = \<lparr>report_valid = True, entry_count = c + length rs, head_hash = h,
                 first_invalid_sequence = None, reason = None\<rparr>)"
proof (induction rs arbitrary: prev n c)
  case Nil
  then show ?case by auto
next
  case (Cons r rs)
  consider (skip) "aud_sequence r \<noteq> n \<or> aud_prev_hash r \<noteq> prev"
    | (err) e where "aud_sequence r = n" "aud_prev_hash r = prev"
        "compute_entry_hash E prev (row_entry r) = Inl e"
    | (ok) x where "aud_sequence r = n" "aud_prev_hash r = prev"
        "compute_entry_hash E prev (row_entry r) = Inr x"
    by (cases "compute_entry_hash E prev (row_entry r)") auto
  then show ?case
  proof cases
    case skip
    then show ?thesis by (auto simp: chain_failure_def)
  next
    case err
    then show ?thesis by simp
  next
    case ok
    then show ?thesis
      using Cons.IH [of x "n + 1" "Suc c"] by (cases "x = aud_entry_hash r") (auto simp: chain_failure_def)
  qed
qed

lemma verify_loop_linked:
  "linked E prev n rs h \<Longrightarrow>
   verify_loop E eh rs prev n c =
     Inr (if eh \<noteq> None \<and> eh \<noteq> Some h
          then \<lparr>report_valid = False, entry_count = c + length rs, head_hash = h,
                first_invalid_sequence = None, reason = Some (lit ''HEAD_MISMATCH'')\<rparr>
          else \<lparr>report_valid = True, entry_count = c + length rs, head_hash = h,
                first_invalid_sequence = None, reason = None\<rparr>)"
  by (induction rs arbitrary: prev n c) auto

definition log_ok :: "ext \<Rightarrow> database \<Rightarrow> bool" where
  "log_ok E d \<longleftrightarrow>
     (\<exists>h. linked E GENESIS_HASH 1 (rows (audit_logs d)) h
        \<and> (rows (audit_logs d) \<noteq> [] \<longrightarrow> schema_metadata d HEAD_KEY = Some h))"

lemma audit_verify_run:
  "audit_verify E w =
     (verify_chain E (audit_rows_asc (db w))
        (if rows (audit_logs (db w)) \<noteq> [] then schema_metadata (db w) HEAD_KEY else None), w)"
proof -
  have "audit_rows_asc d = [] \<longleftrightarrow> rows (audit_logs d) = []" for d
    by (metis audit_rows_asc_def length_0_conv length_sort)
  then show ?thesis
    by (simp add: audit_verify_def audit_verify_around_def stored_head_def connection_def op_simps op_run)
qed

lemma verify_chain_valid:
  "verify_chain E rs eh = Inr rep \<and> report_valid rep \<longleftrightarrow>
     (\<exists>h. linked E GENESIS_HASH 1 rs h \<and> (eh = None \<or> eh = Some h)
        \<and> rep = \<lparr>report_valid = True, entry_count = length rs, head_hash = h,
                 first_invalid_sequence = None, reason = None\<rparr>)"
  using verify_loop_valid [of E eh rs GENESIS_HASH 1 0 rep] by (simp add: verify_chain_def)

lemma log_ok_rows: "log_ok E d \<Longrightarrow> audit_rows_asc d = rows (audit_logs d)"
  by (auto simp: log_ok_def audit_rows_asc_def linked_ascending)

lemma log_ok_verifies:
  assumes "log_ok E (db w)"
  shows "\<exists>h. audit_verify E w =
    (Inr \<lparr>report_valid = True, entry_count = length (rows (audit_logs (db w))), head_hash = h,
          first_invalid_sequence = None, reason = None\<rparr>, w)"
proof -
  let ?eh = "if rows (audit_logs (db w)) \<noteq> [] then schema_metadata (db w) HEAD_KEY else None"
  from assms obtain h where "linked E GENESIS_HASH 1 (rows (audit_logs (db w))) h" "?eh = None \<or> ?eh = Some h"
    by (auto simp: log_ok_def)
  then have "verify_chain E (rows (audit_logs (db w))) ?eh =
    Inr \<lparr>report_valid = True, entry_count = length (rows (audit_logs (db w))), head_hash = h,
         first_invalid_sequence = None, reason = None\<rparr>"
    using verify_chain_valid by blast
  then show ?thesis by (simp only: audit_verify_run log_ok_rows [OF assms]) blast
qed

section \<open>Appending\<close>

text \<open>The row \<open>log\<close> appends to a consistent log.\<close>

definition new_row ::
  "database \<Rightarrow> pystr option \<Rightarrow> pystr \<Rightarrow> pystr \<Rightarrow> pystr \<Rightarrow> pystr \<Rightarrow> pystr \<Rightarrow> pystr \<Rightarrow> audit_row"
where
  "new_row d email action tt ti result created hash =
     \<lparr>aud_sequence = (case audit_head d of None \<Rightarrow> 1 | Some h \<Rightarrow> aud_sequence h + 1),
      aud_requester_email = email, aud_action = action, aud_target_type = tt,
      aud_target_identifier = ti, aud_result = result, aud_created_at = created,
      aud_prev_hash = (case audit_head d of None \<Rightarrow> GENESIS_HASH | Some h \<Rightarrow> aud_entry_hash h),
      aud_entry_hash = hash\<rparr>"

definition append_row :: "audit_row \<Rightarrow> database \<Rightarrow> database" where
  "append_row r d =
     d\<lparr>audit_logs := \<lparr>rows = rows (audit_logs d) @ [r], next_id = next_id (audit_logs d) + 1\<rparr>,
       schema_metadata := (schema_metadata d)(HEAD_KEY \<mapsto> aud_entry_hash r)\<rparr>"

lemma audit_log_at_run:
  "audit_log_at E email action tt ti result created w =
    (let d = db w; r = new_row d email action tt ti result created
     in case compute_entry_hash E (aud_prev_hash (r [])) (row_entry (r [])) of
          Inl e \<Rightarrow> (Inl e, w)
        | Inr h \<Rightarrow>
            (case bind_int (aud_sequence (r [])) of
               Inl e \<Rightarrow> (Inl e, w)
             | Inr _ \<Rightarrow>
                 (case tbl_insert aud_sequence (\<lambda>_. r h) (audit_logs d) of
                    Inl e \<Rightarrow> (Inl e, w)
                  | Inr (i, t) \<Rightarrow>
                      (Inr (), w\<lparr>db := d\<lparr>audit_logs := t,
                         schema_metadata := (schema_metadata d)(HEAD_KEY \<mapsto> h)\<rparr>\<rparr>))))"
proof -
  let ?r = "new_row (db w) email action tt ti result created"
  have f: "row_entry (?r []) =
      [(lit ''sequence'', JInt (aud_sequence (?r []))),
       (lit ''requester_email'', json_option email), (lit ''action'', JStr action),
       (lit ''target_type'', JStr tt), (lit ''target_identifier'', JStr ti),
       (lit ''result'', JStr result), (lit ''created_at'', JStr created)]"
    by (simp add: row_entry_def new_row_def)
  have n: "?r h = \<lparr>aud_sequence = aud_sequence (?r []), aud_requester_email = email,
      aud_action = action, aud_target_type = tt, aud_target_identifier = ti, aud_result = result,
      aud_created_at = created, aud_prev_hash = aud_prev_hash (?r []),
      aud_entry_hash = h\<rparr>" for h
    by (simp add: new_row_def)
  have s: "aud_sequence (?r []) = (case audit_head (db w) of None \<Rightarrow> 1 | Some h \<Rightarrow> aud_sequence h + 1)"
    "aud_prev_hash (?r []) = (case audit_head (db w) of None \<Rightarrow> GENESIS_HASH | Some h \<Rightarrow> aud_entry_hash h)"
    by (simp_all add: new_row_def)
  show ?thesis
    by (simp add: audit_log_at_def exclusive_connection_def op_simps op_run Let_def audit_insert_def
        s [symmetric] f [symmetric] n [symmetric] split: sum.split prod.split)
qed

lemma audit_log_run:
  "audit_log E email action tt ti result w =
    (let d = db w; w1 = w\<lparr>ticks := Suc (ticks w)\<rparr>;
         r = new_row d email action tt ti result (isoformat (clock w (ticks w)))
     in case compute_entry_hash E (aud_prev_hash (r [])) (row_entry (r [])) of
          Inl e \<Rightarrow> (Inl e, w1)
        | Inr h \<Rightarrow>
            (case bind_int (aud_sequence (r [])) of
               Inl e \<Rightarrow> (Inl e, w1)
             | Inr _ \<Rightarrow>
                 (case tbl_insert aud_sequence (\<lambda>_. r h) (audit_logs d) of
                    Inl e \<Rightarrow> (Inl e, w1)
                  | Inr (i, t) \<Rightarrow>
                      (Inr (), w1\<lparr>db := d\<lparr>audit_logs := t,
                         schema_metadata := (schema_metadata d)(HEAD_KEY \<mapsto> h)\<rparr>\<rparr>))))"
  by (simp add: audit_log_def op_simps op_run audit_log_at_run Let_def split: sum.split prod.split)

lemma audit_log_at_Inr:
  assumes "audit_log_at E email action tt ti result created w = (Inr u, w')"
  shows "\<exists>h. let r = new_row (db w) email action tt ti result created h in
      compute_entry_hash E (aud_prev_hash r) (row_entry r) = Inr h
      \<and> w' = w\<lparr>db := append_row r (db w)\<rparr>"
proof -
  let ?r = "new_row (db w) email action tt ti result created"
  from assms obtain h i t where
    h: "compute_entry_hash E (aud_prev_hash (?r [])) (row_entry (?r [])) = Inr h" and
    t: "tbl_insert aud_sequence (\<lambda>_. ?r h) (audit_logs (db w)) = Inr (i, t)" and
    w': "w' = w\<lparr>db := (db w)\<lparr>audit_logs := t,
      schema_metadata := (schema_metadata (db w))(HEAD_KEY \<mapsto> h)\<rparr>\<rparr>"
    unfolding audit_log_at_run Let_def by (auto split: sum.splits)
  have "row_entry (?r []) = row_entry (?r h)" "aud_prev_hash (?r []) = aud_prev_hash (?r h)"
    "aud_entry_hash (?r h) = h"
    by (simp_all add: new_row_def row_entry_def)
  moreover have "t = \<lparr>rows = rows (audit_logs (db w)) @ [?r h], next_id = next_id (audit_logs (db w)) + 1\<rparr>"
    using t by (simp add: tbl_insert_Inr_iff)
  ultimately show ?thesis
    using h w' by (intro exI [of _ h]) (simp add: Let_def append_row_def)
qed

lemma audit_log_at_Inl:
  "audit_log_at E email action tt ti result created w = (Inl e, w') \<Longrightarrow> w' = w"
  by (auto simp: audit_log_at_run Let_def split: sum.splits)

lemma audit_log_Inr:
  assumes "audit_log E email action tt ti result w = (Inr u, w')"
  shows "\<exists>h. let r = new_row (db w) email action tt ti result (isoformat (clock w (ticks w))) h in
      compute_entry_hash E (aud_prev_hash r) (row_entry r) = Inr h
      \<and> w' = w\<lparr>db := append_row r (db w), ticks := Suc (ticks w)\<rparr>"
proof -
  have "audit_log_at E email action tt ti result (isoformat (clock w (ticks w))) (w\<lparr>ticks := Suc (ticks w)\<rparr>) = (Inr u, w')"
    using assms by (simp add: audit_log_def op_simps op_run)
  from audit_log_at_Inr [OF this] obtain h where "let r = new_row (db w) email action tt ti result (isoformat (clock w (ticks w))) h in
      compute_entry_hash E (aud_prev_hash r) (row_entry r) = Inr h
      \<and> w' = w\<lparr>ticks := Suc (ticks w), db := append_row r (db w)\<rparr>" by auto
  then show ?thesis by (intro exI [of _ h]) (simp add: Let_def)
qed

lemma audit_log_Inl:
  "audit_log E email action tt ti result w = (Inl e, w') \<Longrightarrow> w' = w\<lparr>ticks := Suc (ticks w)\<rparr>"
  by (auto simp: audit_log_def op_simps op_run dest: audit_log_at_Inl)

lemma audit_head_append: "rows (audit_logs d) = rs @ [r] \<Longrightarrow> audit_rows_asc d = rs @ [r] \<Longrightarrow> audit_head d = Some r"
  by (simp add: audit_head_def)

text \<open>The head of a consistent log is its last row.\<close>

lemma log_ok_head:
  assumes "log_ok E d"
  shows "\<exists>g. linked E GENESIS_HASH 1 (rows (audit_logs d)) g
    \<and> aud_prev_hash (new_row d em a t i rs c h) = g
    \<and> aud_sequence (new_row d em a t i rs c h) = 1 + int (length (rows (audit_logs d)))"
proof -
  from assms obtain g where g: "linked E GENESIS_HASH 1 (rows (audit_logs d)) g"
    by (auto simp: log_ok_def)
  show ?thesis
  proof (cases "rows (audit_logs d)" rule: rev_cases)
    case Nil
    then show ?thesis
      using g log_ok_rows [OF assms] by (simp add: new_row_def audit_head_def)
  next
    case (snoc rws r)
    then have "audit_head d = Some r"
      using log_ok_rows [OF assms] by (intro audit_head_append) simp_all
    then show ?thesis using g snoc by (auto simp: linked_snoc new_row_def)
  qed
qed

lemma log_ok_append:
  assumes "log_ok E d" "r = new_row d em a t i rs c h"
    and "compute_entry_hash E (aud_prev_hash r) (row_entry r) = Inr h"
  shows "log_ok E (append_row r d)"
proof -
  obtain g where "linked E GENESIS_HASH 1 (rows (audit_logs d)) g"
    "aud_prev_hash r = g" "aud_sequence r = 1 + int (length (rows (audit_logs d)))"
    using log_ok_head [OF assms(1), of em a t i rs c h] by (auto simp: assms(2))
  moreover have "aud_entry_hash r = h" by (simp add: assms(2) new_row_def)
  ultimately have "linked E GENESIS_HASH 1 (rows (audit_logs d) @ [r]) h"
    using assms(3) by (auto simp: linked_snoc)
  with \<open>aud_entry_hash r = h\<close> show ?thesis by (auto simp: log_ok_def append_row_def)
qed

lemma preserves_audit_log_at:
  "preserves (\<lambda>w :: world. log_ok E (db w)) (audit_log_at E email action tt ti result created)"
proof (rule preservesI)
  fix w :: world assume ok: "log_ok E (db w)"
  obtain r w' where l: "audit_log_at E email action tt ti result created w = (r, w')" by (rule prod.exhaust)
  show "log_ok E (db (snd (audit_log_at E email action tt ti result created w)))"
  proof (cases r)
    case (Inl e)
    with l audit_log_at_Inl [of E email action tt ti result created w e w'] ok show ?thesis by simp
  next
    case (Inr u)
    with l audit_log_at_Inr [of E email action tt ti result created w u w'] log_ok_append [OF ok refl]
    show ?thesis by (auto simp: Let_def)
  qed
qed

lemma audit_log_preserves: "preserves (\<lambda>w :: world. log_ok E (db w)) (audit_log E email action tt ti result)"
  unfolding audit_log_def by (intro preserves_rules preserves_audit_log_at clocklessI)

text \<open>Appending succeeds on a consistent log unless a text cannot be encoded.\<close>

lemma log_ok_fresh:
  assumes "log_ok E d" "x \<in> set (rows (audit_logs d))"
  shows "aud_sequence x \<le> int (length (rows (audit_logs d)))"
proof -
  from assms(1) obtain g where "linked E GENESIS_HASH 1 (rows (audit_logs d)) g"
    by (auto simp: log_ok_def)
  from linked_sequences [OF this] assms(2)
  have "aud_sequence x \<in> set (map (\<lambda>i. 1 + int i) [0..<length (rows (audit_logs d))])"
    by (metis image_eqI list.set_map)
  then show ?thesis by auto
qed

section \<open>Appending succeeds\<close>

definition encodable :: "pystr option \<Rightarrow> bool" where
  "encodable v = (case v of None \<Rightarrow> True | Some s \<Rightarrow> list_all scalar s)"

lemma chain_material_ok:
  assumes "list_all scalar prev" "int_digits_ok (nat \<bar>s\<bar>)" "encodable e"
    and "list_all (list_all scalar) [a, tt, ti, r, c]"
  shows "\<exists>m. chain_material prev (fields_entry (s, e, a, tt, ti, r, c)) = Inr m"
proof -
  let ?j = "canonical_json (s, e, a, tt, ti, r, c)"
  have p: "printable ?j" using assms(2) by (cases e) (simp_all add: json_option_def)
  have "json_scalar ?j"
    using assms(3,4) by (cases e) (auto simp: json_option_def encodable_def scalar_lit)
  then have "list_all scalar (prev @ lit ''|'' @ dump_text ?j)"
    using scalar_dump_text [of ?j] assms(1) by (simp add: scalar_lit del: canonical_json.simps)
  with utf8_encode_ok p show ?thesis
    by (simp add: chain_material_fields json_dumps_def del: canonical_json.simps fields_entry.simps)
qed

lemma int_digits_ok_64: "\<bar>i\<bar> < 2 ^ 63 \<Longrightarrow> int_digits_ok (nat \<bar>i\<bar>)"
  by (rule int_digits_okI [of _ 19]) auto

lemma linked_hash_text: "linked E prev n rs h \<Longrightarrow> h = prev \<or> (\<exists>bs. h = hexdigest bs)"
  by (induction rs arbitrary: prev n) (auto simp: compute_entry_hash_Inr)

lemma scalar_hexdigest: "list_all scalar (hexdigest bs)"
proof -
  have "hex_digit n < 128" if "n < 16" for n
    using that by (auto simp: hex_digit_def)
  then show ?thesis using byte_halves by (fastforce simp: hexdigest_def list_all_iff intro: scalar_ascii)
qed

lemma audit_log_ok:
  assumes "log_ok E (db w)" "length (rows (audit_logs (db w))) < 2 ^ 62"
    and "encodable email" "list_all (list_all scalar) [action, tt, ti, result]"
  shows "\<exists>h. audit_log E email action tt ti result w =
    (Inr (), w\<lparr>ticks := Suc (ticks w), db := append_row (new_row (db w) email action tt ti result
       (isoformat (clock w (ticks w))) h) (db w)\<rparr>)"
proof -
  let ?r = "new_row (db w) email action tt ti result (isoformat (clock w (ticks w)))"
  let ?n = "1 + int (length (rows (audit_logs (db w))))"
  obtain g where g: "linked E GENESIS_HASH 1 (rows (audit_logs (db w))) g"
    "aud_prev_hash (?r []) = g" "aud_sequence (?r []) = ?n"
    using log_ok_head [OF assms(1)] by blast
  have n: "\<bar>?n\<bar> < 2 ^ 63" using assms(2) by simp
  have "list_all scalar g"
    using linked_hash_text [OF g(1)] scalar_hexdigest by (auto simp: GENESIS_HASH_def scalar_def list_all_iff)
  moreover have "list_all scalar (isoformat t)" for t
    using ascii_isoformat by (auto simp: list_all_iff scalar_ascii)
  ultimately obtain m where m: "chain_material g (fields_entry (fields_of (?r []))) = Inr m"
    using chain_material_ok [of g ?n email action tt ti result "isoformat (clock w (ticks w))"]
      int_digits_ok_64 [OF n] assms(3,4) g(3) by (auto simp: fields_of_def new_row_def)
  let ?h = "hexdigest (sha256_digest E m)"
  have c: "compute_entry_hash E (aud_prev_hash (?r [])) (row_entry (?r [])) = Inr ?h"
    using m g(2) by (auto simp: row_entry_fields compute_entry_hash_Inr)
  have b: "bind_int (aud_sequence (?r [])) = Inr ()"
    using n g(3) by (simp add: bind_int_def)
  have "aud_sequence (?r ?h) = ?n" using g(3) by (simp add: new_row_def)
  then have t: "tbl_insert aud_sequence (\<lambda>_. ?r ?h) (audit_logs (db w)) =
      Inr (next_id (audit_logs (db w)), (audit_logs (db w))
        \<lparr>rows := rows (audit_logs (db w)) @ [?r ?h], next_id := next_id (audit_logs (db w)) + 1\<rparr>)"
    using log_ok_fresh [OF assms(1)] by (intro tbl_insert_ok) fastforce
  have "aud_entry_hash (?r ?h) = ?h" by (simp add: new_row_def)
  with c b t show ?thesis
    unfolding audit_log_run Let_def by (intro exI [of _ ?h]) (simp add: append_row_def)
qed

section \<open>Denied requests\<close>

lemma log_denied_ok:
  assumes "log_ok E (db w)" "length (rows (audit_logs (db w))) < 2 ^ 62"
    and "list_all scalar requester" "list_all scalar tt" "list_all scalar ti"
  shows "\<exists>r w'. log_denied_access E requester tt ti w = (Inr (), w')
    \<and> rows (audit_logs (db w')) = rows (audit_logs (db w)) @ [r]
    \<and> aud_requester_email r = Some requester \<and> aud_action r = ACCESS_DENIED
    \<and> aud_target_type r = tt \<and> aud_target_identifier r = ti \<and> aud_result r = lit ''DENIED''
    \<and> log_ok E (db w')"
proof -
  have "list_all (list_all scalar) [ACCESS_DENIED, tt, ti, lit ''DENIED'']"
    using assms(4,5) by (simp add: ACCESS_DENIED_def scalar_lit)
  from audit_log_ok [OF assms(1,2) _ this, of "Some requester"] assms(3) obtain h where
    l: "log_denied_access E requester tt ti w =
      (Inr (), w\<lparr>ticks := Suc (ticks w), db := append_row (new_row (db w) (Some requester) ACCESS_DENIED
         tt ti (lit ''DENIED'') (isoformat (clock w (ticks w))) h) (db w)\<rparr>)"
    by (auto simp: log_denied_access_def encodable_def)
  with preserves_run [OF audit_log_preserves l [unfolded log_denied_access_def] assms(1)]
  show ?thesis by (simp add: append_row_def new_row_def)
qed

section \<open>What logging leaves alone\<close>

lemma audit_log_frame:
  assumes "audit_log E email action tt ti result w = (r, w')"
  shows "(\<exists>a m. db w' = (db w)\<lparr>audit_logs := a, schema_metadata := m\<rparr>) \<and> vstate w' = vstate w
    \<and> conf w' = conf w \<and> environ w' = environ w"
proof (cases r)
  case (Inl e)
  with assms have "w' = w\<lparr>ticks := Suc (ticks w)\<rparr>" by (auto dest: audit_log_Inl)
  then show ?thesis
    by (intro conjI exI [of _ "audit_logs (db w)"] exI [of _ "schema_metadata (db w)"]) simp_all
next
  case (Inr u)
  with assms show ?thesis
    by (auto simp: Let_def append_row_def dest!: audit_log_Inr) blast
qed

lemma keeps_audit_log:
  "(\<And>d a m. g (d\<lparr>audit_logs := a, schema_metadata := m\<rparr>) = g d) \<Longrightarrow>
   keeps (\<lambda>w :: world. g (db w)) (audit_log E email action tt ti result)"
  by (rule keepsI) (auto dest!: audit_log_frame)

lemma keeps_audit_log_world [keeps_rules]:
  "keeps vstate (audit_log E email action tt ti result)"
  "keeps conf (audit_log E email action tt ti result)"
  "keeps environ (audit_log E email action tt ti result)"
  by (rule keepsI, auto dest!: audit_log_frame)+

lemmas log_denied_frame = audit_log_frame [where action = ACCESS_DENIED and result = "lit ''DENIED''",
    of _ "Some requester" for requester, folded log_denied_access_def]

section \<open>Properties\<close>

lemma accepted_rows:
  assumes "audit_verify E w = (Inr rep, w')" "report_valid rep"
  shows "\<exists>h. linked E GENESIS_HASH 1 (audit_rows_asc (db w)) h
    \<and> (rows (audit_logs (db w)) = [] \<or> schema_metadata (db w) HEAD_KEY \<in> {None, Some h})"
proof -
  let ?eh = "if rows (audit_logs (db w)) \<noteq> [] then schema_metadata (db w) HEAD_KEY else None"
  have "verify_chain E (audit_rows_asc (db w)) ?eh = Inr rep"
    using assms(1) unfolding audit_verify_run prod.inject by (elim conjE)
  with assms(2) verify_chain_valid [of E "audit_rows_asc (db w)" ?eh rep] show ?thesis
    by (auto split: if_splits)
qed

lemma linked_same_head:
  assumes "linked E GENESIS_HASH 1 rs h" "linked E GENESIS_HASH 1 ss h" "rs \<noteq> []" "ss \<noteq> []"
  shows "rs = ss \<or> (\<exists>r \<in> set rs. \<exists>s \<in> set ss. colliding E (commitment r) (commitment s))"
proof -
  from audit_chain.head_binds [OF hash_text_genesis linked_numbered [OF assms(1)] linked_numbered [OF assms(2)]
      _ _ linked_chain [OF assms(1)] linked_chain [OF assms(2)]] assms(3,4)
  consider "audit_chain.clashing E GENESIS_HASH (map fields_of rs) (map fields_of ss)"
    | "map fields_of rs = map fields_of ss" by auto
  then show ?thesis
  proof cases
    case 1
    then show ?thesis
      unfolding audit_chain.clashing_def linked_commitments [OF assms(1)] linked_commitments [OF assms(2)]
      by (auto simp: commitment_def row_entry_fields simp del: colliding.simps)
  next
    case 2
    with linked_fields_eq [OF assms(1,2)] show ?thesis by blast
  qed
qed

text \<open>C21: the log is tamper-evident. If a consistent, non-empty log is replaced by other rows
  (edited, reordered, shortened, extended or made up) while the head stored outside the table
  stays, and verification still accepts, then the rows are the original ones, or all rows
  were removed, or a row put in and an original row are at hand whose hashed inputs differ and have
  the same SHA-256 digest.\<close>

theorem audit_tamper_evident:
  assumes "log_ok E (db w)" "rows (audit_logs (db w)) \<noteq> []"
    and "schema_metadata (db v) HEAD_KEY = schema_metadata (db w) HEAD_KEY"
    and "audit_verify E v = (Inr rep, v')" "report_valid rep"
  shows "audit_rows_asc (db v) = rows (audit_logs (db w)) \<or> rows (audit_logs (db v)) = []
    \<or> (\<exists>r \<in> set (rows (audit_logs (db v))). \<exists>s \<in> set (rows (audit_logs (db w))).
         colliding E (commitment r) (commitment s))"
proof (cases "rows (audit_logs (db v)) = []")
  case False
  then have ne: "audit_rows_asc (db v) \<noteq> []"
    by (metis audit_rows_asc_def length_0_conv length_sort)
  from assms(1,2) obtain h where h: "linked E GENESIS_HASH 1 (rows (audit_logs (db w))) h"
    "schema_metadata (db w) HEAD_KEY = Some h"
    by (auto simp: log_ok_def)
  with accepted_rows [OF assms(4,5)] assms(3) False
  have l: "linked E GENESIS_HASH 1 (audit_rows_asc (db v)) h" by auto
  have "set (audit_rows_asc (db v)) = set (rows (audit_logs (db v)))" by (simp add: audit_rows_asc_def)
  with linked_same_head [OF l h(1) ne assms(2)] show ?thesis by metis
qed simp

lemma toy_log_ok: "log_ok toy (db toy_world)"
  by (simp add: log_ok_def)

text \<open>A log of one entry on the start state of the examples.\<close>

lemma toy_logged:
  "\<exists>w'. audit_log toy (Some (lit ''a'')) (lit ''X'') (lit ''Y'') (lit ''Z'') (lit ''OK'') toy_world = (Inr (), w')
    \<and> log_ok toy (db w') \<and> length (rows (audit_logs (db w'))) = 1
    \<and> (\<forall>r \<in> set (rows (audit_logs (db w'))). aud_requester_email r = Some (lit ''a''))"
proof -
  obtain h where l: "audit_log toy (Some (lit ''a'')) (lit ''X'') (lit ''Y'') (lit ''Z'') (lit ''OK'') toy_world =
      (Inr (), toy_world\<lparr>ticks := Suc (ticks toy_world), db := append_row (new_row (db toy_world)
        (Some (lit ''a'')) (lit ''X'') (lit ''Y'') (lit ''Z'') (lit ''OK'')
        (isoformat (clock toy_world (ticks toy_world))) h) (db toy_world)\<rparr>)"
    using audit_log_ok [OF toy_log_ok, of "Some (lit ''a'')" "lit ''X''" "lit ''Y''" "lit ''Z''" "lit ''OK''"]
    by (auto simp: encodable_def scalar_lit)
  then show ?thesis
    using preserves_run [OF audit_log_preserves l toy_log_ok]
    by (simp add: append_row_def new_row_def)
qed

text \<open>Two entries, with the identity for a digest: nothing collides. The rows in another physical order
  are accepted as the original ones; without the last row, or with its result edited, they are not.\<close>

lemma plain_no_collision: "\<not> colliding toy_plain c c'"
  by (cases c; cases c') (simp add: toy_plain_def split: sum.split)

lemma plain_log:
  "\<exists>(w :: world) a b. log_ok toy_plain (db w) \<and> rows (audit_logs (db w)) = [a, b]
     \<and> aud_sequence a = 1 \<and> aud_sequence b = 2 \<and> aud_result b = lit ''OK''"
proof -
  have start: "log_ok toy_plain (db toy_world)" by (simp add: log_ok_def)
  let ?log = "audit_log toy_plain None (lit ''X'') (lit ''Y'') (lit ''Z'') (lit ''OK'')"
  have step: "\<exists>r w'. ?log w = (Inr (), w') \<and> log_ok toy_plain (db w') \<and> aud_result r = lit ''OK''
      \<and> rows (audit_logs (db w')) = rows (audit_logs (db w)) @ [r]"
    if ok: "log_ok toy_plain (db w)" "length (rows (audit_logs (db w))) < 2 ^ 62" for w :: world
  proof -
    obtain h where l: "?log w = (Inr (), w\<lparr>ticks := Suc (ticks w), db := append_row (new_row (db w) None
        (lit ''X'') (lit ''Y'') (lit ''Z'') (lit ''OK'') (isoformat (clock w (ticks w))) h) (db w)\<rparr>)"
      using audit_log_ok [OF ok, of None "lit ''X''" "lit ''Y''" "lit ''Z''" "lit ''OK''"]
      by (auto simp: encodable_def scalar_lit)
    with preserves_run [OF audit_log_preserves l ok(1)] show ?thesis
      by (auto simp: append_row_def new_row_def)
  qed
  obtain a and w1 :: world where a: "log_ok toy_plain (db w1)" "rows (audit_logs (db w1)) = [a]"
    using step [OF start] by auto
  then obtain b and w2 :: world where b: "log_ok toy_plain (db w2)" "rows (audit_logs (db w2)) = [a, b]"
    "aud_result b = lit ''OK''"
    using step [of w1] by auto
  then have "aud_sequence a = 1 \<and> aud_sequence b = 2" by (auto simp: log_ok_def)
  with b show ?thesis by (intro exI [of _ w2] exI [of _ a] exI [of _ b]) simp
qed

theorem audit_tamper_evident_witness:
  "\<exists>(w :: world) a b. rows (audit_logs (db w)) = [a, b] \<and> log_ok toy_plain (db w) \<and>
     (let with_rows = \<lambda>rs. w\<lparr>db := (db w)\<lparr>audit_logs := (audit_logs (db w))\<lparr>rows := rs\<rparr>\<rparr>\<rparr>;
          accepted = \<lambda>v. \<exists>rep. audit_verify toy_plain v = (Inr rep, v) \<and> report_valid rep
      in accepted (with_rows [b, a]) \<and> audit_rows_asc (db (with_rows [b, a])) = [a, b]
        \<and> \<not> accepted (with_rows [a]) \<and> \<not> accepted (with_rows [a, b\<lparr>aud_result := lit ''NO''\<rparr>]))"
proof -
  obtain w :: world and a b where w: "log_ok toy_plain (db w)" "rows (audit_logs (db w)) = [a, b]"
    "aud_sequence a = 1" "aud_sequence b = 2" "aud_result b = lit ''OK''" using plain_log by blast
  let ?v = "\<lambda>rs. w\<lparr>db := (db w)\<lparr>audit_logs := (audit_logs (db w))\<lparr>rows := rs\<rparr>\<rparr>\<rparr>"
  have same: "audit_rows_asc (db (?v rs)) = [a, b]"
    if "rs \<noteq> []" "audit_verify toy_plain (?v rs) = (Inr rep, v')" "report_valid rep" for rs rep v'
    using audit_tamper_evident [OF w(1) _ _ that(2,3)] that(1) w(2) plain_no_collision by simp
  obtain rep where "audit_verify toy_plain w = (Inr rep, w)" "report_valid rep"
    using log_ok_verifies [OF w(1)] by auto
  moreover have "audit_rows_asc (db (?v [b, a])) = audit_rows_asc (db w)"
    using w(2-4) by (simp add: audit_rows_asc_def)
  ultimately have ba: "audit_verify toy_plain (?v [b, a]) = (Inr rep, ?v [b, a])" "report_valid rep"
    using w(2) by (simp_all add: audit_verify_run)
  have "b\<lparr>aud_result := lit ''NO''\<rparr> \<noteq> b"
    using w(5) by (auto simp: text_simps dest: arg_cong [of _ _ aud_result])
  then have "audit_rows_asc (db (?v [a])) \<noteq> [a, b]" "audit_rows_asc (db (?v [a, b\<lparr>aud_result := lit ''NO''\<rparr>])) \<noteq> [a, b]"
    using w(3,4) by (auto simp: audit_rows_asc_def)
  with same ba w(1,2) show ?thesis
    by (intro exI [of _ w] exI [of _ a] exI [of _ b]) (auto simp: Let_def)
qed

text \<open>C20: appending to a consistent log always succeeds for encodable texts and adds exactly
  one row, with the next sequence number, the caller's texts and the current time; the log
  stays consistent and verification accepts it.\<close>

theorem audit_log_appends:
  assumes "log_ok E (db w)" "length (rows (audit_logs (db w))) < 2 ^ 62"
    and "encodable email" "list_all (list_all scalar) [action, tt, ti, result]"
  shows "\<exists>r w'. audit_log E email action tt ti result w = (Inr (), w')
    \<and> rows (audit_logs (db w')) = rows (audit_logs (db w)) @ [r]
    \<and> fields_of r = (int (length (rows (audit_logs (db w)))) + 1, email, action, tt, ti, result,
        isoformat (clock w (ticks w)))
    \<and> log_ok E (db w')
    \<and> (\<exists>h. audit_verify E w' =
        (Inr \<lparr>report_valid = True, entry_count = Suc (length (rows (audit_logs (db w)))),
              head_hash = h, first_invalid_sequence = None, reason = None\<rparr>, w'))"
proof -
  from audit_log_ok [OF assms] obtain h where
    l: "audit_log E email action tt ti result w =
      (Inr (), w\<lparr>ticks := Suc (ticks w), db := append_row (new_row (db w) email action tt ti result
         (isoformat (clock w (ticks w))) h) (db w)\<rparr>)" (is "_ = (_, ?w')")
    by blast
  let ?r = "new_row (db w) email action tt ti result (isoformat (clock w (ticks w))) h"
  have ok: "log_ok E (db ?w')"
    using preserves_run [OF audit_log_preserves l assms(1)] .
  obtain g where "aud_sequence ?r = 1 + int (length (rows (audit_logs (db w))))"
    using log_ok_head [OF assms(1)] by blast
  then have "fields_of ?r = (int (length (rows (audit_logs (db w)))) + 1, email, action, tt, ti, result,
        isoformat (clock w (ticks w)))"
    by (simp add: fields_of_def new_row_def)
  moreover have "rows (audit_logs (db ?w')) = rows (audit_logs (db w)) @ [?r]"
    by (simp add: append_row_def)
  ultimately show ?thesis
    using l ok log_ok_verifies [OF ok] by (intro exI [of _ ?r] exI [of _ ?w']) simp
qed

theorem audit_log_appends_witness:
  "\<exists>w'. audit_log toy (Some (lit ''a'')) (lit ''X'') (lit ''Y'') (lit ''Z'') (lit ''OK'') toy_world = (Inr (), w')
    \<and> log_ok toy (db w')"
  using audit_log_appends [OF toy_log_ok, of "Some (lit ''a'')" "lit ''X''" "lit ''Y''" "lit ''Z''" "lit ''OK''"]
  by (auto simp: encodable_def scalar_lit)

text \<open>C35: a caller sees only entries about their own requests, newest first and at most
  \<open>limit\<close> of them.\<close>

theorem list_for_requester_own:
  assumes "list_for_requester email limit w = (Inr views, w')" "0 \<le> limit"
  shows "w' = w \<and> int (length views) \<le> limit
    \<and> set views \<subseteq> audit_view_of ` {r \<in> set (rows (audit_logs (db w))). aud_requester_email r = Some email}
    \<and> sorted (rev (map view_sequence views))"
proof -
  let ?own = "filter (\<lambda>r. aud_requester_email r = Some email) (audit_rows_asc (db w))"
  have v: "views = map audit_view_of (take (nat limit) (rev ?own))" "w' = w"
    using assms by (auto simp: list_for_requester_def connection_Inr_iff bindM_Inr_iff op_simps sql_limit_def)
  have "sorted (map aud_sequence ?own)"
    by (simp add: audit_rows_asc_def sorted_filter)
  then have "sorted (rev (map aud_sequence (take (nat limit) (rev ?own))))"
    by (simp only: take_rev rev_map rev_rev_ident drop_map [symmetric] sorted_wrt_drop)
  moreover have "map view_sequence views = map aud_sequence (take (nat limit) (rev ?own))"
    by (simp add: v audit_view_of_def)
  moreover have "set views \<subseteq> audit_view_of ` set ?own"
    by (auto simp: v dest: in_set_takeD)
  moreover have "set ?own = {r \<in> set (rows (audit_logs (db w))). aud_requester_email r = Some email}"
    by (auto simp: audit_rows_asc_def)
  moreover have "int (length views) \<le> limit" using assms(2) by (simp add: v)
  ultimately show ?thesis using v(2) by simp
qed

theorem list_for_requester_own_witness:
  "\<exists>(w :: world) v. list_for_requester (lit ''a'') 1 w = (Inr [v], w)
    \<and> v \<in> audit_view_of ` {r \<in> set (rows (audit_logs (db w))). aud_requester_email r = Some (lit ''a'')}"
proof -
  obtain w :: world and r where w: "rows (audit_logs (db w)) = [r]" "aud_requester_email r = Some (lit ''a'')"
    using toy_logged by (auto simp: length_Suc_conv)
  then have l: "list_for_requester (lit ''a'') 1 w = (Inr [audit_view_of r], w)"
    by (simp add: list_for_requester_def connection_def op_simps op_run bind_texts_def bind_int_def
        scalar_lit audit_rows_asc_def sql_limit_def)
  from list_for_requester_own [OF this] l show ?thesis
    by (intro exI [of _ w] exI [of _ "audit_view_of r"]) simp
qed

text \<open>C36: removing every row is not detected, although the stored head still names the last
  entry: the head is only compared when rows remain.\<close>

theorem audit_wipe_undetected:
  "audit_verify E (w\<lparr>db := (db w)\<lparr>audit_logs := \<lparr>rows = [], next_id = n\<rparr>\<rparr>\<rparr>)
     = (Inr \<lparr>report_valid = True, entry_count = 0, head_hash = GENESIS_HASH,
             first_invalid_sequence = None, reason = None\<rparr>,
        w\<lparr>db := (db w)\<lparr>audit_logs := \<lparr>rows = [], next_id = n\<rparr>\<rparr>\<rparr>)"
  by (simp add: audit_verify_run audit_rows_asc_def verify_chain_def)

text \<open>C37: \<open>verify\<close> reads the rows and the head in two transactions. When another request
  appends an entry in between, the log it read, although untouched, is compared with the hash of the
  appended row: unless that hash is the one of the last row read, the report is \<open>HEAD_MISMATCH\<close>,
  the one that stands for a truncated log. A \<open>verify\<close> afterwards finds the log valid.\<close>

theorem audit_verify_race:
  assumes "log_ok E (db w)" "rows (audit_logs (db w)) \<noteq> []"
    and "audit_log E email action tt ti result w = (Inr u, w')"
  shows "\<exists>r report. rows (audit_logs (db w')) = rows (audit_logs (db w)) @ [r]
    \<and> audit_verify_around E (audit_log E email action tt ti result) w = (Inr report, w')
    \<and> entry_count report = length (rows (audit_logs (db w)))
    \<and> (if aud_entry_hash r = aud_entry_hash (last (rows (audit_logs (db w))))
       then report_valid report \<and> reason report = None
       else \<not> report_valid report \<and> reason report = Some (lit ''HEAD_MISMATCH''))
    \<and> (\<exists>later. audit_verify E w' = (Inr later, w') \<and> report_valid later)"
proof -
  let ?rs = "rows (audit_logs (db w))"
  let ?r = "\<lambda>h. new_row (db w) email action tt ti result (isoformat (clock w (ticks w))) h"
  from assms(1) obtain g where g: "linked E GENESIS_HASH 1 ?rs g" by (auto simp: log_ok_def)
  with assms(2) have last: "g = aud_entry_hash (last ?rs)" by (cases ?rs rule: rev_cases) (auto simp: linked_snoc)
  from audit_log_Inr [OF assms(3)] obtain h where
    h: "w' = w\<lparr>db := append_row (?r h) (db w), ticks := Suc (ticks w)\<rparr>"
    by (auto simp: Let_def)
  let ?eh = "aud_entry_hash (?r h)"
  have ok: "log_ok E (db w')" using preserves_run [OF audit_log_preserves assms(3,1)] .
  have meta: "schema_metadata (db w') HEAD_KEY = Some ?eh" and more: "rows (audit_logs (db w')) = ?rs @ [?r h]"
    by (simp_all add: h append_row_def)
  obtain report where report: "verify_chain E ?rs (Some ?eh) = Inr report" "entry_count report = length ?rs"
    "if ?eh = g then report_valid report \<and> reason report = None
     else \<not> report_valid report \<and> reason report = Some (lit ''HEAD_MISMATCH'')"
    using verify_loop_linked [OF g, of "Some ?eh" 0] by (auto simp: verify_chain_def)
  then have "audit_verify_around E (audit_log E email action tt ti result) w = (Inr report, w')"
    using log_ok_rows [OF assms(1)] assms(2,3) meta
    by (simp add: audit_verify_around_def connection_def stored_head_def op_simps op_run)
  with report(2,3) more last log_ok_verifies [OF ok] show ?thesis
    by (intro exI [of _ "?r h"] exI [of _ report]) auto
qed

text \<open>With the identity for a digest a hash is longer than the hash before it.\<close>

lemma plain_longer:
  assumes "compute_entry_hash toy_plain g e = Inr h" shows "h \<noteq> g"
proof -
  have long: "length s \<le> length b" if "utf8_encode s = Inr b" for s b
  proof -
    have "length s \<le> length (concat (map utf8_char s))"
      by (induction s) (auto simp: utf8_char_def)
    with that show ?thesis by (auto simp: utf8_encode_def octets_def split: if_splits)
  qed
  from assms obtain m where m: "chain_material g e = Inr m" "h = hexdigest m"
    by (auto simp: compute_entry_hash_Inr toy_plain_def)
  then have "length g < length m" by (auto simp: chain_material_def bindR_Inr_iff Let_def dest!: long)
  moreover have "length h = 2 * length m" using m(2) by (induction m arbitrary: h) (auto simp: hexdigest_def)
  ultimately show ?thesis by auto
qed

theorem audit_verify_race_witness:
  "\<exists>(w :: world) w' report. log_ok toy_plain (db w) \<and> length (rows (audit_logs (db w))) = 2
    \<and> audit_verify_around toy_plain (audit_log toy_plain None (lit ''X'') (lit ''Y'') (lit ''Z'') (lit ''OK'')) w
      = (Inr report, w')
    \<and> \<not> report_valid report \<and> reason report = Some (lit ''HEAD_MISMATCH'')"
proof -
  obtain w :: world and a b where w: "log_ok toy_plain (db w)" "rows (audit_logs (db w)) = [a, b]" using plain_log by blast
  then have ne: "rows (audit_logs (db w)) \<noteq> []" by simp
  obtain w' where l: "audit_log toy_plain None (lit ''X'') (lit ''Y'') (lit ''Z'') (lit ''OK'') w = (Inr (), w')"
    using audit_log_ok [OF w(1), of None "lit ''X''" "lit ''Y''" "lit ''Z''" "lit ''OK''"] w(2)
    by (auto simp: encodable_def scalar_lit)
  have ok: "log_ok toy_plain (db w')" using preserves_run [OF audit_log_preserves l w(1)] .
  from audit_verify_race [OF w(1) ne l] obtain r report where r: "rows (audit_logs (db w')) = [a, b] @ [r]"
    "audit_verify_around toy_plain (audit_log toy_plain None (lit ''X'') (lit ''Y'') (lit ''Z'') (lit ''OK'')) w = (Inr report, w')"
    "if aud_entry_hash r = aud_entry_hash b then report_valid report \<and> reason report = None
     else \<not> report_valid report \<and> reason report = Some (lit ''HEAD_MISMATCH'')" using w(2) by auto
  have "compute_entry_hash toy_plain (aud_entry_hash b) (row_entry r) = Inr (aud_entry_hash r)"
    using ok r(1) by (auto simp: log_ok_def linked_snoc)
  with plain_longer r(3) have "\<not> report_valid report \<and> reason report = Some (lit ''HEAD_MISMATCH'')" by auto
  with w r(2) show ?thesis by (intro exI [of _ w] exI [of _ w'] exI [of _ report]) simp
qed

end
