(* ===== verification/VersionStore.thy ===== *)
theory VersionStore
  imports World
begin

text \<open>
  The contract shared by the KV records and the named keys: a table of parents, unique by
  key, each with a history of children numbered from 1 to the parent's latest version. The
  abstract view is a map from keys to histories; creating, appending and deleting refine the
  corresponding updates of that map.
\<close>

section \<open>Parents and children\<close>

definition children :: "('c \<Rightarrow> int) \<Rightarrow> int \<Rightarrow> 'c table \<Rightarrow> 'c list" where
  "children cparent i C = filter (\<lambda>c. cparent c = i) (rows C)"

definition history ::
  "('p \<Rightarrow> int) \<Rightarrow> ('p \<Rightarrow> 'k) \<Rightarrow> ('c \<Rightarrow> int) \<Rightarrow> 'p table \<Rightarrow> 'c table \<Rightarrow> 'k \<Rightarrow> 'c list option"
where
  "history pid pkey cparent P C k =
     map_option (\<lambda>p. children cparent (pid p) C) (find (\<lambda>p. pkey p = k) (rows P))"

definition store_ok ::
  "('p \<Rightarrow> int) \<Rightarrow> ('p \<Rightarrow> 'k) \<Rightarrow> ('p \<Rightarrow> int) \<Rightarrow> ('c \<Rightarrow> int) \<Rightarrow> ('c \<Rightarrow> int) \<Rightarrow>
   'p table \<Rightarrow> 'c table \<Rightarrow> bool"
where
  "store_ok pid pkey latest cparent cversion P C \<longleftrightarrow>
     distinct (map pid (rows P)) \<and> (\<forall>p \<in> set (rows P). pid p < next_id P)
     \<and> distinct (map pkey (rows P)) \<and> (\<forall>c \<in> set (rows C). cparent c \<in> pid ` set (rows P))
     \<and> (\<forall>p \<in> set (rows P). 1 \<le> latest p
          \<and> map cversion (children cparent (pid p) C) = map int [1..<Suc (nat (latest p))])"

text \<open>\<open>SELECT ... FROM parents JOIN children WHERE key = ?\<close>\<close>

definition join_key ::
  "('p \<Rightarrow> int) \<Rightarrow> ('p \<Rightarrow> 'k) \<Rightarrow> ('c \<Rightarrow> int) \<Rightarrow> 'p table \<Rightarrow> 'c table \<Rightarrow> 'k \<Rightarrow> ('p \<times> 'c) list"
where
  "join_key pid pkey cparent P C k =
     concat (map (\<lambda>p. map (Pair p) (children cparent (pid p) C)) (filter (\<lambda>p. pkey p = k) (rows P)))"

text \<open>\<open>DELETE FROM parents WHERE key = ?\<close> with \<open>ON DELETE CASCADE\<close>.\<close>

definition cascade_delete ::
  "('p \<Rightarrow> int) \<Rightarrow> ('p \<Rightarrow> 'k) \<Rightarrow> ('c \<Rightarrow> int) \<Rightarrow> 'k \<Rightarrow> 'p table \<Rightarrow> 'c table \<Rightarrow> 'p table \<times> 'c table"
where
  "cascade_delete pid pkey cparent k P C =
     (tbl_delete (\<lambda>p. pkey p = k) P,
      tbl_delete (\<lambda>c. list_ex (\<lambda>p. pkey p = k \<and> pid p = cparent c) (rows P)) C)"

section \<open>The contract\<close>

locale versioned_store =
  fixes pid :: "'p \<Rightarrow> int" and pkey :: "'p \<Rightarrow> 'k" and latest :: "'p \<Rightarrow> int"
    and bump :: "'m \<Rightarrow> int \<Rightarrow> 'p \<Rightarrow> 'p"
    and cparent :: "'c \<Rightarrow> int" and cversion :: "'c \<Rightarrow> int"
  assumes bump_pid: "pid (bump m n p) = pid p"
    and bump_pkey: "pkey (bump m n p) = pkey p"
    and bump_latest: "latest (bump m n p) = n"
begin

abbreviation "ok \<equiv> store_ok pid pkey latest cparent cversion"
abbreviation "hist \<equiv> history pid pkey cparent"
abbreviation "kids \<equiv> children cparent"

lemma ok_empty: "rows P = [] \<Longrightarrow> rows C = [] \<Longrightarrow> ok P C"
  by (simp add: store_ok_def)

lemma same_id: "ok P C \<Longrightarrow> p \<in> set (rows P) \<Longrightarrow> q \<in> set (rows P) \<Longrightarrow> pid p = pid q \<Longrightarrow> p = q"
  by (auto simp: store_ok_def distinct_map dest: inj_onD)

lemma same_key: "ok P C \<Longrightarrow> p \<in> set (rows P) \<Longrightarrow> q \<in> set (rows P) \<Longrightarrow> pkey p = pkey q \<Longrightarrow> p = q"
  by (auto simp: store_ok_def distinct_map dest: inj_onD)

lemma find_key_iff:
  assumes "ok P C"
  shows "find (\<lambda>p. pkey p = k) (rows P) = Some p \<longleftrightarrow> p \<in> set (rows P) \<and> pkey p = k"
proof
  show "find (\<lambda>p. pkey p = k) (rows P) = Some p \<Longrightarrow> p \<in> set (rows P) \<and> pkey p = k"
    by (rule find_SomeD)
  assume "p \<in> set (rows P) \<and> pkey p = k"
  then show "find (\<lambda>p. pkey p = k) (rows P) = Some p"
    using same_key [OF assms] by (intro find_unique) auto
qed

lemma hist_Some_iff:
  assumes "ok P C"
  shows "hist P C k = Some cs \<longleftrightarrow> (\<exists>p \<in> set (rows P). pkey p = k \<and> cs = kids (pid p) C)"
proof -
  have "hist P C k = Some cs \<longleftrightarrow> (\<exists>p. find (\<lambda>p. pkey p = k) (rows P) = Some p \<and> cs = kids (pid p) C)"
    by (auto simp: history_def)
  then show ?thesis by (auto simp: find_key_iff [OF assms])
qed

lemma hist_None_iff: "hist P C k = None \<longleftrightarrow> (\<forall>p \<in> set (rows P). pkey p \<noteq> k)"
  by (auto simp: history_def find_None_iff)

lemma versions_of:
  assumes "ok P C" "p \<in> set (rows P)"
  shows "map cversion (kids (pid p) C) = map int [1..<Suc (nat (latest p))] \<and> 1 \<le> latest p
    \<and> latest p = int (length (kids (pid p) C))"
proof -
  from assms have v: "map cversion (kids (pid p) C) = map int [1..<Suc (nat (latest p))]" "1 \<le> latest p"
    by (auto simp: store_ok_def)
  from arg_cong [OF v(1), of length] v(2) have "latest p = int (length (kids (pid p) C))" by simp
  with v show ?thesis by simp
qed

text \<open>Histories are numbered from 1 without gaps.\<close>

lemma hist_numbered:
  assumes "ok P C" "hist P C k = Some cs"
  shows "map cversion cs = map int [1..<Suc (length cs)] \<and> cs \<noteq> []"
proof -
  from assms obtain p where p: "p \<in> set (rows P)" "cs = kids (pid p) C"
    by (auto simp: hist_Some_iff)
  from versions_of [OF assms(1) p(1)] p(2) show ?thesis by (cases cs) auto
qed

text \<open>Looking a version up.\<close>

lemma find_numbered:
  assumes "map cversion cs = map int [1..<Suc (length cs)]"
  shows "find (\<lambda>c. cversion c = n) cs =
    (if 1 \<le> n \<and> n \<le> int (length cs) then Some (cs ! nat (n - 1)) else None)"
proof -
  have nth: "cversion (cs ! i) = int i + 1" if "i < length cs" for i
  proof -
    from that have "map cversion cs ! i = map int [1..<Suc (length cs)] ! i" by (simp only: assms)
    with that show ?thesis by (simp del: upt_Suc)
  qed
  show ?thesis
  proof (cases "1 \<le> n \<and> n \<le> int (length cs)")
    case True
    let ?i = "nat (n - 1)"
    from True have i: "?i < length cs" "cversion (cs ! ?i) = n" using nth [of ?i] by auto
    have "find (\<lambda>c. cversion c = n) cs = Some (cs ! ?i)"
    proof (rule find_unique)
      show "cs ! ?i \<in> set cs" "cversion (cs ! ?i) = n" using i by auto
      fix c assume "c \<in> set cs" "cversion c = n"
      then obtain j where "j < length cs" "c = cs ! j" by (auto simp: in_set_conv_nth)
      with nth [of j] \<open>cversion c = n\<close> have "?i = j" by simp
      with \<open>c = cs ! j\<close> show "c = cs ! ?i" by simp
    qed
    with True show ?thesis by simp
  next
    case False
    have "cversion c \<noteq> n" if "c \<in> set cs" for c
      using that nth False by (fastforce simp: in_set_conv_nth)
    then have "find (\<lambda>c. cversion c = n) cs = None" by (simp add: find_None_conv)
    with False show ?thesis by (simp only: if_False)
  qed
qed

lemma find_kid:
  "find (\<lambda>c. cparent c = i \<and> cversion c = n) (rows C) = find (\<lambda>c. cversion c = n) (kids i C)"
  by (simp add: children_def find_filter)

lemma join_key_eq:
  assumes "ok P C"
  shows "join_key pid pkey cparent P C k =
    (case find (\<lambda>p. pkey p = k) (rows P) of None \<Rightarrow> [] | Some p \<Rightarrow> map (Pair p) (kids (pid p) C))"
proof -
  have "filter (\<lambda>p. pkey p = k) ps =
      (case find (\<lambda>p. pkey p = k) ps of None \<Rightarrow> [] | Some p \<Rightarrow> [p])"
    if "distinct (map pkey ps)" for ps
    using that
  proof (induction ps)
    case (Cons q ps)
    from Cons.prems have e: "pkey q = k \<Longrightarrow> filter (\<lambda>p. pkey p = k) ps = []"
      by (auto simp: filter_empty_conv image_iff)
    show ?case
    proof (cases "pkey q = k")
      case True
      with e show ?thesis by simp
    next
      case False
      with Cons show ?thesis by simp
    qed
  qed simp
  then show ?thesis
    using assms by (auto simp: join_key_def store_ok_def split: option.split)
qed

text \<open>Kids of ids that do not occur.\<close>

lemma kids_fresh: "ok P C \<Longrightarrow> kids (next_id P) C = []"
  by (force simp: children_def store_ok_def filter_empty_conv)

lemma kids_append:
  "rows C' = rows C @ [c] \<Longrightarrow> kids i C' = kids i C @ (if cparent c = i then [c] else [])"
  by (simp add: children_def)

text \<open>A first version under a new key.\<close>

lemma create_ok:
  assumes "ok P C" "hist P C k = None"
    and P': "rows P' = rows P @ [p]" "next_id P' = next_id P + 1"
    and p: "pid p = next_id P" "pkey p = k" "latest p = 1"
    and C': "rows C' = rows C @ [c]" and c: "cparent c = next_id P" "cversion c = 1"
  shows "ok P' C' \<and> hist P' C' = (hist P C)(k \<mapsto> [c])"
proof
  note kf = kids_fresh [OF assms(1)]
  have id: "pid q < next_id P" if "q \<in> set (rows P)" for q
    using assms(1) that by (auto simp: store_ok_def)
  have k: "pkey q \<noteq> k" if "q \<in> set (rows P)" for q
    using assms(2) that by (simp add: hist_None_iff)
  have kids: "kids (pid q) C' = kids (pid q) C" if "q \<in> set (rows P)" for q
    using id [OF that] c(1) by (simp add: kids_append [OF C'])
  have new: "kids (next_id P) C' = [c]" using kf c(1) by (simp add: kids_append [OF C'])
  have "\<forall>c \<in> set (rows C). cparent c \<in> pid ` set (rows P)"
    using assms(1) by (simp add: store_ok_def)
  moreover have "1 \<le> latest q \<and> map cversion (kids (pid q) C') = map int [1..<Suc (nat (latest q))]"
    if "q \<in> set (rows P)" for q
    using assms(1) kids [OF that] that by (simp add: store_ok_def)
  ultimately show "ok P' C'"
    using assms(1) id k new p c unfolding store_ok_def P' C' by fastforce
  show "hist P' C' = (hist P C)(k \<mapsto> [c])"
  proof
    fix j
    show "hist P' C' j = ((hist P C)(k \<mapsto> [c])) j"
    proof (cases "j = k")
      case True
      have "find (\<lambda>p. pkey p = k) (rows P') = Some p"
        using k p(2) by (simp add: P' find_append find_None_conv [THEN iffD2])
      then show ?thesis using True new p(1) by (simp add: history_def)
    next
      case False
      then have "find (\<lambda>p. pkey p = j) (rows P') = find (\<lambda>p. pkey p = j) (rows P)"
        using p(2) by (simp add: P' find_append split: option.split)
      then show ?thesis
        using False kids by (auto simp: history_def map_option_case split: option.split dest!: find_SomeD)
    qed
  qed
qed

text \<open>The next version of an existing key.\<close>

lemma append_ok:
  assumes "ok P C" "p \<in> set (rows P)" "pkey p = k" "hist P C k = Some cs"
    and P': "P' = tbl_update (\<lambda>q. pid q = pid p) (bump m (latest p + 1)) P"
    and C': "rows C' = rows C @ [c]" and c: "cparent c = pid p" "cversion c = latest p + 1"
  shows "ok P' C' \<and> hist P' C' = (hist P C)(k \<mapsto> cs @ [c])"
proof
  let ?f = "\<lambda>q. if pid q = pid p then bump m (latest p + 1) q else q"
  have P'': "rows P' = map ?f (rows P)" "next_id P' = next_id P" by (simp_all add: P')
  have pid: "pid (?f q) = pid q" and pkey: "pkey (?f q) = pkey q" for q
    by (simp_all add: bump_pid bump_pkey)
  have cs: "kids (pid p) C = cs"
  proof -
    have "find (\<lambda>p. pkey p = k) (rows P) = Some p" using assms(1-3) by (simp add: find_key_iff)
    with assms(4) show ?thesis by (simp add: history_def)
  qed
  note vp = versions_of [OF assms(1,2)]
  have maps: "map pid (rows P') = map pid (rows P)" "map pkey (rows P') = map pkey (rows P)"
    by (simp_all add: P'' pid pkey)
  have sets: "pid ` set (rows P') = pid ` set (rows P)"
    using arg_cong [OF maps(1), of set] by simp
  have vers: "1 \<le> latest (?f q) \<and> map cversion (kids (pid (?f q)) C') = map int [1..<Suc (nat (latest (?f q)))]"
    if "q \<in> set (rows P)" for q
  proof (cases "pid q = pid p")
    case True
    with same_id [OF assms(1) that assms(2)] have "q = p" .
    then show ?thesis
      using vp c by (simp add: bump_pid bump_latest kids_append [OF C'] nat_add_distrib)
  next
    case False
    then show ?thesis
      using versions_of [OF assms(1) that] c(1) by (simp add: kids_append [OF C'])
  qed
  have bounds: "\<forall>q \<in> set (rows P'). pid q < next_id P'"
    using assms(1) by (auto simp: P'' store_ok_def bump_pid)
  have par: "\<forall>x \<in> set (rows C'). cparent x \<in> pid ` set (rows P')"
    using assms(1,2) c(1) by (auto simp: sets C' store_ok_def)
  have "\<forall>q \<in> set (rows P'). 1 \<le> latest q \<and> map cversion (kids (pid q) C') = map int [1..<Suc (nat (latest q))]"
    using vers by (auto simp only: P'' set_map)
  then show "ok P' C'"
    using assms(1) bounds par by (simp add: store_ok_def maps)
  show "hist P' C' = (hist P C)(k \<mapsto> cs @ [c])"
  proof
    fix j
    have f: "find (\<lambda>q. pkey q = j) (map g ps) = map_option g (find (\<lambda>q. pkey q = j) ps)"
      if "\<And>q. pkey (g q) = pkey q" for g ps
      by (induction ps) (simp_all add: that)
    have h: "hist P' C' j = map_option (\<lambda>q. kids (pid q) C') (find (\<lambda>q. pkey q = j) (rows P))"
    proof -
      have "find (\<lambda>q. pkey q = j) (rows P') = map_option ?f (find (\<lambda>q. pkey q = j) (rows P))"
        unfolding P''(1) by (rule f) (rule pkey)
      then show ?thesis by (cases "find (\<lambda>q. pkey q = j) (rows P)") (simp_all add: history_def bump_pid)
    qed
    show "hist P' C' j = ((hist P C)(k \<mapsto> cs @ [c])) j"
    proof (cases "find (\<lambda>q. pkey q = j) (rows P)")
      case None
      then have "j \<noteq> k" using assms(2,3) by (auto simp: find_None_conv)
      with None h show ?thesis by (simp add: history_def)
    next
      case (Some q)
      then have q: "q \<in> set (rows P)" "pkey q = j" by (auto dest: find_SomeD)
      have e: "pid q = pid p \<longleftrightarrow> j = k"
      proof
        assume "pid q = pid p"
        with same_id [OF assms(1) q(1) assms(2)] have "q = p" .
        with q(2) assms(3) show "j = k" by simp
      next
        assume "j = k"
        with q(2) assms(3) same_key [OF assms(1) q(1) assms(2)] have "q = p" by simp
        then show "pid q = pid p" by simp
      qed
      have "hist P C j = Some (kids (pid q) C)" by (simp add: history_def Some)
      moreover have "hist P' C' j = Some (kids (pid q) C @ (if pid p = pid q then [c] else []))"
        by (simp add: h Some kids_append [OF C'] c(1))
      ultimately show ?thesis using e cs by (cases "j = k") simp_all
    qed
  qed
qed

text \<open>Deleting a key with its history.\<close>

lemma delete_ok:
  assumes "ok P C" "cascade_delete pid pkey cparent k P C = (P', C')"
  shows "ok P' C' \<and> hist P' C' = (hist P C)(k := None)"
proof
  have P': "rows P' = filter (\<lambda>p. pkey p \<noteq> k) (rows P)" "next_id P' = next_id P"
    and C': "rows C' = filter (\<lambda>c. \<not> (\<exists>p \<in> set (rows P). pkey p = k \<and> pid p = cparent c)) (rows C)"
    using assms(2) by (auto simp: cascade_delete_def list_ex_iff)
  have kids: "kids (pid q) C' = kids (pid q) C" if "q \<in> set (rows P)" "pkey q \<noteq> k" for q
  proof -
    have "\<not> (\<exists>p \<in> set (rows P). pkey p = k \<and> pid p = pid q)"
      using same_id [OF assms(1) _ that(1)] that(2) by auto
    then show ?thesis by (auto simp: children_def C' intro: filter_cong)
  qed
  have par: "cparent c \<in> pid ` set (rows P')" if "c \<in> set (rows C')" for c
    using assms(1) that by (fastforce simp: C' P' store_ok_def)
  show "ok P' C'"
    using assms(1) par kids
    by (auto simp: store_ok_def P' distinct_map inj_on_def)
  show "hist P' C' = (hist P C)(k := None)"
  proof
    fix j
    show "hist P' C' j = ((hist P C)(k := None)) j"
    proof (cases "j = k")
      case True
      then show ?thesis by (simp add: hist_None_iff P')
    next
      case False
      then have "find (\<lambda>p. pkey p = j) (rows P') = find (\<lambda>p. pkey p = j) (rows P)"
        by (simp add: P' find_filter) (metis)
      then show ?thesis
        using False kids by (auto simp: history_def map_option_case split: option.split dest!: find_SomeD)
    qed
  qed
qed

text \<open>Lookups of parents after each of the three updates.\<close>

lemma find_after_create:
  assumes "hist P C k = None" "rows P' = rows P @ [p]" "pkey p = k"
  shows "find (\<lambda>q. pkey q = j) (rows P') = (if j = k then Some p else find (\<lambda>q. pkey q = j) (rows P))"
proof (cases "j = k")
  case True
  have "find (\<lambda>q. pkey q = k) (rows P) = None"
    using assms(1) by (simp add: hist_None_iff find_None_conv)
  with True assms(2,3) show ?thesis by (simp add: find_append)
next
  case False
  with assms(2,3) show ?thesis by (simp add: find_append split: option.split)
qed

lemma find_after_bump:
  assumes "ok P C" "p \<in> set (rows P)" "P' = tbl_update (\<lambda>q. pid q = pid p) (bump m n) P"
  shows "find (\<lambda>q. pkey q = j) (rows P') =
    (if j = pkey p then Some (bump m n p) else find (\<lambda>q. pkey q = j) (rows P))"
proof -
  let ?f = "\<lambda>q. if pid q = pid p then bump m n q else q"
  have "find (\<lambda>q. pkey q = j) (map ?f ps) = map_option ?f (find (\<lambda>q. pkey q = j) ps)" for ps
    by (induction ps) (auto simp: bump_pkey)
  then have f: "find (\<lambda>q. pkey q = j) (rows P') = map_option ?f (find (\<lambda>q. pkey q = j) (rows P))"
    by (simp add: assms(3))
  show ?thesis
  proof (cases "j = pkey p")
    case True
    with assms(1,2) have "find (\<lambda>q. pkey q = j) (rows P) = Some p" by (simp add: find_key_iff)
    with f True show ?thesis by simp
  next
    case False
    have "pid q \<noteq> pid p" if "find (\<lambda>q. pkey q = j) (rows P) = Some q" for q
      using find_SomeD [OF that] same_id [OF assms(1) _ assms(2)] False by auto
    with f False show ?thesis by (cases "find (\<lambda>q. pkey q = j) (rows P)") auto
  qed
qed

lemma find_after_delete:
  assumes "cascade_delete pid pkey cparent k P C = (P', C')"
  shows "find (\<lambda>q. pkey q = j) (rows P') = (if j = k then None else find (\<lambda>q. pkey q = j) (rows P))"
proof -
  have e: "rows P' = filter (\<lambda>p. pkey p \<noteq> k) (rows P)" using assms by (auto simp: cascade_delete_def)
  show ?thesis
  proof (cases "j = k")
    case True
    then show ?thesis by (simp add: e find_None_conv)
  next
    case False
    then have "(\<lambda>p. pkey p \<noteq> k \<and> pkey p = j) = (\<lambda>p. pkey p = j)" by auto
    with False show ?thesis by (simp add: e find_filter)
  qed
qed

lemma kids_after_delete:
  assumes "ok P C" "cascade_delete pid pkey cparent k P C = (P', C')" "p \<in> set (rows P)" "pkey p \<noteq> k"
  shows "kids (pid p) C' = kids (pid p) C"
proof -
  have "\<not> (\<exists>q \<in> set (rows P). pkey q = k \<and> pid q = pid p)"
    using same_id [OF assms(1) _ assms(3)] assms(4) by auto
  moreover have "rows C' = filter (\<lambda>c. \<not> (\<exists>q \<in> set (rows P). pkey q = k \<and> pid q = cparent c)) (rows C)"
    using assms(2) by (auto simp: cascade_delete_def list_ex_iff)
  ultimately show ?thesis by (auto simp: children_def intro: filter_cong)
qed

text \<open>The \<open>UNIQUE\<close> constraints never stop an insertion.\<close>

lemma parent_unique: "hist P C k = None \<Longrightarrow> \<forall>p \<in> set (rows P). pkey p \<noteq> k"
  by (simp add: hist_None_iff)

lemma first_child_unique:
  "ok P C \<Longrightarrow> \<forall>c \<in> set (rows C). (cparent c, cversion c) \<noteq> (next_id P, 1)"
  by (fastforce simp: store_ok_def)

lemma next_child_unique:
  assumes "ok P C" "p \<in> set (rows P)"
  shows "\<forall>c \<in> set (rows C). (cparent c, cversion c) \<noteq> (pid p, latest p + 1)"
proof (intro ballI notI)
  fix c assume c: "c \<in> set (rows C)" "(cparent c, cversion c) = (pid p, latest p + 1)"
  then have "cversion c \<in> cversion ` set (kids (pid p) C)" by (intro imageI) (simp add: children_def)
  then have "cversion c \<in> set (map cversion (kids (pid p) C))" by (simp only: set_map)
  with versions_of [OF assms] c(2) show False by auto
qed

end

end
