(* ===== verification/KvStore.thy ===== *)
theory KvStore
  imports VersionStore Crypto
begin

text \<open>
  \<open>src/kv/paths.py\<close> and \<open>src/kv/repository.py\<close>: the owner named in a path, and the tables
  \<open>kv_records\<close> (one pointer per path) and \<open>kv_versions\<close> (the append-only history). The
  abstract view of the two tables is \<open>kv_history\<close>, a map from (owner, path) to the list of
  versions.
\<close>

section \<open>\<open>paths.py\<close>\<close>

definition PATH_PREFIX :: pystr where "PATH_PREFIX = lit ''secret/''"

definition extract_owner_email_from_path :: "unidata \<Rightarrow> pystr \<Rightarrow> pystr res" where
  "extract_owner_email_from_path U path =
     (if \<not> startswith path PATH_PREFIX then Inl (Py ValueError)
      else case py_split 47 1 (drop (length PATH_PREFIX) path) of
             [owner, rest] \<Rightarrow>
               if owner = [] \<or> rest = [] then Inl (Py ValueError)
               else Inr (py_lower U (py_strip U owner))
           | _ \<Rightarrow> Inl (Py ValueError))"

section \<open>\<open>repository.py\<close>\<close>

definition rec_key :: "kv_record_row \<Rightarrow> pystr \<times> pystr" where
  "rec_key r = (rec_owner_email r, rec_path r)"

definition rec_bump :: "pystr \<Rightarrow> int \<Rightarrow> kv_record_row \<Rightarrow> kv_record_row" where
  "rec_bump stamp version r = r\<lparr>rec_latest_version := version, rec_updated_at := stamp\<rparr>"

definition kv_find :: "pystr \<Rightarrow> pystr \<Rightarrow> database \<Rightarrow> kv_record_row option" where
  "kv_find owner path d = tbl_one (\<lambda>r. rec_key r = (owner, path)) (kv_records d)"

definition kv_insert_record :: "pystr \<Rightarrow> pystr \<Rightarrow> int \<Rightarrow> pystr \<Rightarrow> database \<Rightarrow> (int \<times> database) res" where
  "kv_insert_record owner path version stamp d =
     bindR (tbl_insert rec_key
              (\<lambda>i. \<lparr>rec_id = i, rec_owner_email = owner, rec_path = path, rec_latest_version = version,
                    rec_created_at = stamp, rec_updated_at = stamp\<rparr>) (kv_records d))
       (\<lambda>(i, t). Inr (i, d\<lparr>kv_records := t\<rparr>))"

definition kv_update_record :: "int \<Rightarrow> int \<Rightarrow> pystr \<Rightarrow> database \<Rightarrow> database" where
  "kv_update_record record_id version stamp d =
     d\<lparr>kv_records := tbl_update (\<lambda>r. rec_id r = record_id) (rec_bump stamp version) (kv_records d)\<rparr>"

definition kv_insert_version ::
  "int \<Rightarrow> int \<Rightarrow> pystr \<times> pystr \<times> pystr \<Rightarrow> pystr \<Rightarrow> database \<Rightarrow> (int \<times> database) res"
where
  "kv_insert_version record_id version encrypted stamp d =
     (case encrypted of (nonce, ciphertext, tag) \<Rightarrow>
        bindR (tbl_insert (\<lambda>v. (kvv_record_id v, kvv_version v))
                 (\<lambda>i. \<lparr>kvv_id = i, kvv_record_id = record_id, kvv_version = version,
                       kvv_nonce_b64 = nonce, kvv_ciphertext_b64 = ciphertext, kvv_tag_b64 = tag,
                       kvv_created_at = stamp\<rparr>) (kv_versions d))
          (\<lambda>(i, t). Inr (i, d\<lparr>kv_versions := t\<rparr>)))"

record kv_write_result =
  written_created_at :: pystr
  written_updated_at :: pystr
  written_version :: int

text \<open>The transaction that allocates the next version and stores what \<open>encrypt\<close> makes of it.\<close>

definition append_version_at ::
  "pystr \<Rightarrow> pystr \<Rightarrow> (int \<Rightarrow> (pystr \<times> pystr \<times> pystr) action) \<Rightarrow> pystr \<Rightarrow> kv_write_result action"
where
  "append_version_at owner path encrypt stamp =
     exclusive_connection
       (bindM (liftR (bind_texts [owner, path])) (\<lambda>_.
        bindM (query (kv_find owner path)) (\<lambda>record.
        bindM (case record of
             None \<Rightarrow> bindM (execute (kv_insert_record owner path 1 stamp)) (\<lambda>i. ret (1, i, stamp))
           | Some r \<Rightarrow>
               let version = rec_latest_version r + 1
               in bindM (liftR (bind_int version)) (\<lambda>_.
                  bindM (execute_update (kv_update_record (rec_id r) version stamp)) (\<lambda>_.
                  ret (version, rec_id r, rec_created_at r))))
          (\<lambda>(version, record_id, created).
        bindM (encrypt version) (\<lambda>encrypted.
        bindM (execute (kv_insert_version record_id version encrypted stamp)) (\<lambda>_.
        ret \<lparr>written_created_at = created, written_updated_at = stamp,
             written_version = version\<rparr>))))))"

definition append_version ::
  "pystr \<Rightarrow> pystr \<Rightarrow> (int \<Rightarrow> (pystr \<times> pystr \<times> pystr) action) \<Rightarrow> kv_write_result action"
where
  "append_version owner path encrypt = bindM now_text (append_version_at owner path encrypt)"

definition kv_join :: "pystr \<Rightarrow> pystr \<Rightarrow> database \<Rightarrow> (kv_record_row \<times> kv_version_row) list" where
  "kv_join owner path d =
     join_key rec_id rec_key kvv_record_id (kv_records d) (kv_versions d) (owner, path)"

definition kv_get_version ::
  "pystr \<Rightarrow> pystr \<Rightarrow> int option \<Rightarrow> (kv_record_row \<times> kv_version_row) option action"
where
  "kv_get_version owner path version =
     connection
       (bindM (liftR (bind_texts [owner, path])) (\<lambda>_.
        case version of
          None \<Rightarrow>
            query (\<lambda>d. find (\<lambda>(r, v). kvv_version v = rec_latest_version r) (kv_join owner path d))
        | Some n \<Rightarrow>
            bindM (liftR (bind_int n)) (\<lambda>_.
            query (\<lambda>d. find (\<lambda>(r, v). kvv_version v = n) (kv_join owner path d)))))"

definition kv_list_versions :: "pystr \<Rightarrow> pystr \<Rightarrow> (kv_record_row \<times> kv_version_row) list action" where
  "kv_list_versions owner path =
     connection
       (bindM (liftR (bind_texts [owner, path])) (\<lambda>_.
        query (\<lambda>d. sort_key (\<lambda>(r, v). kvv_version v) (kv_join owner path d))))"

text \<open>\<open>cursor.rowcount > 0\<close>, with the cascade to \<open>kv_versions\<close>.\<close>

definition kv_delete_rows :: "pystr \<Rightarrow> pystr \<Rightarrow> database \<Rightarrow> (bool \<times> database) res" where
  "kv_delete_rows owner path d =
     (case cascade_delete rec_id rec_key kvv_record_id (owner, path) (kv_records d) (kv_versions d) of
        (P, C) \<Rightarrow> Inr (kv_find owner path d \<noteq> None, d\<lparr>kv_records := P, kv_versions := C\<rparr>))"

definition kv_delete_path :: "pystr \<Rightarrow> pystr \<Rightarrow> bool action" where
  "kv_delete_path owner path =
     connection
       (bindM (liftR (bind_texts [owner, path])) (\<lambda>_.
        execute (kv_delete_rows owner path)))"

section \<open>The contract\<close>

interpretation kvs: versioned_store rec_id rec_key rec_latest_version rec_bump kvv_record_id kvv_version
  by unfold_locales (simp_all add: rec_bump_def rec_key_def)

definition kv_ok :: "database \<Rightarrow> bool" where
  "kv_ok d \<longleftrightarrow>
     store_ok rec_id rec_key rec_latest_version kvv_record_id kvv_version (kv_records d) (kv_versions d)"

definition kv_history :: "database \<Rightarrow> pystr \<times> pystr \<Rightarrow> kv_version_row list option" where
  "kv_history d = history rec_id rec_key kvv_record_id (kv_records d) (kv_versions d)"

text \<open>Nothing but the two KV tables differs.\<close>

definition kv_frame :: "database \<Rightarrow> database \<Rightarrow> bool" where
  "kv_frame d d' \<longleftrightarrow> d'\<lparr>kv_records := kv_records d, kv_versions := kv_versions d\<rparr> = d"

lemma kv_frame_fields:
  "kv_frame d d' \<Longrightarrow> table_names d' = table_names d \<and> schema_metadata d' = schema_metadata d
    \<and> users d' = users d \<and> sessions d' = sessions d \<and> named_keys d' = named_keys d
    \<and> named_key_versions d' = named_key_versions d \<and> audit_logs d' = audit_logs d"
  by (cases d, cases d') (simp add: kv_frame_def)

lemma kv_ok_cong:
  "kv_records d' = kv_records d \<Longrightarrow> kv_versions d' = kv_versions d \<Longrightarrow> kv_ok d' = kv_ok d"
  by (simp add: kv_ok_def)

lemma kv_history_cong:
  "kv_records d' = kv_records d \<Longrightarrow> kv_versions d' = kv_versions d \<Longrightarrow> kv_history d' = kv_history d"
  by (simp add: kv_history_def)

definition kv_past :: "database \<Rightarrow> pystr \<times> pystr \<Rightarrow> kv_version_row list" where
  "kv_past d k = (case kv_history d k of None \<Rightarrow> [] | Some vs \<Rightarrow> vs)"

section \<open>Appending a version\<close>

definition kv_next :: "pystr \<Rightarrow> pystr \<Rightarrow> database \<Rightarrow> int" where
  "kv_next owner path d = (case kv_find owner path d of None \<Rightarrow> 1 | Some r \<Rightarrow> rec_latest_version r + 1)"

definition kv_prepared :: "pystr \<Rightarrow> pystr \<Rightarrow> pystr \<Rightarrow> database \<Rightarrow> database" where
  "kv_prepared owner path stamp d =
     (case kv_find owner path d of
        None \<Rightarrow> d\<lparr>kv_records := (kv_records d)
          \<lparr>rows := rows (kv_records d) @
             [\<lparr>rec_id = next_id (kv_records d), rec_owner_email = owner, rec_path = path,
               rec_latest_version = 1, rec_created_at = stamp, rec_updated_at = stamp\<rparr>],
           next_id := next_id (kv_records d) + 1\<rparr>\<rparr>
      | Some r \<Rightarrow> kv_update_record (rec_id r) (rec_latest_version r + 1) stamp d)"

definition kv_target :: "pystr \<Rightarrow> pystr \<Rightarrow> database \<Rightarrow> int" where
  "kv_target owner path d = (case kv_find owner path d of None \<Rightarrow> next_id (kv_records d) | Some r \<Rightarrow> rec_id r)"

definition kv_created :: "pystr \<Rightarrow> pystr \<Rightarrow> pystr \<Rightarrow> database \<Rightarrow> pystr" where
  "kv_created owner path stamp d = (case kv_find owner path d of None \<Rightarrow> stamp | Some r \<Rightarrow> rec_created_at r)"

definition kv_row :: "pystr \<Rightarrow> pystr \<Rightarrow> pystr \<Rightarrow> pystr \<times> pystr \<times> pystr \<Rightarrow> database \<Rightarrow> kv_version_row" where
  "kv_row owner path stamp encrypted d =
     \<lparr>kvv_id = next_id (kv_versions d), kvv_record_id = kv_target owner path d,
      kvv_version = kv_next owner path d, kvv_nonce_b64 = fst encrypted,
      kvv_ciphertext_b64 = fst (snd encrypted), kvv_tag_b64 = snd (snd encrypted),
      kvv_created_at = stamp\<rparr>"

definition kv_appended :: "pystr \<Rightarrow> pystr \<Rightarrow> pystr \<Rightarrow> pystr \<times> pystr \<times> pystr \<Rightarrow> database \<Rightarrow> database" where
  "kv_appended owner path stamp encrypted d =
     (kv_prepared owner path stamp d)\<lparr>kv_versions := (kv_versions d)
        \<lparr>rows := rows (kv_versions d) @ [kv_row owner path stamp encrypted d],
         next_id := next_id (kv_versions d) + 1\<rparr>\<rparr>"

lemma kv_find_iff:
  "kv_ok d \<Longrightarrow> kv_find owner path d = Some r \<longleftrightarrow> r \<in> set (rows (kv_records d)) \<and> rec_key r = (owner, path)"
  by (simp add: kv_find_def tbl_one_def kv_ok_def kvs.find_key_iff)

lemma kv_find_None: "kv_find owner path d = None \<longleftrightarrow> kv_history d (owner, path) = None"
  by (simp add: kv_find_def tbl_one_def kv_history_def history_def)

lemma kv_find_past:
  assumes "kv_ok d" "kv_find owner path d = Some r"
  shows "kv_history d (owner, path) = Some (children kvv_record_id (rec_id r) (kv_versions d))
    \<and> rec_latest_version r = int (length (kv_past d (owner, path)))"
proof -
  have h: "kv_history d (owner, path) = Some (children kvv_record_id (rec_id r) (kv_versions d))"
    using assms(2) by (simp add: kv_history_def history_def kv_find_def tbl_one_def)
  have "r \<in> set (rows (kv_records d))" using assms by (simp add: kv_find_iff)
  from kvs.versions_of [OF assms(1) [unfolded kv_ok_def] this] have "rec_latest_version r =
      int (length (children kvv_record_id (rec_id r) (kv_versions d)))"
    by (elim conjE)
  with h show ?thesis by (simp add: kv_past_def)
qed

lemma kv_next_length: "kv_ok d \<Longrightarrow> kv_next owner path d = int (length (kv_past d (owner, path))) + 1"
proof (cases "kv_find owner path d")
  case None
  then have "kv_past d (owner, path) = []" by (simp add: kv_find_None kv_past_def)
  with None show ?thesis by (simp add: kv_next_def)
next
  case (Some r)
  assume "kv_ok d"
  from kv_find_past [OF this Some] Some show ?thesis by (simp add: kv_next_def)
qed

text \<open>The refinement step: appending to the tables appends to the history.\<close>

lemma kv_appended_ok:
  assumes "kv_ok d"
  shows "kv_ok (kv_appended owner path stamp enc d)
    \<and> kv_history (kv_appended owner path stamp enc d) =
        (kv_history d)((owner, path) \<mapsto> kv_past d (owner, path) @ [kv_row owner path stamp enc d])
    \<and> kv_frame d (kv_appended owner path stamp enc d)"
proof (cases "kv_find owner path d")
  case None
  then have h: "kv_history d (owner, path) = None" by (simp add: kv_find_None)
  have s: "kv_next owner path d = 1" "kv_target owner path d = next_id (kv_records d)"
    using None by (simp_all add: kv_next_def kv_target_def)
  have "store_ok rec_id rec_key rec_latest_version kvv_record_id kvv_version
      (kv_records (kv_appended owner path stamp enc d)) (kv_versions (kv_appended owner path stamp enc d))
    \<and> history rec_id rec_key kvv_record_id
      (kv_records (kv_appended owner path stamp enc d)) (kv_versions (kv_appended owner path stamp enc d))
      = (history rec_id rec_key kvv_record_id (kv_records d) (kv_versions d))
          ((owner, path) \<mapsto> [kv_row owner path stamp enc d])"
    using assms h
    by (intro kvs.create_ok [where p = "last (rows (kv_records (kv_appended owner path stamp enc d)))"])
       (simp_all add: kv_ok_def kv_history_def kv_appended_def kv_prepared_def None kv_row_def s rec_key_def)
  then show ?thesis
    using h by (simp add: kv_ok_def kv_history_def kv_past_def kv_frame_def kv_appended_def
        kv_prepared_def None)
next
  case (Some r)
  note p = kv_find_past [OF assms Some]
  have r: "r \<in> set (rows (kv_records d))" "rec_key r = (owner, path)"
    using Some assms by (simp_all add: kv_find_iff)
  have s: "kv_next owner path d = rec_latest_version r + 1" "kv_target owner path d = rec_id r"
    using Some by (simp_all add: kv_next_def kv_target_def)
  have "store_ok rec_id rec_key rec_latest_version kvv_record_id kvv_version
      (kv_records (kv_appended owner path stamp enc d)) (kv_versions (kv_appended owner path stamp enc d))
    \<and> history rec_id rec_key kvv_record_id
      (kv_records (kv_appended owner path stamp enc d)) (kv_versions (kv_appended owner path stamp enc d))
      = (history rec_id rec_key kvv_record_id (kv_records d) (kv_versions d))
          ((owner, path) \<mapsto> kv_past d (owner, path) @ [kv_row owner path stamp enc d])"
    using assms p r
    by (intro kvs.append_ok [where p = r and m = stamp])
       (simp_all add: kv_ok_def kv_history_def kv_past_def kv_appended_def kv_prepared_def Some
          kv_row_def s kv_update_record_def)
  then show ?thesis
    by (simp add: kv_ok_def kv_history_def kv_frame_def kv_appended_def kv_prepared_def Some
        kv_update_record_def)
qed

lemma append_version_at_run:
  assumes "kv_ok (db w)" "list_all scalar owner" "list_all scalar path"
    and "kv_next owner path (db w) < 2 ^ 63"
    and frame: "\<And>n u r u'. encrypt n u = (r, u') \<Longrightarrow> db u' = db u"
  shows "append_version_at owner path encrypt stamp w =
    (let d = db w
     in case encrypt (kv_next owner path d) (w\<lparr>db := kv_prepared owner path stamp d\<rparr>) of
          (Inl e, u) \<Rightarrow> (Inl e, u\<lparr>db := d\<rparr>)
        | (Inr enc, u) \<Rightarrow>
            (Inr \<lparr>written_created_at = kv_created owner path stamp d, written_updated_at = stamp,
                  written_version = kv_next owner path d\<rparr>,
             u\<lparr>db := kv_appended owner path stamp enc d\<rparr>))"
proof -
  let ?d = "db w" and ?w = "w\<lparr>db := kv_prepared owner path stamp (db w)\<rparr>"
  have t: "bind_texts [owner, path] = Inr ()" using assms(2,3) by (simp add: bind_texts_def)
  have n: "bind_int (kv_next owner path ?d) = Inr ()"
    using assms(1,4) by (simp add: bind_int_def kv_next_length)
  have v: "kv_versions (kv_prepared owner path stamp ?d) = kv_versions ?d"
    by (simp add: kv_prepared_def kv_update_record_def split: option.split)
  have ins: "kv_insert_version (kv_target owner path ?d) (kv_next owner path ?d) enc stamp
      (kv_prepared owner path stamp ?d) =
      Inr (next_id (kv_versions ?d), kv_appended owner path stamp enc ?d)" for enc
  proof -
    have "\<forall>c \<in> set (rows (kv_versions ?d)). (kvv_record_id c, kvv_version c)
        \<noteq> (kv_target owner path ?d, kv_next owner path ?d)"
    proof (cases "kv_find owner path ?d")
      case None
      with kvs.first_child_unique assms(1) show ?thesis
        by (simp add: kv_target_def kv_next_def kv_ok_def)
    next
      case (Some r)
      with kv_find_iff [OF assms(1)] have "r \<in> set (rows (kv_records ?d))" by simp
      with Some kvs.next_child_unique assms(1) show ?thesis
        by (simp add: kv_target_def kv_next_def kv_ok_def)
    qed
    then show ?thesis
      by (cases enc) (simp add: kv_insert_version_def v tbl_insert_ok kv_appended_def kv_row_def)
  qed
  obtain r u where e: "encrypt (kv_next owner path ?d) ?w = (r, u)" by (rule prod.exhaust)
  then have u: "db u = kv_prepared owner path stamp ?d" by (auto dest: frame)
  show ?thesis
  proof (cases "kv_find owner path ?d")
    case None
    then have "\<forall>p \<in> set (rows (kv_records ?d)). rec_key p \<noteq> (owner, path)"
      by (intro kvs.parent_unique [of _ "kv_versions ?d"]) (simp add: kv_find_None kv_history_def)
    then have "kv_insert_record owner path 1 stamp ?d =
        Inr (next_id (kv_records ?d), kv_prepared owner path stamp ?d)"
      by (simp add: kv_insert_record_def tbl_insert_ok kv_prepared_def rec_key_def None)
    then show ?thesis
      using None e u ins [of "projr r"]
      by (cases r) (simp_all add: append_version_at_def exclusive_connection_def op_simps op_run t Let_def
          kv_next_def kv_target_def kv_created_def)
  next
    case (Some x)
    then show ?thesis
      using e u ins [of "projr r"] n
      by (cases r) (simp_all add: append_version_at_def exclusive_connection_def op_simps op_run t Let_def
          kv_next_def kv_target_def kv_created_def kv_prepared_def)
  qed
qed

lemma append_version_run:
  assumes "kv_ok (db w)" "list_all scalar owner" "list_all scalar path"
    and "kv_next owner path (db w) < 2 ^ 63"
    and frame: "\<And>n u r u'. encrypt n u = (r, u') \<Longrightarrow> db u' = db u"
  shows "append_version owner path encrypt w =
    (let stamp = isoformat (clock w (ticks w)); d = db w
     in case encrypt (kv_next owner path d)
               (w\<lparr>ticks := Suc (ticks w), db := kv_prepared owner path stamp d\<rparr>) of
          (Inl e, u) \<Rightarrow> (Inl e, u\<lparr>db := d\<rparr>)
        | (Inr enc, u) \<Rightarrow>
            (Inr \<lparr>written_created_at = kv_created owner path stamp d, written_updated_at = stamp,
                  written_version = kv_next owner path d\<rparr>,
             u\<lparr>db := kv_appended owner path stamp enc d\<rparr>))"
  using append_version_at_run [of "w\<lparr>ticks := Suc (ticks w)\<rparr>" owner path encrypt] assms
  by (simp add: append_version_def op_run op_simps Let_def)

section \<open>Reading and deleting\<close>

lemma append_version_at_bound:
  assumes "append_version_at owner path encrypt stamp w = (Inr res, w')"
  shows "kv_next owner path (db w) < 2 ^ 63 \<and> list_all scalar owner \<and> list_all scalar path"
  using assms
  by (auto simp: append_version_at_def bindM_Inr_iff exclusive_Inr_iff op_simps bind_texts_def bind_int_def
      kv_next_def Let_def split: if_splits option.splits)

lemma append_version_bound:
  "append_version owner path encrypt w = (Inr res, w') \<Longrightarrow>
   kv_next owner path (db w) < 2 ^ 63 \<and> list_all scalar owner \<and> list_all scalar path"
  by (auto simp: append_version_def bindM_Inr_iff op_simps dest: append_version_at_bound)

lemma append_version_at_Inl: "append_version_at owner path encrypt stamp w = (Inl e, w') \<Longrightarrow> db w' = db w"
  by (auto simp: append_version_at_def dest: exclusive_Inl_db)

lemma append_version_Inl: "append_version owner path encrypt w = (Inl e, w') \<Longrightarrow> db w' = db w"
  by (auto simp: append_version_def bindM_Inl_iff op_simps dest: append_version_at_Inl)

text \<open>The transaction keeps the tables consistent, whatever time the caller read.\<close>

lemma preserves_append_version_at:
  assumes frame: "\<And>n u r u'. encrypt n u = (r, u') \<Longrightarrow> db u' = db u"
  shows "preserves (\<lambda>w. kv_ok (db w)) (append_version_at owner path encrypt stamp)"
proof (rule preservesI)
  fix w :: world assume ok: "kv_ok (db w)"
  obtain r w' where e: "append_version_at owner path encrypt stamp w = (r, w')" by (rule prod.exhaust)
  have "kv_ok (db w')"
  proof (cases r)
    case (Inl err)
    with e ok show ?thesis by (auto dest: append_version_at_Inl)
  next
    case (Inr x)
    with e have b: "kv_next owner path (db w) < 2 ^ 63" "list_all scalar owner" "list_all scalar path"
      using append_version_at_bound by blast+
    from append_version_at_run [OF ok b(2,3,1) frame] e kv_appended_ok(1) [OF ok] ok show ?thesis
      by (auto simp: Let_def split: prod.splits sum.splits)
  qed
  with e show "kv_ok (db (snd (append_version_at owner path encrypt stamp w)))" by simp
qed

lemma kv_join_eq:
  assumes "kv_ok d"
  shows "kv_join owner path d =
    (case kv_find owner path d of None \<Rightarrow> [] | Some r \<Rightarrow> map (Pair r) (kv_past d (owner, path)))"
proof (cases "kv_find owner path d")
  case None
  then show ?thesis
    using kvs.join_key_eq [OF assms [unfolded kv_ok_def]]
    by (simp add: kv_join_def kv_find_def tbl_one_def)
next
  case (Some r)
  with kv_find_past [OF assms Some] show ?thesis
    using kvs.join_key_eq [OF assms [unfolded kv_ok_def]]
    by (simp add: kv_join_def kv_find_def tbl_one_def kv_past_def)
qed

lemma find_pairs: "find (\<lambda>(r, v). P r v) (map (Pair r) vs) = map_option (Pair r) (find (P r) vs)"
  by (induction vs) auto

text \<open>The row a read addresses: a version, or the newest.\<close>

definition kv_selected :: "pystr \<Rightarrow> pystr \<Rightarrow> int option \<Rightarrow> database \<Rightarrow> kv_version_row option" where
  "kv_selected owner path version d =
     (let vs = kv_past d (owner, path);
          n = (case version of None \<Rightarrow> int (length vs) | Some n \<Rightarrow> n)
      in if 1 \<le> n \<and> n \<le> int (length vs) then Some (vs ! nat (n - 1)) else None)"

lemma kv_past_numbered:
  assumes "kv_ok d"
  shows "map kvv_version (kv_past d k) = map int [1..<Suc (length (kv_past d k))]"
proof (cases "kv_history d k")
  case (Some vs)
  with kvs.hist_numbered [OF assms [unfolded kv_ok_def]] show ?thesis
    by (simp add: kv_past_def kv_history_def)
qed (simp add: kv_past_def)

lemma kv_get_version_run:
  assumes "kv_ok (db w)" "list_all scalar owner" "list_all scalar path"
    and "\<And>n. version = Some n \<Longrightarrow> 1 \<le> n \<and> n < 2 ^ 63"
  shows "kv_get_version owner path version w =
    (Inr (case (kv_find owner path (db w), kv_selected owner path version (db w)) of
            (Some r, Some v) \<Rightarrow> Some (r, v) | _ \<Rightarrow> None), w)"
proof -
  have t: "bind_texts [owner, path] = Inr ()" using assms(2,3) by (simp add: bind_texts_def)
  have b: "version = Some n \<Longrightarrow> bind_int n = Inr ()" for n using assms(4) [of n] by (simp add: bind_int_def)
  note f = kvs.find_numbered [OF kv_past_numbered [OF assms(1)]]
  have l: "rec_latest_version r = int (length (kv_past (db w) (owner, path)))"
    if "kv_find owner path (db w) = Some r" for r
    using kv_find_past [OF assms(1) that] by simp
  show ?thesis
    by (cases version; cases "kv_find owner path (db w)")
       (simp_all add: kv_get_version_def connection_def op_simps op_run t b kv_join_eq [OF assms(1)]
          find_pairs f l kv_selected_def Let_def)
qed

lemma kv_list_versions_run:
  assumes "kv_ok (db w)" "list_all scalar owner" "list_all scalar path"
  shows "kv_list_versions owner path w =
    (Inr (case kv_find owner path (db w) of None \<Rightarrow> []
          | Some r \<Rightarrow> map (Pair r) (kv_past (db w) (owner, path))), w)"
proof -
  have t: "bind_texts [owner, path] = Inr ()" using assms(2,3) by (simp add: bind_texts_def)
  let ?vs = "kv_past (db w) (owner, path)"
  have "sorted (map kvv_version ?vs)"
    unfolding kv_past_numbered [OF assms(1)] by (simp add: sorted_iff_nth_mono del: upt_Suc)
  then have "sort_key (\<lambda>(r, v). kvv_version v) (map (Pair r) ?vs) = map (Pair r) ?vs" for r :: kv_record_row
    by (intro sort_key_id_if_sorted) (simp add: comp_def)
  then show ?thesis
    by (simp add: kv_list_versions_def connection_def op_simps op_run t kv_join_eq [OF assms(1)]
        split: option.split)
qed

definition kv_removed :: "pystr \<Rightarrow> pystr \<Rightarrow> database \<Rightarrow> database" where
  "kv_removed owner path d = snd (projr (kv_delete_rows owner path d))"

lemma kv_removed_ok:
  assumes "kv_ok d"
  shows "kv_ok (kv_removed owner path d)
    \<and> kv_history (kv_removed owner path d) = (kv_history d)((owner, path) := None)
    \<and> kv_frame d (kv_removed owner path d)"
proof -
  obtain P C where c: "cascade_delete rec_id rec_key kvv_record_id (owner, path) (kv_records d) (kv_versions d) = (P, C)"
    by (rule prod.exhaust)
  from kvs.delete_ok [OF assms [unfolded kv_ok_def] c] c show ?thesis
    by (simp add: kv_removed_def kv_delete_rows_def kv_ok_def kv_history_def kv_frame_def)
qed

lemma kv_delete_path_run:
  assumes "list_all scalar owner" "list_all scalar path"
  shows "kv_delete_path owner path w =
    (Inr (kv_history (db w) (owner, path) \<noteq> None), w\<lparr>db := kv_removed owner path (db w)\<rparr>)"
  using assms
  by (simp add: kv_delete_path_def connection_def op_simps op_run bind_texts_def kv_removed_def
      kv_delete_rows_def kv_find_None split: prod.split)

lemma kv_removed_absent:
  assumes "kv_ok d" "kv_history d (owner, path) = None"
  shows "kv_history (kv_removed owner path d) = kv_history d"
  using kv_removed_ok [OF assms(1)] assms(2) by (simp add: fun_upd_idem)

section \<open>Owners\<close>

text \<open>A path with an owner reads \<open>secret/<segment>/<rest>\<close>.\<close>

lemma extract_owner_Inr:
  "extract_owner_email_from_path U path = Inr owner \<longleftrightarrow>
     (\<exists>seg rest. path = PATH_PREFIX @ seg @ 47 # rest \<and> 47 \<notin> set seg \<and> seg \<noteq> [] \<and> rest \<noteq> []
        \<and> owner = py_lower U (py_strip U seg))" (is "?l \<longleftrightarrow> ?r")
proof
  assume l: ?l
  then have p: "startswith path PATH_PREFIX"
    by (simp add: extract_owner_email_from_path_def split: if_splits)
  let ?t = "drop (length PATH_PREFIX) path"
  have s: "path = PATH_PREFIX @ ?t" using p by (auto simp: startswith_iff)
  from py_split_Suc_cases [of 47 ?t 0] show ?r
  proof
    assume "47 \<notin> set ?t \<and> py_split 47 (Suc 0) ?t = [?t]"
    with l p show ?thesis by (simp add: extract_owner_email_from_path_def)
  next
    assume "\<exists>a u. ?t = a @ 47 # u \<and> 47 \<notin> set a \<and> py_split 47 (Suc 0) ?t = a # py_split 47 0 u"
    then obtain a u where a: "?t = a @ 47 # u" "47 \<notin> set a" "py_split 47 (Suc 0) ?t = a # py_split 47 0 u"
      by blast
    with l p have "a \<noteq> [] \<and> u \<noteq> [] \<and> owner = py_lower U (py_strip U a)"
      by (simp add: extract_owner_email_from_path_def split: if_splits)
    with a(1,2) s show ?thesis by auto
  qed
next
  assume ?r
  then show ?l
    by (auto simp: extract_owner_email_from_path_def startswith_iff py_split_append)
qed

lemma extract_owner_Inl: "extract_owner_email_from_path U path = Inl e \<Longrightarrow> e = Py ValueError"
  by (auto simp: extract_owner_email_from_path_def split: if_splits list.splits)

end
