(* ===== verification/Kv.thy ===== *)
theory Kv
  imports KvStore Vault AuditLog
begin

text \<open>
  \<open>src/kv/service.py\<close>: the encrypted KV store with ownership access control. Every
  operation checks the owner of the path first (and logs a refusal), then that the vault is
  unlocked, then touches the repository.
\<close>

section \<open>The service\<close>

definition kv_authorize :: "ext \<Rightarrow> pystr \<Rightarrow> pystr \<Rightarrow> unit action" where
  "kv_authorize E requester_email path =
     (let path_owner = (case extract_owner_email_from_path (unicode E) path of
                          Inl _ \<Rightarrow> None | Inr owner \<Rightarrow> Some owner)
      in if path_owner \<noteq> Some requester_email
         then bindM (log_denied_access E requester_email (lit ''kv_path'') path) (\<lambda>_.
              throw (Kv PermissionDeniedError))
         else ret ())"

definition kv_aad :: "pystr \<Rightarrow> pystr \<Rightarrow> int \<Rightarrow> bytes res" where
  "kv_aad owner_email path version =
     utf8_encode (lit ''kv:'' @ owner_email @ lit '':'' @ path @ lit '':v'' @ dec_int version)"

definition normalize_version :: "pyobj \<Rightarrow> int option res" where
  "normalize_version version =
     (case version of
        PyNone \<Rightarrow> Inr None
      | PyInt n \<Rightarrow> if n < 1 then Inl (Kv InvalidVersionError) else Inr (Some n)
      | _ \<Rightarrow> Inl (Kv InvalidVersionError))"

definition kv_encrypt_for ::
  "ext \<Rightarrow> bytes \<Rightarrow> bytes \<Rightarrow> pystr \<Rightarrow> pystr \<Rightarrow> int \<Rightarrow> (pystr \<times> pystr \<times> pystr) action"
where
  "kv_encrypt_for E dek plaintext owner_email path version =
     bindM (liftR (kv_aad owner_email path version)) (\<lambda>aad.
     bindM (encrypt_aes_gcm E dek plaintext aad) (\<lambda>blob.
     ret (encode_b64 (blob_nonce blob), encode_b64 (blob_ciphertext blob), encode_b64 (blob_tag blob))))"

definition kv_write :: "ext \<Rightarrow> pystr \<Rightarrow> pystr \<Rightarrow> (pystr \<times> json) list \<Rightarrow> kv_write_result action" where
  "kv_write E owner_email path data =
     bindM (kv_authorize E owner_email path) (\<lambda>_.
     bindM require_unlocked (\<lambda>_.
     bindM (liftR (bindR (json_dumps (JObj data)) utf8_encode)) (\<lambda>plaintext.
     bindM get_dek (\<lambda>dek.
     append_version owner_email path (kv_encrypt_for E dek plaintext owner_email path)))))"

record kv_read_result =
  read_data :: "(pystr \<times> json) list"
  read_version :: int
  read_latest_version :: int
  read_created_at :: pystr

text \<open>The \<open>try\<close> block of \<open>read\<close> after the key has been fetched.\<close>

definition kv_open :: "ext \<Rightarrow> bytes \<Rightarrow> pystr \<Rightarrow> pystr \<Rightarrow> kv_version_row \<Rightarrow> json res" where
  "kv_open E dek owner_email path record =
     bindR (decode_b64 (PyStr (kvv_nonce_b64 record))) (\<lambda>nonce.
     bindR (decode_b64 (PyStr (kvv_ciphertext_b64 record))) (\<lambda>ciphertext.
     bindR (decode_b64 (PyStr (kvv_tag_b64 record))) (\<lambda>tag.
     bindR (kv_aad owner_email path (kvv_version record)) (\<lambda>aad.
     bindR (decrypt_aes_gcm E dek
              \<lparr>blob_nonce = nonce, blob_ciphertext = ciphertext, blob_tag = tag\<rparr> aad) (\<lambda>plaintext.
     bindR (utf8_decode plaintext) (json_loads (float_text E)))))))"

definition kv_read :: "ext \<Rightarrow> pystr \<Rightarrow> pystr \<Rightarrow> pyobj \<Rightarrow> kv_read_result action" where
  "kv_read E owner_email path version =
     bindM (kv_authorize E owner_email path) (\<lambda>_.
     bindM (liftR (normalize_version version)) (\<lambda>requested.
     bindM require_unlocked (\<lambda>_.
     bindM (kv_get_version owner_email path requested) (\<lambda>row.
     case row of
       None \<Rightarrow> throw (Kv RecordNotFoundError)
     | Some (r, v) \<Rightarrow>
         bindM get_dek (\<lambda>dek.
         bindM (catchM (liftR (kv_open E dek owner_email path v))
                  tag_or_value_errors (Kv RecordTamperedError)) (\<lambda>decoded.
         case decoded of
           JObj data \<Rightarrow>
             ret \<lparr>read_data = data, read_version = kvv_version v,
                  read_latest_version = rec_latest_version r, read_created_at = kvv_created_at v\<rparr>
         | _ \<Rightarrow> throw (Kv RecordTamperedError)))))))"

record kv_versions_result =
  versions_path :: pystr
  versions_latest :: int
  versions_list :: "(int \<times> pystr) list"

definition kv_versions_of :: "ext \<Rightarrow> pystr \<Rightarrow> pystr \<Rightarrow> kv_versions_result action" where
  "kv_versions_of E owner_email path =
     bindM (kv_authorize E owner_email path) (\<lambda>_.
     bindM require_unlocked (\<lambda>_.
     bindM (kv_list_versions owner_email path) (\<lambda>rws.
     if rws = [] then throw (Kv RecordNotFoundError)
     else ret \<lparr>versions_path = path, versions_latest = rec_latest_version (fst (last rws)),
               versions_list = map (\<lambda>(r, v). (kvv_version v, kvv_created_at v)) rws\<rparr>)))"

definition kv_delete :: "ext \<Rightarrow> pystr \<Rightarrow> pystr \<Rightarrow> unit action" where
  "kv_delete E owner_email path =
     bindM (kv_authorize E owner_email path) (\<lambda>_.
     bindM require_unlocked (\<lambda>_.
     bindM (kv_delete_path owner_email path) (\<lambda>deleted.
     raise_if (\<not> deleted) (Kv RecordNotFoundError))))"

section \<open>Access control\<close>

definition kv_owns :: "ext \<Rightarrow> pystr \<Rightarrow> pystr \<Rightarrow> bool" where
  "kv_owns E requester path \<longleftrightarrow> extract_owner_email_from_path (unicode E) path = Inr requester"

lemma kv_authorize_owner: "kv_owns E requester path \<Longrightarrow> kv_authorize E requester path = ret ()"
  by (simp add: kv_authorize_def kv_owns_def)

lemma kv_authorize_other:
  "\<not> kv_owns E requester path \<Longrightarrow>
   kv_authorize E requester path =
     bindM (log_denied_access E requester (lit ''kv_path'') path) (\<lambda>_. throw (Kv PermissionDeniedError))"
  by (auto simp: kv_authorize_def kv_owns_def split: sum.split)

lemma kv_authorize_Inr: "kv_authorize E requester path w = (Inr u, w') \<longleftrightarrow> kv_owns E requester path \<and> w' = w"
  by (cases "kv_owns E requester path")
     (auto simp: kv_authorize_owner kv_authorize_other bindM_Inr_iff op_simps)

section \<open>Encryption of a version\<close>

lemma kv_encrypt_for_world:
  "kv_encrypt_for E dek pt owner path n u = (r, u') \<Longrightarrow> \<exists>k. u' = u\<lparr>draws := k\<rparr>"
  by (auto simp: kv_encrypt_for_def op_simps op_run split: sum.splits prod.splits
      dest!: encrypt_aes_gcm_world intro: exI [of _ "draws u"])

lemma kv_encrypt_for_Inr:
  assumes "kv_encrypt_for E dek pt owner path n u = (Inr enc, u')"
  shows "\<exists>aad b. kv_aad owner path n = Inr aad \<and> encrypt_aes_gcm E dek pt aad u = (Inr b, u')
    \<and> enc = (encode_b64 (blob_nonce b), encode_b64 (blob_ciphertext b), encode_b64 (blob_tag b))"
  using assms by (auto simp: kv_encrypt_for_def bindM_Inr_iff op_simps)

lemma kv_aad_ok: "list_all scalar owner \<Longrightarrow> list_all scalar path \<Longrightarrow> \<exists>a. kv_aad owner path n = Inr a"
  by (simp add: kv_aad_def utf8_encode_ok scalar_dec_int scalar_lit)

lemma kv_encrypt_for_ok:
  assumes "length dek = 32" "list_all scalar owner" "list_all scalar path"
  shows "\<exists>enc u'. kv_encrypt_for E dek pt owner path n u = (Inr enc, u')"
proof -
  obtain a where "kv_aad owner path n = Inr a" using kv_aad_ok assms(2,3) by blast
  with assms(1) show ?thesis
    by (simp add: kv_encrypt_for_def op_simps op_run encrypt_aes_gcm_run Let_def)
qed

text \<open>A row whose three texts come from \<open>kv_encrypt_for\<close> opens to the plaintext.\<close>

definition sealed :: "ext \<Rightarrow> bytes \<Rightarrow> pystr \<Rightarrow> pystr \<Rightarrow> bytes \<Rightarrow> kv_version_row \<Rightarrow> bool" where
  "sealed E dek owner path pt v \<longleftrightarrow>
     (\<exists>u u'. kv_encrypt_for E dek pt owner path (kvv_version v) u =
        (Inr (kvv_nonce_b64 v, kvv_ciphertext_b64 v, kvv_tag_b64 v), u'))"

lemma kv_open_sealed:
  assumes "aead_ok E" "sealed E dek owner path pt v"
  shows "kv_open E dek owner path v = bindR (utf8_decode pt) (json_loads (float_text E))"
proof -
  from assms(2) obtain u u' where
    "kv_encrypt_for E dek pt owner path (kvv_version v) u =
      (Inr (kvv_nonce_b64 v, kvv_ciphertext_b64 v, kvv_tag_b64 v), u')"
    by (auto simp: sealed_def)
  from kv_encrypt_for_Inr [OF this] obtain aad b where
    a: "kv_aad owner path (kvv_version v) = Inr aad" "encrypt_aes_gcm E dek pt aad u = (Inr b, u')"
    and e: "kvv_nonce_b64 v = encode_b64 (blob_nonce b)"
      "kvv_ciphertext_b64 v = encode_b64 (blob_ciphertext b)" "kvv_tag_b64 v = encode_b64 (blob_tag b)"
    by auto
  show ?thesis
    using decrypt_encrypt [OF assms(1) a(2)] a(1) e by (simp add: kv_open_def codec_simps blob_eta)
qed

section \<open>The invariant of the stored secrets\<close>

text \<open>Two databases agree outside the KV tables and the log.\<close>

lemma log_denied_kv:
  assumes "log_denied_access E requester tt ti w = (r, w')"
  shows "kv_records (db w') = kv_records (db w) \<and> kv_versions (db w') = kv_versions (db w)
    \<and> vstate w' = vstate w \<and> conf w' = conf w"
proof (cases r)
  case (Inl e)
  with assms audit_log_Inl show ?thesis by (fastforce simp: log_denied_access_def)
next
  case (Inr u)
  with assms have "audit_log E (Some requester) ACCESS_DENIED tt ti (lit ''DENIED'') w = (Inr u, w')"
    by (simp add: log_denied_access_def)
  from audit_log_Inr [OF this] show ?thesis by (auto simp: Let_def append_row_def)
qed

section \<open>Writing\<close>

lemma kv_write_Inr:
  assumes "kv_ok (db w)" "kv_write E owner path data w = (Inr res, w')"
  obtains dek js pt v where
    "kv_owns E owner path" "vs_dek (vstate w) = Some dek"
    "json_dumps (JObj data) = Inr js" "utf8_encode js = Inr pt"
    "sealed E dek owner path pt v" "kvv_version v = written_version res"
    "written_version res = int (length (kv_past (db w) (owner, path))) + 1"
    "kv_history (db w') = (kv_history (db w))((owner, path) \<mapsto> kv_past (db w) (owner, path) @ [v])"
    "kv_ok (db w')" "kv_frame (db w) (db w')" "vstate w' = vstate w"
proof -
  from assms(2) obtain dek js pt where
    p: "kv_owns E owner path" "vs_dek (vstate w) = Some dek"
    "json_dumps (JObj data) = Inr js" "utf8_encode js = Inr pt"
    and a: "append_version owner path (kv_encrypt_for E dek pt owner path) w = (Inr res, w')"
    by (auto simp: kv_write_def bindM_Inr_iff bindR_Inr_iff op_simps kv_authorize_Inr
        split: option.splits if_splits)
  note s = append_version_bound [OF a]
  have fr: "db u' = db u" if "kv_encrypt_for E dek pt owner path n u = (r, u')" for n u r u'
    using kv_encrypt_for_world [OF that] by auto
  let ?stamp = "isoformat (clock w (ticks w))"
  let ?w = "w\<lparr>ticks := Suc (ticks w), db := kv_prepared owner path ?stamp (db w)\<rparr>"
  obtain r u where e: "kv_encrypt_for E dek pt owner path (kv_next owner path (db w)) ?w = (r, u)"
    by (rule prod.exhaust)
  have "vstate u = vstate w" using kv_encrypt_for_world [OF e] by auto
  with append_version_run [OF assms(1) _ _ _ fr] s a e
  obtain enc where enc: "r = Inr enc" "written_version res = kv_next owner path (db w)"
    "w' = u\<lparr>db := kv_appended owner path ?stamp enc (db w)\<rparr>" "vstate w' = vstate w"
    by (cases r) (auto simp: Let_def)
  have "sealed E dek owner path pt (kv_row owner path ?stamp enc (db w))"
    using e enc(1) by (auto simp: sealed_def kv_row_def)
  with that [OF p, of "kv_row owner path ?stamp enc (db w)"] kv_appended_ok [OF assms(1), of owner path ?stamp enc]
    enc kv_next_length [OF assms(1), of owner path] show thesis
    by (simp add: kv_row_def)
qed

lemma kv_write_ok:
  assumes "kv_ok (db w)" "kv_owns E owner path" "vs_dek (vstate w) = Some dek" "length dek = 32"
    and "json_dumps (JObj data) = Inr js" "utf8_encode js = Inr pt"
    and "list_all scalar owner" "list_all scalar path"
    and "length (kv_past (db w) (owner, path)) < 2 ^ 62"
  shows "\<exists>res w'. kv_write E owner path data w = (Inr res, w')"
proof -
  have fr: "db u' = db u" if "kv_encrypt_for E dek pt owner path n u = (r, u')" for n u r u'
    using kv_encrypt_for_world [OF that] by auto
  let ?w = "w\<lparr>ticks := Suc (ticks w), db := kv_prepared owner path (isoformat (clock w (ticks w))) (db w)\<rparr>"
  obtain enc u where e: "kv_encrypt_for E dek pt owner path (kv_next owner path (db w)) ?w = (Inr enc, u)"
    using kv_encrypt_for_ok [OF assms(4,7,8)] by blast
  have n: "kv_next owner path (db w) < 2 ^ 63" using assms(1,9) by (simp add: kv_next_length)
  from append_version_run [OF assms(1,7,8) n fr] e
  have "\<exists>res w'. append_version owner path (kv_encrypt_for E dek pt owner path) w = (Inr res, w')"
    by (simp add: Let_def)
  with assms(2,3,5,6) show ?thesis
    by (simp add: kv_write_def kv_authorize_owner op_simps op_run)
qed

section \<open>Reading\<close>

text \<open>
  The abstract answer to a read: a function of the history of the path and the key, nothing
  else. \<open>kv_read\<close> refines it on every consistent database.
\<close>

definition kv_answer ::
  "ext \<Rightarrow> bytes \<Rightarrow> pystr \<Rightarrow> pystr \<Rightarrow> int option \<Rightarrow> kv_version_row list \<Rightarrow> kv_read_result res"
where
  "kv_answer E dek owner path requested vs =
     (let n = (case requested of None \<Rightarrow> int (length vs) | Some n \<Rightarrow> n)
      in if 1 \<le> n \<and> n \<le> int (length vs) then
           (let v = vs ! nat (n - 1)
            in bindR (catchR (kv_open E dek owner path v) tag_or_value_errors (Kv RecordTamperedError))
                 (\<lambda>decoded. case decoded of
                    JObj data \<Rightarrow>
                      Inr \<lparr>read_data = data, read_version = n, read_latest_version = int (length vs),
                           read_created_at = kvv_created_at v\<rparr>
                  | _ \<Rightarrow> Inl (Kv RecordTamperedError)))
         else Inl (Kv RecordNotFoundError))"

lemma nth_version:
  assumes "kv_ok d" "1 \<le> n" "n \<le> int (length (kv_past d k))"
  shows "kvv_version (kv_past d k ! nat (n - 1)) = n"
proof -
  let ?i = "nat (n - 1)"
  have i: "?i < length (kv_past d k)" using assms(2,3) by auto
  then have "map kvv_version (kv_past d k) ! ?i = map int [1..<Suc (length (kv_past d k))] ! ?i"
    by (simp only: kv_past_numbered [OF assms(1)])
  with i assms(2) show ?thesis by (simp del: upt_Suc)
qed

lemma kv_past_empty: "kv_history d k = None \<Longrightarrow> kv_past d k = []"
  by (simp add: kv_past_def)

lemma kv_read_run:
  assumes "kv_ok (db w)" "kv_owns E owner path" "list_all scalar owner" "list_all scalar path"
    and "normalize_version version = Inr requested" "\<And>n. requested = Some n \<Longrightarrow> n < 2 ^ 63"
    and "vs_dek (vstate w) = Some dek"
  shows "kv_read E owner path version w = (kv_answer E dek owner path requested (kv_past (db w) (owner, path)), w)"
proof -
  have r: "1 \<le> n" if "requested = Some n" for n
    using assms(5) that by (auto simp: normalize_version_def split: pyobj.splits if_splits)
  have g: "kv_get_version owner path requested w =
      (Inr (case (kv_find owner path (db w), kv_selected owner path requested (db w)) of
            (Some r, Some v) \<Rightarrow> Some (r, v) | _ \<Rightarrow> None), w)"
    using r assms(6) by (intro kv_get_version_run assms) auto
  let ?vs = "kv_past (db w) (owner, path)"
  let ?n = "case requested of None \<Rightarrow> int (length ?vs) | Some n \<Rightarrow> n"
  have b: "kv_read E owner path version w =
      (case (kv_find owner path (db w), kv_selected owner path requested (db w)) of
         (Some r, Some v) \<Rightarrow>
           (bindR (catchR (kv_open E dek owner path v) tag_or_value_errors (Kv RecordTamperedError))
              (\<lambda>decoded. case decoded of
                 JObj data \<Rightarrow>
                   Inr \<lparr>read_data = data, read_version = kvv_version v,
                        read_latest_version = rec_latest_version r, read_created_at = kvv_created_at v\<rparr>
               | _ \<Rightarrow> Inl (Kv RecordTamperedError)), w)
       | _ \<Rightarrow> (Inl (Kv RecordNotFoundError), w))"
    using assms(2,5,7) g
    by (auto simp: kv_read_def kv_authorize_owner op_simps op_run split: option.split sum.split json.split)
  show ?thesis
  proof (cases "kv_find owner path (db w)")
    case None
    then have "?vs = []" by (simp add: kv_find_None kv_past_empty)
    with None r show ?thesis
      by (auto simp: b kv_answer_def Let_def split: option.split)
  next
    case (Some rec)
    with kv_find_past [OF assms(1)] have l: "rec_latest_version rec = int (length ?vs)" by blast
    show ?thesis
    proof (cases "1 \<le> ?n \<and> ?n \<le> int (length ?vs)")
      case True
      then have "kvv_version (?vs ! nat (?n - 1)) = ?n" by (intro nth_version [OF assms(1)]) auto
      with True Some l show ?thesis
        by (simp add: b kv_answer_def kv_selected_def Let_def)
    next
      case False
      then have "kv_selected owner path requested (db w) = None"
        unfolding kv_selected_def Let_def by (rule if_not_P)
      moreover have "kv_answer E dek owner path requested ?vs = Inl (Kv RecordNotFoundError)"
        using False unfolding kv_answer_def Let_def by (rule if_not_P)
      ultimately show ?thesis by (simp add: b Some)
    qed
  qed
qed

lemma kv_answer_sealed:
  assumes "aead_ok E" "sealed E dek owner path pt v" "utf8_encode js = Inr pt"
    and "json_dumps (JObj data) = Inr js" "wf_json (float_text E) (JObj data)"
    and "kv_next_version = int (length vs) + 1" "requested \<in> {None, Some kv_next_version}"
  shows "kv_answer E dek owner path requested (vs @ [v]) =
    Inr \<lparr>read_data = data, read_version = kv_next_version, read_latest_version = kv_next_version,
         read_created_at = kvv_created_at v\<rparr>"
proof -
  have "bindR (utf8_decode pt) (json_loads (float_text E)) = Inr (JObj data)"
    using utf8_roundtrip [OF assms(3)] json_roundtrip [OF assms(5,4)] by simp
  with kv_open_sealed [OF assms(1,2)] have "kv_open E dek owner path v = Inr (JObj data)" by simp
  with assms(6,7) show ?thesis
    by (auto simp: kv_answer_def Let_def)
qed

lemma kv_answer_Inr:
  assumes "kv_answer E dek owner path requested vs = Inr res"
    and "n = (case requested of None \<Rightarrow> int (length vs) | Some n \<Rightarrow> n)"
  shows "1 \<le> n \<and> n \<le> int (length vs)
    \<and> kv_open E dek owner path (vs ! nat (n - 1)) = Inr (JObj (read_data res))
    \<and> res = \<lparr>read_data = read_data res, read_version = n, read_latest_version = int (length vs),
             read_created_at = kvv_created_at (vs ! nat (n - 1))\<rparr>"
proof -
  have n: "1 \<le> n \<and> n \<le> int (length vs)"
    using assms by (auto simp: kv_answer_def Let_def split: if_splits)
  with assms obtain j where "kv_open E dek owner path (vs ! nat (n - 1)) = Inr j"
    "(case j of JObj data \<Rightarrow> Inr \<lparr>read_data = data, read_version = n,
        read_latest_version = int (length vs), read_created_at = kvv_created_at (vs ! nat (n - 1))\<rparr>
      | _ \<Rightarrow> Inl (Kv RecordTamperedError)) = Inr res"
    by (auto simp: kv_answer_def Let_def bindR_Inr_iff split: if_splits)
  with n show ?thesis by (cases j) auto
qed

text \<open>Later appends do not change the answer about an existing version.\<close>

lemma kv_answer_append:
  assumes "kv_answer E dek owner path (Some n) vs = Inr res"
  shows "kv_answer E dek owner path (Some n) (vs @ ws) =
      Inr (res\<lparr>read_latest_version := int (length vs + length ws)\<rparr>)
    \<and> read_version res = n"
proof -
  have a: "1 \<le> n \<and> n \<le> int (length vs)"
    "kv_open E dek owner path (vs ! nat (n - 1)) = Inr (JObj (read_data res))"
    "res = \<lparr>read_data = read_data res, read_version = n, read_latest_version = int (length vs),
             read_created_at = kvv_created_at (vs ! nat (n - 1))\<rparr>"
    using kv_answer_Inr [OF assms refl] by simp_all
  then have "nat (n - 1) < length vs" by linarith
  then have "(vs @ ws) ! nat (n - 1) = vs ! nat (n - 1)" by (simp add: nth_append)
  with a(1,2) show ?thesis
    by (subst (1 2) a(3)) (simp add: kv_answer_def Let_def)
qed

section \<open>Every operation keeps the tables consistent\<close>

lemma preserves_kv_ok_frame:
  fixes m :: "'a action"
  assumes "\<And>w r w'. m w = (r, w') \<Longrightarrow> kv_records (db w') = kv_records (db w) \<and> kv_versions (db w') = kv_versions (db w)"
  shows "preserves (\<lambda>w. kv_ok (db w)) m"
proof (rule preservesI)
  fix w :: world assume "kv_ok (db w)"
  moreover obtain r w' where "m w = (r, w')" by (rule prod.exhaust)
  ultimately show "kv_ok (db (snd (m w)))"
    using assms [of w r w'] kv_ok_cong [of "db w'" "db w"] by simp
qed

lemma preserves_kv_authorize: "preserves (\<lambda>w. kv_ok (db w)) (kv_authorize E requester path)"
proof (cases "kv_owns E requester path")
  case True
  then show ?thesis by (simp add: kv_authorize_owner preserves_rules)
next
  case False
  have "preserves (\<lambda>w. kv_ok (db w)) (log_denied_access E requester (lit ''kv_path'') path)"
    by (rule preserves_kv_ok_frame) (auto dest: log_denied_kv)
  with False show ?thesis
    by (simp add: kv_authorize_other preserves_bindM preserves_throw)
qed

lemma preserves_kv_write: "preserves (\<lambda>w. kv_ok (db w)) (kv_write E owner path data)"
proof (rule preservesI)
  fix w :: world assume ok: "kv_ok (db w)"
  obtain r w' where k: "kv_write E owner path data w = (r, w')" by (rule prod.exhaust)
  show "kv_ok (db (snd (kv_write E owner path data w)))"
  proof (cases r)
    case (Inr res)
    with k have "kv_write E owner path data w = (Inr res, w')" by simp
    then have "kv_ok (db w')" by (rule kv_write_Inr [OF ok])
    with k show ?thesis by simp
  next
    case (Inl e)
    with k have "kv_ok (db w')"
      using preserves_run [OF preserves_kv_authorize _ ok]
      by (auto simp: kv_write_def bindM_Inl_iff op_simps dest!: append_version_Inl
          split: if_splits option.splits)
    with k show ?thesis by simp
  qed
qed

lemma kv_get_version_world: "kv_get_version owner path req w = (r, w') \<Longrightarrow> w' = w"
  by (auto simp: kv_get_version_def connection_def op_simps op_run split: option.splits sum.splits)

lemma kv_list_versions_world: "kv_list_versions owner path w = (r, w') \<Longrightarrow> w' = w"
  by (auto simp: kv_list_versions_def connection_def op_simps op_run split: sum.splits)

lemma preserves_kv_get_version [preserves_rules]: "preserves P (kv_get_version owner path req)"
  and preserves_kv_list_versions [preserves_rules]: "preserves P (kv_list_versions owner path)"
  by (rule preserves_pure, erule kv_get_version_world kv_list_versions_world)+

lemma preserves_kv_delete_path: "preserves (\<lambda>w. kv_ok (db w)) (kv_delete_path owner path)"
proof (rule preservesI)
  fix w :: world assume ok: "kv_ok (db w)"
  show "kv_ok (db (snd (kv_delete_path owner path w)))"
  proof (cases "list_all scalar owner \<and> list_all scalar path")
    case True
    with kv_removed_ok [OF ok] show ?thesis by (simp add: kv_delete_path_run)
  next
    case False
    then have "\<exists>e. bind_texts [owner, path] = Inl e" by (auto simp: bind_texts_def)
    with ok show ?thesis by (auto simp: kv_delete_path_def connection_def op_simps op_run)
  qed
qed

lemma preserves_kv_read: "preserves (\<lambda>w. kv_ok (db w)) (kv_read E owner path version)"
  unfolding kv_read_def
  by (intro preserves_rules preserves_kv_authorize)
     (auto intro!: preserves_rules split: option.split json.split)

lemma preserves_kv_versions_of: "preserves (\<lambda>w. kv_ok (db w)) (kv_versions_of E owner path)"
  unfolding kv_versions_of_def by (intro preserves_rules preserves_kv_authorize)

lemma preserves_kv_delete: "preserves (\<lambda>w. kv_ok (db w)) (kv_delete E owner path)"
  unfolding kv_delete_def by (intro preserves_rules preserves_kv_authorize preserves_kv_delete_path)

lemma kv_read_Inr:
  assumes "kv_ok (db w)" "kv_read E owner path version w = (Inr res, w')"
  obtains dek requested where "kv_owns E owner path" "list_all scalar owner" "list_all scalar path"
    "normalize_version version = Inr requested" "\<And>n. requested = Some n \<Longrightarrow> n < 2 ^ 63"
    "vs_dek (vstate w) = Some dek"
    "kv_answer E dek owner path requested (kv_past (db w) (owner, path)) = Inr res" "w' = w"
proof -
  from assms(2) obtain dek requested row where
    p: "kv_owns E owner path" "normalize_version version = Inr requested" "vs_dek (vstate w) = Some dek"
    and g: "kv_get_version owner path requested w = (Inr row, w)"
    by (auto simp: kv_read_def bindM_Inr_iff op_simps kv_authorize_Inr
        dest: kv_get_version_world split: option.splits if_splits)
  from g have b: "bind_texts [owner, path] = Inr ()" "\<And>n. requested = Some n \<Longrightarrow> bind_int n = Inr ()"
    by (auto simp: kv_get_version_def connection_Inr_iff bindM_Inr_iff op_simps)
  then have s: "list_all scalar owner" "list_all scalar path" "\<And>n. requested = Some n \<Longrightarrow> n < 2 ^ 63"
    by (auto simp: bind_texts_def bind_int_def split: if_splits)
  from kv_read_run [OF assms(1) p(1) s(1,2) p(2) s(3) p(3)] assms(2) that [OF p(1) s(1,2) p(2) s(3) p(3)]
  show thesis by simp
qed

text \<open>The steps of a successful read, on any database.\<close>

lemma kv_read_steps:
  assumes "kv_read E owner path version w = (Inr res, w')"
  obtains dek req r v where "kv_owns E owner path" "normalize_version version = Inr req"
    "vs_dek (vstate w) = Some dek" "kv_get_version owner path req w = (Inr (Some (r, v)), w)"
    "kv_open E dek owner path v = Inr (JObj (read_data res))" "w' = w"
    "res = \<lparr>read_data = read_data res, read_version = kvv_version v,
            read_latest_version = rec_latest_version r, read_created_at = kvv_created_at v\<rparr>"
proof -
  from assms obtain req row w1 where
    a: "kv_owns E owner path" "normalize_version version = Inr req" "vs_dek (vstate w) \<noteq> None"
    "kv_get_version owner path req w = (Inr row, w1)"
    and rest: "(case row of
       None \<Rightarrow> throw (Kv RecordNotFoundError)
     | Some (r, v) \<Rightarrow>
         bindM get_dek (\<lambda>dek.
         bindM (catchM (liftR (kv_open E dek owner path v))
                  tag_or_value_errors (Kv RecordTamperedError)) (\<lambda>decoded.
         case decoded of
           JObj data \<Rightarrow>
             ret \<lparr>read_data = data, read_version = kvv_version v,
                  read_latest_version = rec_latest_version r, read_created_at = kvv_created_at v\<rparr>
         | _ \<Rightarrow> throw (Kv RecordTamperedError)))) w1 = (Inr res, w')"
    by (auto simp: kv_read_def bindM_Inr_iff op_simps kv_authorize_Inr split: if_splits)
  have w1: "w1 = w" by (rule kv_get_version_world [OF a(4)])
  from rest obtain r v where row: "row = Some (r, v)" by (cases row) (auto simp: op_simps)
  from a(3) obtain dek where dek: "vs_dek (vstate w) = Some dek" by blast
  from rest obtain j where j: "kv_open E dek owner path v = Inr j"
    "(case j of JObj data \<Rightarrow>
        ret \<lparr>read_data = data, read_version = kvv_version v,
             read_latest_version = rec_latest_version r, read_created_at = kvv_created_at v\<rparr>
      | _ \<Rightarrow> throw (Kv RecordTamperedError)) w = (Inr res, w')"
    by (auto simp: row w1 dek bindM_Inr_iff catchM_Inr_iff op_simps)
  then have "j = JObj (read_data res) \<and> w' = w \<and>
      res = \<lparr>read_data = read_data res, read_version = kvv_version v,
            read_latest_version = rec_latest_version r, read_created_at = kvv_created_at v\<rparr>"
    by (cases j) (auto simp: op_simps)
  with that [OF a(1,2) dek, of r v] a(4) j(1) row w1 show thesis by simp
qed

section \<open>Associated data\<close>

lemma append_eq_split:
  assumes "xs @ [c] @ ys = xs' @ [c] @ ys'" "length xs < length xs'"
  obtains m where "xs' = xs @ c # m" "ys = m @ c # ys'"
proof -
  from assms obtain us where "xs' = xs @ us" "us \<noteq> []" "[c] @ ys = us @ [c] @ ys'"
    by (auto simp: append_eq_append_conv2)
  then obtain m where "us = c # m" by (cases us) auto
  with that \<open>xs' = xs @ us\<close> \<open>[c] @ ys = us @ [c] @ ys'\<close> show thesis by simp
qed

text \<open>A path starts with \<open>secret/\<close>, so a colon right after a slash-free prefix of it is
  impossible: the owner cannot be extended into the path.\<close>

lemma prefix_no_colon:
  assumes "PATH_PREFIX @ t = m @ 58 # p" "47 \<notin> set m"
  shows False
proof -
  have e: "PATH_PREFIX = [115, 101, 99, 114, 101, 116, 47]" by (simp add: PATH_PREFIX_def text_simps)
  from assms show False
    unfolding e by (auto simp: Cons_eq_append_conv append_eq_Cons_conv)
qed

lemma kv_aad_unambiguous:
  assumes "kv_aad o1 p1 v1 = Inr a" "kv_aad o2 p2 v2 = Inr a"
    and "startswith p1 PATH_PREFIX" "startswith p2 PATH_PREFIX" "47 \<notin> set o1" "47 \<notin> set o2"
    and "0 \<le> v1" "0 \<le> v2"
  shows "o1 = o2 \<and> p1 = p2 \<and> v1 = v2"
proof -
  have "lit ''kv:'' @ o1 @ lit '':'' @ p1 @ lit '':v'' @ dec_int v1 =
      lit ''kv:'' @ o2 @ lit '':'' @ p2 @ lit '':v'' @ dec_int v2"
    by (rule utf8_encode_inject [OF assms(1,2) [unfolded kv_aad_def]])
  then have e: "(o1 @ 58 # p1) @ 58 # (118 # dec_int v1) = (o2 @ 58 # p2) @ 58 # (118 # dec_int v2)"
    by (simp add: text_simps)
  have n: "58 \<notin> set (118 # dec_int v)" if "0 \<le> v" for v
    using dec_int_nonneg_digits [OF that, of 58] by (auto simp: is_digit_def)
  have "o1 @ 58 # p1 = o2 @ 58 # p2 \<and> 118 # dec_int v1 = 118 # dec_int v2"
    by (rule append_eq_last_sep [OF e n [OF assms(7)] n [OF assms(8)]])
  then have s: "o1 @ 58 # p1 = o2 @ 58 # p2" and v: "v1 = v2" by (simp_all add: dec_int_inject)
  have no: "length x \<ge> length y" if "y @ 58 # q = x @ 58 # p" "startswith p PATH_PREFIX" "startswith q PATH_PREFIX" "47 \<notin> set y" "47 \<notin> set x" for x y p q
  proof (rule ccontr)
    assume "\<not> length x \<ge> length y"
    then have l: "length x < length y" by simp
    have "x @ [58] @ p = y @ [58] @ q" using that(1) by simp
    from append_eq_split [OF this l] obtain m where m: "y = x @ 58 # m" "p = m @ 58 # q" .
    from that(2) obtain t where "p = PATH_PREFIX @ t" by (auto simp: startswith_iff)
    with m(2) prefix_no_colon [of t m q] that(4) m(1) show False by simp
  qed
  from no [OF s assms(4,3,5,6)] no [OF s [symmetric] assms(3,4,6,5)] have "length o1 = length o2" by simp
  with s v show ?thesis by simp
qed

section \<open>Changing the pointer\<close>

text \<open>What an attacker with write access to the database may do: point a record at an older
  version.\<close>

definition set_pointer :: "pystr \<Rightarrow> pystr \<Rightarrow> int \<Rightarrow> database \<Rightarrow> database" where
  "set_pointer owner path k d =
     d\<lparr>kv_records := tbl_update (\<lambda>r. rec_key r = (owner, path)) (\<lambda>r. r\<lparr>rec_latest_version := k\<rparr>)
        (kv_records d)\<rparr>"

lemma kv_join_set_pointer:
  "kv_join owner path (set_pointer owner path k d) =
     map (apfst (\<lambda>r. r\<lparr>rec_latest_version := k\<rparr>)) (kv_join owner path d)"
proof -
  let ?f = "\<lambda>r :: kv_record_row. if rec_key r = (owner, path) then r\<lparr>rec_latest_version := k\<rparr> else r"
  have "filter (\<lambda>r. rec_key r = (owner, path)) (map ?f rs) =
      map (\<lambda>r. r\<lparr>rec_latest_version := k\<rparr>) (filter (\<lambda>r. rec_key r = (owner, path)) rs)" for rs
    by (induction rs) (auto simp: rec_key_def)
  then show ?thesis
    by (simp add: kv_join_def join_key_def set_pointer_def map_concat comp_def)
qed

lemma kv_get_version_set_pointer:
  assumes "kv_get_version owner path (Some k) w = (Inr (Some (r, v)), w)"
  shows "kv_get_version owner path None (w\<lparr>db := set_pointer owner path k (db w)\<rparr>) =
    (Inr (Some (r\<lparr>rec_latest_version := k\<rparr>, v)), w\<lparr>db := set_pointer owner path k (db w)\<rparr>)"
proof -
  have f: "find (\<lambda>(r, v). kvv_version v = rec_latest_version r)
        (map (apfst (\<lambda>r. r\<lparr>rec_latest_version := k\<rparr>)) xs) =
      map_option (apfst (\<lambda>r. r\<lparr>rec_latest_version := k\<rparr>)) (find (\<lambda>(r, v). kvv_version v = k) xs)"
    for xs :: "(kv_record_row \<times> kv_version_row) list"
    by (induction xs) auto
  from assms have "bind_texts [owner, path] = Inr ()"
    "find (\<lambda>(r, v). kvv_version v = k) (kv_join owner path (db w)) = Some (r, v)"
    by (auto simp: kv_get_version_def connection_Inr_iff bindM_Inr_iff op_simps)
  then show ?thesis
    by (simp add: kv_get_version_def connection_def op_simps op_run kv_join_set_pointer f)
qed

section \<open>Reading back\<close>

lemma kv_read_after_write:
  assumes "aead_ok E" "kv_ok (db w)" "kv_write E owner path data w = (Inr res, w')"
    and "wf_json (float_text E) (JObj data)"
    and "kv_records (db v) = kv_records (db w')" "kv_versions (db v) = kv_versions (db w')"
    and "vs_dek (vstate v) = vs_dek (vstate w')"
    and "version \<in> {PyNone, PyInt (written_version res)}"
  shows "\<exists>created. kv_read E owner path version v =
    (Inr \<lparr>read_data = data, read_version = written_version res,
          read_latest_version = written_version res, read_created_at = created\<rparr>, v)"
proof -
  from assms(3) obtain dek0 pt0 where "append_version owner path (kv_encrypt_for E dek0 pt0 owner path) w = (Inr res, w')"
    by (auto simp: kv_write_def bindM_Inr_iff bindR_Inr_iff op_simps kv_authorize_Inr
        split: option.splits if_splits)
  then have s: "list_all scalar owner" "list_all scalar path" "kv_next owner path (db w) < 2 ^ 63"
    using append_version_bound by blast+
  from assms(2,3) obtain dek js pt x where
    k: "kv_owns E owner path" "vs_dek (vstate w) = Some dek"
    "json_dumps (JObj data) = Inr js" "utf8_encode js = Inr pt" "sealed E dek owner path pt x"
    "written_version res = int (length (kv_past (db w) (owner, path))) + 1"
    "kv_history (db w') = (kv_history (db w))((owner, path) \<mapsto> kv_past (db w) (owner, path) @ [x])"
    "kv_ok (db w')" "vstate w' = vstate w"
    by (rule kv_write_Inr) blast
  let ?vs = "kv_past (db w) (owner, path)"
  have v: "kv_ok (db v)" "kv_past (db v) (owner, path) = ?vs @ [x]"
    using k(7,8) kv_ok_cong [OF assms(5,6)] kv_history_cong [OF assms(5,6)] by (simp_all add: kv_past_def)
  obtain requested where r: "normalize_version version = Inr requested"
    "requested \<in> {None, Some (written_version res)}"
    using assms(8) k(6) by (auto simp: normalize_version_def)
  have n: "n < 2 ^ 63" if "requested = Some n" for n
    using that r(2) s(3) k(6) kv_next_length [OF assms(2)] by auto
  from kv_answer_sealed [OF assms(1) k(5,4,3) assms(4) k(6) r(2)]
    kv_read_run [OF v(1) k(1) s(1,2) r(1) n, of dek] assms(7) k(2,9) v(2)
  show ?thesis by simp
qed

section \<open>The examples\<close>

definition toy_owner :: pystr where "toy_owner = lit ''a@b.cd''"
definition toy_path :: pystr where "toy_path = lit ''secret/a@b.cd/x''"
definition toy_data :: "(pystr \<times> json) list" where "toy_data = [(lit ''k'', JInt 1)]"

lemma toy_owns: "kv_owns toy toy_owner toy_path"
proof -
  have "toy_path = PATH_PREFIX @ toy_owner @ 47 # lit ''x''"
    by (simp add: toy_path_def PATH_PREFIX_def toy_owner_def text_simps)
  moreover have "py_lower toy_unicode (py_strip toy_unicode toy_owner) = toy_owner" by code_simp
  moreover have "47 \<notin> set toy_owner" "toy_owner \<noteq> []" by (simp_all add: toy_owner_def text_simps)
  moreover have "lit ''x'' \<noteq> []" by (simp add: text_simps)
  ultimately show ?thesis
    unfolding kv_owns_def unicode_toy extract_owner_Inr by metis
qed

lemma toy_texts [simp]: "list_all scalar toy_owner" "list_all scalar toy_path"
  by (simp_all add: toy_owner_def toy_path_def scalar_lit)

lemma toy_kv_ok: "kv_ok (db toy_unlocked)"
  by (simp add: kv_ok_def kvs.ok_empty)

lemma toy_data_wf: "wf_json F (JObj toy_data)"
  using int_digits_okI [of 1 1] by (simp add: toy_data_def)

lemma toy_write:
  "\<exists>res w'. kv_write toy toy_owner toy_path toy_data toy_unlocked = (Inr res, w')"
proof -
  obtain js where js: "json_dumps (JObj toy_data) = Inr js" using json_dumps_ok [OF toy_data_wf] by blast
  have "list_all scalar js"
    using js scalar_dump_text [of "JObj toy_data"]
    by (auto simp: json_dumps_def toy_data_def scalar_lit split: if_splits)
  then obtain pt where "utf8_encode js = Inr pt" using utf8_encode_ok by blast
  with js show ?thesis
    by (intro kv_write_ok [OF toy_kv_ok toy_owns, where dek = toy_dek]) (simp_all add: kv_past_def kv_history_def history_def)
qed

lemma toy_written:
  "\<exists>w' created. kv_ok (db w') \<and> vs_dek (vstate w') = Some toy_dek
    \<and> kv_read toy toy_owner toy_path (PyInt 1) w' =
      (Inr \<lparr>read_data = toy_data, read_version = 1, read_latest_version = 1, read_created_at = created\<rparr>, w')"
proof -
  obtain res w' where w: "kv_write toy toy_owner toy_path toy_data toy_unlocked = (Inr res, w')"
    using toy_write by blast
  from w have k: "kv_ok (db w')" "vstate w' = vstate toy_unlocked"
    "written_version res = int (length (kv_past (db toy_unlocked) (toy_owner, toy_path))) + 1"
    by (rule kv_write_Inr [OF toy_kv_ok], blast)+
  then have "written_version res = 1" by (simp add: kv_past_def kv_history_def history_def)
  with kv_read_after_write [OF toy_aead_ok toy_kv_ok w toy_data_wf refl refl refl, of "PyInt 1"] k
  show ?thesis by auto
qed

section \<open>Properties\<close>

text \<open>C14: what was written is what is read. After a successful write of a document, a read of
  the path without a version, or with the version the write returned, yields exactly that
  document, as long as the stored tables and the key are the same.\<close>

theorem kv_write_then_read:
  assumes "aead_ok E" "kv_ok (db w)" "kv_write E owner path data w = (Inr res, w')"
    and "wf_json (float_text E) (JObj data)"
    and "kv_records (db v) = kv_records (db w')" "kv_versions (db v) = kv_versions (db w')"
    and "vs_dek (vstate v) = vs_dek (vstate w')"
    and "version \<in> {PyNone, PyInt (written_version res)}"
  shows "\<exists>created. kv_read E owner path version v =
    (Inr \<lparr>read_data = data, read_version = written_version res,
          read_latest_version = written_version res, read_created_at = created\<rparr>, v)"
  by (rule kv_read_after_write [OF assms])

theorem kv_write_then_read_witness:
  "\<exists>w' n created. kv_read toy toy_owner toy_path PyNone w' =
    (Inr \<lparr>read_data = toy_data, read_version = n, read_latest_version = n, read_created_at = created\<rparr>, w')"
proof -
  obtain res w' where "kv_write toy toy_owner toy_path toy_data toy_unlocked = (Inr res, w')"
    using toy_write by blast
  from kv_write_then_read [OF toy_aead_ok toy_kv_ok this toy_data_wf refl refl refl, of PyNone]
  show ?thesis by auto
qed

text \<open>C25: a write creates exactly one new version, numbered one above the newest, and loses
  nothing: every version of any path that could be read before reads the same afterwards,
  and no other table changes.\<close>

theorem kv_write_keeps_history:
  assumes "kv_ok (db w)" "kv_write E owner path data w = (Inr res, w')"
    and "kv_read E o2 p2 (PyInt n) w = (Inr old, w)"
  shows "\<exists>new. kv_read E o2 p2 (PyInt n) w' = (Inr new, w') \<and> read_data new = read_data old
    \<and> read_version new = n \<and> read_created_at new = read_created_at old
    \<and> read_latest_version new =
        (if (o2, p2) = (owner, path) then written_version res else read_latest_version old)
    \<and> written_version res = int (length (kv_past (db w) (owner, path))) + 1
    \<and> kv_ok (db w') \<and> kv_frame (db w) (db w')"
proof -
  from assms(1,2) obtain x where
    k: "written_version res = int (length (kv_past (db w) (owner, path))) + 1"
    "kv_history (db w') = (kv_history (db w))((owner, path) \<mapsto> kv_past (db w) (owner, path) @ [x])"
    "kv_ok (db w')" "kv_frame (db w) (db w')" "vstate w' = vstate w"
    by (rule kv_write_Inr) blast
  from assms(1,3) obtain dek requested where
    r: "kv_owns E o2 p2" "list_all scalar o2" "list_all scalar p2"
    "normalize_version (PyInt n) = Inr requested" "\<And>m. requested = Some m \<Longrightarrow> m < 2 ^ 63"
    "vs_dek (vstate w) = Some dek"
    "kv_answer E dek o2 p2 requested (kv_past (db w) (o2, p2)) = Inr old"
    by (rule kv_read_Inr) blast
  have q: "requested = Some n" using r(4) by (simp add: normalize_version_def split: if_splits)
  have "read_version old = n"
    using kv_answer_Inr [OF r(7), of n] by (metis q option.simps(5) kv_read_result.select_convs(2))
  from kv_read_run [OF k(3) r(1-5), of dek] r(6) k(5)
  have run: "kv_read E o2 p2 (PyInt n) w' = (kv_answer E dek o2 p2 (Some n) (kv_past (db w') (o2, p2)), w')"
    by (simp add: q)
  show ?thesis
  proof (cases "(o2, p2) = (owner, path)")
    case True
    then have p: "kv_past (db w') (o2, p2) = kv_past (db w) (o2, p2) @ [x]" using k(2) by (simp add: kv_past_def)
    from kv_answer_append [OF r(7) [unfolded q], of "[x]"] run p \<open>read_version old = n\<close> True k(1,3,4) show ?thesis
      by simp
  next
    case False
    then have "kv_past (db w') (o2, p2) = kv_past (db w) (o2, p2)" using k(2) by (auto simp: kv_past_def)
    with run r(7) q \<open>read_version old = n\<close> False k(1,3,4) show ?thesis by auto
  qed
qed

theorem kv_write_keeps_history_witness:
  "\<exists>w w' n new old. kv_read toy toy_owner toy_path (PyInt n) w = (Inr old, w)
    \<and> kv_read toy toy_owner toy_path (PyInt n) w' = (Inr new, w') \<and> read_data new = read_data old
    \<and> read_latest_version old = 1"
proof -
  from toy_written obtain w1 created where
    w1: "kv_ok (db w1)" "vs_dek (vstate w1) = Some toy_dek"
    "kv_read toy toy_owner toy_path (PyInt 1) w1 =
      (Inr \<lparr>read_data = toy_data, read_version = 1, read_latest_version = 1, read_created_at = created\<rparr>, w1)"
    by blast
  obtain dek requested where a: "kv_answer toy dek toy_owner toy_path requested
      (kv_past (db w1) (toy_owner, toy_path)) = Inr \<lparr>read_data = toy_data, read_version = 1,
        read_latest_version = 1, read_created_at = created\<rparr>"
    using w1(3) by (rule kv_read_Inr [OF w1(1)]) blast
  then have "int (length (kv_past (db w1) (toy_owner, toy_path))) = 1"
    using kv_answer_Inr [OF a refl] by auto
  moreover obtain js pt where js: "json_dumps (JObj toy_data) = Inr js" "utf8_encode js = Inr pt"
    using toy_write by (metis kv_write_Inr [OF toy_kv_ok])
  ultimately obtain res2 w2 where w2: "kv_write toy toy_owner toy_path toy_data w1 = (Inr res2, w2)"
    using kv_write_ok [OF w1(1) toy_owns w1(2) _ js] by fastforce
  from kv_write_keeps_history [OF w1(1) w2 w1(3)] w1(3) show ?thesis by fastforce
qed

text \<open>C11: a caller who does not own the path gets \<open>PermissionDeniedError\<close> from every
  operation, for foreign, missing and malformed paths alike and whether or not the vault is
  unlocked; the stored secrets are untouched and exactly one \<open>ACCESS_DENIED\<close> entry with the
  caller and the path is appended to the log, which stays consistent.\<close>

theorem kv_denied:
  assumes "\<not> kv_owns E requester path" "log_ok E (db w)" "length (rows (audit_logs (db w))) < 2 ^ 62"
    and "list_all scalar requester" "list_all scalar path"
  shows "\<exists>w' r. kv_write E requester path data w = (Inl (Kv PermissionDeniedError), w')
    \<and> kv_read E requester path version w = (Inl (Kv PermissionDeniedError), w')
    \<and> kv_versions_of E requester path w = (Inl (Kv PermissionDeniedError), w')
    \<and> kv_delete E requester path w = (Inl (Kv PermissionDeniedError), w')
    \<and> kv_records (db w') = kv_records (db w) \<and> kv_versions (db w') = kv_versions (db w)
    \<and> vstate w' = vstate w
    \<and> rows (audit_logs (db w')) = rows (audit_logs (db w)) @ [r]
    \<and> aud_requester_email r = Some requester \<and> aud_action r = ACCESS_DENIED
    \<and> aud_target_identifier r = path \<and> log_ok E (db w')"
proof -
  have "list_all scalar (lit ''kv_path'')" by (simp add: scalar_lit)
  from log_denied_ok [OF assms(2,3,4) this assms(5)] obtain r w' where
    l: "log_denied_access E requester (lit ''kv_path'') path w = (Inr (), w')"
    "rows (audit_logs (db w')) = rows (audit_logs (db w)) @ [r]"
    "aud_requester_email r = Some requester \<and> aud_action r = ACCESS_DENIED
      \<and> aud_target_identifier r = path \<and> log_ok E (db w')"
    by blast
  then have "kv_authorize E requester path w = (Inl (Kv PermissionDeniedError), w')"
    by (simp add: kv_authorize_other [OF assms(1)] op_simps op_run)
  with l log_denied_kv [OF l(1)] show ?thesis
    by (intro exI [of _ w'] exI [of _ r])
       (simp add: kv_write_def kv_read_def kv_versions_of_def kv_delete_def op_run)
qed

theorem kv_denied_witness:
  "\<exists>w'. kv_read toy (lit ''b@b.cd'') toy_path PyNone toy_world = (Inl (Kv PermissionDeniedError), w')
    \<and> log_ok toy (db w')"
proof -
  have "\<not> kv_owns toy (lit ''b@b.cd'') toy_path"
    using toy_owns by (simp add: kv_owns_def toy_owner_def text_simps)
  from kv_denied [OF this toy_log_ok, of "[]" PyNone] show ?thesis by (auto simp: scalar_lit)
qed

text \<open>C12: a read is authentic whatever happened to the database. What it returns is the
  decoding of a plaintext whose encryption under the current key, with the requested owner
  and path and the returned version as associated data, is stored in some row; no invariant
  of the tables is assumed.\<close>

theorem kv_read_authentic:
  assumes "aead_sound E" "kv_read E owner path version w = (Inr res, w')"
  shows "\<exists>v dek nonce ct tag pt aad. v \<in> set (rows (kv_versions (db w)))
    \<and> kvv_version v = read_version res \<and> vs_dek (vstate w) = Some dek
    \<and> decode_b64 (PyStr (kvv_nonce_b64 v)) = Inr nonce
    \<and> decode_b64 (PyStr (kvv_ciphertext_b64 v)) = Inr ct
    \<and> decode_b64 (PyStr (kvv_tag_b64 v)) = Inr tag
    \<and> kv_aad owner path (read_version res) = Inr aad
    \<and> ct @ tag = aead_encrypt E dek nonce pt aad
    \<and> bindR (utf8_decode pt) (json_loads (float_text E)) = Inr (JObj (read_data res))
    \<and> kv_owns E owner path \<and> w' = w"
proof -
  from assms(2) obtain dek req r v where
    o: "kv_owns E owner path" "vs_dek (vstate w) = Some dek"
    "kv_get_version owner path req w = (Inr (Some (r, v)), w)"
    "kv_open E dek owner path v = Inr (JObj (read_data res))" "w' = w"
    and res: "res = \<lparr>read_data = read_data res, read_version = kvv_version v,
            read_latest_version = rec_latest_version r, read_created_at = kvv_created_at v\<rparr>"
    by (rule kv_read_steps) blast
  have "read_version res = kvv_version v" using arg_cong [OF res, of read_version] by simp
  moreover have "v \<in> set (rows (kv_versions (db w)))"
    using o(3) by (auto simp: kv_get_version_def connection_Inr_iff bindM_Inr_iff op_simps kv_join_def
        join_key_def children_def split: option.splits dest!: find_SomeD)
  moreover from o(4) obtain nonce ct tag aad pt where
    "decode_b64 (PyStr (kvv_nonce_b64 v)) = Inr nonce" "decode_b64 (PyStr (kvv_ciphertext_b64 v)) = Inr ct"
    "decode_b64 (PyStr (kvv_tag_b64 v)) = Inr tag" "kv_aad owner path (kvv_version v) = Inr aad"
    "ct @ tag = aead_encrypt E dek nonce pt aad"
    "bindR (utf8_decode pt) (json_loads (float_text E)) = Inr (JObj (read_data res))"
    by (auto simp: kv_open_def bindR_Inr_iff dest!: decrypt_sound [OF assms(1)])
  ultimately show ?thesis using o(1,2,5) by metis
qed

theorem kv_read_authentic_witness:
  "\<exists>w' res dek nonce ct pt aad. kv_read toy toy_owner toy_path (PyInt 1) w' = (Inr res, w')
    \<and> ct = aead_encrypt toy dek nonce pt aad"
proof -
  from toy_written obtain w' res where "kv_read toy toy_owner toy_path (PyInt 1) w' = (Inr res, w')" by blast
  with kv_read_authentic [OF toy_aead_sound this] show ?thesis by blast
qed

text \<open>The associated data of two secrets is the same only if owner, path and version are:
  a ciphertext moved to another path, another owner or another version is not accepted in
  the place of a genuine one. Owners contain no slash and paths start with \<open>secret/\<close>, as
  for every authorised request.\<close>

theorem kv_aad_binds:
  assumes "kv_aad o1 p1 v1 = Inr a" "kv_aad o2 p2 v2 = Inr a"
    and "startswith p1 PATH_PREFIX" "startswith p2 PATH_PREFIX" "47 \<notin> set o1" "47 \<notin> set o2"
    and "0 \<le> v1" "0 \<le> v2"
  shows "o1 = o2 \<and> p1 = p2 \<and> v1 = v2"
  by (rule kv_aad_unambiguous [OF assms])

theorem kv_aad_binds_witness:
  "\<exists>a. kv_aad toy_owner toy_path 1 = Inr a
    \<and> toy_owner = toy_owner \<and> toy_path = toy_path \<and> (1 :: int) = 1"
proof -
  obtain a where a: "kv_aad toy_owner toy_path 1 = Inr a" using kv_aad_ok [OF toy_texts] by blast
  have p: "startswith toy_path PATH_PREFIX" "47 \<notin> set toy_owner"
    by (simp_all add: toy_path_def PATH_PREFIX_def toy_owner_def text_simps)
  from kv_aad_binds [OF a a p(1) p(1) p(2) p(2)] a show ?thesis by simp
qed



text \<open>C38: the pointer to the newest version is not authenticated. An attacker who lowers it
  makes the default read return the older secret without any error.\<close>

theorem kv_pointer_rollback:
  assumes "kv_read E owner path (PyInt k) w = (Inr old, w)"
  shows "kv_read E owner path PyNone (w\<lparr>db := set_pointer owner path k (db w)\<rparr>)
    = (Inr (old\<lparr>read_latest_version := k\<rparr>), w\<lparr>db := set_pointer owner path k (db w)\<rparr>)"
proof -
  let ?w = "w\<lparr>db := set_pointer owner path k (db w)\<rparr>"
  from assms obtain dek r v where
    o: "kv_owns E owner path" "vs_dek (vstate w) = Some dek"
    "kv_get_version owner path (Some k) w = (Inr (Some (r, v)), w)"
    "kv_open E dek owner path v = Inr (JObj (read_data old))"
    and res: "old = \<lparr>read_data = read_data old, read_version = kvv_version v,
            read_latest_version = rec_latest_version r, read_created_at = kvv_created_at v\<rparr>"
    by (rule kv_read_steps) (auto simp: normalize_version_def split: if_splits)
  have "kv_read E owner path PyNone ?w =
      (Inr \<lparr>read_data = read_data old, read_version = kvv_version v, read_latest_version = k,
            read_created_at = kvv_created_at v\<rparr>, ?w)"
    using kv_get_version_set_pointer [OF o(3)] o(1,2,4)
    by (simp add: kv_read_def kv_authorize_owner op_simps op_run normalize_version_def)
  also have "\<lparr>read_data = read_data old, read_version = kvv_version v, read_latest_version = k,
            read_created_at = kvv_created_at v\<rparr> = old\<lparr>read_latest_version := k\<rparr>"
    using arg_cong [OF res, of "\<lambda>r. r\<lparr>read_latest_version := k\<rparr>"] by simp
  finally show ?thesis .
qed

theorem kv_pointer_rollback_witness:
  "\<exists>w' res. kv_read toy toy_owner toy_path PyNone (w'\<lparr>db := set_pointer toy_owner toy_path 1 (db w')\<rparr>)
    = (Inr res, w'\<lparr>db := set_pointer toy_owner toy_path 1 (db w')\<rparr>)"
proof -
  from toy_written obtain w' res where "kv_read toy toy_owner toy_path (PyInt 1) w' = (Inr res, w')" by blast
  from kv_pointer_rollback [OF this] show ?thesis by blast
qed

end
