(* ===== verification/KeyStore.thy ===== *)
theory KeyStore
  imports VersionStore Crypto "HOL-Library.List_Lexorder"
begin

text \<open>
  \<open>src/transit/repository.py\<close>: the tables \<open>named_keys\<close> (ownership, usage, newest version)
  and \<open>named_key_versions\<close> (the wrapped key material of every version). The contract of
  versioned stores is instantiated on them; the abstract view is \<open>nk_history\<close>.
\<close>

section \<open>\<open>repository.py\<close>\<close>

text \<open>What \<open>wrap\<close> returns: nonce, encrypted material, tag and public key, in Base64.\<close>

type_synonym wrapped_key = "pystr \<times> pystr \<times> pystr \<times> pystr option"
type_synonym wrap_for_version = "int \<Rightarrow> wrapped_key action"

definition nk_key :: "named_key_row \<Rightarrow> pystr \<times> pystr" where
  "nk_key r = (key_owner_email r, key_name r)"

definition nk_bump :: "pystr \<Rightarrow> int \<Rightarrow> named_key_row \<Rightarrow> named_key_row" where
  "nk_bump stamp version r = r\<lparr>key_latest_version := version, key_updated_at := stamp\<rparr>"

definition key_find :: "pystr \<Rightarrow> pystr \<Rightarrow> database \<Rightarrow> named_key_row option" where
  "key_find owner name d = tbl_one (\<lambda>r. nk_key r = (owner, name)) (named_keys d)"

definition new_key ::
  "pystr \<Rightarrow> pystr \<Rightarrow> key_usage \<Rightarrow> pystr option \<Rightarrow> pystr \<Rightarrow> int \<Rightarrow> named_key_row"
where
  "new_key owner name usage algorithm stamp i =
     \<lparr>key_id = i, key_owner_email = owner, key_name = name, key_usage = usage,
      key_signing_algorithm = algorithm, key_latest_version = 1, key_created_at = stamp,
      key_updated_at = stamp\<rparr>"

definition nk_insert ::
  "pystr \<Rightarrow> pystr \<Rightarrow> key_usage \<Rightarrow> pystr option \<Rightarrow> pystr \<Rightarrow> database \<Rightarrow> (int \<times> database) res"
where
  "nk_insert owner name usage algorithm stamp d =
     bindR (tbl_insert nk_key (new_key owner name usage algorithm stamp) (named_keys d))
       (\<lambda>(i, t). Inr (i, d\<lparr>named_keys := t\<rparr>))"

definition new_key_version :: "int \<Rightarrow> int \<Rightarrow> wrapped_key \<Rightarrow> pystr \<Rightarrow> int \<Rightarrow> key_version_row" where
  "new_key_version kid version wrapped stamp i =
     (case wrapped of (nonce, material, tag, public) \<Rightarrow>
        \<lparr>kyv_id = i, kyv_key_id = kid, kyv_version = version, kyv_nonce_b64 = nonce,
         kyv_material_b64 = material, kyv_tag_b64 = tag, kyv_public_key_b64 = public,
         kyv_created_at = stamp\<rparr>)"

definition nk_insert_version ::
  "int \<Rightarrow> int \<Rightarrow> wrapped_key \<Rightarrow> pystr \<Rightarrow> database \<Rightarrow> (unit \<times> database) res"
where
  "nk_insert_version kid version wrapped stamp d =
     bindR (tbl_insert (\<lambda>v. (kyv_key_id v, kyv_version v)) (new_key_version kid version wrapped stamp)
              (named_key_versions d))
       (\<lambda>(i, t). Inr ((), d\<lparr>named_key_versions := t\<rparr>))"

definition insert_version :: "int \<Rightarrow> int \<Rightarrow> wrap_for_version \<Rightarrow> pystr \<Rightarrow> unit action" where
  "insert_version kid version wrap stamp =
     bindM (wrap version) (\<lambda>wrapped.
     bindM (liftR (bind_int version)) (\<lambda>_.
     execute (nk_insert_version kid version wrapped stamp)))"

definition get_owned :: "pystr \<Rightarrow> pystr \<Rightarrow> named_key_row option action" where
  "get_owned owner name =
     connection (bindM (liftR (bind_texts [owner, name])) (\<lambda>_. query (key_find owner name)))"

definition is_integrity_error :: "exn \<Rightarrow> bool" where
  "is_integrity_error e \<longleftrightarrow> e = Py IntegrityError"

text \<open>The transaction of \<open>create\<close>, at the time the caller read.\<close>

definition nk_create_at ::
  "pystr \<Rightarrow> pystr \<Rightarrow> key_usage \<Rightarrow> pystr option \<Rightarrow> wrap_for_version \<Rightarrow> pystr \<Rightarrow> unit action"
where
  "nk_create_at owner name usage algorithm wrap stamp =
     catchM
       (exclusive_connection
          (bindM (liftR (bind_texts [owner, name])) (\<lambda>_.
           bindM (execute (nk_insert owner name usage algorithm stamp)) (\<lambda>kid.
           insert_version kid 1 wrap stamp))))
       is_integrity_error (Transit KeyAlreadyExistsError)"

definition nk_create ::
  "pystr \<Rightarrow> pystr \<Rightarrow> key_usage \<Rightarrow> pystr option \<Rightarrow> wrap_for_version \<Rightarrow> named_key_row action"
where
  "nk_create owner name usage algorithm wrap =
     bindM now_text (\<lambda>stamp.
     bindM (nk_create_at owner name usage algorithm wrap stamp) (\<lambda>_.
     bindM (get_owned owner name) (\<lambda>row.
     case row of None \<Rightarrow> throw (Py RuntimeError) | Some r \<Rightarrow> ret r)))"

definition nk_update :: "int \<Rightarrow> int \<Rightarrow> pystr \<Rightarrow> database \<Rightarrow> database" where
  "nk_update kid version stamp d =
     d\<lparr>named_keys := tbl_update (\<lambda>r. key_id r = kid) (nk_bump stamp version) (named_keys d)\<rparr>"

text \<open>The transaction of \<open>rotate\<close>: whether the key was there.\<close>

definition nk_rotate_at :: "pystr \<Rightarrow> pystr \<Rightarrow> wrap_for_version \<Rightarrow> pystr \<Rightarrow> bool action" where
  "nk_rotate_at owner name wrap stamp =
     exclusive_connection
       (bindM (liftR (bind_texts [owner, name])) (\<lambda>_.
        bindM (query (key_find owner name)) (\<lambda>row.
        case row of
          None \<Rightarrow> ret False
        | Some r \<Rightarrow>
            let version = key_latest_version r + 1
            in bindM (insert_version (key_id r) version wrap stamp) (\<lambda>_.
               bindM (execute_update (nk_update (key_id r) version stamp)) (\<lambda>_.
               ret True)))))"

definition nk_rotate :: "pystr \<Rightarrow> pystr \<Rightarrow> wrap_for_version \<Rightarrow> named_key_row option action" where
  "nk_rotate owner name wrap =
     bindM now_text (\<lambda>stamp.
     bindM (nk_rotate_at owner name wrap stamp)
       (\<lambda>found. if found then get_owned owner name else ret None))"

definition get_key_version :: "int \<Rightarrow> int \<Rightarrow> key_version_row option action" where
  "get_key_version kid version =
     connection (bindM (liftR (bind_int version)) (\<lambda>_.
       query (\<lambda>d. tbl_one (\<lambda>v. kyv_key_id v = kid \<and> kyv_version v = version) (named_key_versions d))))"

definition list_key_versions :: "int \<Rightarrow> (int \<times> pystr) list action" where
  "list_key_versions kid =
     connection (query (\<lambda>d. map (\<lambda>v. (kyv_version v, kyv_created_at v))
       (sort_key kyv_version (tbl_all (\<lambda>v. kyv_key_id v = kid) (named_key_versions d)))))"

definition list_owned :: "pystr \<Rightarrow> named_key_row list action" where
  "list_owned owner =
     connection (bindM (liftR (bind_texts [owner])) (\<lambda>_.
       query (\<lambda>d. sort_key key_name (tbl_all (\<lambda>r. key_owner_email r = owner) (named_keys d)))))"

definition nk_delete_rows :: "pystr \<Rightarrow> pystr \<Rightarrow> database \<Rightarrow> (bool \<times> database) res" where
  "nk_delete_rows owner name d =
     (case cascade_delete key_id nk_key kyv_key_id (owner, name) (named_keys d) (named_key_versions d) of
        (P, C) \<Rightarrow> Inr (key_find owner name d \<noteq> None, d\<lparr>named_keys := P, named_key_versions := C\<rparr>))"

definition delete_owned :: "pystr \<Rightarrow> pystr \<Rightarrow> bool action" where
  "delete_owned owner name =
     connection (bindM (liftR (bind_texts [owner, name])) (\<lambda>_. execute (nk_delete_rows owner name)))"

section \<open>The contract\<close>

interpretation nks: versioned_store key_id nk_key key_latest_version nk_bump kyv_key_id kyv_version
  by unfold_locales (simp_all add: nk_bump_def nk_key_def)

definition nk_ok :: "database \<Rightarrow> bool" where
  "nk_ok d \<longleftrightarrow>
     store_ok key_id nk_key key_latest_version kyv_key_id kyv_version (named_keys d) (named_key_versions d)"

definition nk_history :: "database \<Rightarrow> pystr \<times> pystr \<Rightarrow> key_version_row list option" where
  "nk_history d = history key_id nk_key kyv_key_id (named_keys d) (named_key_versions d)"

definition nk_versions :: "database \<Rightarrow> named_key_row \<Rightarrow> key_version_row list" where
  "nk_versions d r = children kyv_key_id (key_id r) (named_key_versions d)"

text \<open>Nothing but the two key tables differs.\<close>

definition nk_frame :: "database \<Rightarrow> database \<Rightarrow> bool" where
  "nk_frame d d' \<longleftrightarrow> d'\<lparr>named_keys := named_keys d, named_key_versions := named_key_versions d\<rparr> = d"

lemma nk_frame_fields:
  "nk_frame d d' \<Longrightarrow> table_names d' = table_names d \<and> schema_metadata d' = schema_metadata d
    \<and> users d' = users d \<and> sessions d' = sessions d \<and> kv_records d' = kv_records d
    \<and> kv_versions d' = kv_versions d \<and> audit_logs d' = audit_logs d"
  by (cases d, cases d') (simp add: nk_frame_def)

lemma nk_cong:
  assumes "named_keys d' = named_keys d" "named_key_versions d' = named_key_versions d"
  shows "nk_ok d' = nk_ok d" "nk_history d' = nk_history d" "key_find owner name d' = key_find owner name d"
    "nk_versions d' = nk_versions d"
  using assms by (simp_all add: nk_ok_def nk_history_def key_find_def fun_eq_iff nk_versions_def)

lemma key_find_iff:
  "nk_ok d \<Longrightarrow> key_find owner name d = Some r \<longleftrightarrow> r \<in> set (rows (named_keys d)) \<and> nk_key r = (owner, name)"
  by (simp add: key_find_def tbl_one_def nk_ok_def nks.find_key_iff)

lemma key_find_None: "key_find owner name d = None \<longleftrightarrow> nk_history d (owner, name) = None"
  by (simp add: key_find_def tbl_one_def nk_history_def history_def)

lemma key_find_history:
  "key_find owner name d = Some r \<Longrightarrow> nk_history d (owner, name) = Some (nk_versions d r)"
  by (simp add: nk_history_def history_def key_find_def tbl_one_def nk_versions_def)

lemma key_find_names: "key_find owner name d = Some r \<Longrightarrow> key_owner_email r = owner \<and> key_name r = name"
  by (auto simp: key_find_def tbl_one_def nk_key_def dest: find_SomeD)

lemma nk_versions_numbered:
  assumes "nk_ok d" "key_find owner name d = Some r"
  shows "map kyv_version (nk_versions d r) = map int [1..<Suc (length (nk_versions d r))]
    \<and> key_latest_version r = int (length (nk_versions d r)) \<and> nk_versions d r \<noteq> []"
proof -
  have "r \<in> set (rows (named_keys d))" using assms by (simp add: key_find_iff)
  from nks.versions_of [OF assms(1) [unfolded nk_ok_def] this] show ?thesis
    by (auto simp: nk_versions_def)
qed

section \<open>Creating a key\<close>

definition nk_started ::
  "pystr \<Rightarrow> pystr \<Rightarrow> key_usage \<Rightarrow> pystr option \<Rightarrow> pystr \<Rightarrow> database \<Rightarrow> database"
where
  "nk_started owner name usage algorithm stamp d =
     d\<lparr>named_keys := (named_keys d)
        \<lparr>rows := rows (named_keys d) @ [new_key owner name usage algorithm stamp (next_id (named_keys d))],
         next_id := next_id (named_keys d) + 1\<rparr>\<rparr>"

definition nk_add_version :: "int \<Rightarrow> int \<Rightarrow> wrapped_key \<Rightarrow> pystr \<Rightarrow> database \<Rightarrow> database" where
  "nk_add_version kid version wrapped stamp d =
     d\<lparr>named_key_versions := (named_key_versions d)
        \<lparr>rows := rows (named_key_versions d) @
           [new_key_version kid version wrapped stamp (next_id (named_key_versions d))],
         next_id := next_id (named_key_versions d) + 1\<rparr>\<rparr>"

definition nk_created ::
  "pystr \<Rightarrow> pystr \<Rightarrow> key_usage \<Rightarrow> pystr option \<Rightarrow> pystr \<Rightarrow> wrapped_key \<Rightarrow> database \<Rightarrow> database"
where
  "nk_created owner name usage algorithm stamp wrapped d =
     nk_add_version (next_id (named_keys d)) 1 wrapped stamp
       (nk_started owner name usage algorithm stamp d)"

lemma new_key_version_fields [simp]:
  "kyv_key_id (new_key_version kid version wrapped stamp i) = kid"
  "kyv_version (new_key_version kid version wrapped stamp i) = version"
  by (simp_all add: new_key_version_def split: prod.splits)

lemma new_key_fields [simp]:
  "key_id (new_key owner name usage algorithm stamp i) = i"
  "nk_key (new_key owner name usage algorithm stamp i) = (owner, name)"
  "key_usage (new_key owner name usage algorithm stamp i) = usage"
  "key_signing_algorithm (new_key owner name usage algorithm stamp i) = algorithm"
  "key_latest_version (new_key owner name usage algorithm stamp i) = 1"
  "key_name (new_key owner name usage algorithm stamp i) = name"
  "key_owner_email (new_key owner name usage algorithm stamp i) = owner"
  by (simp_all add: new_key_def nk_key_def)

lemma nk_insert_version_ok:
  assumes "\<forall>c \<in> set (rows (named_key_versions d)). (kyv_key_id c, kyv_version c) \<noteq> (kid, version)"
  shows "nk_insert_version kid version wrapped stamp d =
    Inr ((), nk_add_version kid version wrapped stamp d)"
  using assms by (simp add: nk_insert_version_def tbl_insert_ok nk_add_version_def)

text \<open>The refinement step: a new key with a history of one version.\<close>

lemma nk_created_ok:
  assumes "nk_ok d" "key_find owner name d = None"
    and d'_def: "d' = nk_created owner name usage algorithm stamp wrapped d"
  shows "nk_ok d'" "nk_frame d d'"
    and "key_find o2 n2 d' = (if (o2, n2) = (owner, name)
      then Some (new_key owner name usage algorithm stamp (next_id (named_keys d))) else key_find o2 n2 d)"
    and "key_find o2 n2 d = Some q \<Longrightarrow> nk_versions d' q = nk_versions d q"
    and "nk_versions d' (new_key owner name usage algorithm stamp (next_id (named_keys d))) =
      [new_key_version (next_id (named_keys d)) 1 wrapped stamp (next_id (named_key_versions d))]"
proof -
  let ?p = "new_key owner name usage algorithm stamp (next_id (named_keys d))"
  let ?c = "new_key_version (next_id (named_keys d)) 1 wrapped stamp (next_id (named_key_versions d))"
  have h: "history key_id nk_key kyv_key_id (named_keys d) (named_key_versions d) (owner, name) = None"
    using assms(2) by (simp add: key_find_None nk_history_def)
  have r: "rows (named_keys d') = rows (named_keys d) @ [?p]"
    "next_id (named_keys d') = next_id (named_keys d) + 1"
    "rows (named_key_versions d') = rows (named_key_versions d) @ [?c]"
    by (simp_all add: d'_def nk_created_def nk_add_version_def nk_started_def)
  have c: "nk_ok d' \<and> history key_id nk_key kyv_key_id (named_keys d') (named_key_versions d') =
      (history key_id nk_key kyv_key_id (named_keys d) (named_key_versions d))((owner, name) \<mapsto> [?c])"
    unfolding nk_ok_def
    by (rule nks.create_ok [OF assms(1) [unfolded nk_ok_def] h r(1,2) _ _ _ r(3)]) simp_all
  then show "nk_ok d'" by simp
  show "nk_frame d d'" by (simp add: d'_def nk_frame_def nk_created_def nk_add_version_def nk_started_def)
  show f: "key_find o2 n2 d' = (if (o2, n2) = (owner, name) then Some ?p else key_find o2 n2 d)" for o2 n2
    unfolding key_find_def tbl_one_def
    by (rule nks.find_after_create [OF h r(1)]) simp
  show "nk_versions d' q = nk_versions d q" if "key_find o2 n2 d = Some q" for o2 n2 q
  proof -
    have "key_id q < next_id (named_keys d)"
      using that assms(1) key_find_iff [OF assms(1)] by (auto simp: nk_ok_def store_ok_def)
    then show ?thesis unfolding nk_versions_def nks.kids_append [OF r(3)] by simp
  qed
  show "nk_versions d' ?p = [?c]"
    unfolding nk_versions_def nks.kids_append [OF r(3)]
    using nks.kids_fresh [OF assms(1) [unfolded nk_ok_def]] by simp
qed

lemma get_owned_run:
  "list_all scalar owner \<Longrightarrow> list_all scalar name \<Longrightarrow>
   get_owned owner name w = (Inr (key_find owner name (db w)), w)"
  by (simp add: get_owned_def connection_def op_simps op_run bind_texts_def)

lemma nk_create_at_run:
  assumes "nk_ok (db w)" "list_all scalar owner" "list_all scalar name"
    and frame: "\<And>u r u'. wrap 1 u = (r, u') \<Longrightarrow> db u' = db u"
  shows "nk_create_at owner name usage algorithm wrap stamp w =
    (let d = db w
     in if key_find owner name d \<noteq> None then (Inl (Transit KeyAlreadyExistsError), w)
        else case wrap 1 (w\<lparr>db := nk_started owner name usage algorithm stamp d\<rparr>) of
          (Inl e, u) \<Rightarrow>
            (Inl (if is_integrity_error e then Transit KeyAlreadyExistsError else e), u\<lparr>db := d\<rparr>)
        | (Inr wrapped, u) \<Rightarrow>
            (Inr (), u\<lparr>db := nk_created owner name usage algorithm stamp wrapped d\<rparr>))"
proof (cases "key_find owner name (db w)")
  case (Some q)
  have t: "bind_texts [owner, name] = Inr ()" using assms(2,3) by (simp add: bind_texts_def)
  have "q \<in> set (rows (named_keys (db w))) \<and> nk_key q = (owner, name)"
    using Some key_find_iff [OF assms(1)] by simp
  then have "nk_insert owner name usage algorithm stamp (db w) = Inl (Py IntegrityError)"
    by (auto simp: nk_insert_def tbl_insert_def Let_def)
  with Some t show ?thesis
    by (simp add: nk_create_at_def exclusive_connection_def op_simps op_run is_integrity_error_def Let_def)
next
  case None
  have t: "bind_texts [owner, name] = Inr ()" using assms(2,3) by (simp add: bind_texts_def)
  let ?d = "db w" and ?u = "w\<lparr>db := nk_started owner name usage algorithm stamp (db w)\<rparr>"
  have "nk_history ?d (owner, name) = None" using None by (simp add: key_find_None)
  then have "\<forall>p \<in> set (rows (named_keys ?d)). nk_key p \<noteq> (owner, name)"
    unfolding nk_history_def by (rule nks.parent_unique)
  then have i: "nk_insert owner name usage algorithm stamp ?d =
      Inr (next_id (named_keys ?d), nk_started owner name usage algorithm stamp ?d)"
    by (simp add: nk_insert_def tbl_insert_ok nk_started_def)
  have v: "nk_insert_version (next_id (named_keys ?d)) 1 wrapped stamp
      (nk_started owner name usage algorithm stamp ?d) =
      Inr ((), nk_created owner name usage algorithm stamp wrapped ?d)" for wrapped
    unfolding nk_created_def
    using nks.first_child_unique [OF assms(1) [unfolded nk_ok_def]]
    by (intro nk_insert_version_ok) (simp add: nk_started_def)
  obtain r u where e: "wrap 1 ?u = (r, u)" by (rule prod.exhaust)
  then have "db u = nk_started owner name usage algorithm stamp ?d" by (auto dest: frame)
  with None t i v e show ?thesis
    by (cases r) (simp_all add: nk_create_at_def insert_version_def exclusive_connection_def op_simps op_run Let_def
        bind_int_def is_integrity_error_def)
qed

lemma nk_create_run:
  assumes "nk_ok (db w)" "list_all scalar owner" "list_all scalar name"
    and frame: "\<And>u r u'. wrap 1 u = (r, u') \<Longrightarrow> db u' = db u"
  shows "nk_create owner name usage algorithm wrap w =
    (let stamp = isoformat (clock w (ticks w)); d = db w; v = w\<lparr>ticks := Suc (ticks w)\<rparr>
     in if key_find owner name d \<noteq> None then (Inl (Transit KeyAlreadyExistsError), v)
        else case wrap 1 (v\<lparr>db := nk_started owner name usage algorithm stamp d\<rparr>) of
          (Inl e, u) \<Rightarrow>
            (Inl (if is_integrity_error e then Transit KeyAlreadyExistsError else e), u\<lparr>db := d\<rparr>)
        | (Inr wrapped, u) \<Rightarrow>
            (Inr (new_key owner name usage algorithm stamp (next_id (named_keys d))),
             u\<lparr>db := nk_created owner name usage algorithm stamp wrapped d\<rparr>))"
proof (cases "key_find owner name (db w)")
  case (Some q)
  then show ?thesis
    using nk_create_at_run [of "w\<lparr>ticks := Suc (ticks w)\<rparr>" owner name wrap] assms
    by (simp add: nk_create_def op_run op_simps Let_def)
next
  case None
  have "key_find owner name (nk_created owner name usage algorithm stamp wrapped (db w)) =
      Some (new_key owner name usage algorithm stamp (next_id (named_keys (db w))))" for stamp wrapped
    by (simp add: nk_created_ok(3) [OF assms(1) None refl])
  with None show ?thesis
    using nk_create_at_run [of "w\<lparr>ticks := Suc (ticks w)\<rparr>" owner name wrap usage algorithm] assms
    by (simp add: nk_create_def op_run op_simps Let_def get_owned_run [OF assms(2,3)] split: prod.split sum.split)
qed

section \<open>Rotating a key\<close>

definition nk_rotated :: "int \<Rightarrow> int \<Rightarrow> pystr \<Rightarrow> wrapped_key \<Rightarrow> database \<Rightarrow> database" where
  "nk_rotated kid version stamp wrapped d =
     nk_update kid version stamp (nk_add_version kid version wrapped stamp d)"

lemma nk_bump_fields [simp]:
  "key_id (nk_bump stamp version r) = key_id r" "nk_key (nk_bump stamp version r) = nk_key r"
  "key_usage (nk_bump stamp version r) = key_usage r"
  "key_signing_algorithm (nk_bump stamp version r) = key_signing_algorithm r"
  "key_latest_version (nk_bump stamp version r) = version"
  "key_owner_email (nk_bump stamp version r) = key_owner_email r"
  "key_name (nk_bump stamp version r) = key_name r"
  by (simp_all add: nk_bump_def nk_key_def)

lemma nk_rotated_ok:
  assumes "nk_ok d" "key_find owner name d = Some r"
    and d'_def: "d' = nk_rotated (key_id r) (key_latest_version r + 1) stamp wrapped d"
  shows "nk_ok d'" "nk_frame d d'"
    and "key_find o2 n2 d' = (if (o2, n2) = (owner, name)
      then Some (nk_bump stamp (key_latest_version r + 1) r) else key_find o2 n2 d)"
    and "key_find o2 n2 d = Some q \<Longrightarrow> nk_versions d' q = nk_versions d q @
      (if (o2, n2) = (owner, name)
       then [new_key_version (key_id r) (key_latest_version r + 1) wrapped stamp
               (next_id (named_key_versions d))] else [])"
proof -
  let ?c = "new_key_version (key_id r) (key_latest_version r + 1) wrapped stamp (next_id (named_key_versions d))"
  have r: "r \<in> set (rows (named_keys d))" "nk_key r = (owner, name)"
    using key_find_iff [OF assms(1)] assms(2) by simp_all
  have h: "history key_id nk_key kyv_key_id (named_keys d) (named_key_versions d) (owner, name) =
      Some (nk_versions d r)"
    using key_find_history [OF assms(2)] by (simp add: nk_history_def)
  have P: "named_keys d' = tbl_update (\<lambda>q. key_id q = key_id r)
        (nk_bump stamp (key_latest_version r + 1)) (named_keys d)"
    and C: "rows (named_key_versions d') = rows (named_key_versions d) @ [?c]"
    by (simp_all add: d'_def nk_rotated_def nk_update_def nk_add_version_def)
  have "nk_ok d' \<and> history key_id nk_key kyv_key_id (named_keys d') (named_key_versions d') =
      (history key_id nk_key kyv_key_id (named_keys d) (named_key_versions d))
        ((owner, name) \<mapsto> nk_versions d r @ [?c])"
    unfolding nk_ok_def
    by (rule nks.append_ok [OF assms(1) [unfolded nk_ok_def] r h P C]) simp_all
  then show "nk_ok d'" by simp
  show "nk_frame d d'"
    by (simp add: d'_def nk_frame_def nk_rotated_def nk_update_def nk_add_version_def)
  show "key_find o2 n2 d' = (if (o2, n2) = (owner, name)
      then Some (nk_bump stamp (key_latest_version r + 1) r) else key_find o2 n2 d)" for o2 n2
    using nks.find_after_bump [OF assms(1) [unfolded nk_ok_def] r(1) P, of "(o2, n2)"] r(2)
    by (simp add: key_find_def tbl_one_def)
  show "nk_versions d' q = nk_versions d q @ (if (o2, n2) = (owner, name) then [?c] else [])"
    if "key_find o2 n2 d = Some q" for o2 n2 q
  proof -
    have q: "q \<in> set (rows (named_keys d))" "nk_key q = (o2, n2)"
      using key_find_iff [OF assms(1)] that by simp_all
    have "key_id r = key_id q \<longleftrightarrow> (o2, n2) = (owner, name)"
      using nks.same_id [OF assms(1) [unfolded nk_ok_def] r(1) q(1)]
        nks.same_key [OF assms(1) [unfolded nk_ok_def] r(1) q(1)] q(2) r(2) by auto
    then show ?thesis unfolding nk_versions_def nks.kids_append [OF C] by simp
  qed
qed

lemma nk_rotate_at_run:
  assumes "nk_ok (db w)" "list_all scalar owner" "list_all scalar name"
    and "\<And>r. key_find owner name (db w) = Some r \<Longrightarrow> key_latest_version r + 1 < 2 ^ 63"
    and frame: "\<And>n u r u'. wrap n u = (r, u') \<Longrightarrow> db u' = db u"
  shows "nk_rotate_at owner name wrap stamp w =
    (let d = db w
     in case key_find owner name d of
          None \<Rightarrow> (Inr False, w)
        | Some r \<Rightarrow>
            (case wrap (key_latest_version r + 1) w of
               (Inl e, u) \<Rightarrow> (Inl e, u\<lparr>db := d\<rparr>)
             | (Inr wrapped, u) \<Rightarrow>
                 (Inr True, u\<lparr>db := nk_rotated (key_id r) (key_latest_version r + 1) stamp wrapped d\<rparr>)))"
proof (cases "key_find owner name (db w)")
  case None
  have t: "bind_texts [owner, name] = Inr ()" using assms(2,3) by (simp add: bind_texts_def)
  from None t show ?thesis
    by (simp add: nk_rotate_at_def exclusive_connection_def op_simps op_run Let_def)
next
  case (Some r)
  have t: "bind_texts [owner, name] = Inr ()" using assms(2,3) by (simp add: bind_texts_def)
  let ?d = "db w"
  have b: "bind_int (key_latest_version r + 1) = Inr ()"
    using assms(4) [OF Some] nk_versions_numbered [OF assms(1) Some] by (simp add: bind_int_def)
  have "r \<in> set (rows (named_keys ?d))" using key_find_iff [OF assms(1)] Some by simp
  from nks.next_child_unique [OF assms(1) [unfolded nk_ok_def] this]
  have v: "nk_insert_version (key_id r) (key_latest_version r + 1) wrapped stamp ?d =
      Inr ((), nk_add_version (key_id r) (key_latest_version r + 1) wrapped stamp ?d)" for wrapped
    by (rule nk_insert_version_ok)
  obtain x u where e: "wrap (key_latest_version r + 1) w = (x, u)" by (rule prod.exhaust)
  then have "db u = ?d" by (auto dest: frame)
  with Some t b v e show ?thesis
    by (cases x) (simp_all add: nk_rotate_at_def insert_version_def exclusive_connection_def op_simps op_run
        Let_def nk_rotated_def)
qed

lemma nk_rotate_run:
  assumes "nk_ok (db w)" "list_all scalar owner" "list_all scalar name"
    and "\<And>r. key_find owner name (db w) = Some r \<Longrightarrow> key_latest_version r + 1 < 2 ^ 63"
    and frame: "\<And>n u r u'. wrap n u = (r, u') \<Longrightarrow> db u' = db u"
  shows "nk_rotate owner name wrap w =
    (let stamp = isoformat (clock w (ticks w)); d = db w; v = w\<lparr>ticks := Suc (ticks w)\<rparr>
     in case key_find owner name d of
          None \<Rightarrow> (Inr None, v)
        | Some r \<Rightarrow>
            (case wrap (key_latest_version r + 1) v of
               (Inl e, u) \<Rightarrow> (Inl e, u\<lparr>db := d\<rparr>)
             | (Inr wrapped, u) \<Rightarrow>
                 (Inr (Some (nk_bump stamp (key_latest_version r + 1) r)),
                  u\<lparr>db := nk_rotated (key_id r) (key_latest_version r + 1) stamp wrapped d\<rparr>)))"
proof (cases "key_find owner name (db w)")
  case None
  then show ?thesis
    using nk_rotate_at_run [of "w\<lparr>ticks := Suc (ticks w)\<rparr>" owner name wrap] assms
    by (simp add: nk_rotate_def op_run op_simps Let_def)
next
  case (Some r)
  have g: "key_find owner name (nk_rotated (key_id r) (key_latest_version r + 1) stamp wrapped (db w)) =
      Some (nk_bump stamp (key_latest_version r + 1) r)" for stamp wrapped
    by (simp add: nk_rotated_ok(3) [OF assms(1) Some refl])
  with Some show ?thesis
    using nk_rotate_at_run [of "w\<lparr>ticks := Suc (ticks w)\<rparr>" owner name wrap] assms
    by (simp add: nk_rotate_def op_run op_simps Let_def get_owned_run [OF assms(2,3)] split: prod.split sum.split)
qed

section \<open>Reading and deleting\<close>

lemma get_key_version_run:
  assumes "nk_ok (db w)" "key_find owner name (db w) = Some r" "- (2 ^ 63) \<le> n" "n < 2 ^ 63"
  shows "get_key_version (key_id r) n w =
    (let vs = nk_versions (db w) r
     in (Inr (if 1 \<le> n \<and> n \<le> int (length vs) then Some (vs ! nat (n - 1)) else None), w))"
proof -
  have b: "bind_int n = Inr ()" using assms(3,4) by (simp add: bind_int_def)
  show ?thesis
    using nks.find_numbered [OF conjunct1 [OF nk_versions_numbered [OF assms(1,2)]], of n]
    by (simp add: get_key_version_def connection_def op_simps op_run b tbl_one_def Let_def
        nks.find_kid nk_versions_def)
qed

lemma get_key_version_world: "get_key_version kid n w = (r, w') \<Longrightarrow> w' = w"
  by (auto simp: get_key_version_def connection_def op_simps op_run split: sum.splits)

lemma list_key_versions_run:
  assumes "nk_ok (db w)" "key_find owner name (db w) = Some r"
  shows "list_key_versions (key_id r) w =
    (Inr (map (\<lambda>v. (kyv_version v, kyv_created_at v)) (nk_versions (db w) r)), w)"
proof -
  have "sorted (map kyv_version (nk_versions (db w) r))"
    unfolding conjunct1 [OF nk_versions_numbered [OF assms]]
    by (simp add: sorted_iff_nth_mono del: upt_Suc)
  then have "sort_key kyv_version (nk_versions (db w) r) = nk_versions (db w) r"
    by (rule sort_key_id_if_sorted)
  then show ?thesis
    by (simp add: list_key_versions_def connection_def op_simps op_run tbl_all_def nk_versions_def children_def)
qed

lemma list_key_versions_world: "list_key_versions kid w = (r, w') \<Longrightarrow> w' = w"
  by (auto simp: list_key_versions_def connection_def op_simps op_run split: sum.splits)

lemma get_owned_world: "get_owned owner name w = (r, w') \<Longrightarrow> w' = w"
  by (auto simp: get_owned_def connection_def op_simps op_run split: sum.splits)

lemma list_owned_world: "list_owned owner w = (r, w') \<Longrightarrow> w' = w"
  by (auto simp: list_owned_def connection_def op_simps op_run split: sum.splits)

definition nk_removed :: "pystr \<Rightarrow> pystr \<Rightarrow> database \<Rightarrow> database" where
  "nk_removed owner name d = snd (projr (nk_delete_rows owner name d))"

lemma nk_removed_ok:
  assumes "nk_ok d"
  shows "nk_ok (nk_removed owner name d)" "nk_frame d (nk_removed owner name d)"
    and "nk_history (nk_removed owner name d) = (nk_history d)((owner, name) := None)"
    and "key_find o2 n2 (nk_removed owner name d) =
      (if (o2, n2) = (owner, name) then None else key_find o2 n2 d)"
    and "key_find o2 n2 d = Some q \<Longrightarrow> (o2, n2) \<noteq> (owner, name) \<Longrightarrow>
      nk_versions (nk_removed owner name d) q = nk_versions d q"
proof -
  obtain P C where c: "cascade_delete key_id nk_key kyv_key_id (owner, name) (named_keys d) (named_key_versions d) = (P, C)"
    by (rule prod.exhaust)
  have d': "nk_removed owner name d = d\<lparr>named_keys := P, named_key_versions := C\<rparr>"
    by (simp add: nk_removed_def nk_delete_rows_def c)
  from nks.delete_ok [OF assms [unfolded nk_ok_def] c]
  show "nk_ok (nk_removed owner name d)" "nk_frame d (nk_removed owner name d)"
    "nk_history (nk_removed owner name d) = (nk_history d)((owner, name) := None)"
    by (simp_all add: d' nk_ok_def nk_frame_def nk_history_def)
  show "key_find o2 n2 (nk_removed owner name d) =
      (if (o2, n2) = (owner, name) then None else key_find o2 n2 d)"
    using nks.find_after_delete [OF c, of "(o2, n2)"] by (simp add: d' key_find_def tbl_one_def)
  show "nk_versions (nk_removed owner name d) q = nk_versions d q"
    if "key_find o2 n2 d = Some q" "(o2, n2) \<noteq> (owner, name)"
    using nks.kids_after_delete [OF assms [unfolded nk_ok_def] c, of q] that key_find_iff [OF assms, of o2 n2 q]
    by (simp add: d' nk_versions_def)
qed

lemma delete_owned_run:
  assumes "list_all scalar owner" "list_all scalar name"
  shows "delete_owned owner name w =
    (Inr (key_find owner name (db w) \<noteq> None), w\<lparr>db := nk_removed owner name (db w)\<rparr>)"
  using assms
  by (simp add: delete_owned_def connection_def op_simps op_run bind_texts_def nk_removed_def
      nk_delete_rows_def split: prod.split)

section \<open>Failures leave the tables\<close>

lemma nk_create_at_unencodable:
  "\<not> (list_all scalar owner \<and> list_all scalar name) \<Longrightarrow>
   nk_create_at owner name usage algorithm wrap stamp w = (Inl (Py UnicodeEncodeError), w)"
  by (auto simp: nk_create_at_def exclusive_connection_def op_simps op_run bind_texts_def is_integrity_error_def)

lemma nk_create_unencodable:
  "\<not> (list_all scalar owner \<and> list_all scalar name) \<Longrightarrow>
   nk_create owner name usage algorithm wrap w =
     (Inl (Py UnicodeEncodeError), w\<lparr>ticks := Suc (ticks w)\<rparr>)"
  by (simp add: nk_create_def op_simps op_run nk_create_at_unencodable)

lemma nk_rotate_at_Inl: "nk_rotate_at owner name wrap stamp w = (Inl e, w') \<Longrightarrow> db w' = db w"
  by (auto simp: nk_rotate_at_def dest: exclusive_Inl_db)

lemma nk_rotate_at_Inr_bound:
  assumes "nk_rotate_at owner name wrap stamp w = (Inr x, w')"
  shows "list_all scalar owner \<and> list_all scalar name
    \<and> (\<forall>r. key_find owner name (db w) = Some r \<longrightarrow> key_latest_version r + 1 < 2 ^ 63)"
  using assms
  by (auto simp: nk_rotate_at_def bindM_Inr_iff exclusive_Inr_iff op_simps bind_texts_def bind_int_def
      insert_version_def Let_def split: if_splits option.splits)

lemma nk_rotate_Inl: "nk_rotate owner name wrap w = (Inl e, w') \<Longrightarrow> db w' = db w"
  by (auto simp: nk_rotate_def bindM_Inl_iff op_simps get_owned_run
      dest: nk_rotate_at_Inl nk_rotate_at_Inr_bound split: if_splits)

lemma nk_rotate_Inr_bound:
  "nk_rotate owner name wrap w = (Inr x, w') \<Longrightarrow>
   list_all scalar owner \<and> list_all scalar name
    \<and> (\<forall>r. key_find owner name (db w) = Some r \<longrightarrow> key_latest_version r + 1 < 2 ^ 63)"
  by (auto simp: nk_rotate_def bindM_Inr_iff op_simps dest: nk_rotate_at_Inr_bound)

text \<open>Every outcome of the two transactions keeps the tables consistent, whatever time the
  caller read.\<close>

lemma preserves_nk_create_at:
  assumes frame: "\<And>u r u'. wrap 1 u = (r, u') \<Longrightarrow> db u' = db u"
  shows "preserves (\<lambda>w. nk_ok (db w)) (nk_create_at owner name usage algorithm wrap stamp)"
proof (rule preservesI)
  fix w :: world assume ok: "nk_ok (db w)"
  show "nk_ok (db (snd (nk_create_at owner name usage algorithm wrap stamp w)))"
  proof (cases "list_all scalar owner \<and> list_all scalar name")
    case True
    with nk_create_at_run [OF ok _ _ frame] nk_created_ok(1) [OF ok _ refl] ok show ?thesis
      by (auto simp: Let_def split: prod.split sum.split)
  next
    case False
    with ok show ?thesis by (simp add: nk_create_at_unencodable)
  qed
qed

lemma preserves_nk_rotate_at:
  assumes frame: "\<And>n u r u'. wrap n u = (r, u') \<Longrightarrow> db u' = db u"
  shows "preserves (\<lambda>w. nk_ok (db w)) (nk_rotate_at owner name wrap stamp)"
proof (rule preservesI)
  fix w :: world assume ok: "nk_ok (db w)"
  obtain x w' where e: "nk_rotate_at owner name wrap stamp w = (x, w')" by (rule prod.exhaust)
  have "nk_ok (db w')"
  proof (cases x)
    case (Inl err)
    with e ok show ?thesis by (auto dest: nk_rotate_at_Inl)
  next
    case (Inr y)
    with e have b: "list_all scalar owner" "list_all scalar name"
      "\<And>r. key_find owner name (db w) = Some r \<Longrightarrow> key_latest_version r + 1 < 2 ^ 63"
      using nk_rotate_at_Inr_bound by blast+
    from nk_rotate_at_run [OF ok b frame] e ok nk_rotated_ok(1) [OF ok _ refl] show ?thesis
      by (auto simp: Let_def split: option.splits prod.splits sum.splits)
  qed
  with e show "nk_ok (db (snd (nk_rotate_at owner name wrap stamp w)))" by simp
qed

lemma preserves_get_owned [preserves_rules]: "preserves P (get_owned owner name)"
  by (rule preserves_pure) (rule get_owned_world)

lemma preserves_nk_create:
  assumes "\<And>u r u'. wrap 1 u = (r, u') \<Longrightarrow> db u' = db u"
  shows "preserves (\<lambda>w. nk_ok (db w)) (nk_create owner name usage algorithm wrap)"
  unfolding nk_create_def
  by (intro preserves_rules preserves_nk_create_at clocklessI) (rule assms)

lemma preserves_nk_rotate:
  assumes "\<And>n u r u'. wrap n u = (r, u') \<Longrightarrow> db u' = db u"
  shows "preserves (\<lambda>w. nk_ok (db w)) (nk_rotate owner name wrap)"
  unfolding nk_rotate_def
  by (intro preserves_rules preserves_nk_rotate_at clocklessI) (rule assms)

lemma preserves_delete_owned: "preserves (\<lambda>w. nk_ok (db w)) (delete_owned owner name)"
proof (rule preservesI)
  fix w :: world assume ok: "nk_ok (db w)"
  show "nk_ok (db (snd (delete_owned owner name w)))"
  proof (cases "list_all scalar owner \<and> list_all scalar name")
    case True
    with nk_removed_ok(1) [OF ok] show ?thesis by (simp add: delete_owned_run)
  next
    case False
    then have "\<exists>e. bind_texts [owner, name] = Inl e" by (auto simp: bind_texts_def)
    with ok show ?thesis by (auto simp: delete_owned_def connection_def op_simps op_run)
  qed
qed

end
