(* ===== verification/Ciphertext.thy ===== *)
theory Ciphertext
  imports Crypto
begin

text \<open>
  \<open>src/transit/ciphertext.py\<close>: the self-describing framing of Transit ciphertexts,
  \<open>vault:<key>:<base64>\<close> for version 1 and \<open>vault:v<N>:<key>:<base64>\<close> for the others.
\<close>

definition CIPHERTEXT_PREFIX :: pystr where "CIPHERTEXT_PREFIX = lit ''vault''"
definition DEFAULT_KEY_VERSION :: int where "DEFAULT_KEY_VERSION = 1"

text \<open>\<open>[A-Za-z0-9._-]{1,64}\<close>\<close>

definition key_char :: "codepoint \<Rightarrow> bool" where
  "key_char c \<longleftrightarrow> (65 \<le> c \<and> c \<le> 90) \<or> (97 \<le> c \<and> c \<le> 122) \<or> is_digit c \<or> c = 46 \<or> c = 95 \<or> c = 45"

definition key_name_ok :: "pystr \<Rightarrow> bool" where
  "key_name_ok s \<longleftrightarrow> 1 \<le> length s \<and> length s \<le> 64 \<and> list_all key_char s"

text \<open>\<open>v([1-9][0-9]{0,8})\<close> and the integer of its group.\<close>

definition version_match :: "pystr \<Rightarrow> int option" where
  "version_match s =
     (case s of
        v # d # ds \<Rightarrow>
          if v = 118 \<and> is_digit d \<and> d \<noteq> 48 \<and> list_all is_digit ds \<and> length ds \<le> 8
          then Some (int (digits_val (d # ds))) else None
      | _ \<Rightarrow> None)"

record transit_ciphertext =
  tc_key_name :: pystr
  tc_key_version :: int
  tc_blob :: encrypted_blob

definition format_ciphertext :: "pystr \<Rightarrow> int \<Rightarrow> encrypted_blob \<Rightarrow> pystr res" where
  "format_ciphertext name key_version blob =
     (if \<not> key_name_ok name then Inl (Py ValueError)
      else if key_version < 1 then Inl (Py ValueError)
      else let payload = encode_b64 (blob_nonce blob @ blob_ciphertext blob @ blob_tag blob)
           in if key_version = DEFAULT_KEY_VERSION
              then Inr (CIPHERTEXT_PREFIX @ lit '':'' @ name @ lit '':'' @ payload)
              else Inr (CIPHERTEXT_PREFIX @ lit '':v'' @ dec_int key_version @ lit '':'' @ name
                        @ lit '':'' @ payload))"

text \<open>The framing: pre, version, name and payload text.\<close>

definition split_token :: "pystr \<Rightarrow> (pystr \<times> int \<times> pystr \<times> pystr) res" where
  "split_token token =
     (case py_split 58 3 token of
        [pre, name, payload_b64] \<Rightarrow> Inr (pre, DEFAULT_KEY_VERSION, name, payload_b64)
      | [pre, version_segment, name, payload_b64] \<Rightarrow>
          (case version_match version_segment of
             None \<Rightarrow> Inl (Transit MalformedCiphertextError)
           | Some key_version \<Rightarrow> Inr (pre, key_version, name, payload_b64))
      | _ \<Rightarrow> Inl (Transit MalformedCiphertextError))"

definition parse_ciphertext :: "pyobj \<Rightarrow> transit_ciphertext res" where
  "parse_ciphertext token =
     (case token of
        PyStr s \<Rightarrow>
          bindR (split_token s) (\<lambda>(pre, key_version, name, payload_b64).
          if pre \<noteq> CIPHERTEXT_PREFIX \<or> \<not> key_name_ok name
          then Inl (Transit MalformedCiphertextError)
          else bindR (catchR (decode_b64 (PyStr payload_b64)) value_errors
                        (Transit MalformedCiphertextError)) (\<lambda>payload.
            if length payload < GCM_NONCE_LENGTH + GCM_TAG_LENGTH
            then Inl (Transit MalformedCiphertextError)
            else Inr \<lparr>tc_key_name = name, tc_key_version = key_version,
                      tc_blob = \<lparr>blob_nonce = take GCM_NONCE_LENGTH payload,
                                 blob_ciphertext = drop GCM_NONCE_LENGTH
                                   (take (length payload - GCM_TAG_LENGTH) payload),
                                 blob_tag = drop (length payload - GCM_TAG_LENGTH) payload\<rparr>\<rparr>))
      | _ \<Rightarrow> Inl (Transit MalformedCiphertextError))"

section \<open>Lemmas\<close>

lemma key_name_chars:
  assumes "key_name_ok s"
  shows "58 \<notin> set s" "47 \<notin> set s" "list_all scalar s" "s \<noteq> []"
  using assms by (auto simp: key_name_ok_def list_all_iff key_char_def is_digit_def scalar_def)

lemma version_match_dec:
  assumes "1 \<le> v" "v \<le> 999999999"
  shows "version_match (118 # dec_int v) = Some v"
proof -
  let ?n = "nat v"
  have d: "dec_int v = dec_nat ?n" using assms(1) by (simp add: dec_int_def)
  obtain c cs where c: "dec_nat ?n = c # cs" by (cases "dec_nat ?n") auto
  have "length (dec_nat ?n) \<le> 9" using assms by (intro length_dec_nat) auto
  then have "length cs \<le> 8" by (simp add: c)
  moreover have "is_digit c" "list_all is_digit cs"
    using dec_nat_digits [of _ ?n] by (auto simp: c list_all_iff)
  moreover have "c \<noteq> 48" using hd_dec_nat [of ?n] assms(1) c by auto
  moreover have "digits_val (c # cs) = ?n" using digits_val_dec_nat [of ?n] by (simp add: c)
  ultimately show ?thesis using assms(1) by (simp add: version_match_def d c)
qed

lemma split_token_format:
  assumes "key_name_ok name" "1 \<le> v" "v \<le> 999999999" "format_ciphertext name v blob = Inr s"
  shows "split_token s = Inr (CIPHERTEXT_PREFIX, v, name,
    encode_b64 (blob_nonce blob @ blob_ciphertext blob @ blob_tag blob))"
proof -
  note n = key_name_chars(1) [OF assms(1)]
  have p: "58 \<notin> set CIPHERTEXT_PREFIX" by (simp add: CIPHERTEXT_PREFIX_def text_simps)
  have d: "58 \<notin> set (118 # dec_int v)"
    using dec_int_nonneg_digits [of v 58] assms(2) by (auto simp: is_digit_def)
  note b = encode_b64_no_colon
  show ?thesis
  proof (cases "v = 1")
    case True
    with assms have "s = CIPHERTEXT_PREFIX @ 58 # name @ 58 #
        encode_b64 (blob_nonce blob @ blob_ciphertext blob @ blob_tag blob)"
      by (simp add: format_ciphertext_def DEFAULT_KEY_VERSION_def text_simps)
    with True show ?thesis
      by (simp add: split_token_def numeral_3_eq_3 py_split_append [OF p] py_split_append [OF n]
          py_split_nosep [OF b] DEFAULT_KEY_VERSION_def)
  next
    case False
    with assms have "s = CIPHERTEXT_PREFIX @ 58 # (118 # dec_int v) @ 58 # name @ 58 #
        encode_b64 (blob_nonce blob @ blob_ciphertext blob @ blob_tag blob)"
      by (simp add: format_ciphertext_def DEFAULT_KEY_VERSION_def text_simps split: if_splits)
    with version_match_dec [OF assms(2,3)] show ?thesis
      using py_split_append [OF d, of 1 "name @ 58 # encode_b64 (blob_nonce blob @ blob_ciphertext blob @ blob_tag blob)"]
      by (simp add: split_token_def numeral_3_eq_3 py_split_append [OF p] py_split_append [OF n]
          py_split_nosep [OF b])
  qed
qed

lemma parse_format:
  assumes "key_name_ok name" "1 \<le> v" "v \<le> 999999999" "format_ciphertext name v blob = Inr s"
    and "length (blob_nonce blob) = 12" "length (blob_tag blob) = 16"
  shows "parse_ciphertext (PyStr s) = Inr \<lparr>tc_key_name = name, tc_key_version = v, tc_blob = blob\<rparr>"
  using split_token_format [OF assms(1-4)] assms(1,5,6)
  by (simp add: parse_ciphertext_def codec_simps crypto_lengths)

text \<open>What is accepted names a valid key and a version of at most nine digits.\<close>

lemma digits_val_pos:
  assumes "is_digit d" "d \<noteq> 48" shows "0 < digits_val (d # ds)"
proof -
  have "n \<le> foldl (\<lambda>n c. 10 * n + (c - 48)) n ds" for n :: nat
  proof (induction ds arbitrary: n)
    case (Cons c ds)
    have "n \<le> 10 * n + (c - 48)" by simp
    also have "\<dots> \<le> foldl (\<lambda>n c. 10 * n + (c - 48)) (10 * n + (c - 48)) ds" by (rule Cons.IH)
    finally show ?case by simp
  qed simp
  from this [of "d - 48"] assms have "0 < foldl (\<lambda>n c. 10 * n + (c - 48)) (d - 48) ds"
    by (cases "foldl (\<lambda>n c. 10 * n + (c - 48)) (d - 48) ds = 0") (auto simp: is_digit_def)
  then show ?thesis by (simp add: digits_val_def)
qed

lemma version_match_bounds: "version_match s = Some v \<Longrightarrow> 1 \<le> v \<and> v \<le> 999999999"
proof -
  assume m: "version_match s = Some v"
  then obtain d ds where s: "s = 118 # d # ds" "is_digit d" "d \<noteq> 48" "list_all is_digit ds"
    "length ds \<le> 8" "v = int (digits_val (d # ds))"
    by (auto simp: version_match_def split: list.splits if_splits)
  have "digits_val (d # ds) < 10 ^ length (d # ds)" using s(2,4) by (intro digits_val_less) simp
  also have "\<dots> \<le> 10 ^ 9" using s(5) by (intro power_increasing) auto
  finally have "digits_val (d # ds) \<le> 999999999" by simp
  moreover have "0 < digits_val (d # ds)" using s(2,3) by (rule digits_val_pos)
  ultimately show ?thesis using s(6) by simp
qed

lemma split_token_version:
  "split_token s = Inr (pre, v, name, payload) \<Longrightarrow> 1 \<le> v \<and> v \<le> 999999999"
  by (auto simp: split_token_def DEFAULT_KEY_VERSION_def dest: version_match_bounds
      split: list.splits option.splits)

lemma parse_ciphertext_Inr:
  assumes "parse_ciphertext (PyStr s) = Inr parsed"
  shows "key_name_ok (tc_key_name parsed)" "1 \<le> tc_key_version parsed" "tc_key_version parsed \<le> 999999999"
  using assms
  by (auto simp: parse_ciphertext_def bindR_Inr_iff dest!: split_token_version split: if_splits)

text \<open>Every failure is reported as a malformed ciphertext.\<close>

lemma parse_ciphertext_Inl: "parse_ciphertext v = Inl e \<Longrightarrow> e = Transit MalformedCiphertextError"
  using decode_b64_error
  by (auto simp: parse_ciphertext_def bindR_Inl_iff split_token_def
      split: pyobj.splits if_splits list.splits option.splits elim!: catchR.elims)

end
