(* ===== verification/Transit.thy ===== *)
theory Transit
  imports KeyStore Ciphertext Vault AuditLog
begin

text \<open>
  \<open>src/transit/service.py\<close>: encryption and signing with named, versioned keys. Key material
  is generated here, stored wrapped under the DEK, and unwrapped for one operation.
\<close>

section \<open>Helpers of the service\<close>

definition ED25519 :: pystr where "ED25519 = lit ''ED25519''"
definition RAW :: pystr where "RAW = lit ''RAW''"
definition DIGEST :: pystr where "DIGEST = lit ''DIGEST''"
definition SHA256_DIGEST_LENGTH :: nat where "SHA256_DIGEST_LENGTH = 32"
definition AES_KEY_LENGTH :: nat where "AES_KEY_LENGTH = 32"

fun usage_text :: "key_usage \<Rightarrow> pystr" where
  "usage_text ENCRYPT_DECRYPT = lit ''ENCRYPT_DECRYPT''"
| "usage_text SIGN_VERIFY = lit ''SIGN_VERIFY''"

definition validate_key_name :: "pyobj \<Rightarrow> unit res" where
  "validate_key_name name =
     (case name of
        PyStr s \<Rightarrow> if key_name_ok s then Inr () else Inl (Transit InvalidKeyNameError)
      | _ \<Rightarrow> Inl (Transit InvalidKeyNameError))"

definition key_aad :: "pystr \<Rightarrow> pystr \<Rightarrow> key_usage \<Rightarrow> pystr option \<Rightarrow> int \<Rightarrow> bytes res" where
  "key_aad owner name usage algorithm version =
     utf8_encode (lit ''transit-key:'' @ owner @ lit '':'' @ name @ lit '':'' @ usage_text usage
       @ lit '':'' @ (case algorithm of None \<Rightarrow> lit ''-'' | Some a \<Rightarrow> if a = [] then lit ''-'' else a)
       @ lit '':v'' @ dec_int version)"

definition data_aad :: "pystr \<Rightarrow> pystr \<Rightarrow> int \<Rightarrow> bytes res" where
  "data_aad owner name version =
     utf8_encode (lit ''transit-data:'' @ owner @ lit '':'' @ name @ lit '':v'' @ dec_int version)"

definition owned_key :: "ext \<Rightarrow> pystr \<Rightarrow> pystr \<Rightarrow> named_key_row action" where
  "owned_key E owner name =
     bindM (liftR (validate_key_name (PyStr name))) (\<lambda>_.
     bindM (get_owned owner name) (\<lambda>row.
     case row of
       None \<Rightarrow> bindM (log_denied_access E owner (lit ''named_key'') name) (\<lambda>_.
               throw (Transit KeyUnavailableError))
     | Some r \<Rightarrow> ret r))"

definition key_version :: "named_key_row \<Rightarrow> int \<Rightarrow> key_version_row action" where
  "key_version key_row version =
     bindM (get_key_version (key_id key_row) version) (\<lambda>row.
     case row of None \<Rightarrow> throw (Transit KeyVersionUnavailableError) | Some v \<Rightarrow> ret v)"

text \<open>The body of \<open>_unwrap\<close> once the DEK is there.\<close>

definition unwrap_material :: "ext \<Rightarrow> bytes \<Rightarrow> named_key_row \<Rightarrow> key_version_row \<Rightarrow> bytes res" where
  "unwrap_material E dek key_row version_row =
     bindR (decode_b64 (PyStr (kyv_nonce_b64 version_row))) (\<lambda>nonce.
     bindR (decode_b64 (PyStr (kyv_material_b64 version_row))) (\<lambda>ciphertext.
     bindR (decode_b64 (PyStr (kyv_tag_b64 version_row))) (\<lambda>tag.
     bindR (key_aad (key_owner_email key_row) (key_name key_row) (key_usage key_row)
              (key_signing_algorithm key_row) (kyv_version version_row)) (\<lambda>aad.
     decrypt_aes_gcm E dek
       \<lparr>blob_nonce = nonce, blob_ciphertext = ciphertext, blob_tag = tag\<rparr> aad))))"

definition unwrap_key :: "ext \<Rightarrow> named_key_row \<Rightarrow> key_version_row \<Rightarrow> bytes action" where
  "unwrap_key E key_row version_row =
     catchM (bindM get_dek (\<lambda>dek. liftR (unwrap_material E dek key_row version_row)))
       tag_or_value_errors (Transit TransitTamperedError)"

definition wrap_aes :: "ext \<Rightarrow> pystr \<Rightarrow> pystr \<Rightarrow> wrap_for_version" where
  "wrap_aes E owner name version =
     bindM (token_bytes 32) (\<lambda>material.
     bindM get_dek (\<lambda>dek.
     bindM (liftR (key_aad owner name ENCRYPT_DECRYPT None version)) (\<lambda>aad.
     bindM (encrypt_aes_gcm E dek material aad) (\<lambda>blob.
     ret (encode_b64 (blob_nonce blob), encode_b64 (blob_ciphertext blob), encode_b64 (blob_tag blob),
          None)))))"

definition wrap_ed25519 :: "ext \<Rightarrow> pystr \<Rightarrow> pystr \<Rightarrow> wrap_for_version" where
  "wrap_ed25519 E owner name version =
     bindM (token_bytes 32) (\<lambda>private.
     bindM get_dek (\<lambda>dek.
     bindM (liftR (key_aad owner name SIGN_VERIFY (Some ED25519) version)) (\<lambda>aad.
     bindM (encrypt_aes_gcm E dek private aad) (\<lambda>blob.
     ret (encode_b64 (blob_nonce blob), encode_b64 (blob_ciphertext blob), encode_b64 (blob_tag blob),
          Some (encode_b64 (ed25519_public E private)))))))"

section \<open>Key lifecycle\<close>

record key_metadata =
  md_key_name :: pystr
  md_key_usage :: key_usage
  md_signing_algorithm :: "pystr option"
  md_latest_version :: int
  md_versions :: "int list"
  md_created_at :: pystr
  md_updated_at :: pystr

definition metadata :: "named_key_row \<Rightarrow> key_metadata action" where
  "metadata row =
     bindM (list_key_versions (key_id row)) (\<lambda>items.
     ret \<lparr>md_key_name = key_name row, md_key_usage = key_usage row,
          md_signing_algorithm = key_signing_algorithm row,
          md_latest_version = key_latest_version row, md_versions = map fst items,
          md_created_at = key_created_at row, md_updated_at = key_updated_at row\<rparr>)"

definition create_key :: "ext \<Rightarrow> pystr \<Rightarrow> pystr \<Rightarrow> key_metadata action" where
  "create_key E owner name =
     bindM (liftR (validate_key_name (PyStr name))) (\<lambda>_.
     bindM require_unlocked (\<lambda>_.
     bindM (nk_create owner name ENCRYPT_DECRYPT None (wrap_aes E owner name)) metadata))"

definition create_signing_key :: "ext \<Rightarrow> pystr \<Rightarrow> pystr \<Rightarrow> pystr \<Rightarrow> key_metadata action" where
  "create_signing_key E owner name signing_algorithm =
     bindM (liftR (validate_key_name (PyStr name))) (\<lambda>_.
     bindM (raise_if (py_upper (unicode E) signing_algorithm \<noteq> ED25519)
              (Transit InvalidSigningAlgorithmError)) (\<lambda>_.
     bindM require_unlocked (\<lambda>_.
     bindM (nk_create owner name SIGN_VERIFY (Some ED25519) (wrap_ed25519 E owner name)) metadata)))"

definition rotate_key :: "ext \<Rightarrow> pystr \<Rightarrow> pystr \<Rightarrow> key_metadata action" where
  "rotate_key E owner name =
     bindM (owned_key E owner name) (\<lambda>key_row.
     bindM require_unlocked (\<lambda>_.
     let wrap = (if key_usage key_row = ENCRYPT_DECRYPT then wrap_aes E owner name
                 else wrap_ed25519 E owner name)
     in bindM (nk_rotate owner name wrap) (\<lambda>rotated.
        case rotated of None \<Rightarrow> throw (Transit KeyUnavailableError) | Some r \<Rightarrow> metadata r)))"

definition list_keys :: "pystr \<Rightarrow> key_metadata list action" where
  "list_keys owner =
     bindM require_unlocked (\<lambda>_. bindM (list_owned owner) (mapM metadata))"

definition delete_key :: "ext \<Rightarrow> pystr \<Rightarrow> pystr \<Rightarrow> (pystr \<times> bool) action" where
  "delete_key E owner name =
     bindM (owned_key E owner name) (\<lambda>_.
     bindM require_unlocked (\<lambda>_.
     bindM (delete_owned owner name) (\<lambda>deleted.
     if \<not> deleted then throw (Transit KeyUnavailableError) else ret (name, True))))"

section \<open>Encrypt and decrypt\<close>

record encrypt_result =
  enc_key_name :: pystr
  enc_key_version :: int
  enc_ciphertext :: pystr

record decrypt_result =
  dec_key_name :: pystr
  dec_key_version :: int
  dec_plaintext_b64 :: pystr

definition decode_payload :: "pystr \<Rightarrow> bytes res" where
  "decode_payload v =
     catchR (decode_b64 (PyStr v)) value_errors (Transit InvalidBase64PayloadError)"

definition transit_encrypt :: "ext \<Rightarrow> pystr \<Rightarrow> pystr \<Rightarrow> pystr \<Rightarrow> encrypt_result action" where
  "transit_encrypt E owner name plaintext_b64 =
     bindM (owned_key E owner name) (\<lambda>key_row.
     bindM (raise_if (key_usage key_row \<noteq> ENCRYPT_DECRYPT) (Transit InvalidKeyUsageError)) (\<lambda>_.
     bindM require_unlocked (\<lambda>_.
     bindM (liftR (decode_payload plaintext_b64)) (\<lambda>plaintext.
     let version = key_latest_version key_row
     in bindM (key_version key_row version) (\<lambda>version_row.
        bindM (unwrap_key E key_row version_row) (\<lambda>material.
        bindM (raise_if (length material \<noteq> AES_KEY_LENGTH) (Transit TransitTamperedError)) (\<lambda>_.
        bindM (liftR (data_aad owner name version)) (\<lambda>aad.
        bindM (encrypt_aes_gcm E material plaintext aad) (\<lambda>blob.
        bindM (liftR (format_ciphertext name version blob)) (\<lambda>ciphertext.
        ret \<lparr>enc_key_name = name, enc_key_version = version, enc_ciphertext = ciphertext\<rparr>))))))))))"

definition transit_decrypt :: "ext \<Rightarrow> pystr \<Rightarrow> pystr \<Rightarrow> decrypt_result action" where
  "transit_decrypt E owner ciphertext =
     bindM (liftR (parse_ciphertext (PyStr ciphertext))) (\<lambda>parsed.
     bindM (owned_key E owner (tc_key_name parsed)) (\<lambda>key_row.
     bindM (raise_if (key_usage key_row \<noteq> ENCRYPT_DECRYPT) (Transit InvalidKeyUsageError)) (\<lambda>_.
     bindM require_unlocked (\<lambda>_.
     bindM (key_version key_row (tc_key_version parsed)) (\<lambda>version_row.
     bindM (unwrap_key E key_row version_row) (\<lambda>material.
     bindM (liftR (catchR
         (bindR (data_aad owner (tc_key_name parsed) (tc_key_version parsed))
            (decrypt_aes_gcm E material (tc_blob parsed)))
         tag_or_value_errors (Transit TransitTamperedError))) (\<lambda>plaintext.
     ret \<lparr>dec_key_name = tc_key_name parsed, dec_key_version = tc_key_version parsed,
          dec_plaintext_b64 = encode_b64 plaintext\<rparr>)))))))"

section \<open>Sign and verify\<close>

record sign_result =
  sig_key_name :: pystr
  sig_key_version :: int
  sig_algorithm :: "pystr option"
  sig_signature_b64 :: pystr

record verify_result =
  ver_key_name :: pystr
  ver_key_version :: "int option"
  ver_algorithm :: "pystr option"
  ver_signature_valid :: bool

definition message_digest :: "ext \<Rightarrow> pystr \<Rightarrow> pystr \<Rightarrow> bytes res" where
  "message_digest E message_b64 message_type =
     bindR (decode_payload message_b64) (\<lambda>message.
     let normalized = py_upper (unicode E) message_type
     in if normalized = RAW then Inr (sha256_digest E message)
        else if normalized = DIGEST
          then if length message \<noteq> SHA256_DIGEST_LENGTH then Inl (Transit InvalidDigestLengthError)
               else Inr message
        else Inl (Transit InvalidMessageTypeError))"

definition validate_algorithm :: "ext \<Rightarrow> named_key_row \<Rightarrow> pystr \<Rightarrow> unit res" where
  "validate_algorithm E row signing_algorithm =
     (if Some (py_upper (unicode E) signing_algorithm) \<noteq> key_signing_algorithm row
      then Inl (Transit InvalidSigningAlgorithmError) else Inr ())"

definition transit_sign ::
  "ext \<Rightarrow> pystr \<Rightarrow> pystr \<Rightarrow> pystr \<Rightarrow> pystr \<Rightarrow> pystr \<Rightarrow> sign_result action"
where
  "transit_sign E owner name message_b64 message_type signing_algorithm =
     bindM (owned_key E owner name) (\<lambda>key_row.
     bindM (raise_if (key_usage key_row \<noteq> SIGN_VERIFY) (Transit InvalidKeyUsageError)) (\<lambda>_.
     bindM (liftR (validate_algorithm E key_row signing_algorithm)) (\<lambda>_.
     bindM require_unlocked (\<lambda>_.
     bindM (liftR (message_digest E message_b64 message_type)) (\<lambda>digest.
     let version = key_latest_version key_row
     in bindM (key_version key_row version) (\<lambda>version_row.
        bindM (unwrap_key E key_row version_row) (\<lambda>private_key.
        bindM (raise_if (length private_key \<noteq> 32) (Transit TransitTamperedError)) (\<lambda>_.
        ret \<lparr>sig_key_name = name, sig_key_version = version,
             sig_algorithm = key_signing_algorithm key_row,
             sig_signature_b64 = encode_b64 (ed25519_sign E private_key digest)\<rparr>))))))))"

text \<open>One turn of the loop of \<open>verify\<close>: whether this version accepts the signature.\<close>

definition version_accepts :: "ext \<Rightarrow> bytes \<Rightarrow> bytes \<Rightarrow> key_version_row \<Rightarrow> bool" where
  "version_accepts E signature digest version_row =
     (case kyv_public_key_b64 version_row of
        None \<Rightarrow> False
      | Some public_b64 \<Rightarrow>
          public_b64 \<noteq> [] \<and>
          (case decode_b64 (PyStr public_b64) of
             Inl _ \<Rightarrow> False
           | Inr public \<Rightarrow> length public = 32 \<and> ed25519_verify E public signature digest))"

text \<open>The candidate versions: the pinned one, or all of them, newest first.\<close>

definition verify_versions :: "named_key_row \<Rightarrow> int option \<Rightarrow> key_version_row list action" where
  "verify_versions key_row pinned =
     (case pinned of
        Some n \<Rightarrow> bindM (key_version key_row n) (\<lambda>v. ret [v])
      | None \<Rightarrow> bindM (list_key_versions (key_id key_row)) (\<lambda>items.
                mapM (\<lambda>(n, created). key_version key_row n) (rev items)))"

definition transit_verify ::
  "ext \<Rightarrow> pystr \<Rightarrow> pystr \<Rightarrow> pystr \<Rightarrow> pystr \<Rightarrow> pystr \<Rightarrow> pystr \<Rightarrow> int option \<Rightarrow> verify_result action"
where
  "transit_verify E owner name message_b64 message_type signature_b64 signing_algorithm pinned =
     bindM (owned_key E owner name) (\<lambda>key_row.
     bindM (raise_if (key_usage key_row \<noteq> SIGN_VERIFY) (Transit InvalidKeyUsageError)) (\<lambda>_.
     bindM (liftR (validate_algorithm E key_row signing_algorithm)) (\<lambda>_.
     bindM require_unlocked (\<lambda>_.
     bindM (liftR (message_digest E message_b64 message_type)) (\<lambda>digest.
     bindM (verify_versions key_row pinned) (\<lambda>candidates.
     let matched = (case decode_b64 (PyStr signature_b64) of
                      Inl _ \<Rightarrow> None
                    | Inr signature \<Rightarrow> find (version_accepts E signature digest) candidates)
     in ret \<lparr>ver_key_name = name, ver_key_version = map_option kyv_version matched,
             ver_algorithm = key_signing_algorithm key_row,
             ver_signature_valid = (matched \<noteq> None)\<rparr>))))))"

section \<open>Resolving keys\<close>

lemma bindM_InrE:
  assumes "bindM m f w = (Inr y, w'')"
  obtains x w' where "m w = (Inr x, w')" "f x w' = (Inr y, w'')"
  using assms by (auto simp: bindM_Inr_iff)

lemma key_name_scalar: "key_name_ok name \<Longrightarrow> list_all scalar name"
  by (rule key_name_chars)

lemma validate_key_name_Inr [simp]: "validate_key_name (PyStr s) = Inr u \<longleftrightarrow> key_name_ok s"
  by (simp add: validate_key_name_def)

lemma validate_key_name_bad: "\<not> key_name_ok s \<Longrightarrow> validate_key_name (PyStr s) = Inl (Transit InvalidKeyNameError)"
  by (simp add: validate_key_name_def)

lemma owned_key_found:
  assumes "key_name_ok name" "list_all scalar owner" "key_find owner name (db w) = Some r"
  shows "owned_key E owner name w = (Inr r, w)"
  using assms key_name_scalar [OF assms(1)]
  by (simp add: owned_key_def op_simps op_run validate_key_name_def get_owned_run)

lemma owned_key_missing:
  assumes "key_name_ok name" "list_all scalar owner" "key_find owner name (db w) = None"
  shows "owned_key E owner name w =
    bindM (log_denied_access E owner (lit ''named_key'') name) (\<lambda>_. throw (Transit KeyUnavailableError)) w"
  using assms key_name_scalar [OF assms(1)]
  by (simp add: owned_key_def op_simps op_run validate_key_name_def get_owned_run)

lemma owned_key_Inr:
  "owned_key E owner name w = (Inr r, w') \<longleftrightarrow>
     key_name_ok name \<and> list_all scalar owner \<and> key_find owner name (db w) = Some r \<and> w' = w"
proof
  assume o: "owned_key E owner name w = (Inr r, w')"
  then have n: "key_name_ok name" by (auto simp: owned_key_def bindM_Inr_iff op_simps)
  from o have "list_all scalar owner"
    by (auto simp: owned_key_def bindM_Inr_iff op_simps get_owned_def connection_Inr_iff bind_texts_def
        split: if_splits)
  with n o show "key_name_ok name \<and> list_all scalar owner \<and> key_find owner name (db w) = Some r \<and> w' = w"
    by (cases "key_find owner name (db w)")
       (auto simp: owned_key_found owned_key_missing bindM_Inr_iff op_simps)
qed (simp add: owned_key_found)

lemma key_version_run:
  assumes "nk_ok (db w)" "key_find owner name (db w) = Some r" "- (2 ^ 63) \<le> n" "n < 2 ^ 63"
    and "key_id r' = key_id r"
  shows "key_version r' n w =
    (if 1 \<le> n \<and> n \<le> int (length (nk_versions (db w) r)) then Inr (nk_versions (db w) r ! nat (n - 1))
     else Inl (Transit KeyVersionUnavailableError), w)"
  by (simp add: key_version_def op_run get_key_version_run [OF assms(1-4)] assms(5) Let_def op_simps)

lemma key_version_Inr:
  assumes "key_version r n w = (Inr v, w')"
  shows "v \<in> set (rows (named_key_versions (db w))) \<and> kyv_key_id v = key_id r \<and> kyv_version v = n \<and> w' = w"
  using assms
  by (auto simp: key_version_def bindM_Inr_iff op_simps get_key_version_def connection_Inr_iff tbl_one_def
      dest!: find_SomeD split: option.splits)

lemma key_version_world: "key_version r n w = (x, w') \<Longrightarrow> w' = w"
  by (auto simp: key_version_def bindM_def op_simps dest: get_key_version_world
      split: prod.splits sum.splits option.splits)

lemma unwrap_key_run:
  "unwrap_key E r v w =
    (case vs_dek (vstate w) of
       None \<Rightarrow> (Inl (Vault VaultLockedError), w)
     | Some dek \<Rightarrow> (catchR (unwrap_material E dek r v) tag_or_value_errors (Transit TransitTamperedError), w))"
  by (simp add: unwrap_key_def op_simps op_run split: option.split sum.split)

text \<open>What the wrapped material is bound to.\<close>

definition key_ident :: "named_key_row \<Rightarrow> pystr \<times> pystr \<times> key_usage \<times> pystr option" where
  "key_ident r = (key_owner_email r, key_name r, key_usage r, key_signing_algorithm r)"

lemma unwrap_material_cong: "key_ident r = key_ident r' \<Longrightarrow> unwrap_material E dek r v = unwrap_material E dek r' v"
  by (simp add: unwrap_material_def key_ident_def)

lemma key_ident_bump [simp]: "key_ident (nk_bump stamp n r) = key_ident r"
  by (simp add: key_ident_def)

lemma key_ident_new [simp]: "key_ident (new_key owner name usage algorithm stamp i) = (owner, name, usage, algorithm)"
  by (simp add: key_ident_def new_key_def)

section \<open>Decryption as a function of the key\<close>

text \<open>The abstract answer: a function of the caller's key row and its versions.\<close>

definition decrypt_answer ::
  "ext \<Rightarrow> bytes \<Rightarrow> pystr \<Rightarrow> transit_ciphertext \<Rightarrow> named_key_row \<Rightarrow> key_version_row list \<Rightarrow> decrypt_result res"
where
  "decrypt_answer E dek owner parsed r vs =
     (let n = tc_key_version parsed in
      if key_usage r \<noteq> ENCRYPT_DECRYPT then Inl (Transit InvalidKeyUsageError)
      else if \<not> (1 \<le> n \<and> n \<le> int (length vs)) then Inl (Transit KeyVersionUnavailableError)
      else bindR (catchR (unwrap_material E dek r (vs ! nat (n - 1)))
                    tag_or_value_errors (Transit TransitTamperedError)) (\<lambda>material.
           bindR (catchR (bindR (data_aad owner (tc_key_name parsed) n)
                            (decrypt_aes_gcm E material (tc_blob parsed)))
                    tag_or_value_errors (Transit TransitTamperedError)) (\<lambda>plaintext.
           Inr \<lparr>dec_key_name = tc_key_name parsed, dec_key_version = n,
                dec_plaintext_b64 = encode_b64 plaintext\<rparr>)))"

lemma transit_decrypt_run:
  assumes "nk_ok (db w)" "list_all scalar owner" "vs_dek (vstate w) = Some dek"
    and "parse_ciphertext (PyStr c) = Inr parsed"
    and "key_find owner (tc_key_name parsed) (db w) = Some r"
  shows "transit_decrypt E owner c w = (decrypt_answer E dek owner parsed r (nk_versions (db w) r), w)"
proof -
  note p = parse_ciphertext_Inr [OF assms(4)]
  note o = owned_key_found [OF p(1) assms(2,5)]
  note k = key_version_run [OF assms(1,5), of "tc_key_version parsed" r]
  show ?thesis
    using p(2,3) assms(3,4)
    by (simp add: transit_decrypt_def op_simps op_run o k unwrap_key_run decrypt_answer_def Let_def
        split: sum.split)
qed

lemma transit_decrypt_Inr:
  assumes "nk_ok (db w)" "transit_decrypt E owner c w = (Inr res, w')"
  obtains parsed r dek where "parse_ciphertext (PyStr c) = Inr parsed" "list_all scalar owner"
    "key_find owner (tc_key_name parsed) (db w) = Some r" "vs_dek (vstate w) = Some dek"
    "decrypt_answer E dek owner parsed r (nk_versions (db w) r) = Inr res" "w' = w"
proof -
  have "\<exists>parsed r u. parse_ciphertext (PyStr c) = Inr parsed
      \<and> owned_key E owner (tc_key_name parsed) w = (Inr r, u) \<and> vs_dek (vstate u) \<noteq> None"
    using assms(2) unfolding transit_decrypt_def
    by (elim bindM_InrE) (auto simp: op_simps split: if_splits)
  then obtain parsed r dek where
    a: "parse_ciphertext (PyStr c) = Inr parsed" and
    o: "list_all scalar owner" "key_find owner (tc_key_name parsed) (db w) = Some r" and
    dek: "vs_dek (vstate w) = Some dek"
    by (auto simp: owned_key_Inr)
  have e: "decrypt_answer E dek owner parsed r (nk_versions (db w) r) = Inr res" "w' = w"
    using transit_decrypt_run [OF assms(1) o(1) dek a o(2), of E] assms(2) by simp_all
  show thesis by (rule that [OF a o dek e])
qed

section \<open>Wrapping key material\<close>

text \<open>The two wrappers as one function of the usage, and the algorithm of each usage.\<close>

definition wrap_for :: "ext \<Rightarrow> key_usage \<Rightarrow> pystr \<Rightarrow> pystr \<Rightarrow> wrap_for_version" where
  "wrap_for E usage owner name =
     (if usage = ENCRYPT_DECRYPT then wrap_aes E owner name else wrap_ed25519 E owner name)"

definition usage_algorithm :: "key_usage \<Rightarrow> pystr option" where
  "usage_algorithm usage = (if usage = ENCRYPT_DECRYPT then None else Some ED25519)"

definition key_sealed :: "ext \<Rightarrow> bytes \<Rightarrow> named_key_row \<Rightarrow> key_version_row \<Rightarrow> bool" where
  "key_sealed E dek r v \<longleftrightarrow>
     (\<exists>m. unwrap_material E dek r v = Inr m \<and> length m = 32
        \<and> kyv_public_key_b64 v =
            (if key_usage r = ENCRYPT_DECRYPT then None else Some (encode_b64 (ed25519_public E m))))"

lemma key_sealed_cong: "key_ident r = key_ident r' \<Longrightarrow> key_sealed E dek r v = key_sealed E dek r' v"
  using unwrap_material_cong [of r r'] by (simp add: key_sealed_def key_ident_def)

lemma token_bytes_world: "token_bytes n u = (r, u') \<Longrightarrow> \<exists>k. u' = u\<lparr>draws := k\<rparr>"
  by (auto simp: op_simps)

lemma wrap_steps:
  "wrap_for E usage owner name n u =
    (let m = map (entropy u) [draws u..<draws u + 32]; u1 = u\<lparr>draws := draws u + 32\<rparr> in
     case vs_dek (vstate u) of None \<Rightarrow> (Inl (Vault VaultLockedError), u1)
     | Some dek \<Rightarrow>
       (case key_aad owner name usage (usage_algorithm usage) n of Inl e \<Rightarrow> (Inl e, u1)
        | Inr aad \<Rightarrow>
          (case encrypt_aes_gcm E dek m aad u1 of (Inl e, u2) \<Rightarrow> (Inl e, u2)
           | (Inr b, u2) \<Rightarrow>
              (Inr (encode_b64 (blob_nonce b), encode_b64 (blob_ciphertext b), encode_b64 (blob_tag b),
                 if usage = ENCRYPT_DECRYPT then None else Some (encode_b64 (ed25519_public E m))), u2))))"
  by (cases usage)
     (simp_all add: wrap_for_def wrap_aes_def wrap_ed25519_def usage_algorithm_def op_simps op_run Let_def
        split: option.split sum.split prod.split)

lemma wrap_world: "wrap_for E usage owner name n u = (r, u') \<Longrightarrow> \<exists>k. u' = u\<lparr>draws := k\<rparr>"
  by (auto simp: wrap_steps Let_def dest!: encrypt_aes_gcm_world split: option.splits sum.splits prod.splits)

lemma wrap_frame: "wrap_for E usage owner name n u = (r, u') \<Longrightarrow> db u' = db u \<and> vstate u' = vstate u"
  by (auto dest: wrap_world)

lemma wrap_sealed:
  assumes "aead_ok E" "wrap_for E usage owner name n u = (Inr wrapped, u')" "vs_dek (vstate u) = Some dek"
    and "key_ident r = (owner, name, usage, usage_algorithm usage)"
  shows "key_sealed E dek r (new_key_version kid n wrapped stamp i)"
proof -
  let ?m = "map (entropy u) [draws u..<draws u + 32]"
  from assms(2,3) obtain aad b where
    a: "key_aad owner name usage (usage_algorithm usage) n = Inr aad"
    "encrypt_aes_gcm E dek ?m aad (u\<lparr>draws := draws u + 32\<rparr>) = (Inr b, u')"
    "wrapped = (encode_b64 (blob_nonce b), encode_b64 (blob_ciphertext b), encode_b64 (blob_tag b),
       if usage = ENCRYPT_DECRYPT then None else Some (encode_b64 (ed25519_public E ?m)))"
    by (auto simp: wrap_steps Let_def split: option.splits sum.splits prod.splits)
  have r: "key_owner_email r = owner" "key_name r = name" "key_usage r = usage"
    "key_signing_algorithm r = usage_algorithm usage"
    using assms(4) by (simp_all add: key_ident_def)
  have "unwrap_material E dek r (new_key_version kid n wrapped stamp i) = Inr ?m"
    using decrypt_encrypt [OF assms(1) a(2)] a(1)
    by (simp add: unwrap_material_def new_key_version_def a(3) codec_simps r)
  then show ?thesis
    by (simp add: key_sealed_def new_key_version_def a(3) r)
qed

lemma key_aad_ok:
  assumes "list_all scalar owner" "list_all scalar name"
  shows "\<exists>a. key_aad owner name usage (usage_algorithm usage) n = Inr a"
  using assms
  by (cases usage) (simp_all add: key_aad_def utf8_encode_ok scalar_dec_int scalar_lit usage_algorithm_def ED25519_def)

lemma data_aad_ok:
  "list_all scalar owner \<Longrightarrow> list_all scalar name \<Longrightarrow> \<exists>a. data_aad owner name n = Inr a"
  by (simp add: data_aad_def utf8_encode_ok scalar_dec_int scalar_lit)

lemma wrap_ok:
  assumes "vs_dek (vstate u) = Some dek" "length dek = 32" "list_all scalar owner" "list_all scalar name"
  shows "\<exists>wrapped u'. wrap_for E usage owner name n u = (Inr wrapped, u')"
proof -
  obtain a where "key_aad owner name usage (usage_algorithm usage) n = Inr a"
    using key_aad_ok [OF assms(3,4)] by blast
  with assms(1,2) show ?thesis
    by (simp add: wrap_steps Let_def encrypt_aes_gcm_run)
qed

section \<open>The keyring\<close>

text \<open>
  \<open>keyring_extends\<close>: what every operation but a deletion does to the stored keys. No key
  disappears or changes its identity, and no version of a key changes.
\<close>

definition keyring_extends :: "database \<Rightarrow> database \<Rightarrow> bool" where
  "keyring_extends d d' \<longleftrightarrow> nk_ok d' \<and>
     (\<forall>owner name r. key_find owner name d = Some r \<longrightarrow>
        (\<exists>r' vs. key_find owner name d' = Some r' \<and> key_id r' = key_id r \<and> key_ident r' = key_ident r
           \<and> nk_versions d' r' = nk_versions d r @ vs))"

lemma keyring_extends_refl:
  assumes "nk_ok d" "named_keys d' = named_keys d" "named_key_versions d' = named_key_versions d"
  shows "keyring_extends d d'"
  using assms(1) nk_cong [OF assms(2,3)] by (simp add: keyring_extends_def)

lemma keyring_extends_created:
  assumes "nk_ok d" "key_find owner name d = None"
  shows "keyring_extends d (nk_created owner name usage algorithm stamp wrapped d)"
  unfolding keyring_extends_def
proof (intro conjI allI impI)
  note c = nk_created_ok [OF assms refl]
  show "nk_ok (nk_created owner name usage algorithm stamp wrapped d)" by (rule c(1))
  fix o2 n2 r assume f: "key_find o2 n2 d = Some r"
  with assms(2) have "(o2, n2) \<noteq> (owner, name)" by auto
  with c(3) f c(4) [OF f] show "\<exists>r' vs. key_find o2 n2 (nk_created owner name usage algorithm stamp wrapped d) = Some r'
      \<and> key_id r' = key_id r \<and> key_ident r' = key_ident r
      \<and> nk_versions (nk_created owner name usage algorithm stamp wrapped d) r' = nk_versions d r @ vs"
    by auto
qed

lemma nk_versions_bump [simp]: "nk_versions d (nk_bump stamp n r) = nk_versions d r"
  by (simp add: nk_versions_def)

lemma keyring_extends_rotated:
  assumes "nk_ok d" "key_find owner name d = Some r"
  shows "keyring_extends d (nk_rotated (key_id r) (key_latest_version r + 1) stamp wrapped d)"
  unfolding keyring_extends_def
proof (intro conjI allI impI)
  note c = nk_rotated_ok [OF assms refl]
  let ?d = "nk_rotated (key_id r) (key_latest_version r + 1) stamp wrapped d"
  show "nk_ok ?d" by (rule c(1))
  fix o2 n2 q assume f: "key_find o2 n2 d = Some q"
  note v = c(4) [OF f, of stamp wrapped]
  show "\<exists>r' vs. key_find o2 n2 ?d = Some r' \<and> key_id r' = key_id q \<and> key_ident r' = key_ident q
      \<and> nk_versions ?d r' = nk_versions d q @ vs"
  proof (cases "(o2, n2) = (owner, name)")
    case True
    with f assms(2) have "q = r" by simp
    with True v c(3) [of o2 n2 stamp wrapped] show ?thesis by simp
  next
    case False
    with v f c(3) [of o2 n2 stamp wrapped] show ?thesis by auto
  qed
qed

text \<open>The two writers: they fail and change no row, or add one wrapped version.\<close>

lemma nk_create_cases:
  assumes "nk_ok (db w)"
    and "nk_create owner name usage (usage_algorithm usage) (wrap_for E usage owner name) w = (x, w')"
  shows "vstate w' = vstate w \<and>
    ((\<exists>e. x = Inl e \<and> db w' = db w) \<or>
     (\<exists>wrapped u u' stamp. key_find owner name (db w) = None
        \<and> wrap_for E usage owner name 1 u = (Inr wrapped, u') \<and> vstate u = vstate w
        \<and> x = Inr (new_key owner name usage (usage_algorithm usage) stamp (next_id (named_keys (db w))))
        \<and> db w' = nk_created owner name usage (usage_algorithm usage) stamp wrapped (db w)))"
proof (cases "list_all scalar owner \<and> list_all scalar name")
  case False
  with assms(2) show ?thesis by (auto simp: nk_create_unencodable)
next
  case True
  have fr: "db u' = db u" if "wrap_for E usage owner name 1 u = (r, u')" for u r u'
    using wrap_frame [OF that] by simp
  let ?stamp = "isoformat (clock w (ticks w))"
  let ?u = "w\<lparr>ticks := Suc (ticks w), db := nk_started owner name usage (usage_algorithm usage) ?stamp (db w)\<rparr>"
  obtain r u' where e: "wrap_for E usage owner name 1 ?u = (r, u')" by (rule prod.exhaust)
  note run = nk_create_run [OF assms(1) conjunct1 [OF True] conjunct2 [OF True] fr,
      where usage = usage and algorithm = "usage_algorithm usage", unfolded Let_def]
  show ?thesis
  proof (cases "key_find owner name (db w)")
    case (Some q)
    with run assms(2) show ?thesis by auto
  next
    case None
    show ?thesis
    proof (cases r)
      case (Inl err)
      with run assms(2) None e wrap_frame [OF e] show ?thesis by auto
    next
      case (Inr wrapped)
      have "x = Inr (new_key owner name usage (usage_algorithm usage) ?stamp (next_id (named_keys (db w))))"
        "db w' = nk_created owner name usage (usage_algorithm usage) ?stamp wrapped (db w)" "vstate w' = vstate w"
        using run assms(2) None e wrap_frame [OF e] Inr by auto
      moreover have "wrap_for E usage owner name 1 ?u = (Inr wrapped, u')" "vstate ?u = vstate w"
        using e Inr by simp_all
      ultimately show ?thesis using None by blast
    qed
  qed
qed

lemma nk_rotate_cases:
  assumes "nk_ok (db w)" "nk_rotate owner name (wrap_for E usage owner name) w = (x, w')"
  shows "(\<exists>e. x = Inl e) \<and> db w' = db w \<or> vstate w' = vstate w \<and>
     (x = Inr None \<and> key_find owner name (db w) = None \<and> db w' = db w \<or>
      (\<exists>wrapped u u' r stamp. key_find owner name (db w) = Some r
        \<and> wrap_for E usage owner name (key_latest_version r + 1) u = (Inr wrapped, u')
        \<and> vstate u = vstate w
        \<and> x = Inr (Some (nk_bump stamp (key_latest_version r + 1) r))
        \<and> db w' = nk_rotated (key_id r) (key_latest_version r + 1) stamp wrapped (db w)))"
proof (cases x)
  case (Inl e)
  with assms(2) show ?thesis by (auto dest: nk_rotate_Inl)
next
  case (Inr y)
  have b: "list_all scalar owner" "list_all scalar name"
    "\<And>r. key_find owner name (db w) = Some r \<Longrightarrow> key_latest_version r + 1 < 2 ^ 63"
    using nk_rotate_Inr_bound [OF assms(2) [unfolded Inr]] by blast+
  have fr: "db u' = db u" if "wrap_for E usage owner name n u = (r, u')" for n u r u'
    using wrap_frame [OF that] by simp
  note run = nk_rotate_run [OF assms(1) b fr, unfolded Let_def]
  show ?thesis
  proof (cases "key_find owner name (db w)")
    case None
    with run assms(2) show ?thesis by auto
  next
    case (Some r)
    let ?u = "w\<lparr>ticks := Suc (ticks w)\<rparr>" and ?stamp = "isoformat (clock w (ticks w))"
    obtain z u' where e: "wrap_for E usage owner name (key_latest_version r + 1) ?u = (z, u')"
      by (rule prod.exhaust)
    with run assms(2) Some Inr obtain wrapped where z: "z = Inr wrapped" by (cases z) auto
    have "x = Inr (Some (nk_bump ?stamp (key_latest_version r + 1) r))"
      "db w' = nk_rotated (key_id r) (key_latest_version r + 1) ?stamp wrapped (db w)" "vstate w' = vstate w"
      using run assms(2) Some e wrap_frame [OF e] z by auto
    moreover have "vstate ?u = vstate w" by simp
    ultimately show ?thesis using Some e z by blast
  qed
qed

section \<open>The invariant of the stored keys\<close>

text \<open>Every version of every key unwraps under the DEK to 32 bytes, and a signing key stores
  the public half of what it wraps.\<close>

definition keyring_sealed :: "ext \<Rightarrow> bytes \<Rightarrow> database \<Rightarrow> bool" where
  "keyring_sealed E dek d \<longleftrightarrow>
     (\<forall>owner name r. key_find owner name d = Some r \<longrightarrow>
        key_signing_algorithm r = usage_algorithm (key_usage r)
        \<and> (\<forall>v \<in> set (nk_versions d r). key_sealed E dek r v))"

lemma keyring_sealed_cong:
  "named_keys d' = named_keys d \<Longrightarrow> named_key_versions d' = named_key_versions d \<Longrightarrow>
   keyring_sealed E dek d' = keyring_sealed E dek d"
  using nk_cong [of d' d] by (simp add: keyring_sealed_def)

lemma keyring_sealed_created:
  assumes "aead_ok E" "nk_ok d" "keyring_sealed E dek d" "key_find owner name d = None"
    and "wrap_for E usage owner name 1 u = (Inr wrapped, u')" "vs_dek (vstate u) = Some dek"
  shows "keyring_sealed E dek (nk_created owner name usage (usage_algorithm usage) stamp wrapped d)"
  unfolding keyring_sealed_def
proof (intro allI impI)
  let ?d = "nk_created owner name usage (usage_algorithm usage) stamp wrapped d"
  note c = nk_created_ok [OF assms(2,4) refl]
  fix o2 n2 q assume f: "key_find o2 n2 ?d = Some q"
  show "key_signing_algorithm q = usage_algorithm (key_usage q) \<and>
      (\<forall>v \<in> set (nk_versions ?d q). key_sealed E dek q v)"
  proof (cases "(o2, n2) = (owner, name)")
    case True
    with f c(3) [of o2 n2] have
      q: "q = new_key owner name usage (usage_algorithm usage) stamp (next_id (named_keys d))" by simp
    show ?thesis
      unfolding q using wrap_sealed [OF assms(1,5,6)]
      by (simp add: c(5))
  next
    case False
    with f c(3) [of o2 n2] have g: "key_find o2 n2 d = Some q" by (auto split: if_splits)
    with assms(3) c(4) [OF g] show ?thesis by (simp add: keyring_sealed_def)
  qed
qed

lemma key_usage_ident: "key_ident r = key_ident q \<Longrightarrow> key_usage r = key_usage q"
  by (simp add: key_ident_def)

lemma keyring_sealed_rotated:
  assumes "aead_ok E" "nk_ok d" "keyring_sealed E dek d" "key_find owner name d = Some r"
    and "wrap_for E (key_usage r) owner name (key_latest_version r + 1) u = (Inr wrapped, u')"
    and "vs_dek (vstate u) = Some dek"
  shows "keyring_sealed E dek (nk_rotated (key_id r) (key_latest_version r + 1) stamp wrapped d)"
  unfolding keyring_sealed_def
proof (intro allI impI)
  let ?d = "nk_rotated (key_id r) (key_latest_version r + 1) stamp wrapped d"
  note c = nk_rotated_ok [OF assms(2,4) refl]
  fix o2 n2 q assume f: "key_find o2 n2 ?d = Some q"
  show "key_signing_algorithm q = usage_algorithm (key_usage q) \<and>
      (\<forall>v \<in> set (nk_versions ?d q). key_sealed E dek q v)"
  proof (cases "(o2, n2) = (owner, name)")
    case True
    with f c(3) [of o2 n2 stamp wrapped] have q: "q = nk_bump stamp (key_latest_version r + 1) r" by simp
    from assms(3,4) have a: "key_signing_algorithm r = usage_algorithm (key_usage r)"
      and s: "\<forall>v \<in> set (nk_versions d r). key_sealed E dek r v"
      by (simp_all add: keyring_sealed_def)
    have i: "key_ident r = (owner, name, key_usage r, usage_algorithm (key_usage r))"
      using key_find_names [OF assms(4)] a by (simp add: key_ident_def)
    have k: "key_sealed E dek q v = key_sealed E dek r v" for v
      by (rule key_sealed_cong) (simp add: q)
    show ?thesis
      using wrap_sealed [OF assms(1,5,6) i] s a c(4) [OF assms(4), of stamp wrapped]
      by (auto simp: k q [symmetric]) (auto simp: q)
  next
    case False
    with f c(3) [of o2 n2 stamp wrapped] have g: "key_find o2 n2 d = Some q" by (auto split: if_splits)
    with assms(3) c(4) [OF g, of stamp wrapped] False show ?thesis by (auto simp: keyring_sealed_def)
  qed
qed

section \<open>Every operation\<close>

lemma owned_key_frame:
  assumes "owned_key E owner name w = (x, w')"
  shows "(\<exists>a m. db w' = (db w)\<lparr>audit_logs := a, schema_metadata := m\<rparr>) \<and> vstate w' = vstate w
    \<and> (\<forall>r. x = Inr r \<longrightarrow> w' = w)"
proof (cases "\<exists>r. x = Inr r")
  case True
  with assms have "w' = w" by (auto simp: owned_key_Inr)
  then show ?thesis
    by (intro conjI exI [of _ "audit_logs (db w)"] exI [of _ "schema_metadata (db w)"]) simp_all
next
  case False
  have same: "\<exists>a m. db w = (db w)\<lparr>audit_logs := a, schema_metadata := m\<rparr>"
    by (intro exI [of _ "audit_logs (db w)"] exI [of _ "schema_metadata (db w)"]) simp
  from False assms have "w' = w \<or> (\<exists>y. log_denied_access E owner (lit ''named_key'') name w = (y, w'))"
    by (auto simp: owned_key_def bindM_def op_simps dest: get_owned_world
        split: sum.splits prod.splits option.splits)
  with False same show ?thesis by (auto dest: log_denied_frame)
qed

lemma owned_key_keyring:
  assumes "owned_key E owner name w = (x, w')"
  shows "named_keys (db w') = named_keys (db w)" "named_key_versions (db w') = named_key_versions (db w)"
    "vstate w' = vstate w"
  using owned_key_frame [OF assms] by auto

lemma metadata_world: "metadata r w = (x, w') \<Longrightarrow> w' = w"
  by (auto simp: metadata_def bindM_def op_simps dest: list_key_versions_world
      split: sum.splits prod.splits)

lemma wrap_aes_for: "wrap_aes E owner name = wrap_for E ENCRYPT_DECRYPT owner name"
  and wrap_ed25519_for: "wrap_ed25519 E owner name = wrap_for E SIGN_VERIFY owner name"
  by (simp_all add: wrap_for_def)

text \<open>What a successful or failed change of the keyring looks like.\<close>

definition keyring_step :: "ext \<Rightarrow> vault_state \<Rightarrow> database \<Rightarrow> database \<Rightarrow> bool" where
  "keyring_step E vs d d' \<longleftrightarrow>
     named_keys d' = named_keys d \<and> named_key_versions d' = named_key_versions d
   \<or> (\<exists>owner name usage wrapped u u' stamp. key_find owner name d = None
        \<and> wrap_for E usage owner name 1 u = (Inr wrapped, u') \<and> vstate u = vs
        \<and> d' = nk_created owner name usage (usage_algorithm usage) stamp wrapped d)
   \<or> (\<exists>owner name r wrapped u u' stamp. key_find owner name d = Some r
        \<and> wrap_for E (key_usage r) owner name (key_latest_version r + 1) u = (Inr wrapped, u')
        \<and> vstate u = vs
        \<and> d' = nk_rotated (key_id r) (key_latest_version r + 1) stamp wrapped d)"

lemma keyring_step_same:
  "named_keys d' = named_keys d \<Longrightarrow> named_key_versions d' = named_key_versions d \<Longrightarrow> keyring_step E vs d d'"
  by (simp add: keyring_step_def)

lemma keyring_step_rotated:
  "key_find owner name d = Some r \<Longrightarrow>
   wrap_for E (key_usage r) owner name (key_latest_version r + 1) u = (Inr wrapped, u') \<Longrightarrow>
   vstate u = vs \<Longrightarrow> d' = nk_rotated (key_id r) (key_latest_version r + 1) stamp wrapped d \<Longrightarrow>
   keyring_step E vs d d'"
  unfolding keyring_step_def by blast

lemma keyring_step_extends:
  assumes "nk_ok d" "keyring_step E vs d d'" shows "keyring_extends d d'"
  using assms(2) unfolding keyring_step_def
proof (elim disjE exE conjE)
qed (auto intro: keyring_extends_refl keyring_extends_created keyring_extends_rotated assms(1))

lemma keyring_step_sealed:
  assumes "aead_ok E" "nk_ok d" "keyring_sealed E dek d" "vs_dek vs = Some dek" "keyring_step E vs d d'"
  shows "keyring_sealed E dek d'"
  using assms(5) unfolding keyring_step_def
proof (elim disjE exE conjE)
  assume "named_keys d' = named_keys d" "named_key_versions d' = named_key_versions d"
  with keyring_sealed_cong assms(3) show ?thesis by blast
next
  fix owner name usage wrapped u u' stamp
  assume h: "key_find owner name d = None" "wrap_for E usage owner name 1 u = (Inr wrapped, u')"
    "vstate u = vs" and d': "d' = nk_created owner name usage (usage_algorithm usage) stamp wrapped d"
  from h(3) assms(4) have "vs_dek (vstate u) = Some dek" by simp
  from keyring_sealed_created [OF assms(1-3) h(1,2) this] show ?thesis by (simp add: d')
next
  fix owner name r wrapped u u' stamp
  assume h: "key_find owner name d = Some r"
    "wrap_for E (key_usage r) owner name (key_latest_version r + 1) u = (Inr wrapped, u')"
    "vstate u = vs" and d': "d' = nk_rotated (key_id r) (key_latest_version r + 1) stamp wrapped d"
  from h(3) assms(4) have "vs_dek (vstate u) = Some dek" by simp
  from keyring_sealed_rotated [OF assms(1-3) h(1,2) this] show ?thesis by (simp add: d')
qed

lemma create_step:
  assumes "nk_ok (db w)"
    and "bindM (nk_create owner name usage (usage_algorithm usage) (wrap_for E usage owner name)) metadata w = (x, w')"
  shows "keyring_step E (vstate w) (db w) (db w') \<and> vstate w' = vstate w"
proof -
  obtain y w1 where c: "nk_create owner name usage (usage_algorithm usage) (wrap_for E usage owner name) w = (y, w1)"
    by (rule prod.exhaust)
  with assms(2) have "w' = w1" by (auto simp: bindM_def dest: metadata_world split: sum.splits)
  with nk_create_cases [OF assms(1) c] show ?thesis
    unfolding keyring_step_def by metis
qed

lemma create_key_step:
  assumes "nk_ok (db w)" "create_key E owner name w = (x, w')"
  shows "keyring_step E (vstate w) (db w) (db w') \<and> vstate w' = vstate w"
proof -
  have "w' = w \<or> bindM (nk_create owner name ENCRYPT_DECRYPT (usage_algorithm ENCRYPT_DECRYPT)
      (wrap_for E ENCRYPT_DECRYPT owner name)) metadata w = (x, w')"
    using assms(2)
    by (auto simp: create_key_def wrap_aes_for usage_algorithm_def bindM_run [of "liftR _"]
        bindM_run [of require_unlocked] op_simps split: sum.splits if_splits)
  then show ?thesis using create_step [OF assms(1)] keyring_step_same by blast
qed

lemma create_signing_key_step:
  assumes "nk_ok (db w)" "create_signing_key E owner name alg w = (x, w')"
  shows "keyring_step E (vstate w) (db w) (db w') \<and> vstate w' = vstate w"
proof -
  have "w' = w \<or> bindM (nk_create owner name SIGN_VERIFY (usage_algorithm SIGN_VERIFY)
      (wrap_for E SIGN_VERIFY owner name)) metadata w = (x, w')"
    using assms(2)
    by (auto simp: create_signing_key_def wrap_ed25519_for usage_algorithm_def bindM_run [of "liftR _"]
        bindM_run [of "raise_if _ _"] bindM_run [of require_unlocked] op_simps split: sum.splits if_splits)
  then show ?thesis using create_step [OF assms(1)] keyring_step_same by blast
qed

lemma keeps_vstate_rotate: "keeps vstate (nk_rotate owner name (wrap_for E usage owner name))"
proof -
  have w: "keeps vstate (wrap_for E usage owner name n)" for n
    by (rule keepsI) (auto dest: wrap_frame)
  have g: "keeps vstate (get_owned owner name)"
    by (rule keeps_pure) (rule get_owned_world)
  show ?thesis
    unfolding nk_rotate_def nk_rotate_at_def insert_version_def Let_def
    by (intro keeps_rules w g clocklessI db_partI)
qed

lemma rotate_key_step:
  assumes "nk_ok (db w)" "rotate_key E owner name w = (x, w')"
  shows "keyring_step E (vstate w) (db w) (db w') \<and> vstate w' = vstate w"
proof -
  obtain y w1 where o: "owned_key E owner name w = (y, w1)" by (rule prod.exhaust)
  show ?thesis
  proof (cases y)
    case (Inl e)
    with assms(2) o have "w' = w1" by (simp add: rotate_key_def op_run)
    with owned_key_keyring [OF o] show ?thesis by (simp add: keyring_step_same)
  next
    case (Inr r)
    with o have r: "key_find owner name (db w) = Some r" "w1 = w" by (simp_all add: owned_key_Inr)
    have e: "(if key_usage r = ENCRYPT_DECRYPT then wrap_aes E owner name else wrap_ed25519 E owner name)
        = wrap_for E (key_usage r) owner name" by (simp add: wrap_for_def)
    obtain z w2 where n: "nk_rotate owner name (wrap_for E (key_usage r) owner name) w = (z, w2)"
      by (rule prod.exhaust)
    have "w' = w \<or> w' = w2"
      using assms(2) o Inr r(2) n metadata_world
      by (auto simp: rotate_key_def op_run op_simps e split: if_splits sum.splits option.splits)
    moreover have "keyring_step E (vstate w) (db w) (db w2)"
      using nk_rotate_cases [OF assms(1) n] r(1)
      by (elim disjE conjE exE) (auto intro: keyring_step_same keyring_step_rotated)
    moreover have "vstate w2 = vstate w" using keeps_run [OF keeps_vstate_rotate n] .
    ultimately show ?thesis using keyring_step_same by auto
  qed
qed

text \<open>The operations that only read the keyring.\<close>

definition reads_keyring :: "'a action \<Rightarrow> bool" where
  "reads_keyring m \<longleftrightarrow>
     keeps (\<lambda>w. named_keys (db w)) m \<and> keeps (\<lambda>w. named_key_versions (db w)) m \<and> keeps vstate m"

lemma reads_owned_key: "reads_keyring (owned_key E owner name)"
  unfolding reads_keyring_def by (intro conjI keepsI) (auto dest: owned_key_keyring)

lemma reads_bindM: "reads_keyring m \<Longrightarrow> (\<And>x. reads_keyring (f x)) \<Longrightarrow> reads_keyring (bindM m f)"
  by (auto simp: reads_keyring_def intro: keeps_bindM)

lemma reads_pure: "(\<And>w r w'. m w = (r, w') \<Longrightarrow> w' = w) \<Longrightarrow> reads_keyring m"
  by (auto simp: reads_keyring_def intro!: keeps_pure)

lemma reads_draws: "(\<And>w r w'. m w = (r, w') \<Longrightarrow> \<exists>k. w' = w\<lparr>draws := k\<rparr>) \<Longrightarrow> reads_keyring m"
  unfolding reads_keyring_def by (intro conjI keepsI) fastforce+

lemma unwrap_key_world: "unwrap_key E r v w = (x, w') \<Longrightarrow> w' = w"
  by (auto simp: unwrap_key_run split: option.splits)

lemma mapM_world: "(\<And>x w r w'. f x w = (r, w') \<Longrightarrow> w' = w) \<Longrightarrow> mapM f xs w = (r, w') \<Longrightarrow> w' = w"
proof (induction xs arbitrary: r w w')
  case (Cons x xs)
  then show ?case by (fastforce simp: bindM_def op_simps split: prod.splits sum.splits)
qed (simp add: op_simps)

lemma reads_primitives:
  "reads_keyring (liftR r)" "reads_keyring (raise_if c e)" "reads_keyring require_unlocked"
  "reads_keyring (key_version k n)" "reads_keyring (unwrap_key E k v)" "reads_keyring (ret y)"
  "reads_keyring (throw e)" "reads_keyring (list_key_versions i)" "reads_keyring (list_owned owner)"
  "reads_keyring (metadata k)"
  by (rule reads_pure, auto simp: op_simps
      dest: key_version_world unwrap_key_world list_key_versions_world list_owned_world metadata_world)+

lemma reads_mapM: "(\<And>x. reads_keyring (f x)) \<Longrightarrow> reads_keyring (mapM f xs)"
  by (auto simp: reads_keyring_def intro: keeps_mapM)

lemma reads_encrypt: "reads_keyring (encrypt_aes_gcm E key p a)"
  by (rule reads_draws) (rule encrypt_aes_gcm_world)

lemma reads_candidates: "reads_keyring (verify_versions k pinned)"
  unfolding verify_versions_def
  by (cases pinned) (auto intro!: reads_bindM reads_mapM reads_primitives split: prod.split)

lemma reads_transit:
  "reads_keyring (transit_encrypt E owner name p)" "reads_keyring (transit_decrypt E owner c)"
  "reads_keyring (transit_sign E owner name m t a)" "reads_keyring (transit_verify E owner name m t s a pinned)"
  "reads_keyring (list_keys owner)"
  unfolding transit_encrypt_def transit_decrypt_def transit_sign_def transit_verify_def list_keys_def Let_def
  by (intro reads_bindM reads_owned_key reads_primitives reads_encrypt reads_candidates reads_mapM)+

section \<open>Decryption along the history of the keyring\<close>

lemma decrypt_answer_append:
  assumes "decrypt_answer E dek owner parsed r vs = Inr res" "key_ident r' = key_ident r"
  shows "decrypt_answer E dek owner parsed r' (vs @ ws) = Inr res"
proof -
  let ?n = "tc_key_version parsed"
  from assms(1) have n: "1 \<le> ?n \<and> ?n \<le> int (length vs)"
    by (auto simp: decrypt_answer_def Let_def split: if_splits)
  then have "nat (?n - 1) < length vs" by linarith
  then have "(vs @ ws) ! nat (?n - 1) = vs ! nat (?n - 1)" by (simp add: nth_append)
  with assms(1) n show ?thesis
    unfolding decrypt_answer_def Let_def unwrap_material_cong [OF assms(2)]
    using key_usage_ident [OF assms(2)] by (simp split: if_splits)
qed

lemma transit_decrypt_extends:
  assumes "nk_ok (db w)" "transit_decrypt E owner c w = (Inr res, w1)"
    and "keyring_extends (db w) (db v)" "vs_dek (vstate v) = vs_dek (vstate w)"
  shows "transit_decrypt E owner c v = (Inr res, v)"
proof -
  obtain parsed r dek where
    d: "parse_ciphertext (PyStr c) = Inr parsed" "list_all scalar owner"
    "key_find owner (tc_key_name parsed) (db w) = Some r" "vs_dek (vstate w) = Some dek"
    "decrypt_answer E dek owner parsed r (nk_versions (db w) r) = Inr res"
    by (rule transit_decrypt_Inr [OF assms(1,2)])
  from assms(3) d(3) obtain r' vs where
    e: "nk_ok (db v)" "key_find owner (tc_key_name parsed) (db v) = Some r'"
    "key_ident r' = key_ident r" "nk_versions (db v) r' = nk_versions (db w) r @ vs"
    unfolding keyring_extends_def by blast
  have "vs_dek (vstate v) = Some dek" using assms(4) d(4) by simp
  from transit_decrypt_run [OF e(1) d(2) this d(1) e(2), of E] decrypt_answer_append [OF d(5) e(3), of vs]
  show ?thesis by (simp add: e(4))
qed

section \<open>Encryption\<close>

lemma last_version:
  assumes "nk_ok d" "key_find owner name d = Some r"
  shows "1 \<le> key_latest_version r" "nat (key_latest_version r - 1) < length (nk_versions d r)"
    "key_latest_version r \<le> int (length (nk_versions d r))"
    "nk_versions d r ! nat (key_latest_version r - 1) \<in> set (nk_versions d r)"
    "kyv_version (nk_versions d r ! nat (key_latest_version r - 1)) = key_latest_version r"
proof -
  note n = nk_versions_numbered [OF assms]
  show l: "1 \<le> key_latest_version r" using n by (cases "nk_versions d r") auto
  show i: "nat (key_latest_version r - 1) < length (nk_versions d r)" using n l by auto
  then show "nk_versions d r ! nat (key_latest_version r - 1) \<in> set (nk_versions d r)" by simp
  show "key_latest_version r \<le> int (length (nk_versions d r))" using n by simp
  have "map kyv_version (nk_versions d r) ! nat (key_latest_version r - 1) =
      map int [1..<Suc (length (nk_versions d r))] ! nat (key_latest_version r - 1)"
    using n by simp
  with i l show "kyv_version (nk_versions d r ! nat (key_latest_version r - 1)) = key_latest_version r"
    by (simp del: upt_Suc)
qed

text \<open>On a sealed keyring the newest version unwraps.\<close>

lemma sealed_last:
  assumes "nk_ok d" "keyring_sealed E dek d" "key_find owner name d = Some r"
  obtains m where "unwrap_material E dek r (nk_versions d r ! nat (key_latest_version r - 1)) = Inr m"
    "length m = 32"
    "kyv_public_key_b64 (nk_versions d r ! nat (key_latest_version r - 1)) =
       (if key_usage r = ENCRYPT_DECRYPT then None else Some (encode_b64 (ed25519_public E m)))"
  using assms(2,3) last_version(4) [OF assms(1,3)] that
  unfolding keyring_sealed_def key_sealed_def by blast

lemma format_ciphertext_ok:
  "key_name_ok name \<Longrightarrow> 1 \<le> n \<Longrightarrow> \<exists>s. format_ciphertext name n b = Inr s"
  by (simp add: format_ciphertext_def Let_def)

lemma transit_encrypt_run:
  assumes "nk_ok (db w)" "keyring_sealed E dek (db w)" "vs_dek (vstate w) = Some dek"
    and "key_name_ok name" "list_all scalar owner" "key_find owner name (db w) = Some r"
    and "key_usage r = ENCRYPT_DECRYPT" "key_latest_version r < 2 ^ 63"
    and "decode_b64 (PyStr p64) = Inr pt"
  obtains m aad b c where
    "unwrap_material E dek r (nk_versions (db w) r ! nat (key_latest_version r - 1)) = Inr m"
    "data_aad owner name (key_latest_version r) = Inr aad"
    "encrypt_aes_gcm E m pt aad w = (Inr b, w\<lparr>draws := draws w + 12\<rparr>)"
    "format_ciphertext name (key_latest_version r) b = Inr c"
    "transit_encrypt E owner name p64 w =
       (Inr \<lparr>enc_key_name = name, enc_key_version = key_latest_version r, enc_ciphertext = c\<rparr>,
        w\<lparr>draws := draws w + 12\<rparr>)"
proof -
  let ?n = "key_latest_version r"
  obtain m where m: "unwrap_material E dek r (nk_versions (db w) r ! nat (?n - 1)) = Inr m" "length m = 32"
    by (rule sealed_last [OF assms(1,2,6)])
  obtain aad where aad: "data_aad owner name ?n = Inr aad"
    using data_aad_ok [OF assms(5) key_name_scalar [OF assms(4)]] by blast
  obtain b where b: "encrypt_aes_gcm E m pt aad w = (Inr b, w\<lparr>draws := draws w + 12\<rparr>)"
    using encrypt_aes_gcm_run [OF m(2), of E pt aad w] by (auto simp: Let_def)
  note l = last_version [OF assms(1,6)]
  obtain c where c: "format_ciphertext name ?n b = Inr c" using format_ciphertext_ok [OF assms(4) l(1)] by blast
  have k: "key_version r ?n w = (Inr (nk_versions (db w) r ! nat (?n - 1)), w)"
    using key_version_run [OF assms(1,6) _ assms(8) refl] l(1,3) by simp
  have "transit_encrypt E owner name p64 w =
       (Inr \<lparr>enc_key_name = name, enc_key_version = ?n, enc_ciphertext = c\<rparr>, w\<lparr>draws := draws w + 12\<rparr>)"
    using assms(3,7,9) m aad b c k
    by (simp add: transit_encrypt_def op_simps op_run owned_key_found [OF assms(4,5,6)] Let_def
        decode_payload_def unwrap_key_run AES_KEY_LENGTH_def)
  with that [OF m(1) aad b c] show thesis by blast
qed

lemma decrypt_of_encrypt:
  assumes "aead_ok E" "nk_ok (db w)" "keyring_sealed E dek (db w)" "vs_dek (vstate w) = Some dek"
    and "key_name_ok name" "list_all scalar owner" "key_find owner name (db w) = Some r"
    and "key_usage r = ENCRYPT_DECRYPT" "key_latest_version r \<le> 999999999"
    and "decode_b64 (PyStr p64) = Inr pt"
  shows "\<exists>c w'. transit_encrypt E owner name p64 w =
      (Inr \<lparr>enc_key_name = name, enc_key_version = key_latest_version r, enc_ciphertext = c\<rparr>, w')
    \<and> db w' = db w \<and> vstate w' = vstate w
    \<and> transit_decrypt E owner c w' =
      (Inr \<lparr>dec_key_name = name, dec_key_version = key_latest_version r,
            dec_plaintext_b64 = encode_b64 pt\<rparr>, w')"
proof -
  let ?n = "key_latest_version r" and ?w = "w\<lparr>draws := draws w + 12\<rparr>"
  have bound: "?n < 2 ^ 63" using assms(9) by simp
  obtain m aad b c where
    e: "unwrap_material E dek r (nk_versions (db w) r ! nat (?n - 1)) = Inr m"
    "data_aad owner name ?n = Inr aad" "encrypt_aes_gcm E m pt aad w = (Inr b, ?w)"
    "format_ciphertext name ?n b = Inr c"
    "transit_encrypt E owner name p64 w =
       (Inr \<lparr>enc_key_name = name, enc_key_version = ?n, enc_ciphertext = c\<rparr>, ?w)"
    by (rule transit_encrypt_run [OF assms(2-8) bound assms(10)])
  note l = last_version [OF assms(2,7)]
  have lens: "length (blob_nonce b) = 12" "length (blob_tag b) = 16"
    using encrypt_aes_gcm_Inr [OF e(3)] encrypt_lengths [OF assms(1) e(3)] by simp_all
  note p = parse_format [OF assms(5) l(1) assms(9) e(4) lens]
  have "decrypt_answer E dek owner \<lparr>tc_key_name = name, tc_key_version = ?n, tc_blob = b\<rparr> r
      (nk_versions (db w) r) =
      Inr \<lparr>dec_key_name = name, dec_key_version = ?n, dec_plaintext_b64 = encode_b64 pt\<rparr>"
    using l(1,3) assms(8) e(1,2) decrypt_encrypt [OF assms(1) e(3)]
    by (simp add: decrypt_answer_def Let_def)
  moreover have "key_find owner (tc_key_name \<lparr>tc_key_name = name, tc_key_version = ?n, tc_blob = b\<rparr>) (db ?w)
      = Some r" using assms(7) by simp
  ultimately have "transit_decrypt E owner c ?w =
      (Inr \<lparr>dec_key_name = name, dec_key_version = ?n, dec_plaintext_b64 = encode_b64 pt\<rparr>, ?w)"
    using transit_decrypt_run [of ?w, OF _ assms(6) _ p, of dek r E] assms(2,4) by simp
  with e(5) show ?thesis by auto
qed

section \<open>Signatures\<close>

text \<open>Ed25519: public keys have 32 bytes, and a signature verifies under the public half of the
  key that made it.\<close>

definition ed25519_ok :: "ext \<Rightarrow> bool" where
  "ed25519_ok E \<longleftrightarrow>
     (\<forall>seed message. length seed = 32 \<longrightarrow> length (ed25519_public E seed) = 32
        \<and> ed25519_verify E (ed25519_public E seed) (ed25519_sign E seed message) message)"

text \<open>The versions a verification tries, in the order it tries them.\<close>

definition verify_candidates :: "int option \<Rightarrow> key_version_row list \<Rightarrow> key_version_row list option" where
  "verify_candidates pinned vs =
     (case pinned of None \<Rightarrow> Some (rev vs)
      | Some n \<Rightarrow> if 1 \<le> n \<and> n \<le> int (length vs) then Some [vs ! nat (n - 1)] else None)"

definition verify_match ::
  "ext \<Rightarrow> pystr \<Rightarrow> bytes \<Rightarrow> key_version_row list \<Rightarrow> key_version_row option"
where
  "verify_match E signature_b64 digest candidates =
     (case decode_b64 (PyStr signature_b64) of
        Inl _ \<Rightarrow> None | Inr signature \<Rightarrow> find (version_accepts E signature digest) candidates)"

lemma version_at:
  assumes "nk_ok d" "key_find owner name d = Some r" "i < length (nk_versions d r)"
  shows "kyv_version (nk_versions d r ! i) = int i + 1"
proof -
  have "map kyv_version (nk_versions d r) ! i = map int [1..<Suc (length (nk_versions d r))] ! i"
    using nk_versions_numbered [OF assms(1,2)] by simp
  with assms(3) show ?thesis by (simp del: upt_Suc)
qed

lemma candidates_run:
  assumes "nk_ok (db w)" "key_find owner name (db w) = Some r" "length (nk_versions (db w) r) < 2 ^ 62"
    and "\<And>n. pinned = Some n \<Longrightarrow> - (2 ^ 63) \<le> n \<and> n < 2 ^ 63"
  shows "verify_versions r pinned w =
    (case verify_candidates pinned (nk_versions (db w) r) of
       None \<Rightarrow> Inl (Transit KeyVersionUnavailableError) | Some vs \<Rightarrow> Inr vs, w)"
proof (cases pinned)
  case (Some n)
  have "- (2 ^ 63) \<le> n" "n < 2 ^ 63" using assms(4) [OF Some] by simp_all
  from key_version_run [OF assms(1,2) this refl] show ?thesis
    by (simp add: verify_versions_def Some op_simps op_run verify_candidates_def)
next
  case None
  let ?vs = "nk_versions (db w) r"
  let ?items = "map (\<lambda>v. (kyv_version v, kyv_created_at v)) ?vs"
  have at: "kyv_version (?vs ! i) = int i + 1" if "i < length ?vs" for i
    using version_at [OF assms(1,2) that] .
  have one: "(case x of (n, created) \<Rightarrow> key_version r n) w = (Inr (?vs ! nat (fst x - 1)), w)"
    if "x \<in> set (rev ?items)" for x
  proof -
    from that obtain i where i: "i < length ?vs" "x = (kyv_version (?vs ! i), kyv_created_at (?vs ! i))"
      by (auto simp: in_set_conv_nth)
    have "- (2 ^ 63) \<le> int i + 1" "int i + 1 < 2 ^ 63" using i(1) assms(3) by simp_all
    moreover have "int i + 1 \<le> int (length ?vs)" using i(1) by simp
    ultimately show ?thesis using key_version_run [OF assms(1,2) _ _ refl] by (simp add: i at)
  qed
  have "map (\<lambda>x. ?vs ! nat (fst x - 1)) ?items = ?vs"
    by (rule nth_equalityI) (simp_all add: at)
  then have "map (\<lambda>x. ?vs ! nat (fst x - 1)) (rev ?items) = rev ?vs" by (simp add: rev_map [symmetric])
  with mapM_run [of "rev ?items" "\<lambda>(n, created). key_version r n" w, OF one] show ?thesis
    by (simp add: verify_versions_def None op_simps op_run list_key_versions_run [OF assms(1,2)] verify_candidates_def)
qed

lemma transit_verify_run:
  assumes "nk_ok (db w)" "vs_dek (vstate w) = Some dek" "key_name_ok name" "list_all scalar owner"
    and "key_find owner name (db w) = Some r" "key_usage r = SIGN_VERIFY"
    and "validate_algorithm E r algorithm = Inr ()" "message_digest E msg kind = Inr digest"
    and "length (nk_versions (db w) r) < 2 ^ 62"
    and "\<And>n. pinned = Some n \<Longrightarrow> - (2 ^ 63) \<le> n \<and> n < 2 ^ 63"
  shows "transit_verify E owner name msg kind sig algorithm pinned w =
    (case verify_candidates pinned (nk_versions (db w) r) of
       None \<Rightarrow> Inl (Transit KeyVersionUnavailableError)
     | Some vs \<Rightarrow>
         Inr \<lparr>ver_key_name = name, ver_key_version = map_option kyv_version (verify_match E sig digest vs),
              ver_algorithm = key_signing_algorithm r,
              ver_signature_valid = (verify_match E sig digest vs \<noteq> None)\<rparr>, w)"
  unfolding transit_verify_def bindM_run owned_key_found [OF assms(3,4,5)]
  using assms(2,6-8) candidates_run [where pinned = pinned, OF assms(1,5,9,10)]
  by (simp add: op_simps op_run verify_match_def Let_def split: option.split)

lemma transit_sign_run:
  assumes "nk_ok (db w)" "keyring_sealed E dek (db w)" "vs_dek (vstate w) = Some dek"
    and "key_name_ok name" "list_all scalar owner" "key_find owner name (db w) = Some r"
    and "key_usage r = SIGN_VERIFY" "key_latest_version r < 2 ^ 63"
    and "validate_algorithm E r algorithm = Inr ()" "message_digest E msg kind = Inr digest"
  obtains m where "length m = 32"
    "kyv_public_key_b64 (nk_versions (db w) r ! nat (key_latest_version r - 1)) =
       Some (encode_b64 (ed25519_public E m))"
    "transit_sign E owner name msg kind algorithm w =
       (Inr \<lparr>sig_key_name = name, sig_key_version = key_latest_version r,
             sig_algorithm = key_signing_algorithm r,
             sig_signature_b64 = encode_b64 (ed25519_sign E m digest)\<rparr>, w)"
proof -
  let ?n = "key_latest_version r"
  obtain m where m: "unwrap_material E dek r (nk_versions (db w) r ! nat (?n - 1)) = Inr m" "length m = 32"
    "kyv_public_key_b64 (nk_versions (db w) r ! nat (?n - 1)) =
       (if key_usage r = ENCRYPT_DECRYPT then None else Some (encode_b64 (ed25519_public E m)))"
    by (rule sealed_last [OF assms(1,2,6)])
  note l = last_version [OF assms(1,6)]
  have k: "key_version r ?n w = (Inr (nk_versions (db w) r ! nat (?n - 1)), w)"
    using key_version_run [OF assms(1,6) _ assms(8) refl] l(1,3) by simp
  have "transit_sign E owner name msg kind algorithm w =
       (Inr \<lparr>sig_key_name = name, sig_key_version = ?n, sig_algorithm = key_signing_algorithm r,
             sig_signature_b64 = encode_b64 (ed25519_sign E m digest)\<rparr>, w)"
    using assms(3,7,9,10) m(1,2) k
    by (simp add: transit_sign_def op_simps op_run owned_key_found [OF assms(4,5,6)] Let_def unwrap_key_run)
  moreover have "kyv_public_key_b64 (nk_versions (db w) r ! nat (?n - 1)) =
      Some (encode_b64 (ed25519_public E m))" using m(3) assms(7) by simp
  ultimately show thesis using that m(2) by blast
qed

end
