(* ===== verification/TransitLaws.thy ===== *)
theory TransitLaws
  imports Transit Kv
begin

text \<open>
  The laws of the Transit service: round trips of encryption and signing, stability under key
  rotation, authenticity, the error table, and what the associated data binds.
\<close>

section \<open>Creating, rotating and deleting succeed\<close>

lemma metadata_run:
  assumes "nk_ok (db w)" "key_find owner name (db w) = Some r" "key_id q = key_id r"
  shows "metadata q w =
    (Inr \<lparr>md_key_name = key_name q, md_key_usage = key_usage q,
          md_signing_algorithm = key_signing_algorithm q, md_latest_version = key_latest_version q,
          md_versions = map int [1..<Suc (length (nk_versions (db w) r))],
          md_created_at = key_created_at q, md_updated_at = key_updated_at q\<rparr>, w)"
  using nk_versions_numbered [OF assms(1,2)]
  by (simp add: metadata_def op_simps op_run assms(3) list_key_versions_run [OF assms(1,2)] comp_def
      del: upt_Suc)

definition key_stored :: "pystr \<Rightarrow> pystr \<Rightarrow> key_usage \<Rightarrow> int \<Rightarrow> database \<Rightarrow> bool" where
  "key_stored owner name usage n d \<longleftrightarrow>
     (\<exists>r. key_find owner name d = Some r \<and> key_usage r = usage \<and> key_latest_version r = n)"

lemma create_wrapped_ok:
  assumes "aead_ok E" "nk_ok (db w)" "keyring_sealed E dek (db w)" "vs_dek (vstate w) = Some dek"
    and "length dek = 32" "list_all scalar owner" "list_all scalar name"
    and "key_find owner name (db w) = None"
  shows "\<exists>md w'. bindM (nk_create owner name usage (usage_algorithm usage) (wrap_for E usage owner name))
        metadata w = (Inr md, w')
    \<and> md_key_name md = name \<and> md_key_usage md = usage \<and> md_latest_version md = 1 \<and> md_versions md = [1]
    \<and> key_stored owner name usage 1 (db w') \<and> nk_ok (db w') \<and> keyring_sealed E dek (db w')
    \<and> keyring_extends (db w) (db w') \<and> vstate w' = vstate w"
proof -
  let ?stamp = "isoformat (clock w (ticks w))"
  let ?u = "w\<lparr>ticks := Suc (ticks w), db := nk_started owner name usage (usage_algorithm usage) ?stamp (db w)\<rparr>"
  let ?r = "new_key owner name usage (usage_algorithm usage) ?stamp (next_id (named_keys (db w)))"
  have fr: "db u' = db u" if "wrap_for E usage owner name 1 u = (r, u')" for u r u'
    using wrap_frame [OF that] by simp
  obtain wrapped u' where e: "wrap_for E usage owner name 1 ?u = (Inr wrapped, u')"
    using wrap_ok [of ?u dek owner name E usage 1] assms(4-7) by auto
  let ?d = "nk_created owner name usage (usage_algorithm usage) ?stamp wrapped (db w)"
  have c: "nk_create owner name usage (usage_algorithm usage) (wrap_for E usage owner name) w =
      (Inr ?r, u'\<lparr>db := ?d\<rparr>)"
    using e assms(8) by (simp add: nk_create_run [OF assms(2,6,7) fr] Let_def)
  note k = nk_created_ok [OF assms(2,8) refl,
      where usage = usage and algorithm = "usage_algorithm usage" and stamp = ?stamp and wrapped = wrapped]
  have f: "key_find owner name ?d = Some ?r" by (simp add: k(3))
  have s: "keyring_sealed E dek ?d"
    using assms(4) by (intro keyring_sealed_created [OF assms(1,2,3,8) e]) simp
  have "vstate u' = vstate w" using wrap_frame [OF e] by simp
  with c f k s keyring_extends_created [OF assms(2,8)] metadata_run [of "u'\<lparr>db := ?d\<rparr>" owner name ?r ?r] show ?thesis
    by (simp add: op_run key_stored_def)
qed

lemma create_key_ok:
  assumes "aead_ok E" "nk_ok (db w)" "keyring_sealed E dek (db w)" "vs_dek (vstate w) = Some dek"
    and "length dek = 32" "list_all scalar owner" "key_name_ok name" "key_find owner name (db w) = None"
  shows "\<exists>md w'. create_key E owner name w = (Inr md, w')
    \<and> md_key_name md = name \<and> md_key_usage md = ENCRYPT_DECRYPT \<and> md_latest_version md = 1
    \<and> md_versions md = [1]
    \<and> key_stored owner name ENCRYPT_DECRYPT 1 (db w') \<and> nk_ok (db w') \<and> keyring_sealed E dek (db w')
    \<and> keyring_extends (db w) (db w') \<and> vstate w' = vstate w"
  using create_wrapped_ok [OF assms(1-6) key_name_scalar [OF assms(7)] assms(8), of ENCRYPT_DECRYPT] assms(4,7)
  by (simp add: create_key_def wrap_aes_for usage_algorithm_def bindM_run [of "liftR _"]
      bindM_run [of require_unlocked] op_simps validate_key_name_def)

lemma create_signing_key_ok:
  assumes "aead_ok E" "nk_ok (db w)" "keyring_sealed E dek (db w)" "vs_dek (vstate w) = Some dek"
    and "length dek = 32" "list_all scalar owner" "key_name_ok name" "key_find owner name (db w) = None"
    and "py_upper (unicode E) algorithm = ED25519"
  shows "\<exists>md w'. create_signing_key E owner name algorithm w = (Inr md, w')
    \<and> md_key_name md = name \<and> md_key_usage md = SIGN_VERIFY \<and> md_latest_version md = 1
    \<and> md_versions md = [1]
    \<and> key_stored owner name SIGN_VERIFY 1 (db w') \<and> nk_ok (db w') \<and> keyring_sealed E dek (db w')
    \<and> keyring_extends (db w) (db w') \<and> vstate w' = vstate w"
  using create_wrapped_ok [OF assms(1-6) key_name_scalar [OF assms(7)] assms(8), of SIGN_VERIFY] assms(4,7,9)
  by (simp add: create_signing_key_def wrap_ed25519_for usage_algorithm_def bindM_run [of "liftR _"]
      bindM_run [of "raise_if _ _"] bindM_run [of require_unlocked] op_simps validate_key_name_def)

lemma create_exists:
  assumes "nk_ok (db w)" "list_all scalar owner" "list_all scalar name"
    and "key_find owner name (db w) = Some r"
  shows "bindM (nk_create owner name usage (usage_algorithm usage) (wrap_for E usage owner name)) metadata w
    = (Inl (Transit KeyAlreadyExistsError), w\<lparr>ticks := Suc (ticks w)\<rparr>)"
proof -
  have fr: "db u' = db u" if "wrap_for E usage owner name 1 u = (r, u')" for u r u'
    using wrap_frame [OF that] by simp
  from nk_create_run [OF assms(1-3) fr] assms(4) show ?thesis by (simp add: op_run Let_def)
qed

lemma rotate_key_ok:
  assumes "aead_ok E" "nk_ok (db w)" "keyring_sealed E dek (db w)" "vs_dek (vstate w) = Some dek"
    and "length dek = 32" "list_all scalar owner" "key_name_ok name"
    and "key_find owner name (db w) = Some r" "key_latest_version r + 1 < 2 ^ 63"
  shows "\<exists>md w'. rotate_key E owner name w = (Inr md, w')
    \<and> md_key_name md = name \<and> md_key_usage md = key_usage r
    \<and> md_latest_version md = key_latest_version r + 1
    \<and> md_versions md = map int [1..<Suc (nat (key_latest_version r + 1))]
    \<and> key_stored owner name (key_usage r) (key_latest_version r + 1) (db w') \<and> nk_ok (db w')
    \<and> keyring_sealed E dek (db w') \<and> keyring_extends (db w) (db w') \<and> vstate w' = vstate w"
proof -
  let ?n = "key_latest_version r + 1" and ?stamp = "isoformat (clock w (ticks w))"
  let ?u = "w\<lparr>ticks := Suc (ticks w)\<rparr>" and ?wrap = "wrap_for E (key_usage r) owner name"
  note ns = key_name_scalar [OF assms(7)]
  have fr: "db u' = db u" if "?wrap n u = (x, u')" for n u x u' using wrap_frame [OF that] by simp
  obtain wrapped u' where e: "?wrap ?n ?u = (Inr wrapped, u')"
    using wrap_ok [of ?u dek owner name E "key_usage r" ?n] assms(4-6) ns by auto
  let ?d = "nk_rotated (key_id r) ?n ?stamp wrapped (db w)" and ?r = "nk_bump ?stamp ?n r"
  have b: "key_latest_version q + 1 < 2 ^ 63" if "key_find owner name (db w) = Some q" for q
    using that assms(8,9) by simp
  have n: "nk_rotate owner name ?wrap w = (Inr (Some ?r), u'\<lparr>db := ?d\<rparr>)"
    using e assms(8,9) by (subst nk_rotate_run [OF assms(2,6) ns]) (auto simp: Let_def dest: fr)
  note k = nk_rotated_ok [OF assms(2,8) refl, where stamp = ?stamp and wrapped = wrapped]
  have f: "key_find owner name ?d = Some ?r" by (simp add: k(3))
  have s: "keyring_sealed E dek ?d"
    using assms(4) by (intro keyring_sealed_rotated [OF assms(1,2,3,8) e]) simp
  have len: "length (nk_versions ?d ?r) = nat ?n"
  proof -
    have "key_latest_version r = int (length (nk_versions (db w) r))"
      using nk_versions_numbered [OF assms(2,8)] by simp
    with k(4) [OF assms(8)] show ?thesis by simp
  qed
  have w: "(if key_usage r = ENCRYPT_DECRYPT then wrap_aes E owner name else wrap_ed25519 E owner name) = ?wrap"
    by (simp add: wrap_for_def)
  have "vstate u' = vstate w" using wrap_frame [OF e] by simp
  with n f k s len keyring_extends_rotated [OF assms(2,8)] key_find_names [OF assms(8)]
    metadata_run [of "u'\<lparr>db := ?d\<rparr>" owner name ?r ?r] assms(4) show ?thesis
    by (simp add: rotate_key_def owned_key_found [OF assms(7,6,8)] op_run op_simps key_stored_def w)
qed

lemma delete_key_run:
  assumes "vs_dek (vstate w) = Some dek" "list_all scalar owner" "key_name_ok name"
    and "key_find owner name (db w) = Some r"
  shows "delete_key E owner name w = (Inr (name, True), w\<lparr>db := nk_removed owner name (db w)\<rparr>)"
  using assms key_name_scalar [OF assms(3)]
  by (simp add: delete_key_def owned_key_found [OF assms(3,2,4)] op_run op_simps delete_owned_run)

section \<open>Associated data\<close>

lemma key_aad_unambiguous:
  assumes "key_aad o1 n1 u1 a1 v1 = Inr x" "key_aad o2 n2 u2 a2 v2 = Inr x"
    and "key_name_ok n1" "key_name_ok n2" "a1 \<in> {None, Some ED25519}" "a2 \<in> {None, Some ED25519}"
    and "0 \<le> v1" "0 \<le> v2"
  shows "o1 = o2 \<and> n1 = n2 \<and> u1 = u2 \<and> a1 = a2 \<and> v1 = v2"
proof -
  let ?alg = "\<lambda>a. case a of None \<Rightarrow> lit ''-'' | Some a \<Rightarrow> if a = [] then lit ''-'' else a"
  have "lit ''transit-key:'' @ o1 @ lit '':'' @ n1 @ lit '':'' @ usage_text u1 @ lit '':'' @ ?alg a1
        @ lit '':v'' @ dec_int v1 =
      lit ''transit-key:'' @ o2 @ lit '':'' @ n2 @ lit '':'' @ usage_text u2 @ lit '':'' @ ?alg a2
        @ lit '':v'' @ dec_int v2"
    by (rule utf8_encode_inject [OF assms(1,2) [unfolded key_aad_def]])
  then have e: "(((o1 @ 58 # n1) @ 58 # usage_text u1) @ 58 # ?alg a1) @ 58 # (118 # dec_int v1) =
      (((o2 @ 58 # n2) @ 58 # usage_text u2) @ 58 # ?alg a2) @ 58 # (118 # dec_int v2)"
    by (simp add: text_simps)
  have v: "58 \<notin> set (118 # dec_int v)" if "0 \<le> v" for v
    using dec_int_nonneg_digits [OF that, of 58] by (auto simp: is_digit_def)
  have a: "58 \<notin> set (?alg a)" if "a \<in> {None, Some ED25519}" for a
    using that by (auto simp: ED25519_def text_simps)
  have u: "58 \<notin> set (usage_text u)" for u by (cases u) (simp_all add: text_simps)
  note n = key_name_chars(1)
  from append_eq_last_sep [OF e v [OF assms(7)] v [OF assms(8)]]
  have e2: "((o1 @ 58 # n1) @ 58 # usage_text u1) @ 58 # ?alg a1 =
      ((o2 @ 58 # n2) @ 58 # usage_text u2) @ 58 # ?alg a2" and "v1 = v2"
    by (simp_all add: dec_int_inject)
  from append_eq_last_sep [OF e2 a [OF assms(5)] a [OF assms(6)]]
  have e3: "(o1 @ 58 # n1) @ 58 # usage_text u1 = (o2 @ 58 # n2) @ 58 # usage_text u2"
    and al: "?alg a1 = ?alg a2" by simp_all
  from append_eq_last_sep [OF e3 u u]
  have e4: "o1 @ 58 # n1 = o2 @ 58 # n2" and us: "usage_text u1 = usage_text u2" by simp_all
  have "a1 = a2" using al assms(5,6) by (auto simp: ED25519_def text_simps)
  moreover have "u1 = u2" using us by (cases u1; cases u2) (simp_all add: text_simps)
  moreover have "o1 = o2 \<and> n1 = n2" using append_eq_last_sep [OF e4 n [OF assms(3)] n [OF assms(4)]] .
  ultimately show ?thesis using \<open>v1 = v2\<close> by simp
qed

lemma aad_domains:
  assumes "key_aad o1 n1 u1 a1 v1 = Inr x"
  shows "kv_aad o2 p2 v2 \<noteq> Inr x" "data_aad o2 n2 v2 \<noteq> Inr x"
proof -
  show "kv_aad o2 p2 v2 \<noteq> Inr x"
  proof
    assume "kv_aad o2 p2 v2 = Inr x"
    from utf8_encode_inject [OF assms [unfolded key_aad_def] this [unfolded kv_aad_def]]
    show False by (simp add: text_simps)
  qed
  show "data_aad o2 n2 v2 \<noteq> Inr x"
  proof
    assume "data_aad o2 n2 v2 = Inr x"
    from utf8_encode_inject [OF assms [unfolded key_aad_def] this [unfolded data_aad_def]]
    show False by (simp add: text_simps)
  qed
qed

section \<open>What a successful decryption relied on\<close>

lemma transit_decrypt_steps:
  assumes "transit_decrypt E owner c w = (Inr res, w')"
  shows "\<exists>parsed r v dek m pt. parse_ciphertext (PyStr c) = Inr parsed
    \<and> key_find owner (tc_key_name parsed) (db w) = Some r \<and> key_usage r = ENCRYPT_DECRYPT
    \<and> vs_dek (vstate w) = Some dek \<and> v \<in> set (rows (named_key_versions (db w)))
    \<and> kyv_key_id v = key_id r \<and> kyv_version v = tc_key_version parsed
    \<and> unwrap_material E dek r v = Inr m
    \<and> bindR (data_aad owner (tc_key_name parsed) (tc_key_version parsed))
        (decrypt_aes_gcm E m (tc_blob parsed)) = Inr pt
    \<and> res = \<lparr>dec_key_name = tc_key_name parsed, dec_key_version = tc_key_version parsed,
             dec_plaintext_b64 = encode_b64 pt\<rparr> \<and> w' = w"
proof -
  have "\<exists>parsed r u x v y m pt. parse_ciphertext (PyStr c) = Inr parsed
      \<and> owned_key E owner (tc_key_name parsed) w = (Inr r, u) \<and> key_usage r = ENCRYPT_DECRYPT
      \<and> vs_dek (vstate u) \<noteq> None \<and> key_version r (tc_key_version parsed) u = (Inr v, x)
      \<and> unwrap_key E r v x = (Inr m, y)
      \<and> bindR (data_aad owner (tc_key_name parsed) (tc_key_version parsed))
          (decrypt_aes_gcm E m (tc_blob parsed)) = Inr pt
      \<and> res = \<lparr>dec_key_name = tc_key_name parsed, dec_key_version = tc_key_version parsed,
               dec_plaintext_b64 = encode_b64 pt\<rparr> \<and> w' = y"
    using assms unfolding transit_decrypt_def
    by (elim bindM_InrE) (auto simp: op_simps split: if_splits)
  then obtain parsed r u x v y m pt where
    a: "parse_ciphertext (PyStr c) = Inr parsed" and
    o: "owned_key E owner (tc_key_name parsed) w = (Inr r, u)" "key_usage r = ENCRYPT_DECRYPT"
    "vs_dek (vstate u) \<noteq> None" and k: "key_version r (tc_key_version parsed) u = (Inr v, x)" and
    m: "unwrap_key E r v x = (Inr m, y)" and
    d: "bindR (data_aad owner (tc_key_name parsed) (tc_key_version parsed))
          (decrypt_aes_gcm E m (tc_blob parsed)) = Inr pt"
      "res = \<lparr>dec_key_name = tc_key_name parsed, dec_key_version = tc_key_version parsed,
               dec_plaintext_b64 = encode_b64 pt\<rparr>" "w' = y"
    by (elim exE conjE) (rule that)
  have u: "u = w" "key_find owner (tc_key_name parsed) (db w) = Some r" using o(1) by (simp_all add: owned_key_Inr)
  have v: "v \<in> set (rows (named_key_versions (db w)))" "kyv_key_id v = key_id r"
    "kyv_version v = tc_key_version parsed" "x = w"
    using key_version_Inr [OF k] u(1) by simp_all
  obtain dek where dek: "vs_dek (vstate w) = Some dek" using o(3) u(1) by auto
  have "unwrap_material E dek r v = Inr m" "y = w" using m dek v(4) by (simp_all add: unwrap_key_run)
  with a o(2) u v dek d show ?thesis by blast
qed

lemma unwrap_sound:
  assumes "aead_sound E" "unwrap_material E dek r v = Inr m"
  shows "\<exists>nonce ct tag aad. decode_b64 (PyStr (kyv_nonce_b64 v)) = Inr nonce
    \<and> decode_b64 (PyStr (kyv_material_b64 v)) = Inr ct \<and> decode_b64 (PyStr (kyv_tag_b64 v)) = Inr tag
    \<and> key_aad (key_owner_email r) (key_name r) (key_usage r) (key_signing_algorithm r) (kyv_version v) = Inr aad
    \<and> ct @ tag = aead_encrypt E dek nonce m aad"
  using assms(2) by (auto simp: unwrap_material_def bindR_Inr_iff dest!: decrypt_sound [OF assms(1)])

section \<open>Refusals\<close>

lemma owned_key_denied:
  assumes "key_name_ok name" "list_all scalar owner" "key_find owner name (db w) = None"
    and "log_ok E (db w)" "length (rows (audit_logs (db w))) < 2 ^ 62"
  shows "\<exists>r w'. owned_key E owner name w = (Inl (Transit KeyUnavailableError), w')
    \<and> named_keys (db w') = named_keys (db w) \<and> named_key_versions (db w') = named_key_versions (db w)
    \<and> vstate w' = vstate w
    \<and> rows (audit_logs (db w')) = rows (audit_logs (db w)) @ [r]
    \<and> aud_requester_email r = Some owner \<and> aud_action r = ACCESS_DENIED
    \<and> aud_target_identifier r = name \<and> log_ok E (db w')"
proof -
  have "list_all scalar (lit ''named_key'')" by (simp add: scalar_lit)
  from log_denied_ok [OF assms(4,5,2) this key_name_scalar [OF assms(1)]] obtain r w' where
    l: "log_denied_access E owner (lit ''named_key'') name w = (Inr (), w')"
    "rows (audit_logs (db w')) = rows (audit_logs (db w)) @ [r]"
    "aud_requester_email r = Some owner \<and> aud_action r = ACCESS_DENIED
      \<and> aud_target_identifier r = name \<and> log_ok E (db w')"
    by blast
  then have "owned_key E owner name w = (Inl (Transit KeyUnavailableError), w')"
    by (simp add: owned_key_missing [OF assms(1-3)] op_simps op_run)
  with l owned_key_keyring [OF this] show ?thesis by blast
qed

section \<open>Other operations and an existing ciphertext\<close>

lemma keyring_step_reads:
  "reads_keyring m \<Longrightarrow> m w = (x, w') \<Longrightarrow> keyring_step E (vstate w) (db w) (db w') \<and> vstate w' = vstate w"
  by (auto simp: reads_keyring_def dest: keeps_run intro!: keyring_step_same)

lemma delete_key_cases:
  assumes "delete_key E owner name w = (x, w')"
  shows "vstate w' = vstate w \<and>
    (named_keys (db w') = named_keys (db w) \<and> named_key_versions (db w') = named_key_versions (db w)
     \<or> db w' = nk_removed owner name (db w))"
proof -
  obtain y w1 where o: "owned_key E owner name w = (y, w1)" by (rule prod.exhaust)
  show ?thesis
  proof (cases y)
    case (Inl e)
    with assms o have "w' = w1" by (simp add: delete_key_def op_run)
    with owned_key_keyring [OF o] show ?thesis by simp
  next
    case (Inr r)
    with o have k: "key_name_ok name" "list_all scalar owner" "w1 = w" by (simp_all add: owned_key_Inr)
    from delete_owned_run [OF k(2) key_name_scalar [OF k(1)]] assms o Inr k(3) show ?thesis
      by (auto simp: delete_key_def op_run op_simps split: if_splits)
  qed
qed

lemma transit_decrypt_removed:
  assumes "nk_ok (db w)" "transit_decrypt E owner c w = (Inr res, w1)"
    and "db v = nk_removed o2 n2 (db w)" "vstate v = vstate w" "(o2, n2) \<noteq> (owner, dec_key_name res)"
  shows "transit_decrypt E owner c v = (Inr res, v)"
proof -
  obtain parsed r dek where
    d: "parse_ciphertext (PyStr c) = Inr parsed" "list_all scalar owner"
    "key_find owner (tc_key_name parsed) (db w) = Some r" "vs_dek (vstate w) = Some dek"
    "decrypt_answer E dek owner parsed r (nk_versions (db w) r) = Inr res"
    by (rule transit_decrypt_Inr [OF assms(1,2)])
  have "dec_key_name res = tc_key_name parsed"
    using d(5) by (auto simp: decrypt_answer_def Let_def bindR_Inr_iff split: if_splits)
  with assms(5) have ne: "(owner, tc_key_name parsed) \<noteq> (o2, n2)" by auto
  note k = nk_removed_ok [OF assms(1)]
  have "key_find owner (tc_key_name parsed) (db v) = Some r"
    using k(4) [of owner "tc_key_name parsed" o2 n2] ne d(3) by (auto simp: assms(3))
  moreover have "nk_versions (db v) r = nk_versions (db w) r"
    using k(5) [OF d(3)] ne by (simp add: assms(3))
  moreover have "nk_ok (db v)" using k(1) by (simp add: assms(3))
  ultimately show ?thesis
    using transit_decrypt_run [of v, OF _ d(2) _ d(1), of dek r E] d(4,5) assms(4) by simp
qed

section \<open>Sign and verify\<close>

lemma verify_accepts_own:
  assumes "ed25519_ok E" "length m = 32"
    and "kyv_public_key_b64 v = Some (encode_b64 (ed25519_public E m))"
  shows "version_accepts E (ed25519_sign E m digest) digest v"
proof -
  have l: "length (ed25519_public E m) = 32" using assms(1,2) by (simp add: ed25519_ok_def)
  have "length (encode_b64 (ed25519_public E m)) = 44"
    using length_b2a_base64 [of "octet_vals (ed25519_public E m)"] l by (simp add: encode_b64_def octet_vals_def)
  then have "encode_b64 (ed25519_public E m) \<noteq> []" by auto
  with assms l show ?thesis by (simp add: version_accepts_def codec_simps ed25519_ok_def)
qed

lemma verify_match_own:
  assumes "version_accepts E s digest v" "v \<in> set vs"
  shows "verify_match E (encode_b64 s) digest vs \<noteq> None"
  using assms by (auto simp: verify_match_def codec_simps find_None_conv)

text \<open>The first hit in the reversed list is the last hit of the list.\<close>

lemma find_rev_last:
  "find P (rev xs) = Some x \<Longrightarrow>
   \<exists>i < length xs. x = xs ! i \<and> P x \<and> (\<forall>j. i < j \<longrightarrow> j < length xs \<longrightarrow> \<not> P (xs ! j))"
proof (induction xs rule: rev_induct)
  case (snoc y ys)
  show ?case
  proof (cases "P y")
    case True
    with snoc.prems show ?thesis by (intro exI [of _ "length ys"]) auto
  next
    case False
    with snoc obtain i where "i < length ys" "x = ys ! i" "P x" "\<forall>j. i < j \<longrightarrow> j < length ys \<longrightarrow> \<not> P (ys ! j)"
      by auto
    with False show ?thesis
      by (intro exI [of _ i]) (auto simp: nth_append less_Suc_eq)
  qed
qed simp

lemma verify_match_Some:
  assumes "verify_match E sig digest vs = Some v"
  shows "\<exists>s. decode_b64 (PyStr sig) = Inr s \<and> v \<in> set vs \<and> version_accepts E s digest v"
  using assms by (auto simp: verify_match_def dest!: find_SomeD split: sum.splits)

section \<open>The examples\<close>

definition toy_key_name :: pystr where "toy_key_name = lit ''k''"

lemma toy_key_name_ok [simp]: "key_name_ok toy_key_name"
  by (simp add: toy_key_name_def key_name_ok_def key_char_def text_simps)

lemma toy_nk_ok: "nk_ok (db toy_unlocked)"
  by (simp add: nk_ok_def nks.ok_empty)

lemma toy_no_key: "key_find owner name (db toy_unlocked) = None"
  by (simp add: key_find_def tbl_one_def)

lemma toy_keyring_sealed: "keyring_sealed toy toy_dek (db toy_unlocked)"
  by (simp add: keyring_sealed_def key_find_def tbl_one_def)

text \<open>A state with one encryption key.\<close>

lemma toy_keyed:
  "\<exists>w :: world. nk_ok (db w) \<and> keyring_sealed toy toy_dek (db w) \<and> vs_dek (vstate w) = Some toy_dek
    \<and> key_stored toy_owner toy_key_name ENCRYPT_DECRYPT 1 (db w)"
  using create_key_ok [OF toy_aead_ok toy_nk_ok toy_keyring_sealed _ length_toy_dek toy_texts(1)
      toy_key_name_ok toy_no_key] by auto

lemma toy_upper: "py_upper (unicode toy) ED25519 = ED25519" "py_upper (unicode toy) RAW = RAW"
  by code_simp+

text \<open>A state with one signing key.\<close>

lemma toy_signing:
  "\<exists>w :: world. nk_ok (db w) \<and> keyring_sealed toy toy_dek (db w) \<and> vs_dek (vstate w) = Some toy_dek
    \<and> key_stored toy_owner toy_key_name SIGN_VERIFY 1 (db w)"
  using create_signing_key_ok [OF toy_aead_ok toy_nk_ok toy_keyring_sealed _ length_toy_dek toy_texts(1)
      toy_key_name_ok toy_no_key toy_upper(1)] by auto

lemma toy_ed25519_ok: "ed25519_ok toy"
  by (simp add: ed25519_ok_def toy_def)

lemma toy_digest: "message_digest toy (encode_b64 [1]) RAW = Inr (sha256_digest toy [1])"
  by (simp add: message_digest_def decode_payload_def codec_simps toy_upper(2) [simplified])

lemma toy_algorithm:
  assumes "keyring_sealed toy toy_dek d" "key_find owner name d = Some r" "key_usage r = SIGN_VERIFY"
  shows "validate_algorithm toy r ED25519 = Inr ()"
  using assms toy_upper(1) by (simp add: keyring_sealed_def validate_algorithm_def usage_algorithm_def)

section \<open>Properties\<close>

text \<open>C15: what was encrypted is decrypted. On a consistent keyring an owner's encryption with
  their key succeeds for every Base64 payload, and in every later state to which the keyring
  has grown (by creations and rotations of anybody's keys) the ciphertext decrypts to the same
  bytes, under the version that encrypted it.\<close>

theorem transit_round_trip:
  assumes "aead_ok E" "nk_ok (db w)" "keyring_sealed E dek (db w)" "vs_dek (vstate w) = Some dek"
    and "key_name_ok name" "list_all scalar owner" "key_stored owner name ENCRYPT_DECRYPT n (db w)"
    and "n \<le> 999999999" "decode_b64 (PyStr p64) = Inr pt"
  shows "\<exists>c w'. transit_encrypt E owner name p64 w =
      (Inr \<lparr>enc_key_name = name, enc_key_version = n, enc_ciphertext = c\<rparr>, w') \<and> db w' = db w
    \<and> (\<forall>v. keyring_extends (db w') (db v) \<and> vs_dek (vstate v) = Some dek \<longrightarrow>
        transit_decrypt E owner c v =
          (Inr \<lparr>dec_key_name = name, dec_key_version = n, dec_plaintext_b64 = encode_b64 pt\<rparr>, v))"
proof -
  from assms(7) obtain r where r: "key_find owner name (db w) = Some r" "key_usage r = ENCRYPT_DECRYPT"
    "key_latest_version r = n" by (auto simp: key_stored_def)
  from decrypt_of_encrypt [OF assms(1-6) r(1,2) _ assms(9)] r(3) assms(8) obtain c w' where
    e: "transit_encrypt E owner name p64 w =
      (Inr \<lparr>enc_key_name = name, enc_key_version = n, enc_ciphertext = c\<rparr>, w')"
    "db w' = db w" "vstate w' = vstate w" and
    d: "transit_decrypt E owner c w' =
      (Inr \<lparr>dec_key_name = name, dec_key_version = n, dec_plaintext_b64 = encode_b64 pt\<rparr>, w')"
    by auto
  have "nk_ok (db w')" using assms(2) e(2) by simp
  from transit_decrypt_extends [OF this d] e assms(4) show ?thesis by auto
qed

theorem transit_round_trip_witness:
  "\<exists>w c. transit_decrypt toy toy_owner c w =
    (Inr \<lparr>dec_key_name = toy_key_name, dec_key_version = 1, dec_plaintext_b64 = encode_b64 [7]\<rparr>, w)"
proof -
  obtain w :: world where w: "nk_ok (db w)" "keyring_sealed toy toy_dek (db w)"
    "vs_dek (vstate w) = Some toy_dek" "key_stored toy_owner toy_key_name ENCRYPT_DECRYPT 1 (db w)"
    using toy_keyed by blast
  have "decode_b64 (PyStr (encode_b64 [7])) = Inr [7]" by (rule decode_encode_b64)
  from transit_round_trip [OF toy_aead_ok w(1-3) toy_key_name_ok toy_texts(1) w(4) _ this, simplified]
  obtain c and w' :: world where c: "db w' = db w \<and> (\<forall>v. keyring_extends (db w') (db v) \<and> vs_dek (vstate v) = Some toy_dek
      \<longrightarrow> transit_decrypt toy toy_owner c v = (Inr \<lparr>dec_key_name = toy_key_name, dec_key_version = 1,
            dec_plaintext_b64 = encode_b64 [7]\<rparr>, v))"
    by blast
  then have "keyring_extends (db w') (db w)" using keyring_extends_refl [OF w(1) refl refl] by simp
  with c w(3) show ?thesis by blast
qed

text \<open>A ciphertext that decrypts keeps decrypting to the same result, whatever any user does:
  creating and rotating keys, all uses of keys, and deleting any other key, succeed or fail.\<close>

theorem decrypt_survives:
  assumes "nk_ok (db w)" "transit_decrypt E owner c w = (Inr res, w)"
    and "w' \<in> {snd (create_key E o2 n2 w), snd (create_signing_key E o2 n2 alg w), snd (rotate_key E o2 n2 w),
               snd (transit_encrypt E o2 n2 p w), snd (transit_decrypt E o2 c2 w),
               snd (transit_sign E o2 n2 m k alg w), snd (transit_verify E o2 n2 m k sig alg pinned w),
               snd (list_keys o2 w)}
      \<or> w' = snd (delete_key E o2 n2 w) \<and> (o2, n2) \<noteq> (owner, dec_key_name res)"
  shows "transit_decrypt E owner c w' = (Inr res, w')"
proof -
  have grow: "transit_decrypt E owner c w' = (Inr res, w')"
    if "keyring_step E (vstate w) (db w) (db w') \<and> vstate w' = vstate w"
  proof (rule transit_decrypt_extends [OF assms(1,2)])
    show "keyring_extends (db w) (db w')" using that keyring_step_extends [OF assms(1)] by blast
    show "vs_dek (vstate w') = vs_dek (vstate w)" using that by simp
  qed
  from assms(3) show ?thesis
  proof
    assume "w' \<in> {snd (create_key E o2 n2 w), snd (create_signing_key E o2 n2 alg w), snd (rotate_key E o2 n2 w),
               snd (transit_encrypt E o2 n2 p w), snd (transit_decrypt E o2 c2 w),
               snd (transit_sign E o2 n2 m k alg w), snd (transit_verify E o2 n2 m k sig alg pinned w),
               snd (list_keys o2 w)}"
    then have "keyring_step E (vstate w) (db w) (db w') \<and> vstate w' = vstate w"
      using create_key_step [OF assms(1), OF prod.collapse [symmetric]]
        create_signing_key_step [OF assms(1), OF prod.collapse [symmetric]]
        rotate_key_step [OF assms(1), OF prod.collapse [symmetric]]
        keyring_step_reads [OF reads_transit(1) prod.collapse [symmetric]]
        keyring_step_reads [OF reads_transit(2) prod.collapse [symmetric]]
        keyring_step_reads [OF reads_transit(3) prod.collapse [symmetric]]
        keyring_step_reads [OF reads_transit(4) prod.collapse [symmetric]]
        keyring_step_reads [OF reads_transit(5) prod.collapse [symmetric]]
      by (elim insertE emptyE) (simp_all only:)
    then show ?thesis by (rule grow)
  next
    assume d: "w' = snd (delete_key E o2 n2 w) \<and> (o2, n2) \<noteq> (owner, dec_key_name res)"
    then have "delete_key E o2 n2 w = (fst (delete_key E o2 n2 w), w')" by simp
    from delete_key_cases [OF this] grow keyring_step_same transit_decrypt_removed [OF assms(1,2)] d
    show ?thesis by blast
  qed
qed

theorem decrypt_survives_witness:
  "\<exists>w c. transit_decrypt toy toy_owner c (snd (rotate_key toy toy_owner toy_key_name w)) =
    (Inr \<lparr>dec_key_name = toy_key_name, dec_key_version = 1, dec_plaintext_b64 = encode_b64 [7]\<rparr>,
     snd (rotate_key toy toy_owner toy_key_name w))"
proof -
  obtain w :: world and r where w: "nk_ok (db w)" "keyring_sealed toy toy_dek (db w)"
    "vs_dek (vstate w) = Some toy_dek" "key_find toy_owner toy_key_name (db w) = Some r"
    "key_usage r = ENCRYPT_DECRYPT" "key_latest_version r = 1"
    using toy_keyed by (auto simp: key_stored_def)
  have "decode_b64 (PyStr (encode_b64 [7])) = Inr [7]" by (rule decode_encode_b64)
  from decrypt_of_encrypt [OF toy_aead_ok w(1-3) toy_key_name_ok toy_texts(1) w(4,5) _ this] w(6)
  obtain c w1 where d: "db w1 = db w" "transit_decrypt toy toy_owner c w1 =
      (Inr \<lparr>dec_key_name = toy_key_name, dec_key_version = 1, dec_plaintext_b64 = encode_b64 [7]\<rparr>, w1)"
    by auto
  have "nk_ok (db w1)" using w(1) d(1) by simp
  from decrypt_survives [OF this d(2), of "snd (rotate_key toy toy_owner toy_key_name w1)"] show ?thesis by blast
qed

text \<open>C13: a decryption is authentic whatever happened to the database. It only ever opens a
  ciphertext made under a key whose material was wrapped with the current DEK for exactly this
  owner, name, usage and version; no invariant of the tables is assumed.\<close>

theorem transit_decrypt_authentic:
  assumes "aead_sound E" "transit_decrypt E owner c w = (Inr res, w')"
  shows "\<exists>parsed v alg dek nonce ct tag m kaad aad pt.
      parse_ciphertext (PyStr c) = Inr parsed \<and> vs_dek (vstate w) = Some dek
    \<and> dec_key_name res = tc_key_name parsed \<and> dec_key_version res = tc_key_version parsed
    \<and> v \<in> set (rows (named_key_versions (db w)))
    \<and> decode_b64 (PyStr (kyv_nonce_b64 v)) = Inr nonce \<and> decode_b64 (PyStr (kyv_material_b64 v)) = Inr ct
    \<and> decode_b64 (PyStr (kyv_tag_b64 v)) = Inr tag
    \<and> key_aad owner (dec_key_name res) ENCRYPT_DECRYPT alg (dec_key_version res) = Inr kaad
    \<and> ct @ tag = aead_encrypt E dek nonce m kaad
    \<and> data_aad owner (dec_key_name res) (dec_key_version res) = Inr aad
    \<and> blob_ciphertext (tc_blob parsed) @ blob_tag (tc_blob parsed) =
        aead_encrypt E m (blob_nonce (tc_blob parsed)) pt aad
    \<and> dec_plaintext_b64 res = encode_b64 pt \<and> w' = w"
proof -
  from transit_decrypt_steps [OF assms(2)] obtain parsed r v dek m pt where
    p: "parse_ciphertext (PyStr c) = Inr parsed" and
    r: "key_find owner (tc_key_name parsed) (db w) = Some r" "key_usage r = ENCRYPT_DECRYPT" and
    v: "vs_dek (vstate w) = Some dek" "v \<in> set (rows (named_key_versions (db w)))"
      "kyv_version v = tc_key_version parsed" "unwrap_material E dek r v = Inr m" and
    d: "bindR (data_aad owner (tc_key_name parsed) (tc_key_version parsed))
          (decrypt_aes_gcm E m (tc_blob parsed)) = Inr pt"
      "res = \<lparr>dec_key_name = tc_key_name parsed, dec_key_version = tc_key_version parsed,
               dec_plaintext_b64 = encode_b64 pt\<rparr>" "w' = w"
    by (elim exE conjE) (rule that)
  from d(1) obtain aad where aad: "data_aad owner (tc_key_name parsed) (tc_key_version parsed) = Inr aad"
    "decrypt_aes_gcm E m (tc_blob parsed) aad = Inr pt"
    by (auto simp: bindR_Inr_iff)
  note s = decrypt_sound [OF assms(1) aad(2)]
  from unwrap_sound [OF assms(1) v(4)] key_find_names [OF r(1)] r(2) v(3) obtain nonce ct tag kaad where
    "decode_b64 (PyStr (kyv_nonce_b64 v)) = Inr nonce" "decode_b64 (PyStr (kyv_material_b64 v)) = Inr ct"
    "decode_b64 (PyStr (kyv_tag_b64 v)) = Inr tag"
    "key_aad owner (tc_key_name parsed) ENCRYPT_DECRYPT (key_signing_algorithm r) (tc_key_version parsed) = Inr kaad"
    "ct @ tag = aead_encrypt E dek nonce m kaad"
    by auto
  moreover have "dec_key_name res = tc_key_name parsed" "dec_key_version res = tc_key_version parsed"
    "dec_plaintext_b64 res = encode_b64 pt" by (simp_all add: d(2))
  ultimately show ?thesis using p v(1,2) aad(1) s d(3) by metis
qed

lemma toy_encrypted:
  "\<exists>w c. transit_decrypt toy toy_owner c w =
    (Inr \<lparr>dec_key_name = toy_key_name, dec_key_version = 1, dec_plaintext_b64 = encode_b64 [7]\<rparr>, w)"
proof -
  obtain w :: world and r where w: "nk_ok (db w)" "keyring_sealed toy toy_dek (db w)"
    "vs_dek (vstate w) = Some toy_dek" "key_find toy_owner toy_key_name (db w) = Some r"
    "key_usage r = ENCRYPT_DECRYPT" "key_latest_version r = 1"
    using toy_keyed by (auto simp: key_stored_def)
  have "decode_b64 (PyStr (encode_b64 [7])) = Inr [7]" by (rule decode_encode_b64)
  from decrypt_of_encrypt [OF toy_aead_ok w(1-3) toy_key_name_ok toy_texts(1) w(4,5) _ this] w(6)
  show ?thesis by auto
qed

theorem transit_decrypt_authentic_witness:
  "\<exists>c parsed m aad. parse_ciphertext (PyStr c) = Inr parsed
    \<and> blob_ciphertext (tc_blob parsed) @ blob_tag (tc_blob parsed) =
        aead_encrypt toy m (blob_nonce (tc_blob parsed)) [7] aad"
proof -
  obtain w c where d: "transit_decrypt toy toy_owner c w =
    (Inr \<lparr>dec_key_name = toy_key_name, dec_key_version = 1, dec_plaintext_b64 = encode_b64 [7]\<rparr>, w)"
    using toy_encrypted by blast
  from transit_decrypt_authentic [OF toy_aead_sound d] obtain parsed m aad pt where
    "parse_ciphertext (PyStr c) = Inr parsed" "encode_b64 [7] = encode_b64 pt"
    "blob_ciphertext (tc_blob parsed) @ blob_tag (tc_blob parsed) =
        aead_encrypt toy m (blob_nonce (tc_blob parsed)) pt aad"
    by auto
  then show ?thesis by (auto simp: encode_b64_inject)
qed

text \<open>C23: a key that does not exist and a key of somebody else are refused alike: every use of
  the name answers \<open>KeyUnavailableError\<close>, locked or not, leaves all keys untouched and adds
  exactly one \<open>ACCESS_DENIED\<close> entry to the log, which stays consistent.\<close>

theorem transit_denied:
  assumes "key_name_ok name" "list_all scalar owner" "key_find owner name (db w) = None"
    and "log_ok E (db w)" "length (rows (audit_logs (db w))) < 2 ^ 62"
    and "parse_ciphertext (PyStr c) = Inr parsed" "tc_key_name parsed = name"
  shows "\<exists>r w'. transit_encrypt E owner name p w = (Inl (Transit KeyUnavailableError), w')
    \<and> transit_decrypt E owner c w = (Inl (Transit KeyUnavailableError), w')
    \<and> transit_sign E owner name m k a w = (Inl (Transit KeyUnavailableError), w')
    \<and> transit_verify E owner name m k s a pinned w = (Inl (Transit KeyUnavailableError), w')
    \<and> rotate_key E owner name w = (Inl (Transit KeyUnavailableError), w')
    \<and> delete_key E owner name w = (Inl (Transit KeyUnavailableError), w')
    \<and> named_keys (db w') = named_keys (db w) \<and> named_key_versions (db w') = named_key_versions (db w)
    \<and> vstate w' = vstate w
    \<and> rows (audit_logs (db w')) = rows (audit_logs (db w)) @ [r]
    \<and> aud_requester_email r = Some owner \<and> aud_action r = ACCESS_DENIED
    \<and> aud_target_identifier r = name \<and> log_ok E (db w')"
proof -
  obtain r w' where o: "owned_key E owner name w = (Inl (Transit KeyUnavailableError), w')" and
    rest: "named_keys (db w') = named_keys (db w) \<and> named_key_versions (db w') = named_key_versions (db w)
    \<and> vstate w' = vstate w
    \<and> rows (audit_logs (db w')) = rows (audit_logs (db w)) @ [r]
    \<and> aud_requester_email r = Some owner \<and> aud_action r = ACCESS_DENIED
    \<and> aud_target_identifier r = name \<and> log_ok E (db w')"
    using owned_key_denied [OF assms(1-5)] by blast
  then have "transit_encrypt E owner name p w = (Inl (Transit KeyUnavailableError), w')"
    "transit_decrypt E owner c w = (Inl (Transit KeyUnavailableError), w')"
    "transit_sign E owner name m k a w = (Inl (Transit KeyUnavailableError), w')"
    "transit_verify E owner name m k s a pinned w = (Inl (Transit KeyUnavailableError), w')"
    "rotate_key E owner name w = (Inl (Transit KeyUnavailableError), w')"
    "delete_key E owner name w = (Inl (Transit KeyUnavailableError), w')"
    using assms(6,7)
    by (simp_all add: transit_encrypt_def transit_decrypt_def transit_sign_def transit_verify_def
        rotate_key_def delete_key_def op_run op_simps)
  with rest show ?thesis by blast
qed

lemma toy_token:
  "\<exists>c. parse_ciphertext (PyStr c) = Inr \<lparr>tc_key_name = toy_key_name, tc_key_version = 1,
     tc_blob = \<lparr>blob_nonce = replicate 12 0, blob_ciphertext = [], blob_tag = replicate 16 0\<rparr>\<rparr>"
proof -
  let ?b = "\<lparr>blob_nonce = replicate 12 0, blob_ciphertext = [], blob_tag = replicate 16 0\<rparr>"
  obtain c where "format_ciphertext toy_key_name 1 ?b = Inr c"
    using format_ciphertext_ok [OF toy_key_name_ok, of 1 ?b] by auto
  from parse_format [OF toy_key_name_ok _ _ this] show ?thesis by auto
qed

theorem transit_denied_witness:
  "\<exists>w'. transit_encrypt toy toy_owner toy_key_name [] toy_unlocked =
    (Inl (Transit KeyUnavailableError), w') \<and> log_ok toy (db w')"
proof -
  obtain c where c: "parse_ciphertext (PyStr c) = Inr \<lparr>tc_key_name = toy_key_name, tc_key_version = 1,
     tc_blob = \<lparr>blob_nonce = replicate 12 0, blob_ciphertext = [], blob_tag = replicate 16 0\<rparr>\<rparr>"
    using toy_token by blast
  have "log_ok toy (db toy_unlocked)" using toy_log_ok by simp
  from transit_denied [OF toy_key_name_ok toy_texts(1) toy_no_key this _ c] show ?thesis by fastforce
qed

text \<open>Keys are used for what they were made for. Signing keys neither encrypt nor decrypt,
  encryption keys neither sign nor verify; the refusal changes nothing and comes before the
  vault state and the payload are looked at.\<close>

theorem key_usage_separated:
  assumes "key_name_ok name" "list_all scalar owner" "key_find owner name (db w) = Some r"
    and "parse_ciphertext (PyStr c) = Inr parsed" "tc_key_name parsed = name"
  shows "if key_usage r = SIGN_VERIFY
    then transit_encrypt E owner name p w = (Inl (Transit InvalidKeyUsageError), w)
       \<and> transit_decrypt E owner c w = (Inl (Transit InvalidKeyUsageError), w)
    else transit_sign E owner name m k a w = (Inl (Transit InvalidKeyUsageError), w)
       \<and> transit_verify E owner name m k s a pinned w = (Inl (Transit InvalidKeyUsageError), w)"
  using assms owned_key_found [OF assms(1-3)]
  by (cases "key_usage r")
     (simp_all add: transit_encrypt_def transit_decrypt_def transit_sign_def transit_verify_def op_run op_simps)

theorem key_usage_separated_witness:
  "\<exists>w. transit_encrypt toy toy_owner toy_key_name [] w = (Inl (Transit InvalidKeyUsageError), w)"
proof -
  obtain w :: world and r where w: "key_find toy_owner toy_key_name (db w) = Some r" "key_usage r = SIGN_VERIFY"
    using toy_signing by (auto simp: key_stored_def)
  obtain c where c: "parse_ciphertext (PyStr c) = Inr \<lparr>tc_key_name = toy_key_name, tc_key_version = 1,
     tc_blob = \<lparr>blob_nonce = replicate 12 0, blob_ciphertext = [], blob_tag = replicate 16 0\<rparr>\<rparr>"
    using toy_token by blast
  from key_usage_separated [OF toy_key_name_ok toy_texts(1) w(1) c, of toy] w(2) show ?thesis by auto
qed

lemma sign_verifies:
  assumes "ed25519_ok E" "nk_ok (db w)" "keyring_sealed E dek (db w)" "vs_dek (vstate w) = Some dek"
    and "key_name_ok name" "list_all scalar owner" "key_find owner name (db w) = Some r"
    and "key_usage r = SIGN_VERIFY" "key_latest_version r < 2 ^ 62"
    and "validate_algorithm E r algorithm = Inr ()" "message_digest E msg kind = Inr digest"
    and "keyring_extends (db w) (db v)" "vs_dek (vstate v) = Some dek"
    and "\<And>q. key_find owner name (db v) = Some q \<Longrightarrow> key_latest_version q < 2 ^ 62"
  shows "\<exists>sig. transit_sign E owner name msg kind algorithm w = (Inr sig, w)
    \<and> sig_key_version sig = key_latest_version r
    \<and> (\<exists>k. transit_verify E owner name msg kind (sig_signature_b64 sig) algorithm None v =
        (Inr \<lparr>ver_key_name = name, ver_key_version = Some k, ver_algorithm = key_signing_algorithm r,
              ver_signature_valid = True\<rparr>, v))
    \<and> transit_verify E owner name msg kind (sig_signature_b64 sig) algorithm (Some (sig_key_version sig)) v =
        (Inr \<lparr>ver_key_name = name, ver_key_version = Some (sig_key_version sig),
              ver_algorithm = key_signing_algorithm r, ver_signature_valid = True\<rparr>, v)"
proof -
  let ?n = "key_latest_version r" and ?vs = "nk_versions (db w) r"
  have bound: "?n < 2 ^ 63" using assms(9) by simp
  obtain m where m: "length m = 32"
    "kyv_public_key_b64 (?vs ! nat (?n - 1)) = Some (encode_b64 (ed25519_public E m))"
    and sg: "transit_sign E owner name msg kind algorithm w =
       (Inr \<lparr>sig_key_name = name, sig_key_version = ?n, sig_algorithm = key_signing_algorithm r,
             sig_signature_b64 = encode_b64 (ed25519_sign E m digest)\<rparr>, w)"
    by (rule transit_sign_run [OF assms(2-8) bound assms(10,11)])
  note l = last_version [OF assms(2,7)]
  from assms(12,7) obtain q ext where
    q: "nk_ok (db v)" "key_find owner name (db v) = Some q" "key_ident q = key_ident r"
    "nk_versions (db v) q = ?vs @ ext"
    unfolding keyring_extends_def by blast
  have same: "key_usage q = SIGN_VERIFY" "validate_algorithm E q algorithm = Inr ()"
    "key_signing_algorithm q = key_signing_algorithm r"
    using q(3) assms(8,10) by (simp_all add: key_ident_def validate_algorithm_def)
  let ?s = "ed25519_sign E m digest"
  let ?v = "(?vs @ ext) ! nat (?n - 1)"
  have at: "?v = ?vs ! nat (?n - 1)" using l(2) by (simp add: nth_append)
  have acc: "version_accepts E ?s digest ?v"
    using verify_accepts_own [OF assms(1) m] at by simp
  have inset: "?v \<in> set (?vs @ ext)" using l(4) at by simp
  have ver: "kyv_version ?v = ?n" using l(5) at by simp
  have rng: "1 \<le> ?n \<and> ?n \<le> int (length (?vs @ ext))" using l(1,3) by simp
  have len: "length (nk_versions (db v) q) < 2 ^ 62"
    using assms(14) [OF q(2)] nk_versions_numbered [OF q(1,2)] by simp
  have "verify_match E (encode_b64 ?s) digest (rev (?vs @ ext)) \<noteq> None"
    using inset by (intro verify_match_own [OF acc]) (simp only: set_rev)
  then obtain x where x: "verify_match E (encode_b64 ?s) digest (rev (?vs @ ext)) = Some x" by blast
  note run = transit_verify_run [OF q(1) assms(13,5,6) q(2) same(1,2) assms(11) len, of _ "encode_b64 ?s"]
  have none: "transit_verify E owner name msg kind (encode_b64 ?s) algorithm None v =
      (Inr \<lparr>ver_key_name = name, ver_key_version = Some (kyv_version x),
            ver_algorithm = key_signing_algorithm r, ver_signature_valid = True\<rparr>, v)"
    using run [of None] x by (simp add: verify_candidates_def q(4) same(3))
  have "verify_match E (encode_b64 ?s) digest [?v] = Some ?v"
    using acc by (simp add: verify_match_def codec_simps)
  then have one: "transit_verify E owner name msg kind (encode_b64 ?s) algorithm (Some ?n) v =
      (Inr \<lparr>ver_key_name = name, ver_key_version = Some ?n,
            ver_algorithm = key_signing_algorithm r, ver_signature_valid = True\<rparr>, v)"
    using run [of "Some ?n"] rng bound ver by (simp add: verify_candidates_def q(4) same(3))
  from sg none one show ?thesis by auto
qed

text \<open>C27: what was signed verifies. Signing with a signing key of a consistent keyring succeeds,
  and in every later state of the keyring the signature is valid, for the version that made
  it when that version is pinned, and for the key when none is.\<close>

theorem sign_then_verify:
  assumes "ed25519_ok E" "nk_ok (db w)" "keyring_sealed E dek (db w)" "vs_dek (vstate w) = Some dek"
    and "key_name_ok name" "list_all scalar owner" "key_find owner name (db w) = Some r"
    and "key_usage r = SIGN_VERIFY" "key_latest_version r < 2 ^ 62"
    and "validate_algorithm E r algorithm = Inr ()" "message_digest E msg kind = Inr digest"
    and "keyring_extends (db w) (db v)" "vs_dek (vstate v) = Some dek"
    and "\<And>q. key_find owner name (db v) = Some q \<Longrightarrow> key_latest_version q < 2 ^ 62"
  shows "\<exists>sig. transit_sign E owner name msg kind algorithm w = (Inr sig, w)
    \<and> sig_key_version sig = key_latest_version r
    \<and> (\<exists>k. transit_verify E owner name msg kind (sig_signature_b64 sig) algorithm None v =
        (Inr \<lparr>ver_key_name = name, ver_key_version = Some k, ver_algorithm = key_signing_algorithm r,
              ver_signature_valid = True\<rparr>, v))
    \<and> transit_verify E owner name msg kind (sig_signature_b64 sig) algorithm (Some (sig_key_version sig)) v =
        (Inr \<lparr>ver_key_name = name, ver_key_version = Some (sig_key_version sig),
              ver_algorithm = key_signing_algorithm r, ver_signature_valid = True\<rparr>, v)"
  by (rule sign_verifies [OF assms])

theorem sign_then_verify_witness:
  "\<exists>w sig. transit_sign toy toy_owner toy_key_name (encode_b64 [1]) RAW ED25519 w = (Inr sig, w)
    \<and> transit_verify toy toy_owner toy_key_name (encode_b64 [1]) RAW (sig_signature_b64 sig) ED25519 (Some 1) w =
        (Inr \<lparr>ver_key_name = toy_key_name, ver_key_version = Some 1, ver_algorithm = Some ED25519,
              ver_signature_valid = True\<rparr>, w)"
proof -
  obtain w :: world and r where w: "nk_ok (db w)" "keyring_sealed toy toy_dek (db w)"
    "vs_dek (vstate w) = Some toy_dek" "key_find toy_owner toy_key_name (db w) = Some r"
    "key_usage r = SIGN_VERIFY" "key_latest_version r = 1"
    using toy_signing by (auto simp: key_stored_def)
  have alg: "key_signing_algorithm r = Some ED25519"
    using w(2,4,5) by (simp add: keyring_sealed_def usage_algorithm_def)
  have b: "key_latest_version r < 2 ^ 62" using w(6) by simp
  have "key_latest_version q < 2 ^ 62" if "key_find toy_owner toy_key_name (db w) = Some q" for q
    using that w(4,6) by simp
  from sign_then_verify [OF toy_ed25519_ok w(1-3) toy_key_name_ok toy_texts(1) w(4,5) b
      toy_algorithm [OF w(2,4,5)] toy_digest keyring_extends_refl [OF w(1) refl refl] w(3) this]
  show ?thesis unfolding alg w(6) by metis
qed

text \<open>C28: verification is exact. On a consistent keyring a verification without a
  pinned version says valid exactly if some version of the key has a public key that accepts
  the signature for the digest, and the version it reports is the newest such one.\<close>

theorem verify_newest:
  assumes "nk_ok (db w)" "vs_dek (vstate w) = Some dek" "key_name_ok name" "list_all scalar owner"
    and "key_find owner name (db w) = Some r" "key_usage r = SIGN_VERIFY"
    and "validate_algorithm E r algorithm = Inr ()" "message_digest E msg kind = Inr digest"
    and "length (nk_versions (db w) r) < 2 ^ 62" "decode_b64 (PyStr sig) = Inr s"
  shows "\<exists>res. transit_verify E owner name msg kind sig algorithm None w = (Inr res, w)
    \<and> (ver_signature_valid res \<longleftrightarrow> (\<exists>v \<in> set (nk_versions (db w) r). version_accepts E s digest v))
    \<and> (case ver_key_version res of
         None \<Rightarrow> \<not> ver_signature_valid res
       | Some k \<Rightarrow> ver_signature_valid res \<and> 1 \<le> k \<and> k \<le> int (length (nk_versions (db w) r))
           \<and> version_accepts E s digest (nk_versions (db w) r ! nat (k - 1))
           \<and> (\<forall>v \<in> set (nk_versions (db w) r). version_accepts E s digest v \<longrightarrow> kyv_version v \<le> k))"
proof -
  let ?vs = "nk_versions (db w) r" and ?m = "verify_match E sig digest (rev (nk_versions (db w) r))"
  have run: "transit_verify E owner name msg kind sig algorithm None w =
      (Inr \<lparr>ver_key_name = name, ver_key_version = map_option kyv_version ?m,
            ver_algorithm = key_signing_algorithm r, ver_signature_valid = (?m \<noteq> None)\<rparr>, w)"
    using transit_verify_run [OF assms(1-9), of None sig] by (simp add: verify_candidates_def)
  have m: "?m = find (version_accepts E s digest) (rev ?vs)" using assms(10) by (simp add: verify_match_def)
  have at: "kyv_version (?vs ! i) = int i + 1" if "i < length ?vs" for i
    using version_at [OF assms(1,5) that] .
  show ?thesis
  proof (cases ?m)
    case None
    with m have "find (version_accepts E s digest) (rev ?vs) = None" by simp
    then have "\<forall>v \<in> set ?vs. \<not> version_accepts E s digest v" by (simp only: find_None_conv set_rev)
    with run None show ?thesis by simp
  next
    case (Some x)
    with m obtain i where i: "i < length ?vs" "x = ?vs ! i" "version_accepts E s digest x"
      "\<And>j. i < j \<Longrightarrow> j < length ?vs \<Longrightarrow> \<not> version_accepts E s digest (?vs ! j)"
      using find_rev_last [of "version_accepts E s digest" ?vs x] by auto
    have top: "kyv_version v \<le> int i + 1" if "v \<in> set ?vs" "version_accepts E s digest v" for v
    proof -
      from that(1) obtain j where j: "j < length ?vs" "v = ?vs ! j" by (auto simp: in_set_conv_nth)
      with i(4) that(2) have "j \<le> i" by (metis not_le)
      with at j show ?thesis by simp
    qed
    have "x \<in> set ?vs" using i(1,2) by simp
    with run Some i(1,3) i(2) at [OF i(1)] top show ?thesis by auto
  qed
qed

theorem verify_newest_witness:
  "\<exists>w res. transit_verify toy toy_owner toy_key_name (encode_b64 [1]) RAW (encode_b64 []) ED25519 None w
    = (Inr res, w)"
proof -
  obtain w :: world and r where w: "nk_ok (db w)" "keyring_sealed toy toy_dek (db w)"
    "vs_dek (vstate w) = Some toy_dek" "key_find toy_owner toy_key_name (db w) = Some r"
    "key_usage r = SIGN_VERIFY" "key_latest_version r = 1"
    using toy_signing by (auto simp: key_stored_def)
  have len: "length (nk_versions (db w) r) < 2 ^ 62"
    using nk_versions_numbered [OF w(1,4)] w(6) by simp
  have "decode_b64 (PyStr (encode_b64 [])) = Inr []" by (rule decode_encode_b64)
  from verify_newest [OF w(1,3) toy_key_name_ok toy_texts(1) w(4,5) toy_algorithm [OF w(2,4,5)]
      toy_digest len this] show ?thesis by blast
qed

text \<open>The associated data of wrapped key material determines owner, name, usage, algorithm
  and version, and differs from the associated data of every KV secret and of every Transit
  ciphertext: wrapped material moved to another key, usage or version, or exchanged with a
  stored secret, is not accepted in the place of a genuine one.\<close>

theorem key_aad_binds:
  assumes "key_aad o1 n1 u1 a1 v1 = Inr x" "key_aad o2 n2 u2 a2 v2 = Inr x"
    and "key_name_ok n1" "key_name_ok n2" "a1 \<in> {None, Some ED25519}" "a2 \<in> {None, Some ED25519}"
    and "0 \<le> v1" "0 \<le> v2"
  shows "o1 = o2 \<and> n1 = n2 \<and> u1 = u2 \<and> a1 = a2 \<and> v1 = v2
    \<and> kv_aad o3 p3 v3 \<noteq> Inr x \<and> data_aad o3 p3 v3 \<noteq> Inr x"
  using key_aad_unambiguous [OF assms] aad_domains [OF assms(1)] by simp

theorem key_aad_binds_witness:
  "\<exists>x. key_aad toy_owner toy_key_name SIGN_VERIFY (Some ED25519) 1 = Inr x
    \<and> kv_aad toy_owner toy_path 1 \<noteq> Inr x"
proof -
  obtain x where x: "key_aad toy_owner toy_key_name SIGN_VERIFY (Some ED25519) 1 = Inr x"
    using key_aad_ok [OF toy_texts(1) key_name_scalar [OF toy_key_name_ok], of SIGN_VERIFY 1]
    by (auto simp: usage_algorithm_def)
  from key_aad_binds [OF x x toy_key_name_ok toy_key_name_ok] x show ?thesis by auto
qed

text \<open>What an attacker with write access to the database may do: replace the stored public key of
  a version.\<close>

definition set_public_key :: "int \<Rightarrow> int \<Rightarrow> pystr \<Rightarrow> database \<Rightarrow> database" where
  "set_public_key kid n public_b64 d =
     d\<lparr>named_key_versions := tbl_update (\<lambda>v. kyv_key_id v = kid \<and> kyv_version v = n)
        (\<lambda>v. v\<lparr>kyv_public_key_b64 := Some public_b64\<rparr>) (named_key_versions d)\<rparr>"

lemma get_key_version_set_public:
  assumes "get_key_version kid n w = (Inr (Some v), w)"
  shows "get_key_version kid n (w\<lparr>db := set_public_key kid n public (db w)\<rparr>) =
    (Inr (Some (v\<lparr>kyv_public_key_b64 := Some public\<rparr>)), w\<lparr>db := set_public_key kid n public (db w)\<rparr>)"
proof -
  let ?P = "\<lambda>v. kyv_key_id v = kid \<and> kyv_version v = n"
  let ?f = "\<lambda>v :: key_version_row. if ?P v then v\<lparr>kyv_public_key_b64 := Some public\<rparr> else v"
  have "find ?P (map ?f xs) = map_option (\<lambda>v. v\<lparr>kyv_public_key_b64 := Some public\<rparr>) (find ?P xs)" for xs
    by (induction xs) auto
  with assms show ?thesis
    by (auto simp: get_key_version_def connection_def op_simps op_run tbl_one_def set_public_key_def
        split: sum.splits)
qed

text \<open>C39: public keys are not authenticated. Whoever replaces the stored public key of a
  version by one of their own makes \<open>verify\<close> accept their signatures for any message as
  signatures of that version.\<close>

theorem public_key_substitution:
  assumes "ed25519_ok E" "length seed = 32" "vs_dek (vstate w) = Some dek"
    and "key_name_ok name" "list_all scalar owner" "key_find owner name (db w) = Some r"
    and "key_usage r = SIGN_VERIFY" "get_key_version (key_id r) n w = (Inr (Some v), w)"
    and "validate_algorithm E r algorithm = Inr ()" "message_digest E msg kind = Inr digest"
    and "w' = w\<lparr>db := set_public_key (key_id r) n (encode_b64 (ed25519_public E seed)) (db w)\<rparr>"
  shows "transit_verify E owner name msg kind (encode_b64 (ed25519_sign E seed digest)) algorithm (Some n) w' =
    (Inr \<lparr>ver_key_name = name, ver_key_version = Some (kyv_version v),
          ver_algorithm = key_signing_algorithm r, ver_signature_valid = True\<rparr>, w')"
proof -
  let ?v = "v\<lparr>kyv_public_key_b64 := Some (encode_b64 (ed25519_public E seed))\<rparr>"
  have g: "get_key_version (key_id r) n w' = (Inr (Some ?v), w')"
    using get_key_version_set_public [OF assms(8)] by (simp add: assms(11))
  have f: "key_find owner name (db w') = Some r" "vs_dek (vstate w') = Some dek"
    using assms(3,6) by (simp_all add: assms(11) key_find_def set_public_key_def)
  have acc: "version_accepts E (ed25519_sign E seed digest) digest ?v"
    by (rule verify_accepts_own [OF assms(1,2)]) simp
  show ?thesis
    using g f(2) acc assms(7,9,10)
    by (simp add: transit_verify_def owned_key_found [OF assms(4,5) f(1)] op_run op_simps
        verify_versions_def key_version_def Let_def codec_simps)
qed

theorem public_key_substitution_witness:
  "\<exists>w' res. transit_verify toy toy_owner toy_key_name (encode_b64 [1]) RAW
      (encode_b64 (ed25519_sign toy (replicate 32 9) (sha256_digest toy [1]))) ED25519 (Some 1) w' = (Inr res, w')
    \<and> ver_signature_valid res"
proof -
  obtain w :: world and r where w: "nk_ok (db w)" "keyring_sealed toy toy_dek (db w)"
    "vs_dek (vstate w) = Some toy_dek" "key_find toy_owner toy_key_name (db w) = Some r"
    "key_usage r = SIGN_VERIFY" "key_latest_version r = 1"
    using toy_signing by (auto simp: key_stored_def)
  have "length (nk_versions (db w) r) = 1"
    using nk_versions_numbered [OF w(1,4)] w(6) by simp
  then have "get_key_version (key_id r) 1 w = (Inr (Some (nk_versions (db w) r ! 0)), w)"
    using get_key_version_run [OF w(1,4), of 1] by (simp add: Let_def)
  from public_key_substitution [OF toy_ed25519_ok _ w(3) toy_key_name_ok toy_texts(1) w(4,5) this
      toy_algorithm [OF w(2,4,5)] toy_digest refl, of "replicate 32 9"] show ?thesis by fastforce
qed

text \<open>C29: the life of an existing key. Creating a key of either kind under its name is refused
  and changes no row; rotating it appends exactly one version, which becomes the newest, and
  keeps the keyring consistent; deleting it removes the key with all its versions and no other
  key.\<close>

theorem key_lifecycle:
  assumes "aead_ok E" "nk_ok (db w)" "keyring_sealed E dek (db w)" "vs_dek (vstate w) = Some dek"
    and "length dek = 32" "list_all scalar owner" "key_name_ok name"
    and "key_find owner name (db w) = Some r" "key_latest_version r + 1 < 2 ^ 63"
  shows "create_key E owner name w = (Inl (Transit KeyAlreadyExistsError), w\<lparr>ticks := Suc (ticks w)\<rparr>)
    \<and> create_signing_key E owner name ED25519 w =
        (Inl (Transit KeyAlreadyExistsError), w\<lparr>ticks := Suc (ticks w)\<rparr>)
    \<and> (\<exists>md w'. rotate_key E owner name w = (Inr md, w')
        \<and> md_latest_version md = key_latest_version r + 1
        \<and> md_versions md = map int [1..<Suc (nat (key_latest_version r + 1))]
        \<and> key_stored owner name (key_usage r) (key_latest_version r + 1) (db w')
        \<and> keyring_extends (db w) (db w') \<and> keyring_sealed E dek (db w'))
    \<and> (\<exists>w'. delete_key E owner name w = (Inr (name, True), w')
        \<and> nk_history (db w') = (nk_history (db w))((owner, name) := None) \<and> nk_ok (db w')
        \<and> nk_frame (db w) (db w'))"
proof -
  note ns = key_name_scalar [OF assms(7)]
  have up: "py_upper (unicode E) ED25519 = ED25519"
    by (simp add: py_upper_def ED25519_def text_simps ascii_upper_def)
  note x = create_exists [OF assms(2,6) ns assms(8)]
  have "create_key E owner name w = (Inl (Transit KeyAlreadyExistsError), w\<lparr>ticks := Suc (ticks w)\<rparr>)"
    using x [of ENCRYPT_DECRYPT E] assms(4,7)
    by (simp add: create_key_def wrap_aes_for usage_algorithm_def bindM_run [of "liftR _"]
        bindM_run [of require_unlocked] op_simps validate_key_name_def)
  moreover have "create_signing_key E owner name ED25519 w =
      (Inl (Transit KeyAlreadyExistsError), w\<lparr>ticks := Suc (ticks w)\<rparr>)"
    using x [of SIGN_VERIFY E] assms(4,7) up
    by (simp add: create_signing_key_def wrap_ed25519_for usage_algorithm_def bindM_run [of "liftR _"]
        bindM_run [of "raise_if _ _"] bindM_run [of require_unlocked] op_simps validate_key_name_def)
  moreover note rotate_key_ok [OF assms]
  moreover have "\<exists>w'. delete_key E owner name w = (Inr (name, True), w')
      \<and> nk_history (db w') = (nk_history (db w))((owner, name) := None) \<and> nk_ok (db w')
      \<and> nk_frame (db w) (db w')"
    using delete_key_run [OF assms(4,6,7,8)] nk_removed_ok(1-3) [OF assms(2)] by simp
  ultimately show ?thesis by blast
qed

theorem key_lifecycle_witness:
  "\<exists>w w' md. rotate_key toy toy_owner toy_key_name w = (Inr md, w') \<and> md_versions md = [1, 2]"
proof -
  obtain w :: world and r where w: "nk_ok (db w)" "keyring_sealed toy toy_dek (db w)"
    "vs_dek (vstate w) = Some toy_dek" "key_find toy_owner toy_key_name (db w) = Some r"
    "key_latest_version r = 1"
    using toy_keyed by (auto simp: key_stored_def)
  have b: "key_latest_version r + 1 < 2 ^ 63" using w(5) by simp
  from key_lifecycle [OF toy_aead_ok w(1-3) length_toy_dek toy_texts(1) toy_key_name_ok w(4) b] w(5)
  obtain md w' where "rotate_key toy toy_owner toy_key_name w = (Inr md, w')" "md_versions md = map int [1..<Suc 2]"
    by auto
  moreover have "map int [1..<Suc 2] = [1, 2]" by (simp add: upt_rec)
  ultimately show ?thesis by auto
qed

end
