(* ===== verification/Accounts.thy ===== *)
theory Accounts
  imports Crypto Passphrase AuditLog
begin

text \<open>
  \<open>src/auth/security.py\<close>, \<open>session.py\<close>, \<open>repository.py\<close> and \<open>session_repository.py\<close>:
  password hashes, session tokens, and the tables \<open>users\<close> and \<open>sessions\<close>. The database
  holds the Argon2 hash of a password and the SHA-256 of a token, and times as ISO 8601 text.
\<close>

section \<open>\<open>security.py\<close>\<close>

definition hash_password :: "ext \<Rightarrow> pyobj \<Rightarrow> pystr action" where
  "hash_password E password =
     (case password of
        PyStr s \<Rightarrow>
          if s = [] then throw (Py ValueError)
          else bindM (gets environ) (\<lambda>env.
            let configured = load (unicode E) env
            in bindM (liftR (utf8_encode s)) (\<lambda>secret.
               bindM (token_bytes 16) (\<lambda>salt.
               case argon2_hash E (password_time_cost configured) (password_memory_cost configured)
                      (password_parallelism configured) salt secret of
                 None \<Rightarrow> throw (Py HashingError)
               | Some h \<Rightarrow> ret h)))
      | _ \<Rightarrow> throw (Py ValueError))"

definition verify_password :: "ext \<Rightarrow> pystr \<Rightarrow> pystr \<Rightarrow> bool res" where
  "verify_password E password password_hash =
     bindR (utf8_encode password) (\<lambda>secret. Inr (argon2_verify E password_hash secret))"

section \<open>\<open>session.py\<close>\<close>

definition SESSION_TOKEN_BYTES :: nat where "SESSION_TOKEN_BYTES = 32"

text \<open>\<open>secrets.token_urlsafe\<close>: URL-safe Base64 without the padding.\<close>

definition urlsafe_b64 :: "bytes \<Rightarrow> pystr" where
  "urlsafe_b64 bs =
     rev (dropWhile (\<lambda>c. c = 61)
       (rev (map (\<lambda>c. if c = 43 then 45 else if c = 47 then 95 else c) (encode_b64 bs))))"

definition generate_session_token :: "pystr action" where
  "generate_session_token =
     bindM (token_bytes SESSION_TOKEN_BYTES) (\<lambda>bs. ret (urlsafe_b64 bs))"

definition hash_token :: "ext \<Rightarrow> pystr \<Rightarrow> pystr res" where
  "hash_token E token = bindR (utf8_encode token) (\<lambda>bs. Inr (hexdigest (sha256_digest E bs)))"

definition compute_expiry :: "ext \<Rightarrow> datetime action" where
  "compute_expiry E =
     bindM now (\<lambda>t. bindM (gets environ) (\<lambda>env.
     liftR (add_minutes t (session_ttl_minutes (load (unicode E) env)))))"

definition is_expired :: "datetime \<Rightarrow> bool action" where
  "is_expired expires_at = bindM now (\<lambda>t. ret (expires_at \<le> t))"

definition compute_lockout_until :: "ext \<Rightarrow> datetime action" where
  "compute_lockout_until E =
     bindM now (\<lambda>t. bindM (gets environ) (\<lambda>env.
     liftR (add_minutes t (lockout_minutes (load (unicode E) env)))))"

section \<open>\<open>repository.py\<close>\<close>

definition normalize_email :: "unidata \<Rightarrow> pystr \<Rightarrow> pystr" where
  "normalize_email U email = py_lower U (py_strip U email)"

definition user_find :: "pystr \<Rightarrow> database \<Rightarrow> user_row option" where
  "user_find email d = tbl_one (\<lambda>u. usr_email u = email) (users d)"

definition get_by_email :: "ext \<Rightarrow> pystr \<Rightarrow> user_row option action" where
  "get_by_email E email =
     (let normalized = normalize_email (unicode E) email
      in connection (bindM (liftR (bind_texts [normalized])) (\<lambda>_. query (user_find normalized))))"

definition new_user :: "pystr \<Rightarrow> pystr \<Rightarrow> pystr \<Rightarrow> int \<Rightarrow> user_row" where
  "new_user email password_hash stamp i =
     \<lparr>usr_id = i, usr_email = email, usr_password_hash = password_hash, usr_failed_attempts = 0,
      usr_locked_until = None, usr_created_at = stamp, usr_updated_at = stamp\<rparr>"

definition user_insert :: "pystr \<Rightarrow> pystr \<Rightarrow> pystr \<Rightarrow> database \<Rightarrow> (unit \<times> database) res" where
  "user_insert email password_hash stamp d =
     bindR (tbl_insert usr_email (new_user email password_hash stamp) (users d))
       (\<lambda>(i, t). Inr ((), d\<lparr>users := t\<rparr>))"

definition user_create :: "ext \<Rightarrow> pystr \<Rightarrow> pystr \<Rightarrow> user_row action" where
  "user_create E email password_hash =
     (let normalized = normalize_email (unicode E) email
      in bindM now_text (\<lambda>stamp.
         bindM (catchM
           (connection
              (bindM (liftR (bind_texts [normalized, password_hash])) (\<lambda>_.
               execute (user_insert normalized password_hash stamp))))
           (\<lambda>e. e = Py IntegrityError) (Auth (DuplicateEmailError normalized))) (\<lambda>_.
         bindM (get_by_email E normalized) (\<lambda>row.
         case row of None \<Rightarrow> throw (Py RuntimeError) | Some u \<Rightarrow> ret u))))"

definition user_update :: "int \<Rightarrow> (user_row \<Rightarrow> user_row) \<Rightarrow> database \<Rightarrow> database" where
  "user_update uid f d = d\<lparr>users := tbl_update (\<lambda>u. usr_id u = uid) f (users d)\<rparr>"

definition update_after_failed_login :: "int \<Rightarrow> int \<Rightarrow> pystr option \<Rightarrow> unit action" where
  "update_after_failed_login uid failed_attempts locked_until =
     bindM now_text (\<lambda>stamp.
     connection
       (bindM (liftR (bind_int failed_attempts)) (\<lambda>_.
        execute_update (user_update uid (\<lambda>u. u\<lparr>usr_failed_attempts := failed_attempts,
          usr_locked_until := locked_until, usr_updated_at := stamp\<rparr>)))))"

definition reset_login_failures :: "int \<Rightarrow> unit action" where
  "reset_login_failures uid =
     bindM now_text (\<lambda>stamp.
     connection
       (execute_update (user_update uid (\<lambda>u. u\<lparr>usr_failed_attempts := 0,
          usr_locked_until := None, usr_updated_at := stamp\<rparr>))))"

section \<open>\<open>session_repository.py\<close>\<close>

definition new_session :: "int \<Rightarrow> pystr \<Rightarrow> pystr \<Rightarrow> pystr \<Rightarrow> int \<Rightarrow> session_row" where
  "new_session uid token_hash expires_at stamp i =
     \<lparr>ses_id = i, ses_user_id = uid, ses_token_hash = token_hash, ses_expires_at = expires_at,
      ses_revoked_at = None, ses_created_at = stamp\<rparr>"

text \<open>The foreign key on \<open>users\<close> is enforced.\<close>

definition session_insert ::
  "int \<Rightarrow> pystr \<Rightarrow> pystr \<Rightarrow> pystr \<Rightarrow> database \<Rightarrow> (unit \<times> database) res"
where
  "session_insert uid token_hash expires_at stamp d =
     (if \<not> list_ex (\<lambda>u. usr_id u = uid) (rows (users d)) then Inl (Py IntegrityError)
      else bindR (tbl_insert ses_token_hash (new_session uid token_hash expires_at stamp) (sessions d))
             (\<lambda>(i, t). Inr ((), d\<lparr>sessions := t\<rparr>)))"

definition session_create :: "int \<Rightarrow> pystr \<Rightarrow> pystr \<Rightarrow> unit action" where
  "session_create uid token_hash expires_at =
     bindM now_text (\<lambda>stamp.
     connection (execute (session_insert uid token_hash expires_at stamp)))"

definition active_session :: "pystr \<Rightarrow> session_row \<Rightarrow> bool" where
  "active_session token_hash s \<longleftrightarrow> ses_token_hash s = token_hash \<and> ses_revoked_at s = None"

text \<open>The first row of the join of \<open>sessions\<close> and \<open>users\<close>.\<close>

definition session_join :: "pystr \<Rightarrow> database \<Rightarrow> (session_row \<times> user_row) list" where
  "session_join token_hash d =
     concat (map (\<lambda>s. map (Pair s) (filter (\<lambda>u. usr_id u = ses_user_id s) (rows (users d))))
       (filter (active_session token_hash) (rows (sessions d))))"

definition find_active_by_token_hash :: "pystr \<Rightarrow> (session_row \<times> user_row) option action" where
  "find_active_by_token_hash token_hash =
     connection (query (\<lambda>d. case session_join token_hash d of [] \<Rightarrow> None | x # _ \<Rightarrow> Some x))"

definition session_revoke_rows :: "pystr \<Rightarrow> pystr \<Rightarrow> database \<Rightarrow> (bool \<times> database) res" where
  "session_revoke_rows token_hash stamp d =
     Inr (list_ex (active_session token_hash) (rows (sessions d)),
          d\<lparr>sessions := tbl_update (active_session token_hash)
              (\<lambda>s. s\<lparr>ses_revoked_at := Some stamp\<rparr>) (sessions d)\<rparr>)"

definition session_revoke :: "pystr \<Rightarrow> bool action" where
  "session_revoke token_hash =
     bindM now_text (\<lambda>stamp. connection (execute (session_revoke_rows token_hash stamp)))"

section \<open>Consistent accounts\<close>

definition accounts_ok :: "database \<Rightarrow> bool" where
  "accounts_ok d \<longleftrightarrow>
     distinct (map usr_id (rows (users d))) \<and> distinct (map usr_email (rows (users d)))
     \<and> (\<forall>u \<in> set (rows (users d)). usr_id u < next_id (users d))
     \<and> distinct (map ses_token_hash (rows (sessions d)))
     \<and> (\<forall>s \<in> set (rows (sessions d)). ses_user_id s \<in> usr_id ` set (rows (users d)))"

lemma accounts_ok_cong:
  "users d' = users d \<Longrightarrow> sessions d' = sessions d \<Longrightarrow> accounts_ok d' = accounts_ok d"
  by (simp add: accounts_ok_def)

lemma accounts_ok_empty: "rows (users d) = [] \<Longrightarrow> rows (sessions d) = [] \<Longrightarrow> accounts_ok d"
  by (simp add: accounts_ok_def)

lemma same_user_id:
  "accounts_ok d \<Longrightarrow> u \<in> set (rows (users d)) \<Longrightarrow> v \<in> set (rows (users d)) \<Longrightarrow> usr_id u = usr_id v \<Longrightarrow> u = v"
  by (auto simp: accounts_ok_def distinct_map dest: inj_onD)

lemma same_user_email:
  "accounts_ok d \<Longrightarrow> u \<in> set (rows (users d)) \<Longrightarrow> v \<in> set (rows (users d)) \<Longrightarrow> usr_email u = usr_email v \<Longrightarrow> u = v"
  by (auto simp: accounts_ok_def distinct_map dest: inj_onD)

lemma user_find_iff:
  assumes "accounts_ok d"
  shows "user_find email d = Some u \<longleftrightarrow> u \<in> set (rows (users d)) \<and> usr_email u = email"
proof
  show "user_find email d = Some u \<Longrightarrow> u \<in> set (rows (users d)) \<and> usr_email u = email"
    by (auto simp: user_find_def tbl_one_def dest: find_SomeD)
  assume "u \<in> set (rows (users d)) \<and> usr_email u = email"
  then show "user_find email d = Some u"
    using same_user_email [OF assms] unfolding user_find_def tbl_one_def
    by (intro find_unique) auto
qed

lemma user_find_None: "user_find email d = None \<longleftrightarrow> (\<forall>u \<in> set (rows (users d)). usr_email u \<noteq> email)"
  by (simp add: user_find_def tbl_one_def find_None_conv)

section \<open>Updates of users\<close>

lemma accounts_ok_update:
  assumes "accounts_ok d" "\<And>u. usr_id (f u) = usr_id u" "\<And>u. usr_email (f u) = usr_email u"
  shows "accounts_ok (user_update uid f d)"
proof -
  let ?g = "\<lambda>u. if usr_id u = uid then f u else u"
  have m: "map usr_id (map ?g us) = map usr_id us" "map usr_email (map ?g us) = map usr_email us" for us
    using assms(2,3) by simp_all
  let ?d = "user_update uid f d"
  have r: "rows (users ?d) = map ?g (rows (users d))" "next_id (users ?d) = next_id (users d)"
    "sessions ?d = sessions d"
    by (simp_all add: user_update_def)
  have ids: "map usr_id (rows (users ?d)) = map usr_id (rows (users d))"
    and emails: "map usr_email (rows (users ?d)) = map usr_email (rows (users d))"
    by (simp_all only: r m)
  have sets: "usr_id ` set (rows (users ?d)) = usr_id ` set (rows (users d))"
    using arg_cong [OF ids, of set] by (simp only: set_map)
  have "\<forall>u \<in> set (rows (users d)). usr_id u < next_id (users d)"
    using assms(1) by (simp add: accounts_ok_def)
  then have "\<forall>u \<in> set (rows (users ?d)). usr_id u < next_id (users ?d)"
    using sets r(2) by (metis (no_types, lifting) imageE imageI)
  with assms(1) show ?thesis unfolding accounts_ok_def ids emails sets r(3) by blast
qed

lemma user_find_update:
  assumes "accounts_ok d" "user_find email d = Some u"
    and "\<And>u. usr_email (f u) = usr_email u"
  shows "user_find other (user_update (usr_id u) f d) =
    (if other = email then Some (f u) else user_find other d)"
proof -
  let ?g = "\<lambda>v. if usr_id v = usr_id u then f v else v"
  have u: "u \<in> set (rows (users d))" "usr_email u = email" using assms(1,2) by (simp_all add: user_find_iff)
  have "find (\<lambda>v. usr_email v = other) (map ?g us) = map_option ?g (find (\<lambda>v. usr_email v = other) us)" for us
    by (induction us) (auto simp: assms(3))
  then have e: "user_find other (user_update (usr_id u) f d) = map_option ?g (user_find other d)"
    by (simp add: user_find_def tbl_one_def user_update_def)
  show ?thesis
  proof (cases "other = email")
    case True
    with e assms(2) show ?thesis by simp
  next
    case False
    have "usr_id v \<noteq> usr_id u" if "user_find other d = Some v" for v
    proof -
      from that have v: "v \<in> set (rows (users d))" "usr_email v = other"
        using assms(1) by (simp_all add: user_find_iff)
      with same_user_id [OF assms(1) v(1) u(1)] u(2) False show ?thesis by auto
    qed
    with e False show ?thesis by (cases "user_find other d") auto
  qed
qed

lemma user_insert_ok:
  assumes "accounts_ok d" "user_find email d = None"
  shows "user_insert email h stamp d = Inr ((), d\<lparr>users := (users d)
      \<lparr>rows := rows (users d) @ [new_user email h stamp (next_id (users d))],
       next_id := next_id (users d) + 1\<rparr>\<rparr>)"
  using assms(2) by (simp add: user_insert_def user_find_None tbl_insert_ok new_user_def)

lemma user_insert_duplicate:
  assumes "user_find email d = Some u" shows "user_insert email h stamp d = Inl (Py IntegrityError)"
  using assms
  by (auto simp: user_insert_def tbl_insert_def new_user_def user_find_def tbl_one_def Let_def dest: find_SomeD)

lemma user_inserted:
  assumes "accounts_ok d" "user_find email d = None"
    and "d' = d\<lparr>users := (users d)
      \<lparr>rows := rows (users d) @ [new_user email h stamp (next_id (users d))],
       next_id := next_id (users d) + 1\<rparr>\<rparr>"
  shows "accounts_ok d'"
    and "user_find other d' = (if other = email
      then Some (new_user email h stamp (next_id (users d))) else user_find other d)"
proof -
  have fresh: "usr_id u < next_id (users d)" if "u \<in> set (rows (users d))" for u
    using assms(1) that by (simp add: accounts_ok_def)
  have "distinct (map usr_id (rows (users d')))" "distinct (map usr_email (rows (users d')))"
    using assms(1,2) by (auto simp: assms(3) accounts_ok_def new_user_def user_find_None)
  moreover have "\<forall>u \<in> set (rows (users d')). usr_id u < next_id (users d')"
    using fresh by (force simp: assms(3) new_user_def)
  ultimately show "accounts_ok d'"
    using assms(1) by (auto simp: accounts_ok_def assms(3))
  show "user_find other d' = (if other = email
      then Some (new_user email h stamp (next_id (users d))) else user_find other d)"
    using assms(2)
    by (auto simp: user_find_def tbl_one_def assms(3) find_append new_user_def split: option.split)
qed

section \<open>Sessions\<close>

lemma filter_unique:
  assumes "distinct (map f xs)" "x \<in> set xs" "P x" "\<And>y. P y \<Longrightarrow> f y = f x"
  shows "filter P xs = [x]"
  using assms(1,2)
proof (induction xs)
  case (Cons y ys)
  show ?case
  proof (cases "P y")
    case True
    then have "f y = f x" by (rule assms(4))
    with Cons.prems have "y = x" by (force simp: image_iff)
    moreover have "filter P ys = []"
      using Cons.prems(1) \<open>f y = f x\<close> assms(4) by (force simp: filter_empty_conv image_iff)
    ultimately show ?thesis using True by simp
  next
    case False
    with Cons assms(3) show ?thesis by auto
  qed
qed simp

text \<open>The answer of the session query.\<close>

definition session_of :: "pystr \<Rightarrow> database \<Rightarrow> (session_row \<times> user_row) option" where
  "session_of h d = (case session_join h d of [] \<Rightarrow> None | x # _ \<Rightarrow> Some x)"

lemma find_active_run: "find_active_by_token_hash h w = (Inr (session_of h (db w)), w)"
  by (simp add: find_active_by_token_hash_def connection_def op_simps session_of_def)

lemma session_join_eq:
  assumes "accounts_ok d" "s \<in> set (rows (sessions d))" "active_session h s"
    and "u \<in> set (rows (users d))" "usr_id u = ses_user_id s"
  shows "session_join h d = [(s, u)]"
proof -
  have "filter (active_session h) (rows (sessions d)) = [s]"
    using assms(1-3) by (intro filter_unique [where f = ses_token_hash]) (auto simp: accounts_ok_def active_session_def)
  moreover have "filter (\<lambda>u. usr_id u = ses_user_id s) (rows (users d)) = [u]"
    using assms by (intro filter_unique [where f = usr_id]) (auto simp: accounts_ok_def)
  ultimately show ?thesis by (simp add: session_join_def)
qed

lemma session_of_Some_iff:
  assumes "accounts_ok d"
  shows "session_of h d = Some (s, u) \<longleftrightarrow>
    s \<in> set (rows (sessions d)) \<and> active_session h s \<and> u \<in> set (rows (users d)) \<and> usr_id u = ses_user_id s"
proof
  assume "session_of h d = Some (s, u)"
  then have "(s, u) \<in> set (session_join h d)" by (auto simp: session_of_def split: list.splits)
  then show "s \<in> set (rows (sessions d)) \<and> active_session h s \<and> u \<in> set (rows (users d)) \<and> usr_id u = ses_user_id s"
    by (auto simp: session_join_def)
next
  assume "s \<in> set (rows (sessions d)) \<and> active_session h s \<and> u \<in> set (rows (users d)) \<and> usr_id u = ses_user_id s"
  then have "session_join h d = [(s, u)]" by (intro session_join_eq [OF assms]) auto
  then show "session_of h d = Some (s, u)" by (simp add: session_of_def)
qed

lemma session_of_None_iff:
  assumes "accounts_ok d"
  shows "session_of h d = None \<longleftrightarrow> (\<forall>s \<in> set (rows (sessions d)). \<not> active_session h s)"
proof
  assume n: "session_of h d = None"
  show "\<forall>s \<in> set (rows (sessions d)). \<not> active_session h s"
  proof (intro ballI notI)
    fix s assume s: "s \<in> set (rows (sessions d))" "active_session h s"
    then obtain u where "u \<in> set (rows (users d))" "usr_id u = ses_user_id s"
      using assms by (force simp: accounts_ok_def)
    with s have "session_of h d = Some (s, u)" by (simp add: session_of_Some_iff [OF assms])
    with n show False by simp
  qed
next
  assume "\<forall>s \<in> set (rows (sessions d)). \<not> active_session h s"
  then have "filter (active_session h) (rows (sessions d)) = []" by (simp add: filter_empty_conv)
  then show "session_of h d = None" by (simp add: session_of_def session_join_def)
qed

text \<open>A user's row changes do not end sessions.\<close>

lemma session_of_update:
  assumes "accounts_ok d" "\<And>u. usr_id (f u) = usr_id u" "\<And>u. usr_email (f u) = usr_email u"
  shows "map_option (\<lambda>(s, u). (s, usr_id u, usr_email u)) (session_of h (user_update uid f d)) =
    map_option (\<lambda>(s, u). (s, usr_id u, usr_email u)) (session_of h d)"
proof -
  let ?d = "user_update uid f d" and ?g = "\<lambda>u. if usr_id u = uid then f u else u"
  note ok = accounts_ok_update [OF assms, of uid]
  show ?thesis
  proof (cases "session_of h d")
    case None
    then have "session_of h ?d = None"
      using session_of_None_iff [OF assms(1)] session_of_None_iff [OF ok] by (simp add: user_update_def)
    with None show ?thesis by simp
  next
    case (Some x)
    obtain s u where x: "x = (s, u)" by (rule prod.exhaust)
    have m: "s \<in> set (rows (sessions d))" "active_session h s" "u \<in> set (rows (users d))" "usr_id u = ses_user_id s"
      using Some session_of_Some_iff [OF assms(1)] by (simp_all add: x)
    have "?g u \<in> set (rows (users ?d))" using m(3) by (simp add: user_update_def)
    then have "session_of h ?d = Some (s, ?g u)"
      using m assms(2) session_of_Some_iff [OF ok] by (simp add: user_update_def)
    with Some assms(2,3) show ?thesis by (simp add: x)
  qed
qed

lemma session_insert_Inr:
  assumes "accounts_ok d" "session_insert uid h e stamp d = Inr (x, d')"
  shows "accounts_ok d'" "users d' = users d"
    and "\<exists>u s. u \<in> set (rows (users d)) \<and> usr_id u = uid \<and> ses_expires_at s = e
      \<and> session_of h d' = Some (s, u)"
    and "g \<noteq> h \<Longrightarrow> session_of g d' = session_of g d"
    and "map ses_token_hash (rows (sessions d')) = map ses_token_hash (rows (sessions d)) @ [h]"
proof -
  from assms(2) obtain u where u: "u \<in> set (rows (users d))" "usr_id u = uid"
    by (auto simp: session_insert_def list_ex_iff split: if_splits)
  let ?s = "new_session uid h e stamp (next_id (sessions d))"
  from assms(2) have f: "\<forall>s \<in> set (rows (sessions d)). ses_token_hash s \<noteq> h"
    and d': "d' = d\<lparr>sessions := (sessions d)\<lparr>rows := rows (sessions d) @ [?s],
        next_id := next_id (sessions d) + 1\<rparr>\<rparr>"
    by (auto simp: session_insert_def bindR_Inr_iff tbl_insert_Inr_iff new_session_def split: if_splits)
  show ok: "accounts_ok d'" using assms(1) f u by (auto simp: accounts_ok_def d' new_session_def)
  show "users d' = users d" by (simp add: d')
  show "map ses_token_hash (rows (sessions d')) = map ses_token_hash (rows (sessions d)) @ [h]"
    by (simp add: d' new_session_def)
  have "session_of h d' = Some (?s, u)"
    using u unfolding session_of_Some_iff [OF ok] by (simp add: d' new_session_def active_session_def)
  moreover have "ses_expires_at ?s = e" by (simp add: new_session_def)
  ultimately show "\<exists>u s. u \<in> set (rows (users d)) \<and> usr_id u = uid \<and> ses_expires_at s = e
      \<and> session_of h d' = Some (s, u)" using u by blast
  show "session_of g d' = session_of g d" if "g \<noteq> h"
    using that by (simp add: session_of_def session_join_def d' new_session_def active_session_def)
qed

lemma session_insert_ok:
  assumes "u \<in> set (rows (users d))" "usr_id u = uid" "\<forall>s \<in> set (rows (sessions d)). ses_token_hash s \<noteq> h"
  shows "\<exists>d'. session_insert uid h e stamp d = Inr ((), d')"
  using assms by (auto simp: session_insert_def list_ex_iff tbl_insert_ok new_session_def)

definition session_revoked :: "pystr \<Rightarrow> pystr \<Rightarrow> database \<Rightarrow> database" where
  "session_revoked h stamp d = snd (projr (session_revoke_rows h stamp d))"

lemma session_revoke_run:
  "session_revoke h w =
    (Inr (list_ex (active_session h) (rows (sessions (db w)))),
     w\<lparr>ticks := Suc (ticks w), db := session_revoked h (isoformat (clock w (ticks w))) (db w)\<rparr>)"
  by (simp add: session_revoke_def connection_def op_simps op_run session_revoke_rows_def session_revoked_def)

lemma session_revoked_ok:
  assumes "accounts_ok d"
  shows "accounts_ok (session_revoked h stamp d)" "users (session_revoked h stamp d) = users d"
    and "session_of h (session_revoked h stamp d) = None"
    and "g \<noteq> h \<Longrightarrow> session_of g (session_revoked h stamp d) = session_of g d"
proof -
  let ?d = "session_revoked h stamp d"
  let ?g = "\<lambda>s. if active_session h s then s\<lparr>ses_revoked_at := Some stamp\<rparr> else s"
  have r: "rows (sessions ?d) = map ?g (rows (sessions d))" "users ?d = users d"
    by (simp_all add: session_revoked_def session_revoke_rows_def)
  have h: "map ses_token_hash (rows (sessions ?d)) = map ses_token_hash (rows (sessions d))"
    by (simp add: r)
  have "\<forall>s \<in> set (rows (sessions ?d)). ses_user_id s \<in> usr_id ` set (rows (users d))"
    using assms by (auto simp: accounts_ok_def r)
  with assms show ok: "accounts_ok ?d"
    unfolding accounts_ok_def r(2) h by blast
  show "users ?d = users d" by (rule r)
  show "session_of h ?d = None"
    unfolding session_of_None_iff [OF ok]
  proof
    fix s assume "s \<in> set (rows (sessions ?d))"
    then obtain t where "s = ?g t" unfolding r(1) set_map by (rule imageE)
    then show "\<not> active_session h s"
      by (cases "active_session h t") (simp_all add: active_session_def)
  qed
  show "session_of g ?d = session_of g d" if "g \<noteq> h"
  proof -
    have a: "active_session g (?g s) = active_session g s" "active_session g s \<Longrightarrow> ?g s = s" for s
      using that by (simp_all add: active_session_def)
    have "filter (active_session g) (map ?g ss) = filter (active_session g) ss" for ss
    proof (induction ss)
      case (Cons s ss)
      then show ?case using a [of s] by (simp only: list.map filter.simps) (simp split: if_split)
    qed simp
    then show ?thesis by (simp add: session_of_def session_join_def r)
  qed
qed

section \<open>Texts\<close>

lemma scalar_isoformat: "list_all scalar (isoformat t)"
  using ascii_isoformat by (auto simp: list_all_iff scalar_ascii)

lemma get_by_email_run:
  "list_all scalar (normalize_email (unicode E) email) \<Longrightarrow>
   get_by_email E email w = (Inr (user_find (normalize_email (unicode E) email) (db w)), w)"
  by (simp add: get_by_email_def connection_def op_simps op_run bind_texts_def Let_def)

lemma get_by_email_world: "get_by_email E email w = (r, w') \<Longrightarrow> w' = w"
  by (auto simp: get_by_email_def connection_def op_simps op_run Let_def split: sum.splits)

lemma get_by_email_Inr:
  "get_by_email E email w = (Inr r, w') \<Longrightarrow>
   list_all scalar (normalize_email (unicode E) email)
   \<and> r = user_find (normalize_email (unicode E) email) (db w) \<and> w' = w"
  by (auto simp: get_by_email_def connection_Inr_iff bindM_Inr_iff op_simps Let_def bind_texts_def
      split: if_splits)

end
