(* ===== verification/Auth.thy ===== *)
theory Auth
  imports Accounts
begin

text \<open>
  \<open>src/auth/service.py\<close> and \<open>dependencies.py\<close>: registration, login with lockout after
  repeated failures, logout, and the resolution of a bearer token to its user.
\<close>

section \<open>The service\<close>

text \<open>The module variable \<open>_dummy_password_hash\<close> is part of the process state.\<close>

definition dummy_password_hash :: "ext \<Rightarrow> pystr action" where
  "dummy_password_hash E =
     bindM (gets dummy_hash) (\<lambda>known.
     case known of
       Some h \<Rightarrow> ret h
     | None \<Rightarrow>
         bindM (hash_password E (PyStr (lit ''timing-attack-mitigation-placeholder''))) (\<lambda>h.
         bindM (modify (\<lambda>w. w\<lparr>dummy_hash := Some h\<rparr>)) (\<lambda>_.
         ret h)))"

record registered =
  reg_email :: pystr
  reg_created_at :: pystr

definition auth_register :: "ext \<Rightarrow> pystr \<Rightarrow> pystr \<Rightarrow> pystr \<Rightarrow> registered action" where
  "auth_register E email passphrase confirm_passphrase =
     bindM (raise_if (passphrase \<noteq> confirm_passphrase) (Auth PassphraseMismatchError)) (\<lambda>_.
     case evaluate (unicode E) (PyStr passphrase) of
       Some issue \<Rightarrow> throw (Auth (WeakPassphraseError (issue_code issue)))
     | None \<Rightarrow>
         bindM (hash_password E (PyStr passphrase)) (\<lambda>password_hash.
         bindM (user_create E email password_hash) (\<lambda>user.
         ret \<lparr>reg_email = usr_email user, reg_created_at = usr_created_at user\<rparr>)))"

definition register_failed_attempt :: "ext \<Rightarrow> user_row \<Rightarrow> unit action" where
  "register_failed_attempt E user =
     (let new_count = usr_failed_attempts user + 1
      in bindM (gets environ) (\<lambda>env.
         bindM (if max_failed_attempts (load (unicode E) env) \<le> new_count
                then bindM (compute_lockout_until E) (\<lambda>t. ret (Some (isoformat t)))
                else ret None) (\<lambda>locked_until.
         update_after_failed_login (usr_id user) new_count locked_until)))"

record login_result =
  login_token :: pystr
  login_expires_at :: pystr

text \<open>The part of \<open>login\<close> after the lockout has been dealt with.\<close>

definition login_user :: "ext \<Rightarrow> user_row \<Rightarrow> pystr \<Rightarrow> login_result action" where
  "login_user E user passphrase =
     bindM (liftR (verify_password E passphrase (usr_password_hash user))) (\<lambda>accepted.
     if \<not> accepted
     then bindM (register_failed_attempt E user) (\<lambda>_. throw (Auth InvalidCredentialsError))
     else bindM (reset_login_failures (usr_id user)) (\<lambda>_.
          bindM generate_session_token (\<lambda>token.
          bindM (compute_expiry E) (\<lambda>expires_at.
          bindM (liftR (hash_token E token)) (\<lambda>token_hash.
          bindM (session_create (usr_id user) token_hash (isoformat expires_at)) (\<lambda>_.
          ret \<lparr>login_token = token, login_expires_at = isoformat expires_at\<rparr>))))))"

definition auth_login :: "ext \<Rightarrow> pystr \<Rightarrow> pystr \<Rightarrow> login_result action" where
  "auth_login E email passphrase =
     bindM (get_by_email E email) (\<lambda>found.
     case found of
       None \<Rightarrow>
         bindM (dummy_password_hash E) (\<lambda>h.
         bindM (liftR (verify_password E passphrase h)) (\<lambda>_.
         throw (Auth InvalidCredentialsError)))
     | Some user \<Rightarrow>
         (case usr_locked_until user of
            None \<Rightarrow> login_user E user passphrase
          | Some until \<Rightarrow>
              bindM (liftR (fromisoformat until)) (\<lambda>locked_until.
              bindM now (\<lambda>t.
              if t < locked_until then throw (Auth AccountLockedError)
              else bindM (reset_login_failures (usr_id user)) (\<lambda>_.
                   bindM (get_by_email E email) (\<lambda>again.
                   case again of
                     None \<Rightarrow> throw (Auth InvalidCredentialsError)
                   | Some user' \<Rightarrow> login_user E user' passphrase))))))"

definition auth_logout :: "ext \<Rightarrow> pystr \<Rightarrow> unit action" where
  "auth_logout E token =
     bindM (liftR (hash_token E token)) (\<lambda>token_hash.
     bindM (session_revoke token_hash) (\<lambda>_. ret ()))"

section \<open>\<open>dependencies.py\<close>\<close>

record authenticated_user =
  au_user_id :: int
  au_email :: pystr
  au_token :: pystr

text \<open>Scheme and credentials of the \<open>Authorization\<close> header, as \<open>HTTPBearer\<close> hands them over.\<close>

type_synonym credentials = "(pystr \<times> pystr) option"

definition get_current_user :: "ext \<Rightarrow> credentials \<Rightarrow> authenticated_user action" where
  "get_current_user E credentials =
     (case credentials of
        None \<Rightarrow> throw (Auth UnauthenticatedError)
      | Some (scheme, presented) \<Rightarrow>
          if py_lower (unicode E) scheme \<noteq> lit ''bearer'' then throw (Auth UnauthenticatedError)
          else
            let token = py_strip (unicode E) presented
            in if token = [] then throw (Auth UnauthenticatedError)
               else bindM (liftR (hash_token E token)) (\<lambda>token_hash.
                    bindM (find_active_by_token_hash token_hash) (\<lambda>session.
                    case session of
                      None \<Rightarrow> throw (Auth UnauthenticatedError)
                    | Some (s, u) \<Rightarrow>
                        bindM (liftR (fromisoformat (ses_expires_at s))) (\<lambda>expires_at.
                        bindM (is_expired expires_at) (\<lambda>expired.
                        if expired then throw (Auth UnauthenticatedError)
                        else ret \<lparr>au_user_id = ses_user_id s, au_email = usr_email u,
                                  au_token = token\<rparr>)))))"

section \<open>Running the pieces\<close>

lemma hash_password_world: "hash_password E p w = (r, w') \<Longrightarrow> \<exists>k. w' = w\<lparr>draws := k\<rparr>"
  by (auto simp: hash_password_def op_simps op_run Let_def intro: exI [of _ "draws w"]
      split: pyobj.splits if_splits sum.splits option.splits)

lemma hash_password_Inr:
  assumes "hash_password E (PyStr s) w = (Inr h, w')"
  shows "\<exists>secret salt t m p. utf8_encode s = Inr secret \<and> length salt = 16
    \<and> argon2_hash E t m p salt secret = Some h \<and> s \<noteq> []"
proof -
  let ?salt = "map (entropy w) [draws w..<draws w + 16]" and ?c = "load (unicode E) (environ w)"
  have s: "s \<noteq> []" using assms by (auto simp: hash_password_def op_simps)
  with assms obtain secret where u: "utf8_encode s = Inr secret"
    by (cases "utf8_encode s") (auto simp: hash_password_def op_simps op_run Let_def)
  with s assms have "argon2_hash E (password_time_cost ?c) (password_memory_cost ?c)
      (password_parallelism ?c) ?salt secret = Some h"
    by (auto simp: hash_password_def op_simps op_run Let_def split: option.splits)
  moreover have "length ?salt = 16" by simp
  ultimately show ?thesis using s u by blast
qed

text \<open>Argon2id verifies what it hashed, and its hashes are ASCII text.\<close>

definition password_hash_ok :: "ext \<Rightarrow> bool" where
  "password_hash_ok E \<longleftrightarrow>
     (\<forall>t m p salt secret h. length salt = 16 \<longrightarrow> argon2_hash E t m p salt secret = Some h \<longrightarrow>
        argon2_verify E h secret \<and> list_all scalar h)"

lemma verify_hashed:
  assumes "password_hash_ok E" "hash_password E (PyStr s) w = (Inr h, w')"
  shows "verify_password E s h = Inr True" "list_all scalar h"
  using hash_password_Inr [OF assms(2)] assms(1)
  unfolding password_hash_ok_def verify_password_def by auto

lemma compute_expiry_run:
  "compute_expiry E w =
    (add_minutes (clock w (ticks w)) (session_ttl_minutes (load (unicode E) (environ w))),
     w\<lparr>ticks := Suc (ticks w)\<rparr>)"
  by (simp add: compute_expiry_def op_simps op_run)

lemma compute_lockout_run:
  "compute_lockout_until E w =
    (add_minutes (clock w (ticks w)) (lockout_minutes (load (unicode E) (environ w))),
     w\<lparr>ticks := Suc (ticks w)\<rparr>)"
  by (simp add: compute_lockout_until_def op_simps op_run)

lemma reset_run:
  "reset_login_failures uid w =
    (Inr (), w\<lparr>ticks := Suc (ticks w), db := user_update uid (\<lambda>u. u\<lparr>usr_failed_attempts := 0,
       usr_locked_until := None, usr_updated_at := isoformat (clock w (ticks w))\<rparr>) (db w)\<rparr>)"
  by (simp add: reset_login_failures_def connection_def op_simps op_run)

lemma update_failed_run:
  "- (2 ^ 63) \<le> n \<Longrightarrow> n < 2 ^ 63 \<Longrightarrow> update_after_failed_login uid n until w =
    (Inr (), w\<lparr>ticks := Suc (ticks w), db := user_update uid (\<lambda>u. u\<lparr>usr_failed_attempts := n,
       usr_locked_until := until, usr_updated_at := isoformat (clock w (ticks w))\<rparr>) (db w)\<rparr>)"
  by (simp add: update_after_failed_login_def connection_def op_simps op_run bind_int_def)

section \<open>Registration\<close>

lemma user_create_run:
  assumes "accounts_ok (db w)" "list_all scalar (normalize_email (unicode E) email)" "list_all scalar h"
    and "normalize_email (unicode E) (normalize_email (unicode E) email) = normalize_email (unicode E) email"
  shows "user_create E email h w =
    (let normalized = normalize_email (unicode E) email; d = db w;
         u = new_user normalized h (isoformat (clock w (ticks w))) (next_id (users d))
     in case user_find normalized d of
          Some _ \<Rightarrow> (Inl (Auth (DuplicateEmailError normalized)), w\<lparr>ticks := Suc (ticks w)\<rparr>)
        | None \<Rightarrow> (Inr u, w\<lparr>ticks := Suc (ticks w), db := d\<lparr>users := (users d)
            \<lparr>rows := rows (users d) @ [u], next_id := next_id (users d) + 1\<rparr>\<rparr>\<rparr>))"
proof -
  let ?n = "normalize_email (unicode E) email"
  have t: "bind_texts [?n, h] = Inr ()" using assms(2,3) by (simp add: bind_texts_def)
  have g: "get_by_email E ?n v = (Inr (user_find ?n (db v)), v)" for v
    using get_by_email_run [of E ?n v] assms(2,4) by simp
  show ?thesis
  proof (cases "user_find ?n (db w)")
    case (Some u)
    then show ?thesis
      by (simp add: user_create_def connection_def op_simps op_run t Let_def user_insert_duplicate)
  next
    case None
    then show ?thesis
      using user_inserted(2) [OF assms(1) None refl, where h = h
          and stamp = "isoformat (clock w (ticks w))" and other = ?n]
      by (simp add: user_create_def connection_def op_simps op_run t Let_def g
          user_insert_ok [OF assms(1) None])
  qed
qed

lemma register_refused:
  "p \<noteq> c \<Longrightarrow> auth_register E email p c w = (Inl (Auth PassphraseMismatchError), w)"
  "evaluate (unicode E) (PyStr p) = Some i \<Longrightarrow>
   auth_register E email p p w = (Inl (Auth (WeakPassphraseError (issue_code i))), w)"
  by (simp_all add: auth_register_def op_simps op_run)

lemma register_hashed:
  assumes "evaluate (unicode E) (PyStr p) = None" "hash_password E (PyStr p) w = (Inr h, v)"
  shows "auth_register E email p p w =
    bindM (user_create E email h) (\<lambda>u. ret \<lparr>reg_email = usr_email u, reg_created_at = usr_created_at u\<rparr>) v"
  using assms by (simp add: auth_register_def bindM_run [of "raise_if _ _"] bindM_run [of "hash_password _ _"] op_simps)

text \<open>Argon2id takes the configured cost parameters: it refuses a memory of less than eight times the
  parallelism, which the settings do not check.\<close>

definition hashing_ok :: "ext \<Rightarrow> environ \<Rightarrow> bool" where
  "hashing_ok E env \<longleftrightarrow> (let configured = load (unicode E) env in
     \<forall>salt secret. length salt = 16 \<longrightarrow>
       argon2_hash E (password_time_cost configured) (password_memory_cost configured)
         (password_parallelism configured) salt secret \<noteq> None)"

lemma hash_password_ok:
  assumes "hashing_ok E (environ w)" "list_all scalar s" "s \<noteq> []"
  shows "\<exists>h. hash_password E (PyStr s) w = (Inr h, w\<lparr>draws := draws w + 16\<rparr>)"
proof -
  obtain secret where u: "utf8_encode s = Inr secret" using utf8_encode_ok [OF assms(2)] by blast
  let ?salt = "map (entropy w) [draws w..<draws w + 16]" and ?c = "load (unicode E) (environ w)"
  have "length ?salt = 16" by simp
  with assms(1) obtain h where "argon2_hash E (password_time_cost ?c) (password_memory_cost ?c)
      (password_parallelism ?c) ?salt secret = Some h"
    unfolding hashing_ok_def Let_def by blast
  with u assms(3) have "hash_password E (PyStr s) w = (Inr h, w\<lparr>draws := draws w + 16\<rparr>)"
    by (simp add: hash_password_def op_run op_simps Let_def)
  then show ?thesis by blast
qed

lemma evaluate_not_Nil: "evaluate U (PyStr p) = None \<Longrightarrow> p \<noteq> []"
  by (auto simp: evaluate_def Let_def MIN_LENGTH_def split: if_splits)

text \<open>Normalising an e-mail address twice changes nothing, for ASCII addresses.\<close>

lemma normalize_email_ascii:
  assumes "ascii email"
  shows "normalize_email U (normalize_email U email) = normalize_email U email"
    and "list_all scalar (normalize_email U email)"
proof -
  let ?s = "py_strip U email"
  have a: "ascii ?s" using assms set_py_strip [of U email] by (auto simp: ascii_def list_all_iff)
  have sp: "py_space U (ascii_lower c) = py_space U c" for c
    by (simp add: py_space_def ascii_lower_def)
  have "py_strip U (map ascii_lower s) = map ascii_lower (py_strip U s)" for s
    by (simp add: py_strip_def rev_map dropWhile_map comp_def sp)
  moreover have "py_strip U ?s = ?s"
  proof (cases "?s = []")
    case False
    let ?d = "dropWhile (py_space U) email"
    have s: "?s = rev (dropWhile (py_space U) (rev ?d))" by (simp add: py_strip_def)
    with False have r: "dropWhile (py_space U) (rev ?d) \<noteq> []" by auto
    have "\<not> py_space U (last ?s)"
      using hd_dropWhile [OF r] r by (simp add: s last_rev)
    moreover have "hd ?s = hd ?d"
    proof -
      obtain ys where "rev ?d = ys @ dropWhile (py_space U) (rev ?d)"
        by (metis takeWhile_dropWhile_id)
      then have "?d = ?s @ rev ys" by (metis rev_append rev_rev_ident s)
      with False show ?thesis by (metis hd_append2)
    qed
    moreover have "?d \<noteq> []" using r by (metis dropWhile.simps(1) rev.simps(1))
    then have "\<not> py_space U (hd ?d)" by (rule hd_dropWhile)
    ultimately show ?thesis by (simp add: py_strip_id_iff)
  next
    case True
    then show ?thesis by (simp add: py_strip_id_iff)
  qed
  ultimately show "normalize_email U (normalize_email U email) = normalize_email U email"
    using a by (simp add: normalize_email_def py_lower_def comp_def)
  from ascii_map_lower [OF a] show "list_all scalar (normalize_email U email)"
    using a by (auto simp: normalize_email_def py_lower_def ascii_def list_all_iff scalar_ascii)
qed

end
