(* ===== verification/AuthLaws.thy ===== *)
theory AuthLaws
  imports Auth Sample
begin

text \<open>
  The laws of the account service: a lockout machine that \<open>login\<close> refines,
  registration. The life of a session, under every schedule, is in \<open>Sessions\<close>.
\<close>

section \<open>Session tokens are plain text\<close>

lemma urlsafe_char:
  assumes "c \<in> set (urlsafe_b64 bs)" shows "33 \<le> c \<and> c < 127"
proof -
  let ?t = "\<lambda>c::nat. if c = 43 then 45 else if c = 47 then 95 else c"
  have "c \<in> ?t ` set (encode_b64 bs)"
    using assms set_dropWhileD [of c _ "rev (map ?t (encode_b64 bs))"] by (simp add: urlsafe_b64_def)
  then obtain x where x: "x = pad \<or> (\<exists>n. x = b64_char n)" "c = ?t x"
    using b2a_base64_chars unfolding encode_b64_def by blast
  then show ?thesis by (auto simp: b64_char_def)
qed

lemma urlsafe_not_Nil:
  assumes "bs \<noteq> []" shows "urlsafe_b64 bs \<noteq> []"
proof -
  let ?t = "\<lambda>c::nat. if c = 43 then 45 else if c = 47 then 95 else c"
  have "encode_b64 bs \<noteq> []" "hd (encode_b64 bs) \<noteq> pad"
    using assms hd_b2a_base64 [of "octet_vals bs"] by (simp_all add: encode_b64_def octet_vals_def)
  then obtain x xs where "encode_b64 bs = x # xs" "x \<noteq> pad" by (cases "encode_b64 bs") auto
  then have "\<exists>c \<in> set (rev (map ?t (encode_b64 bs))). c \<noteq> pad" by auto
  then show ?thesis by (auto simp: urlsafe_b64_def dropWhile_eq_Nil_conv)
qed

lemma token_text:
  assumes "bs \<noteq> []"
  shows "py_strip U (urlsafe_b64 bs) = urlsafe_b64 bs" "urlsafe_b64 bs \<noteq> []"
    and "list_all scalar (urlsafe_b64 bs)"
proof -
  show n: "urlsafe_b64 bs \<noteq> []" by (rule urlsafe_not_Nil [OF assms])
  have "\<not> py_space U c" if "c \<in> set (urlsafe_b64 bs)" for c
    using urlsafe_char [OF that] by (auto simp: py_space_def)
  with n show "py_strip U (urlsafe_b64 bs) = urlsafe_b64 bs" by (simp add: py_strip_id_iff)
  show "list_all scalar (urlsafe_b64 bs)"
    using urlsafe_char by (fastforce simp: list_all_iff intro: scalar_ascii)
qed

lemma hash_token_ok: "list_all scalar s \<Longrightarrow> \<exists>h. hash_token E s = Inr h"
  using utf8_encode_ok [of s] by (auto simp: hash_token_def)

section \<open>The parts of login\<close>

definition policy :: "ext \<Rightarrow> world \<Rightarrow> settings" where
  "policy E w = load (unicode E) (environ w)"

text \<open>
  Far enough from the year 10000 for deadlines to be representable, and a limit of failures
  whose count fits an SQLite integer.
\<close>

definition clock_ok :: "ext \<Rightarrow> world \<Rightarrow> bool" where
  "clock_ok E w \<longleftrightarrow> max_failed_attempts (policy E w) < 2 ^ 62 \<and>
     (\<forall>k. \<exists>a b. add_minutes (clock w k) (lockout_minutes (policy E w)) = Inr a
        \<and> add_minutes (clock w k) (session_ttl_minutes (policy E w)) = Inr b)"

lemma add_minutes_ok: "add_minutes t m = Inr x \<Longrightarrow> datetime_ok x"
  by (auto simp: add_minutes_def datetime_ok_def Let_def split: if_splits)

definition next_token :: "world \<Rightarrow> pystr" where
  "next_token w = urlsafe_b64 (map (entropy w) [draws w..<draws w + SESSION_TOKEN_BYTES])"

lemma next_token_text:
  "py_strip U (next_token w) = next_token w" "next_token w \<noteq> []" "list_all scalar (next_token w)"
  using token_text [of "map (entropy w) [draws w..<draws w + SESSION_TOKEN_BYTES]"]
  by (simp_all add: next_token_def SESSION_TOKEN_BYTES_def)

text \<open>The token about to be drawn has the hash of no stored session.\<close>

definition token_fresh :: "ext \<Rightarrow> world \<Rightarrow> bool" where
  "token_fresh E w \<longleftrightarrow>
     (\<forall>s \<in> set (rows (sessions (db w))). hash_token E (next_token w) \<noteq> Inr (ses_token_hash s))"

text \<open>A user row that has just been through a failed or a successful attempt.\<close>

definition marked :: "int \<Rightarrow> pystr option \<Rightarrow> pystr \<Rightarrow> user_row \<Rightarrow> user_row" where
  "marked n until stamp u = u\<lparr>usr_failed_attempts := n, usr_locked_until := until, usr_updated_at := stamp\<rparr>"

lemma marked_simps [simp]:
  "usr_id (marked n l s u) = usr_id u" "usr_email (marked n l s u) = usr_email u"
  "usr_password_hash (marked n l s u) = usr_password_hash u"
  "usr_failed_attempts (marked n l s u) = n" "usr_locked_until (marked n l s u) = l"
  by (simp_all add: marked_def)

lemma failed_attempt_run:
  assumes "clock_ok E w" "0 \<le> usr_failed_attempts u" "usr_failed_attempts u + 1 < 2 ^ 63"
  shows "\<exists>k until. ticks w \<le> k \<and>
    (if max_failed_attempts (policy E w) \<le> usr_failed_attempts u + 1
     then \<exists>t. add_minutes (clock w (ticks w)) (lockout_minutes (policy E w)) = Inr t \<and> until = Some (isoformat t)
     else until = None)
    \<and> register_failed_attempt E u w =
      (Inr (), w\<lparr>ticks := Suc k, db := user_update (usr_id u)
        (marked (usr_failed_attempts u + 1) until (isoformat (clock w k))) (db w)\<rparr>)"
proof (cases "max_failed_attempts (policy E w) \<le> usr_failed_attempts u + 1")
  case True
  obtain t where t: "add_minutes (clock w (ticks w)) (lockout_minutes (policy E w)) = Inr t"
    using assms(1) unfolding clock_ok_def by blast
  with True assms(2,3) show ?thesis
    by (intro exI [of _ "Suc (ticks w)"] exI [of _ "Some (isoformat t)"])
      (simp add: register_failed_attempt_def Let_def op_simps op_run compute_lockout_run update_failed_run
        policy_def marked_def [abs_def])
next
  case False
  with assms(2,3) show ?thesis
    by (intro exI [of _ "ticks w"] exI [of _ None])
      (simp add: register_failed_attempt_def Let_def op_simps op_run update_failed_run policy_def
        marked_def [abs_def])
qed

lemma login_user_wrong:
  assumes "clock_ok E w" "0 \<le> usr_failed_attempts u" "usr_failed_attempts u + 1 < 2 ^ 63"
    and "verify_password E p (usr_password_hash u) = Inr False"
  shows "\<exists>k until. ticks w \<le> k \<and>
    (if max_failed_attempts (policy E w) \<le> usr_failed_attempts u + 1
     then \<exists>t. add_minutes (clock w (ticks w)) (lockout_minutes (policy E w)) = Inr t \<and> until = Some (isoformat t)
     else until = None)
    \<and> login_user E u p w =
      (Inl (Auth InvalidCredentialsError), w\<lparr>ticks := Suc k, db := user_update (usr_id u)
        (marked (usr_failed_attempts u + 1) until (isoformat (clock w k))) (db w)\<rparr>)"
proof -
  have "login_user E u p w =
      bindM (register_failed_attempt E u) (\<lambda>_. throw (Auth InvalidCredentialsError)) w"
    using assms(4) by (simp add: login_user_def op_simps bindM_run [of "liftR _"])
  with failed_attempt_run [OF assms(1-3)] show ?thesis by (fastforce simp: op_run op_simps)
qed

lemma session_row_fresh:
  "token_fresh E w \<Longrightarrow> hash_token E (next_token w) = Inr h \<Longrightarrow>
   \<forall>s \<in> set (rows (sessions (db w))). ses_token_hash s \<noteq> h"
  by (auto simp: token_fresh_def)

lemma login_user_right:
  assumes "accounts_ok (db w)" "clock_ok E w" "token_fresh E w" "user_find email (db w) = Some u"
    and "verify_password E p (usr_password_hash u) = Inr True"
  shows "\<exists>exp h s d. add_minutes (clock w (Suc (ticks w))) (session_ttl_minutes (policy E w)) = Inr exp
    \<and> hash_token E (next_token w) = Inr h
    \<and> login_user E u p w = (Inr \<lparr>login_token = next_token w, login_expires_at = isoformat exp\<rparr>,
        w\<lparr>ticks := ticks w + 3, draws := draws w + SESSION_TOKEN_BYTES, db := d\<rparr>)
    \<and> users d = users (user_update (usr_id u) (marked 0 None (isoformat (clock w (ticks w)))) (db w))
    \<and> accounts_ok d \<and> ses_expires_at s = isoformat exp
    \<and> session_of h d = Some (s, marked 0 None (isoformat (clock w (ticks w))) u)
    \<and> (\<forall>g. g \<noteq> h \<longrightarrow> session_of g d = session_of g
        (user_update (usr_id u) (marked 0 None (isoformat (clock w (ticks w)))) (db w)))
    \<and> map ses_token_hash (rows (sessions d)) = map ses_token_hash (rows (sessions (db w))) @ [h]"
proof -
  let ?m = "marked 0 None (isoformat (clock w (ticks w)))"
  let ?d = "user_update (usr_id u) ?m (db w)" and ?stamp = "isoformat (clock w (Suc (Suc (ticks w))))"
  obtain exp where exp: "add_minutes (clock w (Suc (ticks w))) (session_ttl_minutes (policy E w)) = Inr exp"
    using assms(2) unfolding clock_ok_def by blast
  obtain h where h: "hash_token E (next_token w) = Inr h" using hash_token_ok [OF next_token_text(3)] by blast
  have ok: "accounts_ok ?d" by (rule accounts_ok_update [OF assms(1)]) simp_all
  have f: "user_find email ?d = Some (?m u)"
    using user_find_update [OF assms(1,4), of ?m email] by simp
  have u: "?m u \<in> set (rows (users ?d))" using f user_find_iff [OF ok] by blast
  have "\<forall>s \<in> set (rows (sessions ?d)). ses_token_hash s \<noteq> h"
    using session_row_fresh [OF assms(3) h] by (simp add: user_update_def)
  from session_insert_ok [OF u marked_simps(1) this] obtain d where
    d: "session_insert (usr_id u) h (isoformat exp) ?stamp ?d = Inr ((), d)" by blast
  note ins = session_insert_Inr [OF ok d]
  obtain v s where v: "v \<in> set (rows (users ?d))" "usr_id v = usr_id u" "ses_expires_at s = isoformat exp"
    "session_of h d = Some (s, v)" using ins(3) by blast
  have "v = ?m u" using same_user_id [OF ok v(1) u] v(2) by simp
  have "login_user E u p w = (Inr \<lparr>login_token = next_token w, login_expires_at = isoformat exp\<rparr>,
        w\<lparr>ticks := ticks w + 3, draws := draws w + SESSION_TOKEN_BYTES, db := d\<rparr>)"
    using assms(5) exp h d
    by (simp add: login_user_def op_run op_simps reset_run generate_session_token_def compute_expiry_run
        session_create_def connection_def policy_def marked_def [abs_def] next_token_def)
  moreover have "map ses_token_hash (rows (sessions d)) = map ses_token_hash (rows (sessions (db w))) @ [h]"
    using ins(5) by (simp add: user_update_def)
  ultimately show ?thesis using exp h ins(1,2,4) v(3,4) \<open>v = ?m u\<close> by blast
qed

section \<open>The lockout machine\<close>

text \<open>
  What an account promises: it counts failures in a row, and at the limit it is locked until
  a deadline, during which it answers nothing.
\<close>

datatype account_state = Counting nat | Locked datetime
datatype login_answer = Accepted | Denied | Refused

definition attempt :: "int \<Rightarrow> datetime \<Rightarrow> bool \<Rightarrow> nat \<Rightarrow> login_answer \<times> account_state" where
  "attempt limit deadline correct n =
     (if correct then (Accepted, Counting 0)
      else (Denied, if limit \<le> int n + 1 then Locked deadline else Counting (n + 1)))"

fun lockout_step ::
  "int \<Rightarrow> datetime \<Rightarrow> datetime \<Rightarrow> bool \<Rightarrow> account_state \<Rightarrow> login_answer \<times> account_state"
where
  "lockout_step limit t deadline correct (Counting n) = attempt limit deadline correct n"
| "lockout_step limit t deadline correct (Locked until) =
     (if t < until then (Refused, Locked until) else attempt limit deadline correct 0)"

text \<open>The state a user row stands for, and the answer a result of \<open>login\<close> is.\<close>

definition account_of :: "user_row \<Rightarrow> account_state" where
  "account_of u =
     (case usr_locked_until u of
        None \<Rightarrow> Counting (nat (usr_failed_attempts u))
      | Some t \<Rightarrow> Locked (projr (fromisoformat t)))"

fun answer_of :: "login_result res \<Rightarrow> login_answer option" where
  "answer_of (Inr _) = Some Accepted"
| "answer_of (Inl (Auth InvalidCredentialsError)) = Some Denied"
| "answer_of (Inl (Auth AccountLockedError)) = Some Refused"
| "answer_of (Inl _) = None"

definition user_row_ok :: "user_row \<Rightarrow> bool" where
  "user_row_ok u \<longleftrightarrow>
     (case usr_locked_until u of
        None \<Rightarrow> 0 \<le> usr_failed_attempts u \<and> usr_failed_attempts u < 2 ^ 62
      | Some s \<Rightarrow> \<exists>t. datetime_ok t \<and> s = isoformat t)"

lemma account_of_marked [simp]:
  "account_of (marked n None s u) = Counting (nat n)"
  "datetime_ok t \<Longrightarrow> account_of (marked n (Some (isoformat t)) s u) = Locked t"
  by (simp_all add: account_of_def codec_simps)

text \<open>The rest of the world, and the other accounts, during a login.\<close>

definition login_frame :: "pystr \<Rightarrow> world \<Rightarrow> world \<Rightarrow> bool" where
  "login_frame email w w' \<longleftrightarrow>
     ticks w \<le> ticks w' \<and> w'\<lparr>ticks := ticks w, draws := draws w, db := db w\<rparr> = w \<and> accounts_ok (db w')
     \<and> (\<forall>other. other \<noteq> email \<longrightarrow> user_find other (db w') = user_find other (db w))"

lemma login_frame_trans:
  assumes "login_frame e w v" "login_frame e v u" shows "login_frame e w u"
proof -
  have "u\<lparr>ticks := ticks w, draws := draws w, db := db w\<rparr> =
      (u\<lparr>ticks := ticks v, draws := draws v, db := db v\<rparr>)\<lparr>ticks := ticks w, draws := draws w, db := db w\<rparr>"
    by simp
  also have "\<dots> = v\<lparr>ticks := ticks w, draws := draws w, db := db w\<rparr>"
    using assms(2) by (simp only: login_frame_def)
  also have "\<dots> = w" using assms(1) by (simp only: login_frame_def)
  finally show ?thesis using assms by (simp add: login_frame_def)
qed

lemma login_frame_keeps:
  assumes "login_frame e w v"
  shows "clock v = clock w" "environ v = environ w" "policy E v = policy E w" "clock_ok E v = clock_ok E w"
proof -
  have "clock (v\<lparr>ticks := ticks w, draws := draws w, db := db w\<rparr>) = clock w"
    "environ (v\<lparr>ticks := ticks w, draws := draws w, db := db w\<rparr>) = environ w"
    using assms by (simp_all only: login_frame_def)
  then show c: "clock v = clock w" and e: "environ v = environ w" by simp_all
  from e show "policy E v = policy E w" by (simp add: policy_def)
  with c show "clock_ok E v = clock_ok E w" by (simp add: clock_ok_def)
qed

lemma user_row_ok_marked:
  "0 \<le> n \<Longrightarrow> n < 2 ^ 62 \<Longrightarrow> user_row_ok (marked n None s u)"
  "datetime_ok t \<Longrightarrow> user_row_ok (marked n (Some (isoformat t)) s u)"
  by (auto simp: user_row_ok_def)

text \<open>Changing the row of one account.\<close>

lemma marked_row:
  assumes "accounts_ok d" "user_find email d = Some u"
  shows "accounts_ok (user_update (usr_id u) (marked n l s) d)"
    and "user_find email (user_update (usr_id u) (marked n l s) d) = Some (marked n l s u)"
    and "other \<noteq> email \<Longrightarrow> user_find other (user_update (usr_id u) (marked n l s) d) = user_find other d"
  using accounts_ok_update [OF assms(1), of "marked n l s" "usr_id u"]
    user_find_update [OF assms, of "marked n l s" email] user_find_update [OF assms, of "marked n l s" other]
  by simp_all

lemma user_find_users: "users d' = users d \<Longrightarrow> user_find e d' = user_find e d"
  by (simp add: user_find_def)

lemma login_user_attempt:
  assumes "accounts_ok (db w)" "clock_ok E w" "user_find email (db w) = Some u"
    and "usr_locked_until u = None" "user_row_ok u"
    and "verify_password E p (usr_password_hash u) = Inr correct" "correct \<Longrightarrow> token_fresh E w"
  shows "\<exists>r w' u' k deadline. login_user E u p w = (r, w') \<and> login_frame email w w'
    \<and> ticks w \<le> k \<and> add_minutes (clock w k) (lockout_minutes (policy E w)) = Inr deadline
    \<and> user_find email (db w') = Some u' \<and> usr_password_hash u' = usr_password_hash u \<and> user_row_ok u'
    \<and> (answer_of r, account_of u') =
        map_prod Some id (attempt (max_failed_attempts (policy E w)) deadline correct (nat (usr_failed_attempts u)))"
proof -
  let ?n = "usr_failed_attempts u" and ?limit = "max_failed_attempts (policy E w)"
  have n: "0 \<le> ?n" "?n < 2 ^ 62" "?n + 1 < 2 ^ 63" using assms(4,5) by (simp_all add: user_row_ok_def)
  have limit: "?limit < 2 ^ 62" using assms(2) by (simp add: clock_ok_def)
  obtain deadline where dl: "add_minutes (clock w (ticks w)) (lockout_minutes (policy E w)) = Inr deadline"
    using assms(2) unfolding clock_ok_def by blast
  note marked = marked_row [OF assms(1,3)]
  show ?thesis
  proof (cases correct)
    case False
    with assms(6) have v: "verify_password E p (usr_password_hash u) = Inr False" by simp
    obtain k until where k: "ticks w \<le> k" "if ?limit \<le> ?n + 1
     then \<exists>t. add_minutes (clock w (ticks w)) (lockout_minutes (policy E w)) = Inr t \<and> until = Some (isoformat t)
     else until = None"
      "login_user E u p w = (Inl (Auth InvalidCredentialsError), w\<lparr>ticks := Suc k, db := user_update (usr_id u)
        (marked (?n + 1) until (isoformat (clock w k))) (db w)\<rparr>)"
      using login_user_wrong [OF assms(2) n(1,3) v] by blast
    let ?w' = "w\<lparr>ticks := Suc k, db := user_update (usr_id u) (marked (?n + 1) until (isoformat (clock w k))) (db w)\<rparr>"
    let ?u' = "marked (?n + 1) until (isoformat (clock w k)) u"
    have "until = (if ?limit \<le> ?n + 1 then Some (isoformat deadline) else None)"
      using k(2) dl by (simp split: if_splits)
    then have "user_row_ok ?u' \<and> (answer_of (Inl (Auth InvalidCredentialsError)), account_of ?u') =
        map_prod Some id (attempt ?limit deadline correct (nat ?n))"
      using False n limit add_minutes_ok [OF dl] user_row_ok_marked
      by (simp add: attempt_def nat_add_distrib)
    moreover have "login_frame email w ?w'"
      using marked k(1) by (auto simp: login_frame_def)
    ultimately show ?thesis using k(3) dl marked(2) by fastforce
  next
    case True
    with assms(6,7) have v: "verify_password E p (usr_password_hash u) = Inr True" "token_fresh E w" by simp_all
    let ?m = "marked 0 None (isoformat (clock w (ticks w)))"
    obtain exp d where r: "login_user E u p w =
        (Inr \<lparr>login_token = next_token w, login_expires_at = isoformat exp\<rparr>,
         w\<lparr>ticks := ticks w + 3, draws := draws w + SESSION_TOKEN_BYTES, db := d\<rparr>)"
      "users d = users (user_update (usr_id u) ?m (db w))" "accounts_ok d"
      using login_user_right [OF assms(1,2) v(2) assms(3) v(1)] by blast
    let ?w' = "w\<lparr>ticks := ticks w + 3, draws := draws w + SESSION_TOKEN_BYTES, db := d\<rparr>"
    have "login_frame email w ?w'"
      using r marked(3) by (auto simp: login_frame_def user_find_users [OF r(2)])
    moreover have "user_find email (db ?w') = Some (?m u)"
      using marked(2) by (simp add: user_find_users [OF r(2)])
    moreover have "user_row_ok (?m u)" by (rule user_row_ok_marked) simp_all
    moreover have "(answer_of (Inr x), account_of (?m u)) =
        map_prod Some id (attempt ?limit deadline correct (nat ?n))" for x
      using True by (simp add: attempt_def)
    ultimately show ?thesis using r(1) dl by fastforce
  qed
qed

lemma auth_login_open:
  "list_all scalar (normalize_email (unicode E) email) \<Longrightarrow>
   user_find (normalize_email (unicode E) email) (db w) = Some u \<Longrightarrow> usr_locked_until u = None \<Longrightarrow>
   auth_login E email p w = login_user E u p w"
  by (simp add: auth_login_def bindM_run [of "get_by_email _ _"] get_by_email_run)

lemma auth_login_locked:
  "list_all scalar (normalize_email (unicode E) email) \<Longrightarrow>
   user_find (normalize_email (unicode E) email) (db w) = Some u \<Longrightarrow>
   usr_locked_until u = Some (isoformat t) \<Longrightarrow> datetime_ok t \<Longrightarrow> clock w (ticks w) < t \<Longrightarrow>
   auth_login E email p w = (Inl (Auth AccountLockedError), w\<lparr>ticks := Suc (ticks w)\<rparr>)"
  by (simp add: auth_login_def op_run op_simps get_by_email_run codec_simps)

lemma auth_login_expired:
  assumes "accounts_ok (db w)" "list_all scalar (normalize_email (unicode E) email)"
    and "user_find (normalize_email (unicode E) email) (db w) = Some u"
    and "usr_locked_until u = Some (isoformat t)" "datetime_ok t" "\<not> clock w (ticks w) < t"
  shows "auth_login E email p w =
    (let m = marked 0 None (isoformat (clock w (Suc (ticks w))))
     in login_user E (m u) p (w\<lparr>ticks := ticks w + 2, db := user_update (usr_id u) m (db w)\<rparr>))"
  using assms(2-6) marked_row(2) [OF assms(1,3)]
  by (simp add: auth_login_def op_run op_simps get_by_email_run codec_simps reset_run Let_def
      marked_def [abs_def])

lemma login_refines_machine:
  assumes "accounts_ok (db w)" "clock_ok E w" "list_all scalar (normalize_email (unicode E) email)"
    and "user_find (normalize_email (unicode E) email) (db w) = Some u" "user_row_ok u"
    and "verify_password E p (usr_password_hash u) = Inr correct" "correct \<Longrightarrow> token_fresh E w"
  shows "\<exists>r w' u' k deadline. auth_login E email p w = (r, w')
    \<and> login_frame (normalize_email (unicode E) email) w w'
    \<and> ticks w \<le> k \<and> add_minutes (clock w k) (lockout_minutes (policy E w)) = Inr deadline
    \<and> user_find (normalize_email (unicode E) email) (db w') = Some u'
    \<and> usr_password_hash u' = usr_password_hash u \<and> user_row_ok u'
    \<and> (answer_of r, account_of u') = map_prod Some id
        (lockout_step (max_failed_attempts (policy E w)) (clock w (ticks w)) deadline correct (account_of u))"
proof (cases "usr_locked_until u")
  case None
  with login_user_attempt [OF assms(1,2,4) None assms(5,6,7)] show ?thesis
    by (simp add: auth_login_open [OF assms(3,4) None] account_of_def)
next
  case (Some stored)
  with assms(5) obtain t where t: "datetime_ok t" "usr_locked_until u = Some (isoformat t)"
    by (auto simp: user_row_ok_def)
  then have a: "account_of u = Locked t" by (simp add: account_of_def codec_simps)
  show ?thesis
  proof (cases "clock w (ticks w) < t")
    case True
    let ?w' = "w\<lparr>ticks := Suc (ticks w)\<rparr>"
    obtain deadline where "add_minutes (clock w (ticks w)) (lockout_minutes (policy E w)) = Inr deadline"
      using assms(2) unfolding clock_ok_def by blast
    moreover have "login_frame (normalize_email (unicode E) email) w ?w'"
      using assms(1) by (simp add: login_frame_def)
    ultimately show ?thesis
      using auth_login_locked [OF assms(3,4) t(2,1) True, of p] assms(4,5) a True by fastforce
  next
    case False
    let ?m = "marked 0 None (isoformat (clock w (Suc (ticks w))))"
    let ?v = "w\<lparr>ticks := ticks w + 2, db := user_update (usr_id u) ?m (db w)\<rparr>"
    note m = marked_row [OF assms(1,4)]
    have f: "login_frame (normalize_email (unicode E) email) w ?v"
      using m by (simp add: login_frame_def)
    note keep = login_frame_keeps [OF f]
    have tf: "correct \<Longrightarrow> token_fresh E ?v"
      using assms(7) by (simp add: token_fresh_def next_token_def user_update_def)
    have "clock_ok E ?v" "accounts_ok (db ?v)" "user_find (normalize_email (unicode E) email) (db ?v) = Some (?m u)"
      using keep(4) assms(2) m by simp_all
    from login_user_attempt [OF this(2,1,3) _ _ _ tf, of p] assms(6)
    obtain r w' u' k deadline where
      r: "login_user E (?m u) p ?v = (r, w')" "login_frame (normalize_email (unicode E) email) ?v w'"
      "ticks w + 2 \<le> k" "add_minutes (clock w k) (lockout_minutes (policy E w)) = Inr deadline"
      "user_find (normalize_email (unicode E) email) (db w') = Some u'"
      "usr_password_hash u' = usr_password_hash u" "user_row_ok u'"
      "(answer_of r, account_of u') = map_prod Some id (attempt (max_failed_attempts (policy E w)) deadline correct 0)"
      using keep(1,3) by (auto simp: user_row_ok_marked)
    then have "auth_login E email p w = (r, w')"
      using auth_login_expired [OF assms(1,3,4) t(2,1) False] by (simp add: Let_def)
    moreover have "ticks w \<le> k" using r(3) by simp
    ultimately show ?thesis using login_frame_trans [OF f r(2)] r(4-8) a False by fastforce
  qed
qed

section \<open>A series of logins\<close>

primrec logins :: "ext \<Rightarrow> pystr \<Rightarrow> pystr list \<Rightarrow> world \<Rightarrow> login_result res list \<times> world" where
  "logins E email [] w = ([], w)"
| "logins E email (p # ps) w =
     (case auth_login E email p w of (r, v) \<Rightarrow>
      case logins E email ps v of (rs, u) \<Rightarrow> (r # rs, u))"

lemma answer_Denied: "answer_of r = Some Denied \<Longrightarrow> r = Inl (Auth InvalidCredentialsError)"
  by (cases r rule: answer_of.cases) auto

lemma limit_pos: "1 \<le> max_failed_attempts (policy E w)"
  using load_ok [of "unicode E" "environ w"] by (simp add: policy_def settings_ok_def)

lemma wrong_logins:
  assumes "accounts_ok (db w)" "clock_ok E w" "list_all scalar (normalize_email (unicode E) email)"
    and "user_find (normalize_email (unicode E) email) (db w) = Some u" "user_row_ok u"
    and "account_of u = Counting n" "\<forall>p \<in> set ps. verify_password E p (usr_password_hash u) = Inr False"
    and "int (n + length ps) \<le> max_failed_attempts (policy E w)"
  shows "\<exists>w' u'. logins E email ps w = (replicate (length ps) (Inl (Auth InvalidCredentialsError)), w')
    \<and> login_frame (normalize_email (unicode E) email) w w'
    \<and> user_find (normalize_email (unicode E) email) (db w') = Some u'
    \<and> usr_password_hash u' = usr_password_hash u \<and> user_row_ok u'
    \<and> (if ps \<noteq> [] \<and> int (n + length ps) = max_failed_attempts (policy E w)
       then \<exists>k until. ticks w \<le> k \<and> add_minutes (clock w k) (lockout_minutes (policy E w)) = Inr until
              \<and> account_of u' = Locked until
       else account_of u' = Counting (n + length ps))"
  using assms
proof (induction ps arbitrary: w u n)
  case Nil
  then show ?case by (simp add: login_frame_def)
next
  case (Cons p ps)
  let ?e = "normalize_email (unicode E) email" and ?limit = "max_failed_attempts (policy E w)"
  have v: "verify_password E p (usr_password_hash u) = Inr False" using Cons.prems(7) by simp
  obtain r w1 u1 k deadline where s: "auth_login E email p w = (r, w1)" "login_frame ?e w w1"
    "ticks w \<le> k" "add_minutes (clock w k) (lockout_minutes (policy E w)) = Inr deadline"
    "user_find ?e (db w1) = Some u1" "usr_password_hash u1 = usr_password_hash u" "user_row_ok u1"
    "(answer_of r, account_of u1) = map_prod Some id
        (lockout_step ?limit (clock w (ticks w)) deadline False (account_of u))"
    using login_refines_machine [OF Cons.prems(1-5) v] by blast
  have r: "r = Inl (Auth InvalidCredentialsError)"
    using s(8) Cons.prems(6) by (intro answer_Denied) (simp add: attempt_def)
  note keep = login_frame_keeps [OF s(2)]
  have ok: "accounts_ok (db w1)" "clock_ok E w1"
    using s(2) keep(4) Cons.prems(2) by (simp_all add: login_frame_def)
  show ?case
  proof (cases "ps = []")
    case True
    have "account_of u1 = (if ?limit \<le> int n + 1 then Locked deadline else Counting (n + 1))"
      using s(8) Cons.prems(6) by (simp add: attempt_def)
    then have "if int (n + 1) = ?limit
        then \<exists>k until. ticks w \<le> k \<and> add_minutes (clock w k) (lockout_minutes (policy E w)) = Inr until
              \<and> account_of u1 = Locked until
        else account_of u1 = Counting (n + 1)"
      using Cons.prems(8) s(3,4) True by auto
    with True s(1,2,5-7) r show ?thesis by (simp split: if_split_asm)
  next
    case False
    then have lt: "\<not> ?limit \<le> int n + 1" using Cons.prems(8) by (cases ps) auto
    then have a: "account_of u1 = Counting (n + 1)"
      using s(8) Cons.prems(6) by (simp add: attempt_def)
    have "\<forall>p \<in> set ps. verify_password E p (usr_password_hash u1) = Inr False"
      "int (n + 1 + length ps) \<le> max_failed_attempts (policy E w1)"
      using Cons.prems(7,8) s(6) keep(3) by simp_all
    from Cons.IH [OF ok Cons.prems(3) s(5,7) a this] obtain w' u' where
      i: "logins E email ps w1 = (replicate (length ps) (Inl (Auth InvalidCredentialsError)), w')"
      "login_frame ?e w1 w'" "user_find ?e (db w') = Some u'"
      "usr_password_hash u' = usr_password_hash u1" "user_row_ok u'"
      "if int (n + 1 + length ps) = ?limit
       then \<exists>k until. ticks w1 \<le> k \<and> add_minutes (clock w k) (lockout_minutes (policy E w)) = Inr until
              \<and> account_of u' = Locked until
       else account_of u' = Counting (n + 1 + length ps)"
      unfolding keep(1,3) using False by auto
    have "ticks w \<le> ticks w1" using s(2) by (simp add: login_frame_def)
    then have "if int (n + Suc (length ps)) = ?limit
       then \<exists>k until. ticks w \<le> k \<and> add_minutes (clock w k) (lockout_minutes (policy E w)) = Inr until
              \<and> account_of u' = Locked until
       else account_of u' = Counting (n + Suc (length ps))"
      using i(6) by (auto split: if_splits intro: order.trans)
    with s(1) r i(1,3-5) s(6) login_frame_trans [OF s(2) i(2)] show ?thesis
      by (simp split: if_split_asm)
  qed
qed

section \<open>Sessions\<close>

lemma session_of_tables: "users d' = users d \<Longrightarrow> sessions d' = sessions d \<Longrightarrow> session_of h d' = session_of h d"
  by (simp add: session_of_def session_join_def)

lemma bearer_lower [simp]: "py_lower U (lit ''Bearer'') = lit ''bearer''"
  by (simp add: py_lower_def ascii_lower_def text_simps)

lemma current_user_run:
  assumes "py_strip (unicode E) t = t" "t \<noteq> []" "hash_token E t = Inr h"
    and "session_of h (db w) = Some (s, u)" "ses_expires_at s = isoformat exp" "datetime_ok exp"
  shows "get_current_user E (Some (lit ''Bearer'', t)) w =
    (if exp \<le> clock w (ticks w) then Inl (Auth UnauthenticatedError)
     else Inr \<lparr>au_user_id = ses_user_id s, au_email = usr_email u, au_token = t\<rparr>,
     w\<lparr>ticks := Suc (ticks w)\<rparr>)"
  using assms
  by (simp add: get_current_user_def op_run op_simps find_active_run is_expired_def codec_simps Let_def)

lemma current_user_none:
  assumes "py_strip (unicode E) t = t" "hash_token E t = Inr h" "session_of h (db w) = None"
  shows "get_current_user E (Some (lit ''Bearer'', t)) w = (Inl (Auth UnauthenticatedError), w)"
  using assms
  by (simp add: get_current_user_def op_run op_simps find_active_run Let_def)

lemma auth_logout_run:
  "hash_token E t = Inr h \<Longrightarrow> auth_logout E t w =
    (Inr (), w\<lparr>ticks := Suc (ticks w), db := session_revoked h (isoformat (clock w (ticks w))) (db w)\<rparr>)"
  by (simp add: auth_logout_def op_run op_simps session_revoke_run)

section \<open>Laws\<close>

lemma hash_password_run:
  assumes "utf8_encode s = Inr secret" "s \<noteq> []"
  shows "hash_password E (PyStr s) w =
    (case argon2_hash E (password_time_cost (policy E w)) (password_memory_cost (policy E w))
        (password_parallelism (policy E w)) (map (entropy w) [draws w..<draws w + 16]) secret of
       None \<Rightarrow> Inl (Py HashingError) | Some h \<Rightarrow> Inr h, w\<lparr>draws := draws w + 16\<rparr>)"
  using assms by (simp add: hash_password_def op_run op_simps policy_def Let_def split: option.split)

lemma register_refused_hash:
  assumes "evaluate (unicode E) (PyStr p) = None" "hash_password E (PyStr p) w = (Inl e, v)"
  shows "auth_register E email p p w = (Inl e, v)"
  using assms by (simp add: auth_register_def bindM_run [of "raise_if _ _"] bindM_run [of "hash_password _ _"] op_simps)

lemma register_inserts:
  assumes "accounts_ok (db w)" "evaluate (unicode E) (PyStr p) = None" "hash_password E (PyStr p) w = (Inr h, w\<lparr>draws := k\<rparr>)"
    and "verify_password E p h = Inr True" "list_all scalar h" "normalize_email (unicode E) email = n" "normalize_email (unicode E) n = n" "list_all scalar n"
  shows "\<exists>r w'. auth_register E email p p w = (r, w') \<and> accounts_ok (db w') \<and>
    (case user_find n (db w) of
       Some _ \<Rightarrow> r = Inl (Auth (DuplicateEmailError n)) \<and> db w' = db w
     | None \<Rightarrow>
         \<exists>u reg. r = Inr reg \<and> reg_email reg = n \<and> user_find n (db w') = Some u
           \<and> rows (users (db w')) = rows (users (db w)) @ [u] \<and> usr_password_hash u = h
           \<and> verify_password E p h = Inr True \<and> account_of u = Counting 0 \<and> user_row_ok u \<and> sessions (db w') = sessions (db w)
           \<and> (\<forall>other. other \<noteq> n \<longrightarrow> user_find other (db w') = user_find other (db w)))"
proof -
  let ?stamp = "isoformat (clock w (ticks w))"
  let ?u = "new_user n h ?stamp (next_id (users (db w)))"
  note run = register_hashed [OF assms(2,3), of email]
    user_create_run [of "w\<lparr>draws := k\<rparr>" E email h, unfolded assms(6), OF _ assms(8,5,7)]
  show ?thesis
  proof (cases "user_find n (db w)")
    case (Some u)
    then show ?thesis using run assms(1) by (simp add: op_run op_simps Let_def)
  next
    case None
    note ins = user_inserted [OF assms(1) None refl, where h = h and stamp = ?stamp]
    let ?d = "(db w)\<lparr>users := (users (db w))\<lparr>rows := rows (users (db w)) @ [?u],
        next_id := next_id (users (db w)) + 1\<rparr>\<rparr>"
    have "\<exists>reg. auth_register E email p p w = (Inr reg, w\<lparr>draws := k, ticks := Suc (ticks w), db := ?d\<rparr>)
        \<and> reg_email reg = n"
      using run assms(1) None by (simp add: op_run op_simps Let_def new_user_def)
    moreover have "account_of ?u = Counting 0" "user_row_ok ?u" "usr_password_hash ?u = h"
      by (simp_all add: account_of_def user_row_ok_def new_user_def)
    ultimately show ?thesis using ins None assms(4) by fastforce
  qed
qed

text \<open>C40: registration answers exactly, for every Argon2id. Different confirmation and weak passphrase
  are refused in this order; then the passphrase is hashed under the configured cost parameters and
  sixteen fresh bytes of salt. If Argon2id refuses the parameters, \<open>HashingError\<close> leaves the request
  (a 500); otherwise a taken address is refused, and a free one gets exactly one account more, under
  the normalised address, unlocked, holding the hash just computed. Refusals of every kind leave the
  database as it was, and a success leaves all other accounts and all sessions.\<close>

theorem register_account:
  assumes "accounts_ok (db w)" "password_hash_ok E"
    and "normalize_email (unicode E) (normalize_email (unicode E) email) = normalize_email (unicode E) email"
    and "list_all scalar (normalize_email (unicode E) email)" "utf8_encode p = Inr secret"
  shows "\<exists>r w'. auth_register E email p c w = (r, w') \<and> accounts_ok (db w') \<and>
    (let n = normalize_email (unicode E) email; configured = load (unicode E) (environ w) in
     if p \<noteq> c then r = Inl (Auth PassphraseMismatchError) \<and> db w' = db w
     else case evaluate (unicode E) (PyStr p) of
       Some issue \<Rightarrow> r = Inl (Auth (WeakPassphraseError (issue_code issue))) \<and> db w' = db w
     | None \<Rightarrow>
         (case argon2_hash E (password_time_cost configured) (password_memory_cost configured)
             (password_parallelism configured) (map (entropy w) [draws w..<draws w + 16]) secret of
            None \<Rightarrow> r = Inl (Py HashingError) \<and> db w' = db w
          | Some h \<Rightarrow>
              (case user_find n (db w) of
                 Some _ \<Rightarrow> r = Inl (Auth (DuplicateEmailError n)) \<and> db w' = db w
               | None \<Rightarrow>
                   \<exists>u reg. r = Inr reg \<and> reg_email reg = n \<and> user_find n (db w') = Some u
                     \<and> rows (users (db w')) = rows (users (db w)) @ [u]
                     \<and> usr_password_hash u = h \<and> verify_password E p h = Inr True
                     \<and> account_of u = Counting 0 \<and> user_row_ok u
                     \<and> sessions (db w') = sessions (db w)
                     \<and> (\<forall>other. other \<noteq> n \<longrightarrow> user_find other (db w') = user_find other (db w)))))"
proof (cases "p = c \<and> evaluate (unicode E) (PyStr p) = None")
  case False
  show ?thesis
  proof (cases "p = c")
    case True
    with False obtain i where "evaluate (unicode E) (PyStr p) = Some i" by auto
    with True assms(1) register_refused(2) [OF this] show ?thesis by simp
  next
    case False
    with assms(1) register_refused(1) [OF this] show ?thesis by simp
  qed
next
  case True
  note ev = conjunct2 [OF True] and c = conjunct1 [OF True]
  note run = hash_password_run [OF assms(5) evaluate_not_Nil [OF ev], of E w]
  show ?thesis
  proof (cases "argon2_hash E (password_time_cost (policy E w)) (password_memory_cost (policy E w))
      (password_parallelism (policy E w)) (map (entropy w) [draws w..<draws w + 16]) secret")
    case None
    with run have "hash_password E (PyStr p) w = (Inl (Py HashingError), w\<lparr>draws := draws w + 16\<rparr>)" by simp
    from register_refused_hash [OF ev this] None ev assms(1) show ?thesis
      by (simp add: c [symmetric] policy_def Let_def)
  next
    case (Some h)
    with run have h: "hash_password E (PyStr p) w = (Inr h, w\<lparr>draws := draws w + 16\<rparr>)" by simp
    note v = verify_hashed [OF assms(2) h]
    from register_inserts [OF assms(1) ev h v refl assms(3,4)] Some ev show ?thesis
      by (simp add: c [symmetric] policy_def Let_def)
  qed
qed

text \<open>C24: login refines the lockout machine. For an existing account the answer of login
  and the state its row then stands for are those of one step of the machine, with the time
  read first for the check and a deadline counted from some later reading of the clock;
  the password hash and the other accounts stay.\<close>

theorem login_refines_lockout:
  assumes "accounts_ok (db w)" "clock_ok E w" "list_all scalar (normalize_email (unicode E) email)"
    and "user_find (normalize_email (unicode E) email) (db w) = Some u" "user_row_ok u"
    and "verify_password E p (usr_password_hash u) = Inr correct" "correct \<Longrightarrow> token_fresh E w"
  shows "\<exists>r w' u' k deadline. auth_login E email p w = (r, w') \<and> accounts_ok (db w')
    \<and> ticks w \<le> k \<and> add_minutes (clock w k) (lockout_minutes (load (unicode E) (environ w))) = Inr deadline
    \<and> user_find (normalize_email (unicode E) email) (db w') = Some u' \<and> user_row_ok u'
    \<and> usr_password_hash u' = usr_password_hash u
    \<and> (\<forall>other. other \<noteq> normalize_email (unicode E) email \<longrightarrow> user_find other (db w') = user_find other (db w))
    \<and> (answer_of r, account_of u') = map_prod Some id
        (lockout_step (max_failed_attempts (load (unicode E) (environ w))) (clock w (ticks w)) deadline
           correct (account_of u))"
  using login_refines_machine [OF assms] unfolding login_frame_def policy_def by blast

text \<open>C18: brute force is stopped. After as many wrong passphrases in a row as the limit
  allows, each answered alike, the account is locked until a deadline; until then every
  login, with the right passphrase too, is refused and changes nothing but the clock.\<close>

theorem lockout_after_failures:
  assumes "accounts_ok (db w)" "clock_ok E w" "list_all scalar (normalize_email (unicode E) email)"
    and "user_find (normalize_email (unicode E) email) (db w) = Some u" "user_row_ok u"
    and "account_of u = Counting 0"
    and "\<forall>p \<in> set ps. verify_password E p (usr_password_hash u) = Inr False"
    and "int (length ps) = max_failed_attempts (load (unicode E) (environ w))"
  shows "\<exists>w' u' k until. logins E email ps w = (replicate (length ps) (Inl (Auth InvalidCredentialsError)), w')
    \<and> user_find (normalize_email (unicode E) email) (db w') = Some u' \<and> account_of u' = Locked until
    \<and> ticks w \<le> k \<and> add_minutes (clock w k) (lockout_minutes (load (unicode E) (environ w))) = Inr until
    \<and> (\<forall>v p. user_find (normalize_email (unicode E) email) (db v) = Some u' \<longrightarrow> clock v (ticks v) < until \<longrightarrow>
         auth_login E email p v = (Inl (Auth AccountLockedError), v\<lparr>ticks := Suc (ticks v)\<rparr>))"
proof -
  let ?e = "normalize_email (unicode E) email"
  have len: "int (0 + length ps) = max_failed_attempts (policy E w)" "ps \<noteq> []"
    using assms(8) limit_pos [of E w] by (auto simp: policy_def)
  obtain w' u' k until where
    a: "logins E email ps w = (replicate (length ps) (Inl (Auth InvalidCredentialsError)), w')"
    "user_find ?e (db w') = Some u'" "user_row_ok u'" "account_of u' = Locked until" "ticks w \<le> k"
    "add_minutes (clock w k) (lockout_minutes (policy E w)) = Inr until"
    using wrong_logins [OF assms(1-7)] len by (auto simp del: of_nat_add)
  obtain t where t: "usr_locked_until u' = Some (isoformat t)" "datetime_ok t"
    using a(3,4) by (auto simp: account_of_def user_row_ok_def split: option.splits)
  then have "t = until" using a(4) by (simp add: account_of_def codec_simps)
  with t auth_login_locked [OF assms(3)] a show ?thesis unfolding policy_def by blast
qed

section \<open>The laws apply\<close>

text \<open>A start state whose clock stands still, and the same with one account.\<close>

definition toy_email :: pystr where "toy_email = lit ''a@b.cd''"

definition toy_still :: world where
  "toy_still = toy_world\<lparr>clock := (\<lambda>n. DT 63000000000000000)\<rparr>"

definition toy_user :: user_row where
  "toy_user = new_user toy_email (replicate 16 0 @ toy_passphrase) (lit ''now'') 1"

definition toy_account :: world where
  "toy_account = toy_still\<lparr>db := empty_database\<lparr>users := \<lparr>rows = [toy_user], next_id = 2\<rparr>\<rparr>\<rparr>"

lemma toy_still_fields [simp]:
  "environ toy_still = (\<lambda>k. None)" "ticks toy_still = 0"
  "clock toy_still = (\<lambda>n. DT 63000000000000000)"
  "environ toy_account = (\<lambda>k. None)" "ticks toy_account = 0"
  "clock toy_account = (\<lambda>n. DT 63000000000000000)"
  by (simp_all add: toy_still_def toy_account_def)

lemma toy_clock_ok: "clock_ok toy toy_still" "clock_ok toy toy_account"
  by (simp_all add: clock_ok_def policy_def load_default setting_defaults
      add_minutes_def DATETIME_LIMIT_def US_PER_DAY_def)

lemma toy_ascii: "ascii toy_email" "ascii toy_passphrase"
  by (simp_all add: toy_email_def toy_passphrase_def text_simps)

lemma toy_email_ok:
  "normalize_email toy_unicode toy_email = toy_email" "list_all scalar toy_email"
  "list_all scalar toy_passphrase"
  using toy_ascii
  by (simp_all add: normalize_email_def py_strip_def py_space_def py_lower_def toy_email_def text_simps
      ascii_lower_def ascii_def list_all_iff scalar_ascii)

lemma toy_hash_ok: "password_hash_ok toy" "hashing_ok toy (\<lambda>k. None)"
proof -
  have "scalar (unat (b :: byte))" for b using unsigned_less [of b, where 'a = nat] by (simp add: scalar_def)
  then show "password_hash_ok toy"
    by (auto simp: password_hash_ok_def toy_def list_all_iff split: if_splits)
  show "hashing_ok toy (\<lambda>k. None)" by (simp add: hashing_ok_def load_default Let_def) (simp add: toy_def)
qed

lemma toy_accounts:
  "accounts_ok (db toy_still)" "user_find toy_email (db toy_still) = None"
  "accounts_ok (db toy_account)" "user_find toy_email (db toy_account) = Some toy_user"
  "user_row_ok toy_user" "account_of toy_user = Counting 0" "token_fresh toy toy_account"
  by (simp_all add: toy_still_def toy_account_def accounts_ok_def user_find_def tbl_one_def toy_user_def
      new_user_def user_row_ok_def account_of_def token_fresh_def)

lemma toy_verify_eq:
  assumes "ascii s" shows "verify_password toy s h = Inr (drop 16 h = s)"
proof -
  have "list_all scalar s" "concat (map utf8_char s) = s" "\<forall>n \<in> set s. n < 256"
    using assms by (auto simp: ascii_def list_all_iff scalar_ascii utf8_char_def map_idI concat_map_singleton
        cong: map_cong)
  then show ?thesis
    using octet_vals_octets [of s]
    by (simp add: verify_password_def utf8_encode_def toy_def octet_vals_def)
qed

lemma toy_verify:
  "verify_password toy toy_passphrase (usr_password_hash toy_user) = Inr True"
  "verify_password toy (lit ''x'') (usr_password_hash toy_user) = Inr False"
  using toy_verify_eq [OF toy_ascii(2)] toy_verify_eq [of "lit ''x''"]
  by (simp_all add: toy_user_def new_user_def text_simps toy_passphrase_def)

lemma toy_limit: "max_failed_attempts (load toy_unicode (\<lambda>k. None)) = 5"
  by (simp add: load_default setting_defaults)

text \<open>The settings accept a memory of 8 with the parallelism of 4, which Argon2id refuses: then
  registration fails, and with the defaults it succeeds.\<close>

definition toy_small_memory :: environ where
  "toy_small_memory = (\<lambda>k. if k = lit ''MINIVAULT_PASSWORD_MEMORY_COST'' then Some (lit ''8'') else None)"

lemma toy_refusing:
  "password_time_cost (load toy_unicode toy_small_memory) = 3"
  "password_memory_cost (load toy_unicode toy_small_memory) = 8"
  "password_parallelism (load toy_unicode toy_small_memory) = 4"
  by code_simp+

lemma toy_secret: "\<exists>secret. utf8_encode toy_passphrase = Inr secret"
  by (rule utf8_encode_ok [OF toy_email_ok(3)])

theorem register_account_witness:
  "(\<exists>reg w'. auth_register toy toy_email toy_passphrase toy_passphrase toy_still = (Inr reg, w')
      \<and> user_find toy_email (db w') \<noteq> None)
   \<and> (\<exists>w'. auth_register toy toy_email toy_passphrase toy_passphrase (toy_still\<lparr>environ := toy_small_memory\<rparr>) =
        (Inl (Py HashingError), w'))"
proof -
  obtain secret where s: "utf8_encode toy_passphrase = Inr secret" using toy_secret by blast
  have e: "normalize_email (unicode toy) (normalize_email (unicode toy) toy_email) = normalize_email (unicode toy) toy_email"
    "list_all scalar (normalize_email (unicode toy) toy_email)"
    by (simp_all add: toy_email_ok)
  have a: "argon2_hash toy t m p salt pw = (if m < 8 * p then None else Some (map unat (salt @ pw)))" for t m p salt pw
    by (simp add: toy_def)
  note run = register_account [OF _ toy_hash_ok(1) e s, of _ toy_passphrase, simplified Let_def unicode_toy toy_email_ok]
  from run [OF toy_accounts(1)] run [of "toy_still\<lparr>environ := toy_small_memory\<rparr>"]
  show ?thesis
    by (auto simp: toy_passphrase_ok toy_accounts a load_default toy_refusing)
qed

theorem login_refines_lockout_witness:
  "\<exists>r w' u'. auth_login toy toy_email (lit ''x'') toy_account = (r, w')
    \<and> user_find toy_email (db w') = Some u' \<and> answer_of r = Some Denied \<and> account_of u' = Counting 1"
proof -
  have "list_all scalar (normalize_email (unicode toy) toy_email)"
    "user_find (normalize_email (unicode toy) toy_email) (db toy_account) = Some toy_user"
    by (simp_all add: toy_email_ok toy_accounts)
  from login_refines_lockout [OF toy_accounts(3) toy_clock_ok(2) this toy_accounts(5) toy_verify(2)]
  obtain r w' u' deadline where "auth_login toy toy_email (lit ''x'') toy_account = (r, w')"
    "user_find toy_email (db w') = Some u'"
    "(answer_of r, account_of u') = map_prod Some id
        (lockout_step 5 (clock toy_account (ticks toy_account)) deadline False (account_of toy_user))"
    by (auto simp: toy_email_ok toy_limit)
  then show ?thesis by (simp add: toy_accounts attempt_def)
qed

theorem lockout_after_failures_witness:
  "\<exists>w' until. logins toy toy_email (replicate 5 (lit ''x'')) toy_account =
      (replicate 5 (Inl (Auth InvalidCredentialsError)), w')
    \<and> (\<forall>v p. users (db v) = users (db w') \<longrightarrow> clock v (ticks v) < until \<longrightarrow>
         auth_login toy toy_email p v = (Inl (Auth AccountLockedError), v\<lparr>ticks := Suc (ticks v)\<rparr>))
    \<and> clock toy_account 0 < until"
proof -
  have "list_all scalar (normalize_email (unicode toy) toy_email)"
    "user_find (normalize_email (unicode toy) toy_email) (db toy_account) = Some toy_user"
    "\<forall>p \<in> set (replicate 5 (lit ''x'')). verify_password toy p (usr_password_hash toy_user) = Inr False"
    "int (length (replicate 5 (lit ''x''))) = max_failed_attempts (load (unicode toy) (environ toy_account))"
    by (simp_all add: toy_email_ok toy_accounts toy_verify toy_limit)
  note run = lockout_after_failures [OF toy_accounts(3) toy_clock_ok(2) this(1,2) toy_accounts(5,6) this(3,4)]
  obtain w' u' k until where l: "logins toy toy_email (replicate 5 (lit ''x'')) toy_account =
      (replicate 5 (Inl (Auth InvalidCredentialsError)), w')" "user_find toy_email (db w') = Some u'"
    "add_minutes (clock toy_account k) (lockout_minutes (load toy_unicode (environ toy_account))) = Inr until"
    "\<forall>v p. user_find toy_email (db v) = Some u' \<longrightarrow> clock v (ticks v) < until \<longrightarrow>
       auth_login toy toy_email p v = (Inl (Auth AccountLockedError), v\<lparr>ticks := Suc (ticks v)\<rparr>)"
    using run by (simp only: toy_email_ok length_replicate unicode_toy) blast
  have "clock toy_account 0 < until"
    using l(3) by (auto simp: load_default setting_defaults add_minutes_def Let_def less_datetime_def split: if_splits)
  moreover have "user_find toy_email (db v) = Some u'" if "users (db v) = users (db w')" for v :: world
    using user_find_users [OF that, of toy_email] l(2) by simp
  ultimately show ?thesis using l(1,4) by blast
qed

end
