(* ===== verification/Process.thy ===== *)
theory Process
  imports Prelude
begin

text \<open>
  Processes that share a state: the server runs every request in a thread of its own, so the
  steps of several requests interleave. A process is what is left of a request to run: a result,
  or a step on the shared state that leaves a smaller process. Running a process alone gives
  the operation it stands for; a pool of processes runs by steps of any of them.
\<close>

section \<open>Processes\<close>

datatype ('w, 'a) proc = Done "'a res" | Step "'w \<Rightarrow> ('w, 'a) proc \<times> 'w"

lemma proc_induct [case_names Done Step, induct type: proc]:
  assumes "\<And>r. Q (Done r)"
    and "\<And>s. (\<And>w p w'. s w = (p, w') \<Longrightarrow> Q p) \<Longrightarrow> Q (Step s)"
  shows "Q p"
proof (induction p rule: proc.induct)
  case (Step s)
  have "Q p" if "s w = (p, w')" for w p w'
    using Step [of "(p, w')" p] that by (metis fsts.intros fst_conv rangeI)
  then show ?case by (rule assms(2))
qed (rule assms(1))

text \<open>One operation as one step.\<close>

definition atomic :: "('w, 'a) op \<Rightarrow> ('w, 'a) proc" where
  "atomic m = Step (\<lambda>w. case m w of (r, w') \<Rightarrow> (Done r, w'))"

text \<open>Sequencing and exceptions, as for operations; neither is a step of its own.\<close>

primrec bindP :: "('w, 'a) proc \<Rightarrow> ('a \<Rightarrow> ('w, 'b) proc) \<Rightarrow> ('w, 'b) proc" where
  "bindP (Done r) f = (case r of Inl e \<Rightarrow> Done (Inl e) | Inr x \<Rightarrow> f x)"
| "bindP (Step s) f = Step (\<lambda>w. map_prod (\<lambda>p. bindP p f) id (s w))"

primrec mapR :: "('a res \<Rightarrow> 'b res) \<Rightarrow> ('w, 'a) proc \<Rightarrow> ('w, 'b) proc" where
  "mapR g (Done r) = Done (g r)"
| "mapR g (Step s) = Step (\<lambda>w. map_prod (mapR g) id (s w))"

definition retP :: "'a \<Rightarrow> ('w, 'a) proc" where "retP x = Done (Inr x)"
definition throwP :: "exn \<Rightarrow> ('w, 'a) proc" where "throwP e = Done (Inl e)"
definition liftP :: "'a res \<Rightarrow> ('w, 'a) proc" where "liftP r = Done r"

definition raiseP :: "bool \<Rightarrow> exn \<Rightarrow> ('w, unit) proc" where
  "raiseP c e = (if c then throwP e else retP ())"

definition catchP :: "('w, 'a) proc \<Rightarrow> (exn \<Rightarrow> bool) \<Rightarrow> exn \<Rightarrow> ('w, 'a) proc" where
  "catchP p test h = mapR (\<lambda>r. catchR r test h) p"

primrec mapP :: "('a \<Rightarrow> ('w, 'b) proc) \<Rightarrow> 'a list \<Rightarrow> ('w, 'b list) proc" where
  "mapP f [] = retP []"
| "mapP f (x # xs) = bindP (f x) (\<lambda>y. bindP (mapP f xs) (\<lambda>ys. retP (y # ys)))"

section \<open>Running alone\<close>

primrec run_alone :: "('w, 'a) proc \<Rightarrow> ('w, 'a) op" where
  "run_alone (Done r) = (\<lambda>w. (r, w))"
| "run_alone (Step s) = (\<lambda>w. case map_prod run_alone id (s w) of (m, w') \<Rightarrow> m w')"

named_theorems run_simps \<open>what a process does when it runs alone\<close>

lemma run_atomic [run_simps]: "run_alone (atomic m) = m"
  by (auto simp: atomic_def fun_eq_iff split: prod.split)

lemma run_basic [run_simps]:
  "run_alone (retP x) = ret x" "run_alone (throwP e) = throw e" "run_alone (liftP r) = liftR r"
  "run_alone (raiseP c e) = raise_if c e"
  by (auto simp: fun_eq_iff retP_def throwP_def liftP_def raiseP_def op_simps)

lemma run_bind [run_simps]: "run_alone (bindP p f) = bindM (run_alone p) (\<lambda>x. run_alone (f x))"
proof (induction p)
  case (Done r)
  then show ?case by (auto simp: fun_eq_iff op_run split: sum.split)
next
  case (Step s)
  show ?case
  proof
    fix w
    obtain p w' where s: "s w = (p, w')" by (rule prod.exhaust)
    with Step show "run_alone (bindP (Step s) f) w = bindM (run_alone (Step s)) (\<lambda>x. run_alone (f x)) w"
      by (simp add: op_run)
  qed
qed

lemma run_mapR: "run_alone (mapR g p) w = (case run_alone p w of (r, w') \<Rightarrow> (g r, w'))"
proof (induction p arbitrary: w)
  case (Step s)
  obtain p w' where s: "s w = (p, w')" by (rule prod.exhaust)
  with Step show ?case by simp
qed simp

lemma run_catch [run_simps]: "run_alone (catchP p test h) = catchM (run_alone p) test h"
  by (simp add: fun_eq_iff catchP_def run_mapR op_run)

lemma run_map [run_simps]: "run_alone (mapP f xs) = mapM (\<lambda>x. run_alone (f x)) xs"
  by (induction xs) (simp_all add: run_simps)

lemma run_cases [run_simps]:
  "run_alone (if c then p else q) = (if c then run_alone p else run_alone q)"
  "run_alone (case_option a b x) = case_option (run_alone a) (\<lambda>y. run_alone (b y)) x"
  "run_alone (case_prod h z) = case_prod (\<lambda>y1 y2. run_alone (h y1 y2)) z"
  by (simp_all split: option.split prod.split)

section \<open>What every step keeps\<close>

text \<open>
  The contract of a process towards the others: from a state with the invariant \<open>P\<close> every step
  leads to a state with the invariant, and the change is one that \<open>G\<close> allows.
\<close>

primrec guarantees :: "('w \<Rightarrow> bool) \<Rightarrow> ('w \<Rightarrow> 'w \<Rightarrow> bool) \<Rightarrow> ('w, 'a) proc \<Rightarrow> bool" where
  "guarantees P G (Done r) = True"
| "guarantees P G (Step s) =
     (\<forall>w. P w \<longrightarrow> (case map_prod (guarantees P G) id (s w) of (ok, w') \<Rightarrow> ok \<and> P w' \<and> G w w'))"

text \<open>The same for one operation.\<close>

definition allowed :: "('w \<Rightarrow> bool) \<Rightarrow> ('w \<Rightarrow> 'w \<Rightarrow> bool) \<Rightarrow> ('w, 'a) op \<Rightarrow> bool" where
  "allowed P G m \<longleftrightarrow> (\<forall>w. P w \<longrightarrow> P (snd (m w)) \<and> G w (snd (m w)))"

named_theorems guarantee_rules \<open>structural rules for the contract of a process\<close>

lemma guarantees_Step:
  "guarantees P G (Step s) \<Longrightarrow> P w \<Longrightarrow> s w = (p, w') \<Longrightarrow> guarantees P G p \<and> P w' \<and> G w w'"
  by (auto split: prod.splits)

lemma guarantees_atomic [guarantee_rules]: "allowed P G m \<Longrightarrow> guarantees P G (atomic m)"
  by (auto simp: allowed_def atomic_def split: prod.split)

lemma guarantees_basic [guarantee_rules]:
  "guarantees P G (retP x)" "guarantees P G (throwP e)" "guarantees P G (liftP r)"
  "guarantees P G (raiseP c e)"
  by (simp_all add: retP_def throwP_def liftP_def raiseP_def)

lemma guarantees_bind [guarantee_rules]:
  assumes "guarantees P G p" "\<And>x. guarantees P G (f x)" shows "guarantees P G (bindP p f)"
  using assms(1)
proof (induction p)
  case (Done r)
  then show ?case using assms(2) by (cases r) auto
next
  case (Step s)
  show ?case unfolding bindP.simps guarantees.simps
  proof (intro allI impI)
    fix w assume P: "P w"
    obtain p w' where s: "s w = (p, w')" by (rule prod.exhaust)
    with guarantees_Step [OF Step.prems P] Step.IH [OF s]
    show "case map_prod (guarantees P G) id (map_prod (\<lambda>p. bindP p f) id (s w)) of (ok, w') \<Rightarrow>
        ok \<and> P w' \<and> G w w'"
      by simp
  qed
qed

lemma guarantees_mapR:
  assumes "guarantees P G p" shows "guarantees P G (mapR g p)"
  using assms
proof (induction p)
  case (Step s)
  show ?case unfolding mapR.simps guarantees.simps
  proof (intro allI impI)
    fix w assume P: "P w"
    obtain p w' where s: "s w = (p, w')" by (rule prod.exhaust)
    with guarantees_Step [OF Step.prems P] Step.IH [OF s]
    show "case map_prod (guarantees P G) id (map_prod (mapR g) id (s w)) of (ok, w') \<Rightarrow>
        ok \<and> P w' \<and> G w w'"
      by simp
  qed
qed simp

lemma guarantees_catch [guarantee_rules]: "guarantees P G p \<Longrightarrow> guarantees P G (catchP p test h)"
  by (simp add: catchP_def guarantees_mapR)

lemma guarantees_map [guarantee_rules]: "(\<And>x. guarantees P G (f x)) \<Longrightarrow> guarantees P G (mapP f xs)"
  by (induction xs) (auto intro!: guarantee_rules)

lemma guarantees_if [guarantee_rules]:
  "(c \<Longrightarrow> guarantees P G p) \<Longrightarrow> (\<not> c \<Longrightarrow> guarantees P G q) \<Longrightarrow> guarantees P G (if c then p else q)"
  by simp

lemma guarantees_option [guarantee_rules]:
  "(x = None \<Longrightarrow> guarantees P G p) \<Longrightarrow> (\<And>y. x = Some y \<Longrightarrow> guarantees P G (f y)) \<Longrightarrow>
   guarantees P G (case x of None \<Rightarrow> p | Some y \<Rightarrow> f y)"
  by (cases x) simp_all

lemma guarantees_prod [guarantee_rules]:
  "(\<And>a b. x = (a, b) \<Longrightarrow> guarantees P G (f a b)) \<Longrightarrow> guarantees P G (case x of (a, b) \<Rightarrow> f a b)"
  by (cases x) simp

section \<open>Pools\<close>

text \<open>One step of a pool: some process that is not finished runs its next step.\<close>

inductive pool_step :: "('w, 'a) proc list \<times> 'w \<Rightarrow> ('w, 'a) proc list \<times> 'w \<Rightarrow> bool" where
  ran: "i < length ps \<Longrightarrow> ps ! i = Step s \<Longrightarrow> s w = (p, w') \<Longrightarrow> pool_step (ps, w) (ps[i := p], w')"

inductive_cases pool_stepE: "pool_step (ps, w) (ps', w')"

abbreviation pool_runs where "pool_runs \<equiv> pool_step\<^sup>*\<^sup>*"

fun is_done :: "('w, 'a) proc \<Rightarrow> bool" where
  "is_done (Done r) = True"
| "is_done (Step s) = False"

text \<open>The invariant and the allowed changes carry over to every interleaving.\<close>

lemma pool_step_keeps:
  assumes "pool_step (ps, w) (ps', w')" "\<forall>p \<in> set ps. guarantees P G p" "P w"
  shows "(\<forall>p \<in> set ps'. guarantees P G p) \<and> P w' \<and> G w w'"
proof -
  from assms(1) obtain i s p where ran: "i < length ps" "ps ! i = Step s" "s w = (p, w')" "ps' = ps[i := p]"
    by (rule pool_stepE) blast
  then have "guarantees P G (Step s)" using assms(2) by (metis nth_mem)
  from guarantees_Step [OF this assms(3) ran(3)] ran(1,4) assms(2) show ?thesis
    by (auto dest: set_update_subset_insert [THEN subsetD])
qed

lemma pool_runs_keeps:
  assumes "pool_runs c c'" "\<forall>p \<in> set (fst c). guarantees P G p" "P (snd c)"
  shows "(\<forall>p \<in> set (fst c'). guarantees P G p) \<and> P (snd c') \<and> G\<^sup>*\<^sup>* (snd c) (snd c')"
  using assms(1)
proof (induction rule: rtranclp_induct)
  case base
  with assms(2,3) show ?case by simp
next
  case (step y z)
  then have "(\<forall>p \<in> set (fst z). guarantees P G p) \<and> P (snd z) \<and> G (snd y) (snd z)"
    using pool_step_keeps [of "fst y" "snd y" "fst z" "snd z" P G] by simp
  with step.IH show ?case by auto
qed

section \<open>Schedules\<close>

text \<open>A pool whose other processes stay still runs one of them alone.\<close>

lemma pool_alone:
  "run_alone p w = (r, w') \<Longrightarrow> i < length ps \<Longrightarrow> ps ! i = p \<Longrightarrow>
   pool_runs (ps, w) (ps[i := Done r], w')"
proof (induction p arbitrary: ps w)
  case (Done r')
  then have "ps[i := Done r] = ps" by (metis Pair_inject list_update_id run_alone.simps(1))
  with Done.prems show ?case by simp
next
  case (Step s)
  obtain p w1 where s: "s w = (p, w1)" by (rule prod.exhaust)
  with Step.prems have one: "pool_step (ps, w) (ps[i := p], w1)" by (metis ran)
  have "run_alone p w1 = (r, w')" using Step.prems(1) s by simp
  with Step.IH [OF s, of w1 "ps[i := p]"] Step.prems(2)
  have "pool_runs (ps[i := p], w1) (ps[i := Done r], w')" by simp
  with one show ?case by (rule converse_rtranclp_into_rtranclp)
qed

text \<open>Processes beside the ones that run do not matter.\<close>

lemma pool_step_beside:
  assumes "pool_step (ps, w) (ps', w')" shows "pool_step (xs @ ps @ ys, w) (xs @ ps' @ ys, w')"
proof -
  from assms obtain i s p where r: "i < length ps" "ps ! i = Step s" "s w = (p, w')" "ps' = ps[i := p]"
    by (rule pool_stepE) blast
  have "pool_step (xs @ ps @ ys, w) ((xs @ ps @ ys)[length xs + i := p], w')"
    by (rule ran [where s = s]) (use r(1-3) in \<open>simp_all add: nth_append\<close>)
  then show ?thesis using r(1,4) by (simp add: list_update_append)
qed

lemma pool_runs_beside:
  "pool_runs (ps, w) (ps', w') \<Longrightarrow> pool_runs (xs @ ps @ ys, w) (xs @ ps' @ ys, w')"
proof (induction rule: rtranclp_induct2)
  case (step ps1 w1 ps2 w2)
  from pool_step_beside [OF step.hyps(2)] step.IH show ?case by (metis rtranclp.rtrancl_into_rtrancl)
qed simp

lemma pool_runs_one: "run_alone p w = (r, w') \<Longrightarrow> pool_runs ([p], w) ([Done r], w')"
  using pool_alone [of p w r w' 0 "[p]"] by simp

lemma pool_runs_trans: "pool_runs c c1 \<Longrightarrow> pool_runs c1 c2 \<Longrightarrow> pool_runs c c2"
  by (rule rtranclp_trans)

text \<open>A schedule in which every process takes one step that does not change the state.\<close>

lemma pool_all_read:
  "list_all2 (\<lambda>p q. \<exists>s. p = Step s \<and> s w = (q, w)) ps qs \<Longrightarrow> pool_runs (ps, w) (qs, w)"
proof (induction rule: list_all2_induct)
  case (Cons p ps q qs)
  then obtain s where "p = Step s" "s w = (q, w)" by blast
  then have "pool_step ([p], w) ([q], w)" using ran [of 0 "[p]" s w q w] by simp
  from pool_step_beside [OF this, of "[]" ps] have "pool_step (p # ps, w) (q # ps, w)" by simp
  moreover have "pool_runs (q # ps, w) (q # qs, w)"
    using pool_runs_beside [OF Cons.IH, of "[q]" "[]"] by simp
  ultimately show ?case by (rule converse_rtranclp_into_rtranclp)
qed simp

text \<open>A schedule in which the processes run one after the other.\<close>

lemma pool_in_turn:
  assumes "\<And>p w. p \<in> set ps \<Longrightarrow> P w \<Longrightarrow> \<exists>w'. run_alone p w = (r p, w') \<and> Q w'"
    and "\<And>w. Q w \<Longrightarrow> P w" "P w" "ps \<noteq> []"
  shows "\<exists>w'. pool_runs (ps, w) (map (\<lambda>p. Done (r p)) ps, w') \<and> Q w'"
  using assms(1,3,4)
proof (induction ps arbitrary: w)
  case (Cons p ps)
  then obtain w1 where w1: "run_alone p w = (r p, w1)" "Q w1" by force
  have one: "pool_runs (p # ps, w) (Done (r p) # ps, w1)"
    using pool_runs_beside [OF pool_runs_one [OF w1(1)], of "[]" ps] by simp
  show ?case
  proof (cases "ps = []")
    case True
    with one w1(2) show ?thesis by auto
  next
    case False
    with Cons.IH [of w1] Cons.prems(1) assms(2) [OF w1(2)]
    obtain w' where w': "pool_runs (ps, w1) (map (\<lambda>p. Done (r p)) ps, w')" "Q w'" by force
    from pool_runs_trans [OF one] pool_runs_beside [OF w'(1), of "[Done (r p)]" "[]"] w'(2)
    show ?thesis by auto
  qed
qed simp

section \<open>Results\<close>

text \<open>Whatever the schedule, the result of a process satisfies \<open>Q\<close>.\<close>

primrec yields :: "('a res \<Rightarrow> bool) \<Rightarrow> ('w, 'a) proc \<Rightarrow> bool" where
  "yields Q (Done r) = Q r"
| "yields Q (Step s) = (\<forall>w. fst (map_prod (yields Q) id (s w)))"

named_theorems yields_rules \<open>structural rules for the results of a process\<close>

lemma yields_basic [yields_rules]:
  "Q (Inr x) \<Longrightarrow> yields Q (retP x)" "Q (Inl e) \<Longrightarrow> yields Q (throwP e)" "Q r \<Longrightarrow> yields Q (liftP r)"
  by (simp_all add: retP_def throwP_def liftP_def)

lemma yields_bind [yields_rules]:
  assumes "\<And>e. Q (Inl e)" "\<And>x. yields Q (f x)" shows "yields Q (bindP p f)"
proof (induction p)
  case (Done r)
  with assms show ?case by (cases r) simp_all
next
  case (Step s)
  have "yields Q (bindP (fst (s w)) f)" for w by (rule Step.IH [OF prod.collapse [symmetric]])
  then show ?case by simp
qed

lemma yields_if [yields_rules]:
  "(c \<Longrightarrow> yields Q p) \<Longrightarrow> (\<not> c \<Longrightarrow> yields Q q) \<Longrightarrow> yields Q (if c then p else q)"
  by simp

text \<open>What follows a process may rely on its result.\<close>

lemma guarantees_bind_yields:
  assumes "guarantees P G p" "yields Q p" "\<And>x. Q (Inr x) \<Longrightarrow> guarantees P G (f x)"
  shows "guarantees P G (bindP p f)"
  using assms(1,2)
proof (induction p)
  case (Done r)
  then show ?case using assms(3) by (cases r) auto
next
  case (Step s)
  show ?case unfolding bindP.simps guarantees.simps
  proof (intro allI impI)
    fix w assume P: "P w"
    obtain p w' where s: "s w = (p, w')" by (rule prod.exhaust)
    have "fst (map_prod (yields Q) id (s w))" using Step.prems(2) by simp
    then have "yields Q p" using s by simp
    with s guarantees_Step [OF Step.prems(1) P] Step.IH [OF s]
    show "case map_prod (guarantees P G) id (map_prod (\<lambda>p. bindP p f) id (s w)) of (ok, w') \<Rightarrow>
        ok \<and> P w' \<and> G w w'"
      by simp
  qed
qed

lemma guarantees_lift:
  "(\<And>x. r = Inr x \<Longrightarrow> guarantees P G (f x)) \<Longrightarrow> guarantees P G (bindP (liftP r) f)"
  by (cases r) (simp_all add: liftP_def)

end
