(* ===== verification/Schemas.thy ===== *)
theory Schemas
  imports Auth Kv Transit
begin

text \<open>
  The request models of \<open>src/api/schemas.py\<close>, \<open>auth_schemas.py\<close>, \<open>kv_schemas.py\<close> and
  \<open>transit_schemas.py\<close> and the constraints on query parameters in the route signatures. A
  request model is the function from the fields as the client sent them (an absent optional
  field is \<open>None\<close>) to the fields the route gets, or \<open>None\<close> if a constraint fails; the
  framework then answers 422 without calling the route.
\<close>

section \<open>Fields\<close>

text \<open>A \<open>str\<close> field: pydantic takes only text that is valid Unicode.\<close>

definition text_field :: "pystr \<Rightarrow> bool" where
  "text_field s \<longleftrightarrow> list_all scalar s"

text \<open>\<open>Field(min_length=lo, max_length=hi)\<close>\<close>

definition str_field :: "nat \<Rightarrow> nat \<Rightarrow> pystr \<Rightarrow> bool" where
  "str_field lo hi s \<longleftrightarrow> text_field s \<and> lo \<le> length s \<and> length s \<le> hi"

text \<open>An optional integer with \<open>ge=1\<close>.\<close>

definition positive_field :: "int option \<Rightarrow> bool" where
  "positive_field v = (case v of None \<Rightarrow> True | Some n \<Rightarrow> 1 \<le> n)"

definition accept :: "bool \<Rightarrow> 'a \<Rightarrow> 'a option" where
  "accept c x = (if c then Some x else None)"

lemma accept_Some_iff [simp]: "accept c x = Some y \<longleftrightarrow> c \<and> y = x"
  and accept_None_iff [simp]: "accept c x = None \<longleftrightarrow> \<not> c"
  by (auto simp: accept_def)

section \<open>E-mail addresses\<close>

text \<open>\<open>EMAIL_PATTERN.fullmatch\<close>: one at sign with something before it, no white space, and
  a dot after it with something on either side.\<close>

definition email_match :: "unidata \<Rightarrow> pystr \<Rightarrow> bool" where
  "email_match U s =
     (let local = takeWhile (\<lambda>c. c \<noteq> 64) s; domain = drop (Suc (length local)) s
      in list_all (\<lambda>c. \<not> py_space U c) s \<and> local \<noteq> [] \<and> List.member s 64 \<and> \<not> List.member domain 64
         \<and> List.member (butlast (tl domain)) 46)"

definition validate_email :: "unidata \<Rightarrow> pystr \<Rightarrow> pystr option" where
  "validate_email U v =
     (let normalized = normalize_email U v in accept (email_match U normalized) normalized)"

text \<open>The pattern as it is written in the source.\<close>

definition email_char :: "unidata \<Rightarrow> codepoint \<Rightarrow> bool" where
  "email_char U c \<longleftrightarrow> c \<noteq> 64 \<and> \<not> py_space U c"

lemma space_ascii [simp]: "\<not> py_space U 64" "\<not> py_space U 46"
  by (simp_all add: py_space_def)

lemma in_middle_iff: "x \<in> set (butlast (tl xs)) \<longleftrightarrow> (\<exists>a b. a \<noteq> [] \<and> b \<noteq> [] \<and> xs = a @ x # b)"
proof
  assume "x \<in> set (butlast (tl xs))"
  then obtain a b where ab: "butlast (tl xs) = a @ x # b" by (meson split_list)
  then have "tl xs \<noteq> []" by auto
  then obtain h t where xs: "xs = h # t" "t \<noteq> []" by (cases xs) auto
  then have "xs = (h # a) @ x # (b @ [last t])"
    using ab append_butlast_last_id [OF xs(2)] by simp
  then show "\<exists>a b. a \<noteq> [] \<and> b \<noteq> [] \<and> xs = a @ x # b"
    by (metis append_is_Nil_conv list.distinct(1))
next
  assume "\<exists>a b. a \<noteq> [] \<and> b \<noteq> [] \<and> xs = a @ x # b"
  then obtain h a b where "xs = (h # a) @ x # b" "b \<noteq> []" by (metis list.exhaust)
  then show "x \<in> set (butlast (tl xs))" by (simp add: butlast_append)
qed

lemma email_match_iff:
  "email_match U s \<longleftrightarrow>
     (\<exists>l a b. s = l @ [64] @ a @ [46] @ b \<and> l \<noteq> [] \<and> a \<noteq> [] \<and> b \<noteq> []
       \<and> list_all (email_char U) l \<and> list_all (email_char U) a \<and> list_all (email_char U) b)"
  (is "?m \<longleftrightarrow> ?p")
proof
  let ?l = "takeWhile (\<lambda>c. c \<noteq> 64) s"
  assume m: ?m
  define d where "d = drop (Suc (length ?l)) s"
  have h: "list_all (\<lambda>c. \<not> py_space U c) s" "?l \<noteq> []" "64 \<in> set s" "64 \<notin> set d"
    "46 \<in> set (butlast (tl d))"
    using m by (simp_all add: email_match_def d_def Let_def)
  obtain l r where lr: "s = l @ 64 # r" "64 \<notin> set l" using h(3) by (meson split_list_first)
  have tw: "takeWhile (\<lambda>c. c \<noteq> 64) s = l"
    unfolding lr(1) using lr(2) by (subst takeWhile_append2) auto
  then have r: "d = r" by (simp add: d_def lr(1))
  obtain a b where ab: "a \<noteq> []" "b \<noteq> []" "d = a @ 46 # b" using h(5) by (auto simp: in_middle_iff)
  have "s = l @ [64] @ a @ [46] @ b" using lr(1) ab(3) r by simp
  moreover have "list_all (email_char U) l" "list_all (email_char U) a" "list_all (email_char U) b"
    using h(1,4) lr ab(3) by (auto simp: calculation email_char_def list_all_iff)
  ultimately show ?p using ab(1,2) h(2) tw by metis
next
  assume ?p
  then obtain l a b where s: "s = l @ 64 # a @ 46 # b" and n: "l \<noteq> []" "a \<noteq> []" "b \<noteq> []"
    and c: "list_all (email_char U) l" "list_all (email_char U) a" "list_all (email_char U) b"
    by auto
  have l: "64 \<notin> set l" "64 \<notin> set (a @ 46 # b)" using c by (auto simp: list_all_iff email_char_def)
  have tw: "takeWhile (\<lambda>c. c \<noteq> 64) s = l"
    unfolding s using l(1) by (subst takeWhile_append2) auto
  have d: "drop (Suc (length l)) s = a @ 46 # b" by (simp add: s)
  have "46 \<in> set (butlast (tl (a @ 46 # b)))" using n unfolding in_middle_iff by blast
  moreover have "list_all (\<lambda>c. \<not> py_space U c) s" using c by (auto simp: s list_all_iff email_char_def)
  moreover have "64 \<in> set s" by (simp add: s)
  ultimately show ?m using l n unfolding email_match_def Let_def tw d by simp
qed

lemma email_match_ascii: "ascii s \<Longrightarrow> email_match U s = email_match V s"
  unfolding email_match_def Let_def ascii_def list_all_iff by (metis py_space_ascii)

section \<open>Request models\<close>

definition vault_init_request :: "pystr \<Rightarrow> pystr option" where
  "vault_init_request master_passphrase = accept (str_field 12 1024 master_passphrase) master_passphrase"

definition vault_unlock_request :: "pystr \<Rightarrow> pystr option" where
  "vault_unlock_request master_passphrase = accept (str_field 1 1024 master_passphrase) master_passphrase"

definition register_request ::
  "unidata \<Rightarrow> pystr \<Rightarrow> pystr \<Rightarrow> pystr \<Rightarrow> (pystr \<times> pystr \<times> pystr) option"
where
  "register_request U email passphrase confirm_passphrase =
     (if str_field 3 254 email \<and> str_field 1 1024 passphrase \<and> str_field 1 1024 confirm_passphrase
      then map_option (\<lambda>e. (e, passphrase, confirm_passphrase)) (validate_email U email)
      else None)"

definition login_request :: "unidata \<Rightarrow> pystr \<Rightarrow> pystr \<Rightarrow> (pystr \<times> pystr) option" where
  "login_request U email passphrase =
     (if str_field 3 254 email \<and> str_field 1 1024 passphrase
      then map_option (\<lambda>e. (e, passphrase)) (validate_email U email) else None)"

text \<open>The values below a key of \<open>data: dict[str, Any]\<close> are not examined.\<close>

definition kv_write_request ::
  "pystr \<Rightarrow> (pystr \<times> json) list \<Rightarrow> (pystr \<times> (pystr \<times> json) list) option"
where
  "kv_write_request path data =
     accept (str_field 1 500 path \<and> list_all (\<lambda>(k, v). text_field k) data) (path, data)"

definition path_query :: "pystr \<Rightarrow> pystr option" where
  "path_query path = accept (str_field 1 500 path) path"

definition kv_read_query :: "pystr \<Rightarrow> int option \<Rightarrow> (pystr \<times> int option) option" where
  "kv_read_query path version = accept (str_field 1 500 path \<and> positive_field version) (path, version)"

definition create_key_request :: "pystr \<Rightarrow> pystr option" where
  "create_key_request name = accept (str_field 1 64 name) name"

text \<open>\<open>signing_algorithm: str = "ED25519"\<close> and \<open>message_type: str = "RAW"\<close>\<close>

definition default_field :: "pystr \<Rightarrow> pystr option \<Rightarrow> pystr" where
  "default_field d v = (case v of None \<Rightarrow> d | Some s \<Rightarrow> s)"

definition create_signing_key_request :: "pystr \<Rightarrow> pystr option \<Rightarrow> (pystr \<times> pystr) option" where
  "create_signing_key_request name signing_algorithm =
     (let algorithm = default_field ED25519 signing_algorithm
      in accept (str_field 1 64 name \<and> text_field algorithm) (name, algorithm))"

definition encrypt_request :: "pystr \<Rightarrow> pystr \<Rightarrow> (pystr \<times> pystr) option" where
  "encrypt_request name plaintext_b64 =
     accept (str_field 1 64 name \<and> text_field plaintext_b64) (name, plaintext_b64)"

definition decrypt_request :: "pystr \<Rightarrow> pystr option" where
  "decrypt_request ciphertext = accept (text_field ciphertext) ciphertext"

definition sign_request ::
  "pystr \<Rightarrow> pystr \<Rightarrow> pystr option \<Rightarrow> pystr option \<Rightarrow> (pystr \<times> pystr \<times> pystr \<times> pystr) option"
where
  "sign_request name message_b64 message_type signing_algorithm =
     (let kind = default_field RAW message_type; algorithm = default_field ED25519 signing_algorithm
      in accept (str_field 1 64 name \<and> list_all text_field [message_b64, kind, algorithm])
           (name, message_b64, kind, algorithm))"

definition verify_request ::
  "pystr \<Rightarrow> pystr \<Rightarrow> pystr option \<Rightarrow> pystr \<Rightarrow> pystr option \<Rightarrow> int option \<Rightarrow>
   (pystr \<times> pystr \<times> pystr \<times> pystr \<times> pystr \<times> int option) option"
where
  "verify_request name message_b64 message_type signature_b64 signing_algorithm version =
     (let kind = default_field RAW message_type; algorithm = default_field ED25519 signing_algorithm
      in accept (str_field 1 64 name \<and> list_all text_field [message_b64, kind, signature_b64, algorithm]
                 \<and> positive_field version)
           (name, message_b64, kind, signature_b64, algorithm, version))"

text \<open>\<open>limit: int = Query(100, ge=1, le=500)\<close>\<close>

definition limit_query :: "int option \<Rightarrow> int option" where
  "limit_query limit =
     (let n = case limit of None \<Rightarrow> 100 | Some n \<Rightarrow> n in accept (1 \<le> n \<and> n \<le> 500) n)"

section \<open>What a registered address is like\<close>

lemma validate_email_Some:
  "validate_email U v = Some e \<Longrightarrow> e = normalize_email U v \<and> email_match U e"
  by (auto simp: validate_email_def Let_def)

text \<open>Such an address is never empty and has no white space to strip.\<close>

lemma email_match_strip:
  assumes "email_match U e" shows "py_strip U e = e" "e \<noteq> []"
proof -
  have n: "e \<noteq> []" and s: "list_all (\<lambda>c. \<not> py_space U c) e"
    using assms by (auto simp: email_match_def Let_def)
  then show "e \<noteq> []" by simp
  from n s have "\<not> py_space U (hd e)" "\<not> py_space U (last e)" by (auto simp: list_all_iff)
  with n show "py_strip U e = e" by (simp add: py_strip_id_iff)
qed

text \<open>But it may contain a slash, and then it owns no path at all: the owner in a path ends at
  the first slash.\<close>

lemma slash_owns_nothing:
  assumes "ascii path" "47 \<in> set requester" shows "\<not> kv_owns E requester path"
proof
  assume "kv_owns E requester path"
  then obtain owner rest where s: "py_split 47 1 (drop (length PATH_PREFIX) path) = [owner, rest]"
    and r: "requester = py_lower (unicode E) (py_strip (unicode E) owner)"
    by (auto simp: kv_owns_def extract_owner_email_from_path_def split: if_splits list.splits)
  let ?t = "drop (length PATH_PREFIX) path"
  from py_split_Suc_cases [of 47 ?t 0] s have o: "47 \<notin> set owner" "set owner \<subseteq> set ?t" by auto
  have "ascii owner" using assms(1) o(2) set_drop_subset [of "length PATH_PREFIX" path]
    by (auto simp: ascii_def list_all_iff)
  then have a: "ascii (py_strip (unicode E) owner)" and n: "47 \<notin> set (py_strip (unicode E) owner)"
    using set_py_strip [of "unicode E" owner] o(1) by (auto simp: ascii_def list_all_iff)
  have "47 \<notin> set (py_lower (unicode E) (py_strip (unicode E) owner))"
    using n a by (auto simp: py_lower_def ascii_lower_def)
  with assms(2) r show False by simp
qed

end
