(* ===== verification/Api.thy ===== *)
theory Api
  imports Schemas DbSchema
begin

text \<open>
  The HTTP interface: the routes of \<open>src/api/*_routes.py\<close> and the error handlers and lifecycle
  of \<open>main.py\<close>. A request is a route with its fields as the framework parsed them; the
  answer is a status with a body. Parsing of HTTP and JSON, and the rendering of bodies, are
  the framework's.
\<close>

section \<open>Requests and responses\<close>

datatype request =
    GetHealth
  | GetStatus | PostInit pystr | PostUnlock pystr | PostLock
  | PostRegister pystr pystr pystr | PostLogin pystr pystr | PostLogout
  | PostEntry pystr "(pystr \<times> json) list" | GetEntry pystr "int option"
  | GetVersions pystr | DeleteEntry pystr
  | PostKey pystr | PostSigningKey pystr "pystr option" | GetKeys | PostRotate pystr | PostRevoke pystr
  | PostEncrypt pystr pystr | PostDecrypt pystr
  | PostSign pystr pystr "pystr option" "pystr option"
  | PostVerify pystr pystr "pystr option" pystr "pystr option" "int option"
  | GetAuditEntries "int option" | GetAuditVerify

text \<open>The response models; \<open>Invalid\<close> is the framework's answer to a failed constraint,
  \<open>InternalError\<close> the one to an exception without handler.\<close>

datatype body =
    HealthBody | EmptyBody
  | StatusBody status_response
  | RegisterBody registered | LoginBody login_result
  | WriteBody kv_write_result | ReadBody kv_read_result | VersionsBody kv_versions_result
  | KeyBody key_metadata | KeyListBody "key_metadata list" | DeleteKeyBody "pystr \<times> bool"
  | EncryptBody encrypt_result | DecryptBody decrypt_result
  | SignBody sign_result | VerifyBody verify_result
  | AuditListBody "audit_view list" | AuditVerifyBody chain_report
  | ErrorBody pystr pystr | Invalid | InternalError

datatype response = Response (response_status: int) (response_body: body)

definition unprocessable :: response where "unprocessable = Response 422 Invalid"
definition internal_error :: response where "internal_error = Response 500 InternalError"

text \<open>A handler that runs only if its request model accepts the fields.\<close>

definition validated :: "'a option \<Rightarrow> ('a \<Rightarrow> response action) \<Rightarrow> response action" where
  "validated checked handler = (case checked of None \<Rightarrow> ret unprocessable | Some x \<Rightarrow> handler x)"

text \<open>\<open>Depends(get_current_user)\<close> is resolved before the fields are validated.\<close>

definition authenticated ::
  "ext \<Rightarrow> credentials \<Rightarrow> (authenticated_user \<Rightarrow> response action) \<Rightarrow> response action"
where
  "authenticated E c handler = bindM (get_current_user E c) handler"

definition answer :: "int \<Rightarrow> ('a \<Rightarrow> body) \<Rightarrow> 'a action \<Rightarrow> response action" where
  "answer code mk service = bindM service (\<lambda>x. ret (Response code (mk x)))"

section \<open>\<open>core_routes.py\<close>\<close>

definition get_status_route :: "response action" where
  "get_status_route = answer 200 StatusBody status"

definition initialize_route :: "ext \<Rightarrow> pystr \<Rightarrow> response action" where
  "initialize_route E passphrase =
     validated (vault_init_request passphrase) (\<lambda>p. answer 201 StatusBody (vault_initialize E p))"

definition unlock_route :: "ext \<Rightarrow> pystr \<Rightarrow> response action" where
  "unlock_route E passphrase =
     validated (vault_unlock_request passphrase) (\<lambda>p. answer 200 StatusBody (vault_unlock E p))"

definition lock_route :: "response action" where
  "lock_route = answer 200 StatusBody vault_lock"

section \<open>\<open>auth_routes.py\<close>\<close>

definition register_route :: "ext \<Rightarrow> pystr \<Rightarrow> pystr \<Rightarrow> pystr \<Rightarrow> response action" where
  "register_route E email passphrase confirm =
     validated (register_request (unicode E) email passphrase confirm)
       (\<lambda>(e, p, c). answer 201 RegisterBody (auth_register E e p c))"

definition login_route :: "ext \<Rightarrow> pystr \<Rightarrow> pystr \<Rightarrow> response action" where
  "login_route E email passphrase =
     validated (login_request (unicode E) email passphrase)
       (\<lambda>(e, p). answer 200 LoginBody (auth_login E e p))"

definition logout_route :: "ext \<Rightarrow> credentials \<Rightarrow> response action" where
  "logout_route E c =
     authenticated E c (\<lambda>user. answer 204 (\<lambda>_. EmptyBody) (auth_logout E (au_token user)))"

section \<open>\<open>kv_routes.py\<close>\<close>

definition write_entry_route ::
  "ext \<Rightarrow> credentials \<Rightarrow> pystr \<Rightarrow> (pystr \<times> json) list \<Rightarrow> response action"
where
  "write_entry_route E c path data =
     authenticated E c (\<lambda>user. validated (kv_write_request path data)
       (\<lambda>(p, d). answer 200 WriteBody (kv_write E (au_email user) p d)))"

definition read_entry_route :: "ext \<Rightarrow> credentials \<Rightarrow> pystr \<Rightarrow> int option \<Rightarrow> response action" where
  "read_entry_route E c path version =
     authenticated E c (\<lambda>user. validated (kv_read_query path version)
       (\<lambda>(p, v). answer 200 ReadBody
          (kv_read E (au_email user) p (case v of None \<Rightarrow> PyNone | Some n \<Rightarrow> PyInt n))))"

definition list_entry_versions_route :: "ext \<Rightarrow> credentials \<Rightarrow> pystr \<Rightarrow> response action" where
  "list_entry_versions_route E c path =
     authenticated E c (\<lambda>user. validated (path_query path)
       (\<lambda>p. answer 200 VersionsBody (kv_versions_of E (au_email user) p)))"

definition delete_entry_route :: "ext \<Rightarrow> credentials \<Rightarrow> pystr \<Rightarrow> response action" where
  "delete_entry_route E c path =
     authenticated E c (\<lambda>user. validated (path_query path)
       (\<lambda>p. answer 204 (\<lambda>_. EmptyBody) (kv_delete E (au_email user) p)))"

section \<open>\<open>transit_routes.py\<close>\<close>

definition create_key_route :: "ext \<Rightarrow> credentials \<Rightarrow> pystr \<Rightarrow> response action" where
  "create_key_route E c name =
     authenticated E c (\<lambda>user. validated (create_key_request name)
       (\<lambda>n. answer 201 KeyBody (create_key E (au_email user) n)))"

definition create_signing_key_route ::
  "ext \<Rightarrow> credentials \<Rightarrow> pystr \<Rightarrow> pystr option \<Rightarrow> response action"
where
  "create_signing_key_route E c name algorithm =
     authenticated E c (\<lambda>user. validated (create_signing_key_request name algorithm)
       (\<lambda>(n, a). answer 201 KeyBody (create_signing_key E (au_email user) n a)))"

definition list_keys_route :: "ext \<Rightarrow> credentials \<Rightarrow> response action" where
  "list_keys_route E c =
     authenticated E c (\<lambda>user. answer 200 KeyListBody (list_keys (au_email user)))"

text \<open>The key name of these two is part of the URL; it has no constraint of its own.\<close>

definition rotate_key_route :: "ext \<Rightarrow> credentials \<Rightarrow> pystr \<Rightarrow> response action" where
  "rotate_key_route E c name =
     authenticated E c (\<lambda>user. answer 200 KeyBody (rotate_key E (au_email user) name))"

definition revoke_key_route :: "ext \<Rightarrow> credentials \<Rightarrow> pystr \<Rightarrow> response action" where
  "revoke_key_route E c name =
     authenticated E c (\<lambda>user. answer 200 DeleteKeyBody (delete_key E (au_email user) name))"

definition encrypt_route :: "ext \<Rightarrow> credentials \<Rightarrow> pystr \<Rightarrow> pystr \<Rightarrow> response action" where
  "encrypt_route E c name plaintext_b64 =
     authenticated E c (\<lambda>user. validated (encrypt_request name plaintext_b64)
       (\<lambda>(n, p). answer 200 EncryptBody (transit_encrypt E (au_email user) n p)))"

definition decrypt_route :: "ext \<Rightarrow> credentials \<Rightarrow> pystr \<Rightarrow> response action" where
  "decrypt_route E c ciphertext =
     authenticated E c (\<lambda>user. validated (decrypt_request ciphertext)
       (\<lambda>t. answer 200 DecryptBody (transit_decrypt E (au_email user) t)))"

text \<open>\<open>SignResponse\<close> and \<open>VerifyResponse\<close> require a text as algorithm; without one the
  framework refuses to build the response.\<close>

definition sign_response :: "sign_result \<Rightarrow> response" where
  "sign_response r =
     (case sig_algorithm r of None \<Rightarrow> internal_error | Some _ \<Rightarrow> Response 200 (SignBody r))"

definition verify_response :: "verify_result \<Rightarrow> response" where
  "verify_response r =
     (case ver_algorithm r of None \<Rightarrow> internal_error | Some _ \<Rightarrow> Response 200 (VerifyBody r))"

definition sign_route ::
  "ext \<Rightarrow> credentials \<Rightarrow> pystr \<Rightarrow> pystr \<Rightarrow> pystr option \<Rightarrow> pystr option \<Rightarrow> response action"
where
  "sign_route E c name message_b64 message_type algorithm =
     authenticated E c (\<lambda>user. validated (sign_request name message_b64 message_type algorithm)
       (\<lambda>(n, m, k, a).
          bindM (transit_sign E (au_email user) n m k a) (\<lambda>r. ret (sign_response r))))"

definition verify_route ::
  "ext \<Rightarrow> credentials \<Rightarrow> pystr \<Rightarrow> pystr \<Rightarrow> pystr option \<Rightarrow> pystr \<Rightarrow> pystr option \<Rightarrow> int option \<Rightarrow>
   response action"
where
  "verify_route E c name message_b64 message_type signature_b64 algorithm version =
     authenticated E c (\<lambda>user.
       validated (verify_request name message_b64 message_type signature_b64 algorithm version)
       (\<lambda>(n, m, k, s, a, v).
          bindM (transit_verify E (au_email user) n m k s a v) (\<lambda>r. ret (verify_response r))))"

section \<open>\<open>audit_routes.py\<close>\<close>

definition list_entries_route :: "ext \<Rightarrow> credentials \<Rightarrow> int option \<Rightarrow> response action" where
  "list_entries_route E c limit =
     authenticated E c (\<lambda>user. validated (limit_query limit)
       (\<lambda>n. answer 200 AuditListBody (list_for_requester (au_email user) n)))"

definition verify_chain_route :: "ext \<Rightarrow> credentials \<Rightarrow> response action" where
  "verify_chain_route E c =
     authenticated E c (\<lambda>user. answer 200 AuditVerifyBody (audit_verify E))"

lemmas route_defs = get_status_route_def initialize_route_def unlock_route_def lock_route_def
  register_route_def login_route_def logout_route_def write_entry_route_def read_entry_route_def
  list_entry_versions_route_def delete_entry_route_def create_key_route_def create_signing_key_route_def
  list_keys_route_def rotate_key_route_def revoke_key_route_def encrypt_route_def decrypt_route_def
  sign_route_def verify_route_def list_entries_route_def verify_chain_route_def

section \<open>\<open>main.py\<close>: error handlers\<close>

text \<open>The class of an exception with its base classes, most derived first.\<close>

fun vault_class :: "vault_error \<Rightarrow> string list" where
  "vault_class VaultAlreadyInitializedError = [''VaultAlreadyInitializedError'', ''VaultError'']"
| "vault_class VaultNotInitializedError = [''VaultNotInitializedError'', ''VaultError'']"
| "vault_class VaultLockedError = [''VaultLockedError'', ''VaultError'']"
| "vault_class InvalidMasterPassphraseError = [''InvalidMasterPassphraseError'', ''VaultError'']"
| "vault_class (InvalidMasterPassphrasePolicyError _) =
     [''InvalidMasterPassphrasePolicyError'', ''VaultError'']"
| "vault_class VaultConfigCorruptedError = [''VaultConfigCorruptedError'', ''VaultError'']"
| "vault_class StorageError = [''StorageError'', ''VaultError'']"
| "vault_class LegacySchemaError = [''LegacySchemaError'', ''StorageError'', ''VaultError'']"

fun auth_class :: "auth_error \<Rightarrow> string list" where
  "auth_class (DuplicateEmailError _) = [''DuplicateEmailError'', ''AuthError'']"
| "auth_class PassphraseMismatchError = [''PassphraseMismatchError'', ''AuthError'']"
| "auth_class (WeakPassphraseError _) = [''WeakPassphraseError'', ''AuthError'']"
| "auth_class InvalidCredentialsError = [''InvalidCredentialsError'', ''AuthError'']"
| "auth_class AccountLockedError = [''AccountLockedError'', ''AuthError'']"
| "auth_class UnauthenticatedError = [''UnauthenticatedError'', ''AuthError'']"

fun kv_class :: "kv_error \<Rightarrow> string list" where
  "kv_class RecordNotFoundError = [''RecordNotFoundError'', ''KvError'']"
| "kv_class RecordTamperedError = [''RecordTamperedError'', ''KvError'']"
| "kv_class PermissionDeniedError = [''PermissionDeniedError'', ''KvError'']"
| "kv_class InvalidVersionError = [''InvalidVersionError'', ''KvError'']"

fun transit_class :: "transit_error \<Rightarrow> string list" where
  "transit_class MalformedCiphertextError = [''MalformedCiphertextError'', ''TransitError'']"
| "transit_class TransitTamperedError = [''TransitTamperedError'', ''TransitError'']"
| "transit_class KeyAlreadyExistsError = [''KeyAlreadyExistsError'', ''TransitError'']"
| "transit_class KeyUnavailableError = [''KeyUnavailableError'', ''TransitError'']"
| "transit_class KeyVersionUnavailableError = [''KeyVersionUnavailableError'', ''TransitError'']"
| "transit_class InvalidKeyUsageError = [''InvalidKeyUsageError'', ''TransitError'']"
| "transit_class InvalidSigningAlgorithmError = [''InvalidSigningAlgorithmError'', ''TransitError'']"
| "transit_class InvalidMessageTypeError = [''InvalidMessageTypeError'', ''TransitError'']"
| "transit_class InvalidDigestLengthError = [''InvalidDigestLengthError'', ''TransitError'']"
| "transit_class InvalidBase64PayloadError = [''InvalidBase64PayloadError'', ''TransitError'']"
| "transit_class InvalidKeyNameError = [''InvalidKeyNameError'', ''TransitError'']"

fun exception_classes :: "exn \<Rightarrow> string list" where
  "exception_classes (Vault e) = vault_class e"
| "exception_classes (Auth e) = auth_class e"
| "exception_classes (Kv e) = kv_class e"
| "exception_classes (Transit e) = transit_class e"
| "exception_classes (Py e) = []"

text \<open>The table \<open>handlers\<close>: class, status, error code, message.\<close>

definition handlers :: "(string \<times> int \<times> string \<times> string) list" where
  "handlers = [
     (''VaultAlreadyInitializedError'', 409, ''VAULT_ALREADY_INITIALIZED'',
       ''Vault has already been initialized''),
     (''VaultNotInitializedError'', 409, ''VAULT_NOT_INITIALIZED'',
       ''Vault has not been initialized''),
     (''InvalidMasterPassphrasePolicyError'', 400, ''WEAK_MASTER_PASSPHRASE'',
       ''Master Passphrase does not meet the minimum policy''),
     (''InvalidMasterPassphraseError'', 401, ''UNLOCK_FAILED'',
       ''Unable to unlock Vault''),
     (''VaultLockedError'', 423, ''VAULT_LOCKED'',
       ''Vault is locked''),
     (''VaultConfigCorruptedError'', 500, ''VAULT_CONFIG_INVALID'',
       ''Vault configuration is invalid''),
     (''StorageError'', 500, ''STORAGE_ERROR'',
       ''A storage operation failed''),
     (''DuplicateEmailError'', 409, ''EMAIL_ALREADY_REGISTERED'',
       ''Email already registered''),
     (''PassphraseMismatchError'', 400, ''PASSPHRASE_MISMATCH'',
       ''Passphrase confirmation does not match''),
     (''WeakPassphraseError'', 400, ''WEAK_PASSPHRASE'',
       ''Passphrase does not meet the minimum policy''),
     (''InvalidCredentialsError'', 401, ''INVALID_CREDENTIALS'',
       ''Invalid email or passphrase''),
     (''AccountLockedError'', 423, ''ACCOUNT_LOCKED'',
       ''Account is temporarily locked''),
     (''UnauthenticatedError'', 401, ''UNAUTHENTICATED'',
       ''Missing, invalid, or expired session token''),
     (''PermissionDeniedError'', 403, ''PERMISSION_DENIED'',
       ''You do not have access to this resource''),
     (''RecordNotFoundError'', 404, ''NOT_FOUND'',
       ''Record not found''),
     (''RecordTamperedError'', 409, ''TAMPER_DETECTED'',
       ''Stored record failed integrity verification''),
     (''InvalidVersionError'', 400, ''INVALID_VERSION'',
       ''Version must be a positive integer''),
     (''KeyAlreadyExistsError'', 409, ''KEY_ALREADY_EXISTS'',
       ''A key with this name already exists''),
     (''KeyUnavailableError'', 403, ''PERMISSION_DENIED'',
       ''The key is unavailable''),
     (''KeyVersionUnavailableError'', 404, ''KEY_VERSION_NOT_FOUND'',
       ''The requested key version does not exist''),
     (''InvalidKeyUsageError'', 400, ''INVALID_KEY_USAGE'',
       ''The key cannot be used for this operation''),
     (''InvalidSigningAlgorithmError'', 400, ''INVALID_SIGNING_ALGORITHM'',
       ''The signing algorithm does not match the key''),
     (''InvalidMessageTypeError'', 400, ''INVALID_MESSAGE_TYPE'',
       ''message_type must be RAW or DIGEST''),
     (''InvalidDigestLengthError'', 400, ''INVALID_DIGEST_LENGTH'',
       ''SHA-256 digest must contain exactly 32 bytes''),
     (''InvalidBase64PayloadError'', 400, ''INVALID_BASE64'',
       ''Payload must be valid Base64''),
     (''InvalidKeyNameError'', 400, ''INVALID_KEY_NAME'',
       ''Key name must contain only letters, digits, dot, underscore, or hyphen''),
     (''MalformedCiphertextError'', 400, ''MALFORMED_CIPHERTEXT'',
       ''Ciphertext format is invalid''),
     (''TransitTamperedError'', 409, ''TAMPER_DETECTED'',
       ''Ciphertext or encrypted key material failed integrity verification'')
   ]"

text \<open>The framework takes the handler of the most derived class that has one.\<close>

definition error_response :: "exn \<Rightarrow> response" where
  "error_response e =
     (case List.map_filter (map_of handlers) (exception_classes e) of
        [] \<Rightarrow> internal_error
      | (code, error, message) # _ \<Rightarrow> Response code (ErrorBody (lit error) (lit message)))"

section \<open>Dispatch\<close>

fun route :: "ext \<Rightarrow> credentials \<Rightarrow> request \<Rightarrow> response action" where
  "route E c GetHealth = ret (Response 200 HealthBody)"
| "route E c GetStatus = get_status_route"
| "route E c (PostInit p) = initialize_route E p"
| "route E c (PostUnlock p) = unlock_route E p"
| "route E c PostLock = lock_route"
| "route E c (PostRegister e p q) = register_route E e p q"
| "route E c (PostLogin e p) = login_route E e p"
| "route E c PostLogout = logout_route E c"
| "route E c (PostEntry p d) = write_entry_route E c p d"
| "route E c (GetEntry p v) = read_entry_route E c p v"
| "route E c (GetVersions p) = list_entry_versions_route E c p"
| "route E c (DeleteEntry p) = delete_entry_route E c p"
| "route E c (PostKey n) = create_key_route E c n"
| "route E c (PostSigningKey n a) = create_signing_key_route E c n a"
| "route E c GetKeys = list_keys_route E c"
| "route E c (PostRotate n) = rotate_key_route E c n"
| "route E c (PostRevoke n) = revoke_key_route E c n"
| "route E c (PostEncrypt n p) = encrypt_route E c n p"
| "route E c (PostDecrypt t) = decrypt_route E c t"
| "route E c (PostSign n m k a) = sign_route E c n m k a"
| "route E c (PostVerify n m k s a v) = verify_route E c n m k s a v"
| "route E c (GetAuditEntries l) = list_entries_route E c l"
| "route E c GetAuditVerify = verify_chain_route E c"

text \<open>One request, from its fields to its answer.\<close>

definition serve :: "ext \<Rightarrow> credentials \<Rightarrow> request \<Rightarrow> world \<Rightarrow> response \<times> world" where
  "serve E c req w =
     (case route E c req w of
        (Inl e, w') \<Rightarrow> (error_response e, w')
      | (Inr r, w') \<Rightarrow> (r, w'))"

section \<open>Lifecycle\<close>

text \<open>What is left when a process ends: the memory is gone.\<close>

definition process_gone :: "world \<Rightarrow> world" where
  "process_gone w = w\<lparr>vstate := \<lparr>vs_dek = None, vs_released = []\<rparr>, dummy_hash := None\<rparr>"

text \<open>\<open>create_app\<close> in a new process: a locked \<open>VaultState\<close>, no dummy hash. The module is run
  under the environment of the new process, which names the same files.\<close>

definition create_app :: "environ \<Rightarrow> world \<Rightarrow> world" where
  "create_app env w = (process_gone w)\<lparr>environ := env\<rparr>"

text \<open>\<open>lifespan\<close> before and after the \<open>yield\<close>.\<close>

definition startup :: "ext \<Rightarrow> unit action" where
  "startup E = bindM (db_initialize (unicode E)) (\<lambda>_. bindM vault_lock (\<lambda>_. ret ()))"

definition shutdown :: "unit action" where
  "shutdown = bindM vault_lock (\<lambda>_. ret ())"

text \<open>
  The states of the application: \<open>Down w\<close> with what is left on disk, \<open>Up w\<close> serving requests.
  A process may be killed between any two requests.
\<close>

datatype app = Down world | Up world

inductive app_step :: "ext \<Rightarrow> app \<Rightarrow> app \<Rightarrow> bool" for E where
  started: "startup E (create_app env w) = (Inr (), w') \<Longrightarrow> app_step E (Down w) (Up w')"
| start_failed: "startup E (create_app env w) = (Inl e, w') \<Longrightarrow> app_step E (Down w) (Down (process_gone w'))"
| served: "serve E c req w = (resp, w') \<Longrightarrow> app_step E (Up w) (Up w')"
| stopped: "shutdown w = (r, w') \<Longrightarrow> app_step E (Up w) (Down w')"
| killed: "app_step E (Up w) (Down (process_gone w))"

inductive reachable :: "ext \<Rightarrow> world \<Rightarrow> app \<Rightarrow> bool" for E w0 where
  installed: "reachable E w0 (Down w0)"
| stepped: "reachable E w0 s \<Longrightarrow> app_step E s s' \<Longrightarrow> reachable E w0 s'"

inductive_cases app_stepE [elim]: "app_step E s s'"

inductive_simps down_step: "app_step E (Down w) s"
inductive_simps up_step: "app_step E (Up w) s"

end
