(* ===== verification/Tasks.thy ===== *)
theory Tasks
  imports Process Api
begin

text \<open>
  The services and routes as processes. The handlers of \<open>src/api/\<close> are plain functions, which
  the server runs in a pool of threads, so requests interleave between the calls that touch
  shared state. One step is one such call: a transaction of \<open>storage/database.py\<close>, a method of
  \<open>VaultState\<close> under its lock, one access to the configuration file, a reading of the clock or
  of the random source. Each definition follows the method of the same name.
\<close>

type_synonym 'a task = "(world, 'a) proc"

section \<open>\<open>core/vault.py\<close>\<close>

definition status_task :: "status_response task" where
  "status_task =
     bindP (atomic is_initialized) (\<lambda>i.
     if \<not> i then retP \<lparr>initialized = False, status_text = lit ''not_initialized''\<rparr>
     else bindP (atomic is_unlocked) (\<lambda>u.
       retP \<lparr>initialized = True, status_text = if u then lit ''unlocked'' else lit ''locked''\<rparr>))"

definition initialize_task :: "ext \<Rightarrow> pystr \<Rightarrow> status_response task" where
  "initialize_task E master_passphrase =
     bindP (atomic is_initialized) (\<lambda>i.
     if i then throwP (Vault VaultAlreadyInitializedError)
     else bindP (liftP (validate_master_passphrase E master_passphrase)) (\<lambda>_.
       bindP (atomic (token_bytes 16)) (\<lambda>salt.
       bindP (atomic (gets (\<lambda>w. current_parameters (unicode E) (environ w)))) (\<lambda>parameters.
       bindP (liftP (derive_wrapping_key E (PyStr master_passphrase) salt parameters)) (\<lambda>wrapping_key.
       bindP (atomic generate_dek) (\<lambda>dek.
       bindP (atomic (encrypt_aes_gcm E wrapping_key dek DEK_WRAP_AAD)) (\<lambda>wrapped.
       bindP (atomic (save_atomic (config_document salt parameters wrapped))) (\<lambda>_.
       bindP (atomic state_lock) (\<lambda>_.
       status_task)))))))))"

definition unlock_task :: "ext \<Rightarrow> pystr \<Rightarrow> status_response task" where
  "unlock_task E master_passphrase =
     bindP (atomic is_initialized) (\<lambda>i.
     if \<not> i then throwP (Vault VaultNotInitializedError)
     else bindP (atomic state_lock) (\<lambda>_.
       bindP (atomic load_and_validate_config) (\<lambda>config.
       bindP (liftP (unlock_except (unwrap_dek E master_passphrase config))) (\<lambda>dek.
       if length dek \<noteq> 32 then throwP (Vault VaultConfigCorruptedError)
       else bindP (atomic (set_dek dek)) (\<lambda>_. status_task)))))"

definition lock_task :: "status_response task" where
  "lock_task = bindP (atomic state_lock) (\<lambda>_. status_task)"

section \<open>\<open>auth/\<close>\<close>

definition user_create_task :: "ext \<Rightarrow> pystr \<Rightarrow> pystr \<Rightarrow> user_row task" where
  "user_create_task E email password_hash =
     (let normalized = normalize_email (unicode E) email
      in bindP (atomic now_text) (\<lambda>stamp.
         bindP (catchP
           (atomic (connection
              (bindM (liftR (bind_texts [normalized, password_hash])) (\<lambda>_.
               execute (user_insert normalized password_hash stamp)))))
           (\<lambda>e. e = Py IntegrityError) (Auth (DuplicateEmailError normalized))) (\<lambda>_.
         bindP (atomic (get_by_email E normalized)) (\<lambda>row.
         case row of None \<Rightarrow> throwP (Py RuntimeError) | Some u \<Rightarrow> retP u))))"

definition register_task :: "ext \<Rightarrow> pystr \<Rightarrow> pystr \<Rightarrow> pystr \<Rightarrow> registered task" where
  "register_task E email passphrase confirm_passphrase =
     bindP (raiseP (passphrase \<noteq> confirm_passphrase) (Auth PassphraseMismatchError)) (\<lambda>_.
     case evaluate (unicode E) (PyStr passphrase) of
       Some issue \<Rightarrow> throwP (Auth (WeakPassphraseError (issue_code issue)))
     | None \<Rightarrow>
         bindP (atomic (hash_password E (PyStr passphrase))) (\<lambda>password_hash.
         bindP (user_create_task E email password_hash) (\<lambda>user.
         retP \<lparr>reg_email = usr_email user, reg_created_at = usr_created_at user\<rparr>)))"

definition update_failed_task :: "int \<Rightarrow> int \<Rightarrow> pystr option \<Rightarrow> unit task" where
  "update_failed_task uid failed_attempts locked_until =
     bindP (atomic now_text) (\<lambda>stamp.
     atomic (connection
       (bindM (liftR (bind_int failed_attempts)) (\<lambda>_.
        execute_update (user_update uid (\<lambda>u. u\<lparr>usr_failed_attempts := failed_attempts,
          usr_locked_until := locked_until, usr_updated_at := stamp\<rparr>))))))"

definition reset_failures_task :: "int \<Rightarrow> unit task" where
  "reset_failures_task uid =
     bindP (atomic now_text) (\<lambda>stamp.
     atomic (connection
       (execute_update (user_update uid (\<lambda>u. u\<lparr>usr_failed_attempts := 0,
          usr_locked_until := None, usr_updated_at := stamp\<rparr>)))))"

definition session_create_task :: "int \<Rightarrow> pystr \<Rightarrow> pystr \<Rightarrow> unit task" where
  "session_create_task uid token_hash expires_at =
     bindP (atomic now_text) (\<lambda>stamp.
     atomic (connection (execute (session_insert uid token_hash expires_at stamp))))"

definition session_revoke_task :: "pystr \<Rightarrow> bool task" where
  "session_revoke_task token_hash =
     bindP (atomic now_text) (\<lambda>stamp. atomic (connection (execute (session_revoke_rows token_hash stamp))))"

definition dummy_hash_task :: "ext \<Rightarrow> pystr task" where
  "dummy_hash_task E =
     bindP (atomic (gets dummy_hash)) (\<lambda>known.
     case known of
       Some h \<Rightarrow> retP h
     | None \<Rightarrow>
         bindP (atomic (hash_password E (PyStr (lit ''timing-attack-mitigation-placeholder'')))) (\<lambda>h.
         bindP (atomic (modify (\<lambda>w. w\<lparr>dummy_hash := Some h\<rparr>))) (\<lambda>_.
         retP h)))"

definition failed_attempt_task :: "ext \<Rightarrow> user_row \<Rightarrow> unit task" where
  "failed_attempt_task E user =
     (let new_count = usr_failed_attempts user + 1
      in bindP (atomic (gets environ)) (\<lambda>env.
         bindP (if max_failed_attempts (load (unicode E) env) \<le> new_count
                then bindP (atomic (compute_lockout_until E)) (\<lambda>t. retP (Some (isoformat t)))
                else retP None) (\<lambda>locked_until.
         update_failed_task (usr_id user) new_count locked_until)))"

definition login_user_task :: "ext \<Rightarrow> user_row \<Rightarrow> pystr \<Rightarrow> login_result task" where
  "login_user_task E user passphrase =
     bindP (liftP (verify_password E passphrase (usr_password_hash user))) (\<lambda>accepted.
     if \<not> accepted
     then bindP (failed_attempt_task E user) (\<lambda>_. throwP (Auth InvalidCredentialsError))
     else bindP (reset_failures_task (usr_id user)) (\<lambda>_.
          bindP (atomic generate_session_token) (\<lambda>token.
          bindP (atomic (compute_expiry E)) (\<lambda>expires_at.
          bindP (liftP (hash_token E token)) (\<lambda>token_hash.
          bindP (session_create_task (usr_id user) token_hash (isoformat expires_at)) (\<lambda>_.
          retP \<lparr>login_token = token, login_expires_at = isoformat expires_at\<rparr>))))))"

definition login_task :: "ext \<Rightarrow> pystr \<Rightarrow> pystr \<Rightarrow> login_result task" where
  "login_task E email passphrase =
     bindP (atomic (get_by_email E email)) (\<lambda>found.
     case found of
       None \<Rightarrow>
         bindP (dummy_hash_task E) (\<lambda>h.
         bindP (liftP (verify_password E passphrase h)) (\<lambda>_.
         throwP (Auth InvalidCredentialsError)))
     | Some user \<Rightarrow>
         (case usr_locked_until user of
            None \<Rightarrow> login_user_task E user passphrase
          | Some until \<Rightarrow>
              bindP (liftP (fromisoformat until)) (\<lambda>locked_until.
              bindP (atomic now) (\<lambda>t.
              if t < locked_until then throwP (Auth AccountLockedError)
              else bindP (reset_failures_task (usr_id user)) (\<lambda>_.
                   bindP (atomic (get_by_email E email)) (\<lambda>again.
                   case again of
                     None \<Rightarrow> throwP (Auth InvalidCredentialsError)
                   | Some user' \<Rightarrow> login_user_task E user' passphrase))))))"

definition logout_task :: "ext \<Rightarrow> pystr \<Rightarrow> unit task" where
  "logout_task E token =
     bindP (liftP (hash_token E token)) (\<lambda>token_hash.
     bindP (session_revoke_task token_hash) (\<lambda>_. retP ()))"

definition current_user_task :: "ext \<Rightarrow> credentials \<Rightarrow> authenticated_user task" where
  "current_user_task E credentials =
     (case credentials of
        None \<Rightarrow> throwP (Auth UnauthenticatedError)
      | Some (scheme, presented) \<Rightarrow>
          if py_lower (unicode E) scheme \<noteq> lit ''bearer'' then throwP (Auth UnauthenticatedError)
          else
            let token = py_strip (unicode E) presented
            in if token = [] then throwP (Auth UnauthenticatedError)
               else bindP (liftP (hash_token E token)) (\<lambda>token_hash.
                    bindP (atomic (find_active_by_token_hash token_hash)) (\<lambda>session.
                    case session of
                      None \<Rightarrow> throwP (Auth UnauthenticatedError)
                    | Some (s, u) \<Rightarrow>
                        bindP (liftP (fromisoformat (ses_expires_at s))) (\<lambda>expires_at.
                        bindP (atomic (is_expired expires_at)) (\<lambda>expired.
                        if expired then throwP (Auth UnauthenticatedError)
                        else retP \<lparr>au_user_id = ses_user_id s, au_email = usr_email u,
                                   au_token = token\<rparr>)))))"

section \<open>\<open>audit/repository.py\<close>\<close>

definition log_denied_task :: "ext \<Rightarrow> pystr \<Rightarrow> pystr \<Rightarrow> pystr \<Rightarrow> unit task" where
  "log_denied_task E requester target_type target_identifier =
     bindP (atomic now_text) (\<lambda>created.
     atomic (audit_log_at E (Some requester) ACCESS_DENIED target_type target_identifier
       (lit ''DENIED'') created))"

definition audit_verify_task :: "ext \<Rightarrow> chain_report task" where
  "audit_verify_task E =
     bindP (atomic (connection (query audit_rows_asc))) (\<lambda>rws.
     bindP (atomic stored_head) (\<lambda>stored.
     liftP (verify_chain E rws (if rws \<noteq> [] then stored else None))))"

section \<open>\<open>kv/service.py\<close>\<close>

definition kv_authorize_task :: "ext \<Rightarrow> pystr \<Rightarrow> pystr \<Rightarrow> unit task" where
  "kv_authorize_task E requester_email path =
     (let path_owner = (case extract_owner_email_from_path (unicode E) path of
                          Inl _ \<Rightarrow> None | Inr owner \<Rightarrow> Some owner)
      in if path_owner \<noteq> Some requester_email
         then bindP (log_denied_task E requester_email (lit ''kv_path'') path) (\<lambda>_.
              throwP (Kv PermissionDeniedError))
         else retP ())"

definition append_version_task ::
  "pystr \<Rightarrow> pystr \<Rightarrow> (int \<Rightarrow> (pystr \<times> pystr \<times> pystr) action) \<Rightarrow> kv_write_result task"
where
  "append_version_task owner path encrypt =
     bindP (atomic now_text) (\<lambda>stamp. atomic (append_version_at owner path encrypt stamp))"

definition kv_write_task :: "ext \<Rightarrow> pystr \<Rightarrow> pystr \<Rightarrow> (pystr \<times> json) list \<Rightarrow> kv_write_result task" where
  "kv_write_task E owner_email path data =
     bindP (kv_authorize_task E owner_email path) (\<lambda>_.
     bindP (atomic require_unlocked) (\<lambda>_.
     bindP (liftP (bindR (json_dumps (JObj data)) utf8_encode)) (\<lambda>plaintext.
     bindP (atomic get_dek) (\<lambda>dek.
     append_version_task owner_email path (kv_encrypt_for E dek plaintext owner_email path)))))"

definition kv_read_task :: "ext \<Rightarrow> pystr \<Rightarrow> pystr \<Rightarrow> pyobj \<Rightarrow> kv_read_result task" where
  "kv_read_task E owner_email path version =
     bindP (kv_authorize_task E owner_email path) (\<lambda>_.
     bindP (liftP (normalize_version version)) (\<lambda>requested.
     bindP (atomic require_unlocked) (\<lambda>_.
     bindP (atomic (kv_get_version owner_email path requested)) (\<lambda>row.
     case row of
       None \<Rightarrow> throwP (Kv RecordNotFoundError)
     | Some (r, v) \<Rightarrow>
         bindP (atomic get_dek) (\<lambda>dek.
         bindP (catchP (liftP (kv_open E dek owner_email path v))
                  tag_or_value_errors (Kv RecordTamperedError)) (\<lambda>decoded.
         case decoded of
           JObj data \<Rightarrow>
             retP \<lparr>read_data = data, read_version = kvv_version v,
                   read_latest_version = rec_latest_version r, read_created_at = kvv_created_at v\<rparr>
         | _ \<Rightarrow> throwP (Kv RecordTamperedError)))))))"

definition kv_versions_task :: "ext \<Rightarrow> pystr \<Rightarrow> pystr \<Rightarrow> kv_versions_result task" where
  "kv_versions_task E owner_email path =
     bindP (kv_authorize_task E owner_email path) (\<lambda>_.
     bindP (atomic require_unlocked) (\<lambda>_.
     bindP (atomic (kv_list_versions owner_email path)) (\<lambda>rws.
     if rws = [] then throwP (Kv RecordNotFoundError)
     else retP \<lparr>versions_path = path, versions_latest = rec_latest_version (fst (last rws)),
                versions_list = map (\<lambda>(r, v). (kvv_version v, kvv_created_at v)) rws\<rparr>)))"

definition kv_delete_task :: "ext \<Rightarrow> pystr \<Rightarrow> pystr \<Rightarrow> unit task" where
  "kv_delete_task E owner_email path =
     bindP (kv_authorize_task E owner_email path) (\<lambda>_.
     bindP (atomic require_unlocked) (\<lambda>_.
     bindP (atomic (kv_delete_path owner_email path)) (\<lambda>deleted.
     raiseP (\<not> deleted) (Kv RecordNotFoundError))))"

section \<open>\<open>transit/\<close>\<close>

definition owned_key_task :: "ext \<Rightarrow> pystr \<Rightarrow> pystr \<Rightarrow> named_key_row task" where
  "owned_key_task E owner name =
     bindP (liftP (validate_key_name (PyStr name))) (\<lambda>_.
     bindP (atomic (get_owned owner name)) (\<lambda>row.
     case row of
       None \<Rightarrow> bindP (log_denied_task E owner (lit ''named_key'') name) (\<lambda>_.
               throwP (Transit KeyUnavailableError))
     | Some r \<Rightarrow> retP r))"

definition nk_create_task ::
  "pystr \<Rightarrow> pystr \<Rightarrow> key_usage \<Rightarrow> pystr option \<Rightarrow> wrap_for_version \<Rightarrow> named_key_row task"
where
  "nk_create_task owner name usage algorithm wrap =
     bindP (atomic now_text) (\<lambda>stamp.
     bindP (atomic (nk_create_at owner name usage algorithm wrap stamp)) (\<lambda>_.
     bindP (atomic (get_owned owner name)) (\<lambda>row.
     case row of None \<Rightarrow> throwP (Py RuntimeError) | Some r \<Rightarrow> retP r)))"

definition nk_rotate_task :: "pystr \<Rightarrow> pystr \<Rightarrow> wrap_for_version \<Rightarrow> named_key_row option task" where
  "nk_rotate_task owner name wrap =
     bindP (atomic now_text) (\<lambda>stamp.
     bindP (atomic (nk_rotate_at owner name wrap stamp))
       (\<lambda>found. if found then atomic (get_owned owner name) else retP None))"

definition create_key_task :: "ext \<Rightarrow> pystr \<Rightarrow> pystr \<Rightarrow> key_metadata task" where
  "create_key_task E owner name =
     bindP (liftP (validate_key_name (PyStr name))) (\<lambda>_.
     bindP (atomic require_unlocked) (\<lambda>_.
     bindP (nk_create_task owner name ENCRYPT_DECRYPT None (wrap_aes E owner name))
       (\<lambda>row. atomic (metadata row))))"

definition create_signing_key_task :: "ext \<Rightarrow> pystr \<Rightarrow> pystr \<Rightarrow> pystr \<Rightarrow> key_metadata task" where
  "create_signing_key_task E owner name signing_algorithm =
     bindP (liftP (validate_key_name (PyStr name))) (\<lambda>_.
     bindP (raiseP (py_upper (unicode E) signing_algorithm \<noteq> ED25519)
              (Transit InvalidSigningAlgorithmError)) (\<lambda>_.
     bindP (atomic require_unlocked) (\<lambda>_.
     bindP (nk_create_task owner name SIGN_VERIFY (Some ED25519) (wrap_ed25519 E owner name))
       (\<lambda>row. atomic (metadata row)))))"

definition rotate_key_task :: "ext \<Rightarrow> pystr \<Rightarrow> pystr \<Rightarrow> key_metadata task" where
  "rotate_key_task E owner name =
     bindP (owned_key_task E owner name) (\<lambda>key_row.
     bindP (atomic require_unlocked) (\<lambda>_.
     let wrap = (if key_usage key_row = ENCRYPT_DECRYPT then wrap_aes E owner name
                 else wrap_ed25519 E owner name)
     in bindP (nk_rotate_task owner name wrap) (\<lambda>rotated.
        case rotated of None \<Rightarrow> throwP (Transit KeyUnavailableError) | Some r \<Rightarrow> atomic (metadata r))))"

definition list_keys_task :: "pystr \<Rightarrow> key_metadata list task" where
  "list_keys_task owner =
     bindP (atomic require_unlocked) (\<lambda>_.
     bindP (atomic (list_owned owner)) (\<lambda>rws. mapP (\<lambda>row. atomic (metadata row)) rws))"

definition delete_key_task :: "ext \<Rightarrow> pystr \<Rightarrow> pystr \<Rightarrow> (pystr \<times> bool) task" where
  "delete_key_task E owner name =
     bindP (owned_key_task E owner name) (\<lambda>_.
     bindP (atomic require_unlocked) (\<lambda>_.
     bindP (atomic (delete_owned owner name)) (\<lambda>deleted.
     if \<not> deleted then throwP (Transit KeyUnavailableError) else retP (name, True))))"

definition encrypt_task :: "ext \<Rightarrow> pystr \<Rightarrow> pystr \<Rightarrow> pystr \<Rightarrow> encrypt_result task" where
  "encrypt_task E owner name plaintext_b64 =
     bindP (owned_key_task E owner name) (\<lambda>key_row.
     bindP (raiseP (key_usage key_row \<noteq> ENCRYPT_DECRYPT) (Transit InvalidKeyUsageError)) (\<lambda>_.
     bindP (atomic require_unlocked) (\<lambda>_.
     bindP (liftP (decode_payload plaintext_b64)) (\<lambda>plaintext.
     let version = key_latest_version key_row
     in bindP (atomic (key_version key_row version)) (\<lambda>version_row.
        bindP (atomic (unwrap_key E key_row version_row)) (\<lambda>material.
        bindP (raiseP (length material \<noteq> AES_KEY_LENGTH) (Transit TransitTamperedError)) (\<lambda>_.
        bindP (liftP (data_aad owner name version)) (\<lambda>aad.
        bindP (atomic (encrypt_aes_gcm E material plaintext aad)) (\<lambda>blob.
        bindP (liftP (format_ciphertext name version blob)) (\<lambda>ciphertext.
        retP \<lparr>enc_key_name = name, enc_key_version = version, enc_ciphertext = ciphertext\<rparr>))))))))))"

definition decrypt_task :: "ext \<Rightarrow> pystr \<Rightarrow> pystr \<Rightarrow> decrypt_result task" where
  "decrypt_task E owner ciphertext =
     bindP (liftP (parse_ciphertext (PyStr ciphertext))) (\<lambda>parsed.
     bindP (owned_key_task E owner (tc_key_name parsed)) (\<lambda>key_row.
     bindP (raiseP (key_usage key_row \<noteq> ENCRYPT_DECRYPT) (Transit InvalidKeyUsageError)) (\<lambda>_.
     bindP (atomic require_unlocked) (\<lambda>_.
     bindP (atomic (key_version key_row (tc_key_version parsed))) (\<lambda>version_row.
     bindP (atomic (unwrap_key E key_row version_row)) (\<lambda>material.
     bindP (liftP (catchR
         (bindR (data_aad owner (tc_key_name parsed) (tc_key_version parsed))
            (decrypt_aes_gcm E material (tc_blob parsed)))
         tag_or_value_errors (Transit TransitTamperedError))) (\<lambda>plaintext.
     retP \<lparr>dec_key_name = tc_key_name parsed, dec_key_version = tc_key_version parsed,
           dec_plaintext_b64 = encode_b64 plaintext\<rparr>)))))))"

definition sign_task ::
  "ext \<Rightarrow> pystr \<Rightarrow> pystr \<Rightarrow> pystr \<Rightarrow> pystr \<Rightarrow> pystr \<Rightarrow> sign_result task"
where
  "sign_task E owner name message_b64 message_type signing_algorithm =
     bindP (owned_key_task E owner name) (\<lambda>key_row.
     bindP (raiseP (key_usage key_row \<noteq> SIGN_VERIFY) (Transit InvalidKeyUsageError)) (\<lambda>_.
     bindP (liftP (validate_algorithm E key_row signing_algorithm)) (\<lambda>_.
     bindP (atomic require_unlocked) (\<lambda>_.
     bindP (liftP (message_digest E message_b64 message_type)) (\<lambda>digest.
     let version = key_latest_version key_row
     in bindP (atomic (key_version key_row version)) (\<lambda>version_row.
        bindP (atomic (unwrap_key E key_row version_row)) (\<lambda>private_key.
        bindP (raiseP (length private_key \<noteq> 32) (Transit TransitTamperedError)) (\<lambda>_.
        retP \<lparr>sig_key_name = name, sig_key_version = version,
              sig_algorithm = key_signing_algorithm key_row,
              sig_signature_b64 = encode_b64 (ed25519_sign E private_key digest)\<rparr>))))))))"

definition verify_versions_task :: "named_key_row \<Rightarrow> int option \<Rightarrow> key_version_row list task" where
  "verify_versions_task key_row pinned =
     (case pinned of
        Some n \<Rightarrow> bindP (atomic (key_version key_row n)) (\<lambda>v. retP [v])
      | None \<Rightarrow> bindP (atomic (list_key_versions (key_id key_row))) (\<lambda>items.
                mapP (\<lambda>(n, created). atomic (key_version key_row n)) (rev items)))"

definition verify_task ::
  "ext \<Rightarrow> pystr \<Rightarrow> pystr \<Rightarrow> pystr \<Rightarrow> pystr \<Rightarrow> pystr \<Rightarrow> pystr \<Rightarrow> int option \<Rightarrow> verify_result task"
where
  "verify_task E owner name message_b64 message_type signature_b64 signing_algorithm pinned =
     bindP (owned_key_task E owner name) (\<lambda>key_row.
     bindP (raiseP (key_usage key_row \<noteq> SIGN_VERIFY) (Transit InvalidKeyUsageError)) (\<lambda>_.
     bindP (liftP (validate_algorithm E key_row signing_algorithm)) (\<lambda>_.
     bindP (atomic require_unlocked) (\<lambda>_.
     bindP (liftP (message_digest E message_b64 message_type)) (\<lambda>digest.
     bindP (verify_versions_task key_row pinned) (\<lambda>candidates.
     let matched = (case decode_b64 (PyStr signature_b64) of
                      Inl _ \<Rightarrow> None
                    | Inr signature \<Rightarrow> find (version_accepts E signature digest) candidates)
     in retP \<lparr>ver_key_name = name, ver_key_version = map_option kyv_version matched,
              ver_algorithm = key_signing_algorithm key_row,
              ver_signature_valid = (matched \<noteq> None)\<rparr>))))))"

section \<open>\<open>api/\<close>\<close>

definition validated_task :: "'a option \<Rightarrow> ('a \<Rightarrow> response task) \<Rightarrow> response task" where
  "validated_task checked handler = (case checked of None \<Rightarrow> retP unprocessable | Some x \<Rightarrow> handler x)"

definition authenticated_task ::
  "ext \<Rightarrow> credentials \<Rightarrow> (authenticated_user \<Rightarrow> response task) \<Rightarrow> response task"
where
  "authenticated_task E c handler = bindP (current_user_task E c) handler"

definition answer_task :: "int \<Rightarrow> ('a \<Rightarrow> body) \<Rightarrow> 'a task \<Rightarrow> response task" where
  "answer_task code mk service = bindP service (\<lambda>x. retP (Response code (mk x)))"

fun route_task :: "ext \<Rightarrow> credentials \<Rightarrow> request \<Rightarrow> response task" where
  "route_task E c GetHealth = retP (Response 200 HealthBody)"
| "route_task E c GetStatus = answer_task 200 StatusBody status_task"
| "route_task E c (PostInit p) =
     validated_task (vault_init_request p) (\<lambda>p. answer_task 201 StatusBody (initialize_task E p))"
| "route_task E c (PostUnlock p) =
     validated_task (vault_unlock_request p) (\<lambda>p. answer_task 200 StatusBody (unlock_task E p))"
| "route_task E c PostLock = answer_task 200 StatusBody lock_task"
| "route_task E c (PostRegister e p q) =
     validated_task (register_request (unicode E) e p q)
       (\<lambda>(e, p, q). answer_task 201 RegisterBody (register_task E e p q))"
| "route_task E c (PostLogin e p) =
     validated_task (login_request (unicode E) e p) (\<lambda>(e, p). answer_task 200 LoginBody (login_task E e p))"
| "route_task E c PostLogout =
     authenticated_task E c (\<lambda>user. answer_task 204 (\<lambda>_. EmptyBody) (logout_task E (au_token user)))"
| "route_task E c (PostEntry p d) =
     authenticated_task E c (\<lambda>user. validated_task (kv_write_request p d)
       (\<lambda>(p, d). answer_task 200 WriteBody (kv_write_task E (au_email user) p d)))"
| "route_task E c (GetEntry p v) =
     authenticated_task E c (\<lambda>user. validated_task (kv_read_query p v)
       (\<lambda>(p, v). answer_task 200 ReadBody
          (kv_read_task E (au_email user) p (case v of None \<Rightarrow> PyNone | Some n \<Rightarrow> PyInt n))))"
| "route_task E c (GetVersions p) =
     authenticated_task E c (\<lambda>user. validated_task (path_query p)
       (\<lambda>p. answer_task 200 VersionsBody (kv_versions_task E (au_email user) p)))"
| "route_task E c (DeleteEntry p) =
     authenticated_task E c (\<lambda>user. validated_task (path_query p)
       (\<lambda>p. answer_task 204 (\<lambda>_. EmptyBody) (kv_delete_task E (au_email user) p)))"
| "route_task E c (PostKey n) =
     authenticated_task E c (\<lambda>user. validated_task (create_key_request n)
       (\<lambda>n. answer_task 201 KeyBody (create_key_task E (au_email user) n)))"
| "route_task E c (PostSigningKey n a) =
     authenticated_task E c (\<lambda>user. validated_task (create_signing_key_request n a)
       (\<lambda>(n, a). answer_task 201 KeyBody (create_signing_key_task E (au_email user) n a)))"
| "route_task E c GetKeys =
     authenticated_task E c (\<lambda>user. answer_task 200 KeyListBody (list_keys_task (au_email user)))"
| "route_task E c (PostRotate n) =
     authenticated_task E c (\<lambda>user. answer_task 200 KeyBody (rotate_key_task E (au_email user) n))"
| "route_task E c (PostRevoke n) =
     authenticated_task E c (\<lambda>user. answer_task 200 DeleteKeyBody (delete_key_task E (au_email user) n))"
| "route_task E c (PostEncrypt n p) =
     authenticated_task E c (\<lambda>user. validated_task (encrypt_request n p)
       (\<lambda>(n, p). answer_task 200 EncryptBody (encrypt_task E (au_email user) n p)))"
| "route_task E c (PostDecrypt t) =
     authenticated_task E c (\<lambda>user. validated_task (decrypt_request t)
       (\<lambda>t. answer_task 200 DecryptBody (decrypt_task E (au_email user) t)))"
| "route_task E c (PostSign n m k a) =
     authenticated_task E c (\<lambda>user. validated_task (sign_request n m k a)
       (\<lambda>(n, m, k, a). bindP (sign_task E (au_email user) n m k a) (\<lambda>r. retP (sign_response r))))"
| "route_task E c (PostVerify n m k s a v) =
     authenticated_task E c (\<lambda>user. validated_task (verify_request n m k s a v)
       (\<lambda>(n, m, k, s, a, v).
          bindP (verify_task E (au_email user) n m k s a v) (\<lambda>r. retP (verify_response r))))"
| "route_task E c (GetAuditEntries l) =
     authenticated_task E c (\<lambda>user. validated_task (limit_query l)
       (\<lambda>n. answer_task 200 AuditListBody (atomic (list_for_requester (au_email user) n))))"
| "route_task E c GetAuditVerify =
     authenticated_task E c (\<lambda>user. answer_task 200 AuditVerifyBody (audit_verify_task E))"

text \<open>One request in its thread. Its result is always an answer.\<close>

fun answered :: "response res \<Rightarrow> response res" where
  "answered (Inl e) = Inr (error_response e)"
| "answered (Inr r) = Inr r"

definition serve_task :: "ext \<Rightarrow> credentials \<Rightarrow> request \<Rightarrow> response task" where
  "serve_task E c req = mapR answered (route_task E c req)"

section \<open>Alone, a task is its service\<close>

lemma run_json [run_simps]:
  "run_alone (case_json a b c d e f g x) =
     case_json (run_alone a) (\<lambda>y. run_alone (b y)) (\<lambda>y. run_alone (c y)) (\<lambda>y. run_alone (d y))
       (\<lambda>y. run_alone (e y)) (\<lambda>y. run_alone (f y)) (\<lambda>y. run_alone (g y)) x"
  by (simp split: json.split)

lemmas run_cong = if_cong option.case_cong prod.case_cong json.case_cong

lemma run_let [run_simps]: "run_alone (Let x f) = Let x (\<lambda>y. run_alone (f y))"
  by (simp add: Let_def)

lemma alone_vault [run_simps]:
  "run_alone status_task = status" "run_alone (initialize_task E p) = vault_initialize E p"
  "run_alone (unlock_task E p) = vault_unlock E p" "run_alone lock_task = vault_lock"
  by (simp_all add: status_task_def status_def initialize_task_def vault_initialize_def unlock_task_def
      vault_unlock_def lock_task_def vault_lock_def run_simps cong: run_cong)

lemma alone_accounts [run_simps]:
  "run_alone (user_create_task E e h) = user_create E e h"
  "run_alone (reset_failures_task uid) = reset_login_failures uid"
  "run_alone (update_failed_task uid n t) = update_after_failed_login uid n t"
  "run_alone (session_create_task uid h e) = session_create uid h e"
  "run_alone (session_revoke_task h) = session_revoke h"
  "run_alone (dummy_hash_task E) = dummy_password_hash E"
  by (simp_all add: user_create_task_def user_create_def reset_failures_task_def reset_login_failures_def
      update_failed_task_def update_after_failed_login_def session_create_task_def session_create_def
      session_revoke_task_def session_revoke_def dummy_hash_task_def dummy_password_hash_def run_simps cong: run_cong)

lemma alone_auth [run_simps]:
  "run_alone (register_task E e p c) = auth_register E e p c"
  "run_alone (failed_attempt_task E u) = register_failed_attempt E u"
  by (simp_all add: register_task_def auth_register_def failed_attempt_task_def register_failed_attempt_def run_simps cong: run_cong)

lemma alone_login [run_simps]:
  "run_alone (login_user_task E u p) = login_user E u p"
  by (simp add: login_user_task_def login_user_def run_simps cong: run_cong)

lemma alone_session [run_simps]:
  "run_alone (login_task E e p) = auth_login E e p" "run_alone (logout_task E t) = auth_logout E t"
  "run_alone (current_user_task E c) = get_current_user E c"
  by (simp_all add: login_task_def auth_login_def logout_task_def auth_logout_def current_user_task_def
      get_current_user_def run_simps cong: run_cong)

lemma alone_audit [run_simps]:
  "run_alone (log_denied_task E r tt ti) = log_denied_access E r tt ti"
  "run_alone (audit_verify_task E) = audit_verify E"
  by (simp_all add: log_denied_task_def log_denied_access_def audit_log_def audit_verify_task_def
      audit_verify_def audit_verify_around_def bindM_ret_left run_simps cong: run_cong)

lemma alone_kv [run_simps]:
  "run_alone (kv_authorize_task E r p) = kv_authorize E r p"
  "run_alone (append_version_task o' p enc) = append_version o' p enc"
  by (simp_all add: kv_authorize_task_def kv_authorize_def append_version_task_def append_version_def run_simps cong: run_cong)

lemma alone_kv_service [run_simps]:
  "run_alone (kv_write_task E r p d) = kv_write E r p d" "run_alone (kv_read_task E r p v) = kv_read E r p v"
  "run_alone (kv_versions_task E r p) = kv_versions_of E r p" "run_alone (kv_delete_task E r p) = kv_delete E r p"
  by (simp_all add: kv_write_task_def kv_write_def kv_read_task_def kv_read_def kv_versions_task_def
      kv_versions_of_def kv_delete_task_def kv_delete_def run_simps cong: run_cong)

lemma alone_keys [run_simps]:
  "run_alone (owned_key_task E o' n) = owned_key E o' n"
  "run_alone (nk_create_task o' n u a wrap) = nk_create o' n u a wrap"
  "run_alone (nk_rotate_task o' n wrap) = nk_rotate o' n wrap"
  "run_alone (verify_versions_task k pinned) = verify_versions k pinned"
  by (simp_all add: owned_key_task_def owned_key_def nk_create_task_def nk_create_def nk_rotate_task_def
      nk_rotate_def verify_versions_task_def verify_versions_def run_simps cong: run_cong)

lemma alone_key_service [run_simps]:
  "run_alone (create_key_task E o' n) = create_key E o' n"
  "run_alone (create_signing_key_task E o' n a) = create_signing_key E o' n a"
  "run_alone (rotate_key_task E o' n) = rotate_key E o' n" "run_alone (list_keys_task o') = list_keys o'"
  "run_alone (delete_key_task E o' n) = delete_key E o' n"
  by (simp_all add: create_key_task_def create_key_def create_signing_key_task_def create_signing_key_def
      rotate_key_task_def rotate_key_def list_keys_task_def list_keys_def delete_key_task_def delete_key_def
      run_simps cong: run_cong)

lemma alone_transit [run_simps]:
  "run_alone (encrypt_task E o' n p) = transit_encrypt E o' n p"
  "run_alone (decrypt_task E o' c) = transit_decrypt E o' c"
  "run_alone (sign_task E o' n m t a) = transit_sign E o' n m t a"
  "run_alone (verify_task E o' n m t sg a pinned) = transit_verify E o' n m t sg a pinned"
  by (simp_all add: encrypt_task_def transit_encrypt_def decrypt_task_def transit_decrypt_def sign_task_def
      transit_sign_def verify_task_def transit_verify_def run_simps cong: run_cong)

lemma alone_handlers [run_simps]:
  "run_alone (validated_task v h) = validated v (\<lambda>x. run_alone (h x))"
  "run_alone (authenticated_task E c g) = authenticated E c (\<lambda>u. run_alone (g u))"
  "run_alone (answer_task n mk s) = answer n mk (run_alone s)"
  by (simp_all add: validated_task_def validated_def authenticated_task_def authenticated_def
      answer_task_def answer_def run_simps cong: run_cong)

lemma alone_route: "run_alone (route_task E c req) = route E c req"
  by (cases req) (simp_all add: route_defs run_simps cong: run_cong)

lemma alone_serve: "run_alone (serve_task E c req) w = (case serve E c req w of (r, w') \<Rightarrow> (Inr r, w'))"
  by (simp add: serve_task_def run_mapR alone_route serve_def split: prod.split sum.split)

end
