(* ===== verification/Frames.thy ===== *)
theory Frames
  imports Auth Kv Transit DbSchema
begin

text \<open>
  What each service leaves alone. A part \<open>g\<close> of the database that does not depend on the tables
  of a component is kept by every operation of it; the contracts are locales, one per
  component, interpreted on the tables of the others. With the components' own invariants
  this gives the invariant of the whole database.
\<close>

section \<open>Rules\<close>

lemma keeps_case_sum [keeps_rules]:
  "(\<And>e. x = Inl e \<Longrightarrow> keeps f (g e)) \<Longrightarrow> (\<And>y. x = Inr y \<Longrightarrow> keeps f (h y)) \<Longrightarrow>
   keeps f (case x of Inl e \<Rightarrow> g e | Inr y \<Rightarrow> h y)"
  by (cases x) simp_all

lemma keeps_case_json [keeps_rules]:
  "(\<And>d. keeps f (h d)) \<Longrightarrow> keeps f (case x of JObj d \<Rightarrow> h d | _ \<Rightarrow> throw e)"
  by (auto split: json.split intro: keeps_rules)

lemma keeps_if_fun [keeps_rules]:
  "(c \<Longrightarrow> keeps f (m x)) \<Longrightarrow> (\<not> c \<Longrightarrow> keeps f (n x)) \<Longrightarrow> keeps f ((if c then m else n) x)"
  by simp

lemma preserves_case_json [preserves_rules]:
  "(\<And>d. preserves P (h d)) \<Longrightarrow> preserves P (case x of JObj d \<Rightarrow> h d | _ \<Rightarrow> throw e)"
  by (auto split: json.split intro: preserves_rules)

lemma preserves_conj: "preserves P m \<Longrightarrow> preserves Q m \<Longrightarrow> preserves (\<lambda>w. P w \<and> Q w) m"
  by (simp add: preserves_def)

lemma preserves_execute:
  "(\<And>d x d'. P d \<Longrightarrow> q d = Inr (x, d') \<Longrightarrow> P d') \<Longrightarrow> preserves (\<lambda>w :: world. P (db w)) (execute q)"
  by (auto simp: preserves_def op_simps split: sum.split)

lemma preserves_execute_update:
  "(\<And>d. P d \<Longrightarrow> P (f d)) \<Longrightarrow> preserves (\<lambda>w :: world. P (db w)) (execute_update f)"
  by (simp add: preserves_def op_simps)

section \<open>Accounts\<close>

locale beside_accounts =
  fixes f :: "world \<Rightarrow> 'c"
  assumes part: "clockless f" "db_part f"
    and users: "f (w\<lparr>db := (db w)\<lparr>users := t\<rparr>\<rparr>) = f w"
    and sessions: "f (w\<lparr>db := (db w)\<lparr>sessions := s\<rparr>\<rparr>) = f w"
    and dummy: "f (w\<lparr>dummy_hash := h\<rparr>) = f w"
begin

lemma keeps_modify_dummy: "keeps f (modify (\<lambda>w. w\<lparr>dummy_hash := h\<rparr>))"
  by (simp add: keeps_def op_simps dummy)

lemma keeps_user_update: "keeps f (execute_update (user_update uid h))"
  by (simp add: keeps_def op_simps user_update_def users)

lemma keeps_user_insert: "keeps f (execute (user_insert e h s))"
  by (rule keepsI) (auto simp: op_simps user_insert_def bindR_Inr_iff users split: sum.splits)

lemma keeps_session_insert: "keeps f (execute (session_insert uid h e s))"
  by (rule keepsI) (auto simp: op_simps session_insert_def bindR_Inr_iff sessions split: sum.splits if_splits)

lemma keeps_session_revoke: "keeps f (execute (session_revoke_rows h s))"
  by (simp add: keeps_def op_simps session_revoke_rows_def sessions)

lemmas keeps_statements = keeps_modify_dummy keeps_user_update keeps_user_insert keeps_session_insert
  keeps_session_revoke

lemma keeps_hash_password: "keeps f (hash_password E p)"
  by (cases p) (auto simp: hash_password_def Let_def intro!: keeps_rules part)

lemma keeps_get_by_email: "keeps f (get_by_email E e)"
  by (rule keeps_pure) (rule get_by_email_world)

lemma keeps_register: "keeps f (auth_register E e p c)"
  unfolding auth_register_def user_create_def Let_def
  by (intro keeps_rules keeps_hash_password keeps_get_by_email keeps_statements part)

lemma keeps_login_user: "keeps f (login_user E u p)"
  unfolding login_user_def register_failed_attempt_def update_after_failed_login_def reset_login_failures_def
    compute_lockout_until_def generate_session_token_def compute_expiry_def session_create_def Let_def
  by (intro keeps_rules keeps_statements part)

lemma keeps_login: "keeps f (auth_login E e p)"
  unfolding auth_login_def dummy_password_hash_def reset_login_failures_def
  by (intro keeps_rules keeps_hash_password keeps_get_by_email keeps_login_user keeps_statements part)

lemma keeps_logout: "keeps f (auth_logout E t)"
  unfolding auth_logout_def session_revoke_def by (intro keeps_rules keeps_statements part)

end

text \<open>All other tables, and the vault.\<close>

definition beside_account_tables where
  "beside_account_tables d =
     (kv_records d, kv_versions d, named_keys d, named_key_versions d, audit_logs d, schema_metadata d)"

interpretation accounts: beside_accounts "\<lambda>w. beside_account_tables (db w)"
  by unfold_locales (auto simp: beside_account_tables_def)

interpretation accounts_vault: beside_accounts vstate
  by unfold_locales auto

text \<open>Consistent accounts stay consistent.\<close>

lemma preserves_user_insert: "preserves (\<lambda>w. accounts_ok (db w)) (execute (user_insert e h s))"
proof (rule preserves_execute)
  fix d d' :: database and x assume ok: "accounts_ok d" and i: "user_insert e h s d = Inr (x, d')"
  have "user_find e d = None" using i user_insert_duplicate [of e d _ h s] by (cases "user_find e d") auto
  with i user_insert_ok [OF ok this, of h s] user_inserted(1) [OF ok this refl, where h = h and stamp = s]
  show "accounts_ok d'" by simp
qed

lemma preserves_user_update:
  "(\<And>u. usr_id (f u) = usr_id u) \<Longrightarrow> (\<And>u. usr_email (f u) = usr_email u) \<Longrightarrow>
   preserves (\<lambda>w. accounts_ok (db w)) (execute_update (user_update uid f))"
  by (rule preserves_execute_update) (rule accounts_ok_update)

lemma preserves_session_insert: "preserves (\<lambda>w. accounts_ok (db w)) (execute (session_insert uid h e s))"
  by (rule preserves_execute) (rule session_insert_Inr)

lemma preserves_session_revoke: "preserves (\<lambda>w. accounts_ok (db w)) (execute (session_revoke_rows h s))"
proof (rule preserves_execute)
  fix d d' :: database and x assume "accounts_ok d" "session_revoke_rows h s d = Inr (x, d')"
  with session_revoked_ok(1) [of d h s] show "accounts_ok d'" by (simp add: session_revoked_def)
qed

lemma preserves_dummy_hash: "preserves (\<lambda>w. accounts_ok (db w)) (modify (\<lambda>w. w\<lparr>dummy_hash := h\<rparr>))"
  by (rule preserves_modify) simp

lemmas preserves_statements = preserves_user_insert preserves_user_update preserves_session_insert
  preserves_session_revoke preserves_dummy_hash

lemma preserves_account_helpers:
  "preserves (\<lambda>w. accounts_ok (db w)) (hash_password E p)"
  "preserves (\<lambda>w. accounts_ok (db w)) (get_by_email E e)"
  by (cases p, auto simp: hash_password_def Let_def intro!: preserves_rules)
    (rule preserves_pure, rule get_by_email_world)

lemma accounts_register: "preserves (\<lambda>w. accounts_ok (db w)) (auth_register E e p c)"
  unfolding auth_register_def user_create_def Let_def
  by (intro preserves_rules preserves_account_helpers preserves_statements clocklessI)

lemma accounts_login_user: "preserves (\<lambda>w. accounts_ok (db w)) (login_user E u p)"
  unfolding login_user_def register_failed_attempt_def update_after_failed_login_def reset_login_failures_def
    compute_lockout_until_def generate_session_token_def compute_expiry_def session_create_def Let_def
  by (intro preserves_rules preserves_statements clocklessI) simp_all

lemma accounts_login: "preserves (\<lambda>w. accounts_ok (db w)) (auth_login E e p)"
  unfolding auth_login_def dummy_password_hash_def reset_login_failures_def
  by (intro preserves_rules preserves_account_helpers accounts_login_user preserves_statements clocklessI) simp_all

lemma accounts_logout: "preserves (\<lambda>w. accounts_ok (db w)) (auth_logout E t)"
  unfolding auth_logout_def session_revoke_def by (intro preserves_rules preserves_statements clocklessI)

section \<open>The audit log\<close>

locale beside_log =
  fixes f :: "world \<Rightarrow> 'c"
  assumes part: "clockless f" "db_part f"
    and logs: "f (w\<lparr>db := (db w)\<lparr>audit_logs := a, schema_metadata := m\<rparr>\<rparr>) = f w"
begin

lemma keeps_log_at: "keeps f (audit_log_at E requester a tt ti r created)"
proof (rule keepsI)
  fix w :: world and x w' assume l: "audit_log_at E requester a tt ti r created w = (x, w')"
  show "f w' = f w"
  proof (cases x)
    case (Inl e)
    with l show ?thesis by (auto dest: audit_log_at_Inl)
  next
    case (Inr u)
    with l obtain row where "w' = w\<lparr>db := append_row row (db w)\<rparr>"
      by (auto simp: Let_def dest!: audit_log_at_Inr)
    then show ?thesis by (simp add: append_row_def logs)
  qed
qed

lemma keeps_log: "keeps f (log_denied_access E requester tt ti)"
  unfolding log_denied_access_def audit_log_def by (intro keeps_rules keeps_log_at part)

end

section \<open>KV\<close>

locale beside_kv =
  fixes f :: "world \<Rightarrow> 'c"
  assumes kv_part: "clockless f" "db_part f"
    and records: "f (w\<lparr>db := (db w)\<lparr>kv_records := t\<rparr>\<rparr>) = f w"
    and versions: "f (w\<lparr>db := (db w)\<lparr>kv_versions := s\<rparr>\<rparr>) = f w"
begin

lemma keeps_kv_insert: "keeps f (execute (kv_insert_record o' p v s))"
  by (rule keepsI) (auto simp: op_simps kv_insert_record_def bindR_Inr_iff records split: sum.splits)

lemma keeps_kv_update: "keeps f (execute_update (kv_update_record i v s))"
  by (simp add: keeps_def op_simps kv_update_record_def records)

lemma keeps_kv_version: "keeps f (execute (kv_insert_version i v c s))"
  by (rule keepsI) (auto simp: op_simps kv_insert_version_def bindR_Inr_iff versions split: sum.splits prod.splits)

lemma keeps_kv_delete_rows: "keeps f (execute (kv_delete_rows o' p))"
proof (rule keepsI)
  fix w :: world and r w' assume "execute (kv_delete_rows o' p) w = (r, w')"
  then obtain P C where "w' = w\<lparr>db := (db w)\<lparr>kv_records := P, kv_versions := C\<rparr>\<rparr>"
    by (auto simp: op_simps kv_delete_rows_def split: prod.splits)
  with versions [where w = "w\<lparr>db := (db w)\<lparr>kv_records := P\<rparr>\<rparr>" and s = C] show "f w' = f w" by (simp add: records)
qed

lemma keeps_append_version_at:
  assumes "\<And>v. keeps f (encrypt v)" shows "keeps f (append_version_at o' p encrypt stamp)"
  unfolding append_version_at_def Let_def
  by (intro keeps_rules keeps_kv_insert keeps_kv_update keeps_kv_version kv_part assms)

lemma keeps_append_version:
  "(\<And>v. keeps f (encrypt v)) \<Longrightarrow> keeps f (append_version o' p encrypt)"
  unfolding append_version_def by (intro keeps_rules keeps_append_version_at kv_part)

lemma keeps_kv_delete: "keeps f (kv_delete_path o' p)"
  unfolding kv_delete_path_def by (intro keeps_rules keeps_kv_delete_rows kv_part)

lemma keeps_kv_reads: "keeps f (kv_get_version o' p v)" "keeps f (kv_list_versions o' p)"
  by (rule keeps_pure, erule kv_get_version_world kv_list_versions_world)+

lemma keeps_kv_encrypt: "keeps f (kv_encrypt_for E key o' p d v)"
  unfolding kv_encrypt_for_def Let_def by (intro keeps_rules kv_part)

end

locale beside_kv_service = beside_kv + beside_log
begin

lemma keeps_authorize: "keeps f (kv_authorize E requester path)"
  by (cases "kv_owns E requester path")
     (auto simp: kv_authorize_owner kv_authorize_other intro!: keeps_rules keeps_log)

lemma keeps_kv_service:
  "keeps f (kv_write E requester path data)" "keeps f (kv_read E requester path version)"
  "keeps f (kv_versions_of E requester path)" "keeps f (kv_delete E requester path)"
  unfolding kv_write_def kv_read_def kv_versions_of_def kv_delete_def
  by (intro keeps_rules keeps_authorize keeps_append_version keeps_kv_encrypt keeps_kv_reads keeps_kv_delete)+

end

section \<open>Keys\<close>

locale beside_keys =
  fixes f :: "world \<Rightarrow> 'c"
  assumes key_part: "clockless f" "db_part f"
    and keys: "f (w\<lparr>db := (db w)\<lparr>named_keys := t\<rparr>\<rparr>) = f w"
    and key_versions: "f (w\<lparr>db := (db w)\<lparr>named_key_versions := s\<rparr>\<rparr>) = f w"
begin

lemma keeps_key_insert: "keeps f (execute (nk_insert o' n u a s))"
  by (rule keepsI) (auto simp: op_simps nk_insert_def bindR_Inr_iff keys split: sum.splits)

lemma keeps_key_update: "keeps f (execute_update (nk_update i v s))"
  by (simp add: keeps_def op_simps nk_update_def keys)

lemma keeps_key_version: "keeps f (execute (nk_insert_version i v x s))"
  by (rule keepsI) (auto simp: op_simps nk_insert_version_def bindR_Inr_iff key_versions split: sum.splits)

lemma keeps_key_delete_rows: "keeps f (execute (nk_delete_rows o' n))"
proof (rule keepsI)
  fix w :: world and r w' assume "execute (nk_delete_rows o' n) w = (r, w')"
  then obtain P C where "w' = w\<lparr>db := (db w)\<lparr>named_keys := P, named_key_versions := C\<rparr>\<rparr>"
    by (auto simp: op_simps nk_delete_rows_def split: prod.splits)
  with key_versions [where w = "w\<lparr>db := (db w)\<lparr>named_keys := P\<rparr>\<rparr>" and s = C] show "f w' = f w" by (simp add: keys)
qed

lemma keeps_key_reads:
  "keeps f (get_owned o' n)" "keeps f (key_version k v)" "keeps f (unwrap_key E k r)"
  "keeps f (list_key_versions i)" "keeps f (list_owned o')" "keeps f (metadata k)"
  by (rule keeps_pure, erule get_owned_world key_version_world unwrap_key_world list_key_versions_world
      list_owned_world metadata_world)+

lemma keeps_wrap: "keeps f (wrap_aes E o' n v)" "keeps f (wrap_ed25519 E o' n v)"
  unfolding wrap_aes_def wrap_ed25519_def Let_def by (intro keeps_rules key_part)+

lemma keeps_nk_create_at: "(\<And>v. keeps f (wrap v)) \<Longrightarrow> keeps f (nk_create_at o' n u a wrap stamp)"
  unfolding nk_create_at_def insert_version_def
  by (intro keeps_rules keeps_key_insert keeps_key_version key_part)

lemma keeps_nk_rotate_at: "(\<And>v. keeps f (wrap v)) \<Longrightarrow> keeps f (nk_rotate_at o' n wrap stamp)"
  unfolding nk_rotate_at_def insert_version_def Let_def
  by (intro keeps_rules keeps_key_update keeps_key_version key_part)

lemma keeps_nk_create: "(\<And>v. keeps f (wrap v)) \<Longrightarrow> keeps f (nk_create o' n u a wrap)"
  unfolding nk_create_def by (intro keeps_rules keeps_nk_create_at keeps_key_reads key_part)

lemma keeps_nk_rotate: "(\<And>v. keeps f (wrap v)) \<Longrightarrow> keeps f (nk_rotate o' n wrap)"
  unfolding nk_rotate_def by (intro keeps_rules keeps_nk_rotate_at keeps_key_reads key_part)

lemma keeps_delete_owned: "keeps f (delete_owned o' n)"
  unfolding delete_owned_def by (intro keeps_rules keeps_key_delete_rows key_part)

end

locale beside_key_service = beside_keys + beside_log
begin

lemma keeps_owned_key: "keeps f (owned_key E o' n)"
  unfolding owned_key_def by (intro keeps_rules keeps_key_reads keeps_log)

lemma keeps_candidates: "keeps f (verify_versions k pinned)"
  unfolding verify_versions_def by (intro keeps_rules keeps_key_reads)

lemma keeps_key_service:
  "keeps f (create_key E o' n)" "keeps f (create_signing_key E o' n a)" "keeps f (rotate_key E o' n)"
  "keeps f (list_keys o')" "keeps f (delete_key E o' n)" "keeps f (transit_encrypt E o' n p)"
  "keeps f (transit_decrypt E o' c)" "keeps f (transit_sign E o' n m t a)"
  "keeps f (transit_verify E o' n m t sg a pinned)"
  unfolding create_key_def create_signing_key_def rotate_key_def list_keys_def delete_key_def
    transit_encrypt_def transit_decrypt_def transit_sign_def transit_verify_def Let_def
  by (intro keeps_rules keeps_owned_key keeps_key_reads keeps_nk_create keeps_nk_rotate keeps_wrap
      keeps_delete_owned keeps_candidates key_part)+

end

section \<open>The contracts hold\<close>

text \<open>The invariants of the other components, and the vault.\<close>

interpretation kv_log: beside_kv "\<lambda>w. log_ok E (db w)" for E
  by unfold_locales (auto simp: log_ok_def)

definition beside_kv_ok :: "database \<Rightarrow> bool" where
  "beside_kv_ok d \<longleftrightarrow> accounts_ok d \<and> nk_ok d"

interpretation kv_rest: beside_kv_service "\<lambda>w. beside_kv_ok (db w)"
  by unfold_locales (auto simp: beside_kv_ok_def accounts_ok_def nk_ok_def)

interpretation kv_vault: beside_kv_service vstate
  by unfold_locales auto

interpretation key_log: beside_keys "\<lambda>w. log_ok E (db w)" for E
  by unfold_locales (auto simp: log_ok_def)

definition beside_keys_ok :: "database \<Rightarrow> bool" where
  "beside_keys_ok d \<longleftrightarrow> accounts_ok d \<and> kv_ok d"

interpretation key_rest: beside_key_service "\<lambda>w. beside_keys_ok (db w)"
  by unfold_locales (auto simp: beside_keys_ok_def accounts_ok_def kv_ok_def)

interpretation key_vault: beside_key_service vstate
  by unfold_locales auto

lemma keeps_preserves: "keeps P m \<Longrightarrow> preserves P m"
  by (simp add: keeps_def preserves_def)

text \<open>The log stays verifiable.\<close>

lemma log_denied: "preserves (\<lambda>w :: world. log_ok E (db w)) (log_denied_access E requester tt ti)"
  unfolding log_denied_access_def by (rule audit_log_preserves)

lemma log_kv_authorize: "preserves (\<lambda>w. log_ok E (db w)) (kv_authorize E requester path)"
  by (cases "kv_owns E requester path")
     (auto simp: kv_authorize_owner kv_authorize_other intro!: preserves_rules log_denied)

lemmas log_kv_steps = log_kv_authorize
  keeps_preserves [OF kv_log.keeps_append_version, OF kv_log.keeps_kv_encrypt]
  keeps_preserves [OF kv_log.keeps_kv_delete] keeps_preserves [OF kv_log.keeps_kv_reads(1)]
  keeps_preserves [OF kv_log.keeps_kv_reads(2)]

lemma log_kv:
  "preserves (\<lambda>w. log_ok E (db w)) (kv_write E requester path data)"
  "preserves (\<lambda>w. log_ok E (db w)) (kv_read E requester path version)"
  "preserves (\<lambda>w. log_ok E (db w)) (kv_versions_of E requester path)"
  "preserves (\<lambda>w. log_ok E (db w)) (kv_delete E requester path)"
  unfolding kv_write_def kv_read_def kv_versions_of_def kv_delete_def
  by (intro preserves_rules log_kv_steps)+

lemma preserves_if_fun [preserves_rules]:
  "(c \<Longrightarrow> preserves P (m x)) \<Longrightarrow> (\<not> c \<Longrightarrow> preserves P (n x)) \<Longrightarrow> preserves P ((if c then m else n) x)"
  by simp

lemma log_owned_key: "preserves (\<lambda>w. log_ok E (db w)) (owned_key E o' n)"
  unfolding owned_key_def
  by (intro preserves_rules keeps_preserves [OF key_log.keeps_key_reads(1)] log_denied)

lemmas log_key_steps = log_owned_key key_log.keeps_key_reads [THEN keeps_preserves]
  keeps_preserves [OF key_log.keeps_nk_create] keeps_preserves [OF key_log.keeps_nk_rotate]
  keeps_preserves [OF key_log.keeps_delete_owned]

lemma log_candidates: "preserves (\<lambda>w. log_ok E (db w)) (verify_versions k pinned)"
  unfolding verify_versions_def by (intro preserves_rules log_key_steps)

lemma log_keys:
  "preserves (\<lambda>w. log_ok E (db w)) (create_key E o' n)"
  "preserves (\<lambda>w. log_ok E (db w)) (create_signing_key E o' n a)"
  "preserves (\<lambda>w. log_ok E (db w)) (rotate_key E o' n)"
  "preserves (\<lambda>w. log_ok E (db w)) (list_keys o')"
  "preserves (\<lambda>w. log_ok E (db w)) (delete_key E o' n)"
  "preserves (\<lambda>w. log_ok E (db w)) (transit_encrypt E o' n p)"
  "preserves (\<lambda>w. log_ok E (db w)) (transit_decrypt E o' c)"
  "preserves (\<lambda>w. log_ok E (db w)) (transit_sign E o' n m t a)"
  "preserves (\<lambda>w. log_ok E (db w)) (transit_verify E o' n m t sg a pinned)"
  unfolding create_key_def create_signing_key_def rotate_key_def list_keys_def delete_key_def
    transit_encrypt_def transit_decrypt_def transit_sign_def transit_verify_def Let_def
  by (intro preserves_rules log_key_steps log_candidates key_log.keeps_wrap keeps_if_fun clocklessI)+

text \<open>The keys stay consistent.\<close>

lemma keys_read: "reads_keyring m \<Longrightarrow> preserves (\<lambda>w. nk_ok (db w)) m"
proof (rule preservesI)
  fix w :: world assume r: "reads_keyring m" and ok: "nk_ok (db w)"
  obtain x w' where m: "m w = (x, w')" by (rule prod.exhaust)
  with r have "named_keys (db w') = named_keys (db w)" "named_key_versions (db w') = named_key_versions (db w)"
    by (auto simp: reads_keyring_def dest: keeps_run)
  with m ok nk_cong(1) [of "db w'" "db w"] show "nk_ok (db (snd (m w)))" by simp
qed

lemma keys_wrap: "wrap_aes E o' n v u = (r, u') \<Longrightarrow> db u' = db u" "wrap_ed25519 E o' n v u = (r, u') \<Longrightarrow> db u' = db u"
  using wrap_frame [of E ENCRYPT_DECRYPT o' n v u r u'] wrap_frame [of E SIGN_VERIFY o' n v u r u']
  by (simp_all add: wrap_for_def)

lemma keys_create:
  "preserves (\<lambda>w. nk_ok (db w)) (nk_create o' n u a (wrap_aes E o' n))"
  "preserves (\<lambda>w. nk_ok (db w)) (nk_create o' n u a (wrap_ed25519 E o' n))"
  by (rule preserves_nk_create, erule keys_wrap)+

lemma keys_rotate:
  "preserves (\<lambda>w. nk_ok (db w)) (nk_rotate o' n (if c then wrap_aes E o' n else wrap_ed25519 E o' n))"
  by (rule preserves_nk_rotate) (auto dest: keys_wrap split: if_splits)

lemmas keys_steps = keys_read [OF reads_owned_key] reads_primitives [THEN keys_read]
  keys_create keys_rotate preserves_delete_owned

lemma keys_keys:
  "preserves (\<lambda>w. nk_ok (db w)) (create_key E o' n)"
  "preserves (\<lambda>w. nk_ok (db w)) (create_signing_key E o' n a)"
  "preserves (\<lambda>w. nk_ok (db w)) (rotate_key E o' n)"
  "preserves (\<lambda>w. nk_ok (db w)) (delete_key E o' n)"
  unfolding create_key_def create_signing_key_def rotate_key_def delete_key_def Let_def
  by (intro preserves_rules keys_steps)+

lemmas keys_reads = reads_transit [THEN keys_read]

end
