(* ===== verification/ApiLaws.thy ===== *)
theory ApiLaws
  imports Api Frames AuthLaws TransitLaws
begin

text \<open>
  Laws of the whole application: the invariant of every reachable state, the need to
  authenticate, the error table.
\<close>

section \<open>The invariant of the application\<close>

definition data_ok :: "ext \<Rightarrow> database \<Rightarrow> bool" where
  "data_ok E d \<longleftrightarrow> log_ok E d \<and> kv_ok d \<and> nk_ok d \<and> accounts_ok d"

definition app_ok :: "ext \<Rightarrow> world \<Rightarrow> bool" where
  "app_ok E w \<longleftrightarrow> vault_ok w \<and> data_ok E (db w)"

lemma preserves_parts:
  assumes "preserves vault_ok m" "preserves (\<lambda>w. log_ok E (db w)) m" "preserves (\<lambda>w. kv_ok (db w)) m"
    and "preserves (\<lambda>w. nk_ok (db w)) m" "preserves (\<lambda>w. accounts_ok (db w)) m"
  shows "preserves (app_ok E) m"
  using assms by (simp add: preserves_def app_ok_def data_ok_def)

lemma vault_ok_kept: "keeps vstate m \<Longrightarrow> preserves vault_ok m"
  using preserves_keeps [of vstate m "\<lambda>s. released_zeroed s \<and> dek_length_ok s"]
  by (simp add: vault_ok_def [abs_def])

lemma app_ok_vault:
  assumes "preserves vault_ok m" "keeps (\<lambda>w. db w) m" shows "preserves (app_ok E) m"
  using assms by (simp add: preserves_def keeps_def app_ok_def)

lemma app_ok_accounts:
  assumes "keeps (\<lambda>w. beside_account_tables (db w)) m" "keeps vstate m" "preserves (\<lambda>w. accounts_ok (db w)) m"
  shows "preserves (app_ok E) m"
proof (rule preserves_parts)
  have k: "log_ok E (db (snd (m w))) = log_ok E (db w)" "kv_ok (db (snd (m w))) = kv_ok (db w)"
    "nk_ok (db (snd (m w))) = nk_ok (db w)" for w
    using assms(1) by (simp_all add: keeps_def beside_account_tables_def log_ok_def kv_ok_def nk_ok_def)
  then show "preserves (\<lambda>w. log_ok E (db w)) m" "preserves (\<lambda>w. kv_ok (db w)) m" "preserves (\<lambda>w. nk_ok (db w)) m"
    by (simp_all add: preserves_def)
qed (rule vault_ok_kept assms)+

lemma app_ok_kv:
  assumes "keeps vstate m" "keeps (\<lambda>w. beside_kv_ok (db w)) m"
    and "preserves (\<lambda>w. log_ok E (db w)) m" "preserves (\<lambda>w. kv_ok (db w)) m"
  shows "preserves (app_ok E) m"
  using vault_ok_kept [OF assms(1)] assms(2-4)
  by (simp add: preserves_def keeps_def beside_kv_ok_def app_ok_def data_ok_def) blast

lemma app_ok_keys:
  assumes "keeps vstate m" "keeps (\<lambda>w. beside_keys_ok (db w)) m"
    and "preserves (\<lambda>w. log_ok E (db w)) m" "preserves (\<lambda>w. nk_ok (db w)) m"
  shows "preserves (app_ok E) m"
  using vault_ok_kept [OF assms(1)] assms(2-4)
  by (simp add: preserves_def keeps_def beside_keys_ok_def app_ok_def data_ok_def) blast

section \<open>Every service keeps it\<close>

lemma ok_vault:
  "preserves (app_ok E) (vault_initialize E p)" "preserves (app_ok E) (vault_unlock E p)"
  "preserves (app_ok E) vault_lock" "preserves (app_ok E) status"
  by (rule app_ok_vault, rule preserves_vault_initialize preserves_vault_unlock preserves_vault_lock
      preserves_vault_reads, rule keeps_db_vault)+

lemma ok_accounts:
  "preserves (app_ok E) (auth_register E e p c)" "preserves (app_ok E) (auth_login E e p)"
  "preserves (app_ok E) (auth_logout E t)"
  by (rule app_ok_accounts, rule accounts.keeps_register accounts.keeps_login accounts.keeps_logout,
      rule accounts_vault.keeps_register accounts_vault.keeps_login accounts_vault.keeps_logout,
      rule accounts_register accounts_login accounts_logout)+

lemma ok_kv:
  "preserves (app_ok E) (kv_write E o' p d)" "preserves (app_ok E) (kv_read E o' p v)"
  "preserves (app_ok E) (kv_versions_of E o' p)" "preserves (app_ok E) (kv_delete E o' p)"
  by (rule app_ok_kv, rule kv_vault.keeps_kv_service, rule kv_rest.keeps_kv_service, rule log_kv,
      rule preserves_kv_write preserves_kv_read preserves_kv_versions_of preserves_kv_delete)+

lemma ok_keys:
  "preserves (app_ok E) (create_key E o' n)" "preserves (app_ok E) (create_signing_key E o' n a)"
  "preserves (app_ok E) (rotate_key E o' n)" "preserves (app_ok E) (list_keys o')"
  "preserves (app_ok E) (delete_key E o' n)" "preserves (app_ok E) (transit_encrypt E o' n p)"
  "preserves (app_ok E) (transit_decrypt E o' c)" "preserves (app_ok E) (transit_sign E o' n m t a)"
  "preserves (app_ok E) (transit_verify E o' n m t sg a pinned)"
  by (rule app_ok_keys, rule key_vault.keeps_key_service, rule key_rest.keeps_key_service, rule log_keys,
      rule keys_keys keys_reads)+

lemma get_current_user_world: "get_current_user E c w = (r, w') \<Longrightarrow> \<exists>n. w' = w\<lparr>ticks := n\<rparr>"
  by (auto simp: get_current_user_def op_simps op_run find_active_run is_expired_def Let_def
      intro: exI [of _ "ticks w"] split: option.splits if_splits sum.splits prod.splits)

lemma audit_reads_world:
  "list_for_requester e n w = (r, w') \<Longrightarrow> w' = w" "audit_verify E w = (r1, w') \<Longrightarrow> w' = w"
  by (auto simp: list_for_requester_def connection_def audit_verify_run op_simps op_run
      split: sum.splits)

lemma ok_reads:
  "preserves (app_ok E) (get_current_user E c)" "preserves (app_ok E) (list_for_requester e n)"
  "preserves (app_ok E) (audit_verify E)"
proof -
  show "preserves (app_ok E) (get_current_user E c)"
  proof (rule preservesI)
    fix w assume "app_ok E w"
    moreover obtain r w' where "get_current_user E c w = (r, w')" by (rule prod.exhaust)
    ultimately show "app_ok E (snd (get_current_user E c w))"
      using get_current_user_world [of E c w r w'] by (auto simp: app_ok_def vault_ok_def)
  qed
qed (rule preserves_pure, erule audit_reads_world)+

lemmas ok_services = ok_vault ok_accounts ok_kv ok_keys ok_reads

section \<open>Every request keeps it\<close>

lemma preserves_validated [preserves_rules]:
  "(\<And>x. preserves P (h x)) \<Longrightarrow> preserves P (validated v h)"
  unfolding validated_def by (intro preserves_rules)

lemma preserves_answer [preserves_rules]: "preserves P m \<Longrightarrow> preserves P (answer n mk m)"
  unfolding answer_def by (intro preserves_rules)

lemma ok_route: "preserves (app_ok E) (route E c req)"
  by (cases req; simp only: route.simps route_defs authenticated_def; intro preserves_rules ok_services)

lemma serve_ok: "serve E c req w = (resp, w') \<Longrightarrow> app_ok E w \<Longrightarrow> app_ok E w'"
  using preserves_run [OF ok_route]
  by (auto simp: serve_def split: prod.splits sum.splits)

section \<open>Every step of the application keeps it\<close>

lemma data_ok_same:
  assumes "same_data d d'" "schema_metadata d' HEAD_KEY = schema_metadata d HEAD_KEY"
  shows "data_ok E d' = data_ok E d"
  using assms
  by (simp add: same_data_def data_ok_def log_ok_def kv_ok_def nk_ok_def accounts_ok_def)

lemma startup_ok:
  assumes "startup E w = (r, w')" "app_ok E w"
  shows "app_ok E w'" "r = Inr () \<Longrightarrow> vs_dek (vstate w') = None"
proof -
  obtain r1 w1 where i: "db_initialize (unicode E) w = (r1, w1)" by (rule prod.exhaust)
  have k: "HEAD_KEY \<noteq> lit ''schema_version''" by (simp add: HEAD_KEY_def text_simps)
  have "schema_metadata (db w1) HEAD_KEY = schema_metadata (db w) HEAD_KEY \<and> vstate w1 = vstate w
    \<and> same_data (db w) (db w1)"
    using i k
    by (auto simp: db_initialize_def connection_def op_simps op_run create_missing_tables_def same_data_def
        split: if_splits sum.splits)
  then have ok: "app_ok E w1" using assms(2) data_ok_same [of "db w" "db w1" E] by (simp add: app_ok_def vault_ok_def)
  show "app_ok E w'"
  proof (cases r1)
    case (Inl e)
    with assms(1) i ok show ?thesis by (simp add: startup_def op_run)
  next
    case (Inr u)
    with assms(1) i have "\<exists>x. vault_lock w1 = (x, w')"
      by (auto simp: startup_def op_run op_simps split: prod.splits sum.splits)
    with preserves_run [OF ok_vault(3)] ok show ?thesis by blast
  qed
  show "vs_dek (vstate w') = None" if "r = Inr ()"
    using that assms(1) i
    by (auto simp: startup_def op_run op_simps vault_lock_run Let_def split: sum.splits)
qed

lemma process_gone_ok [simp]: "app_ok E w \<Longrightarrow> app_ok E (process_gone w)" "app_ok E w \<Longrightarrow> app_ok E (create_app env w)"
  "vs_dek (vstate (process_gone w)) = None"
  by (simp_all add: app_ok_def vault_ok_def process_gone_def create_app_def released_zeroed_def dek_length_ok_def)

fun state_ok :: "ext \<Rightarrow> app \<Rightarrow> bool" where
  "state_ok E (Up w) = app_ok E w"
| "state_ok E (Down w) = (app_ok E w \<and> vs_dek (vstate w) = None)"

lemma shutdown_ok:
  assumes "shutdown w = (r, w')" "app_ok E w"
  shows "app_ok E w'" "vs_dek (vstate w') = None"
proof -
  have "\<exists>x. vault_lock w = (x, w')"
    using assms(1) by (auto simp: shutdown_def op_run op_simps split: prod.splits sum.splits)
  with preserves_run [OF ok_vault(3)] assms(2) show "app_ok E w'" by blast
  show "vs_dek (vstate w') = None"
    using assms(1) by (auto simp: shutdown_def op_run op_simps vault_lock_run Let_def)
qed

lemma app_step_ok: "app_step E s s' \<Longrightarrow> state_ok E s \<Longrightarrow> state_ok E s'"
proof (induction rule: app_step.induct)
  case (started env w w')
  then show ?case using startup_ok(1) [of E "create_app env w"] by simp
next
  case (start_failed env w e w')
  then show ?case using startup_ok(1) [of E "create_app env w"] by simp
next
  case (served c req w resp w')
  then show ?case using serve_ok by simp
next
  case (stopped w r w')
  then show ?case using shutdown_ok by simp
qed simp

lemma reachable_ok: "reachable E w0 s \<Longrightarrow> state_ok E (Down w0) \<Longrightarrow> state_ok E s"
  by (induction rule: reachable.induct) (auto intro: app_step_ok)

section \<open>Authentication\<close>

fun protected :: "request \<Rightarrow> bool" where
  "protected GetHealth = False"
| "protected GetStatus = False"
| "protected (PostInit _) = False"
| "protected (PostUnlock _) = False"
| "protected PostLock = False"
| "protected (PostRegister _ _ _) = False"
| "protected (PostLogin _ _) = False"
| "protected _ = True"

text \<open>The user the credentials stand for at the moment: the owner of an unrevoked session whose
  token hash is that of the presented token and whose expiry has not been reached.\<close>

definition stands_for :: "ext \<Rightarrow> credentials \<Rightarrow> world \<Rightarrow> user_row \<Rightarrow> bool" where
  "stands_for E c w u \<longleftrightarrow>
     (\<exists>scheme t h s exp. c = Some (scheme, t) \<and> py_lower (unicode E) scheme = lit ''bearer''
        \<and> py_strip (unicode E) t \<noteq> [] \<and> hash_token E (py_strip (unicode E) t) = Inr h
        \<and> s \<in> set (rows (sessions (db w))) \<and> ses_token_hash s = h \<and> ses_revoked_at s = None
        \<and> u \<in> set (rows (users (db w))) \<and> usr_id u = ses_user_id s
        \<and> fromisoformat (ses_expires_at s) = Inr exp \<and> clock w (ticks w) < exp)"

definition readable_sessions :: "database \<Rightarrow> bool" where
  "readable_sessions d \<longleftrightarrow> (\<forall>s \<in> set (rows (sessions d)). \<exists>t. fromisoformat (ses_expires_at s) = Inr t)"

definition readable_credentials :: "ext \<Rightarrow> credentials \<Rightarrow> bool" where
  "readable_credentials E c \<longleftrightarrow> (\<forall>scheme t. c = Some (scheme, t) \<longrightarrow> list_all scalar t)"

lemma current_user_cases:
  assumes "accounts_ok (db w)" "readable_sessions (db w)" "readable_credentials E c"
  shows "(\<exists>u. stands_for E c w u \<and> (\<forall>v. stands_for E c w v \<longrightarrow> v = u) \<and> get_current_user E c w =
            (Inr \<lparr>au_user_id = usr_id u, au_email = usr_email u,
                  au_token = py_strip (unicode E) (snd (the c))\<rparr>, w\<lparr>ticks := Suc (ticks w)\<rparr>))
    \<or> (\<nexists>u. stands_for E c w u) \<and> (\<exists>n. get_current_user E c w = (Inl (Auth UnauthenticatedError), w\<lparr>ticks := n\<rparr>))"
proof -
  have same: "w = w\<lparr>ticks := ticks w\<rparr>" by simp
  show ?thesis
  proof (cases "\<exists>scheme t. c = Some (scheme, t) \<and> py_lower (unicode E) scheme = lit ''bearer''
      \<and> py_strip (unicode E) t \<noteq> []")
    case False
    then have "get_current_user E c w = (Inl (Auth UnauthenticatedError), w)"
      by (cases c) (auto simp: get_current_user_def op_simps Let_def)
    moreover have "\<nexists>u. stands_for E c w u" using False by (auto simp: stands_for_def)
    ultimately show ?thesis using same by metis
  next
    case True
    then obtain scheme t where c: "c = Some (scheme, t)" "py_lower (unicode E) scheme = lit ''bearer''"
      "py_strip (unicode E) t \<noteq> []" by blast
    have "list_all scalar (py_strip (unicode E) t)"
      using assms(3) c(1) set_py_strip [of "unicode E" t] by (auto simp: readable_credentials_def list_all_iff)
    then obtain h where h: "hash_token E (py_strip (unicode E) t) = Inr h" using hash_token_ok by blast
    show ?thesis
    proof (cases "session_of h (db w)")
      case None
      have "get_current_user E c w = (Inl (Auth UnauthenticatedError), w)"
        using c h None by (simp add: get_current_user_def op_run op_simps find_active_run Let_def)
      moreover have "\<nexists>u. stands_for E c w u"
        using None session_of_None_iff [OF assms(1)] h c(1) by (auto simp: stands_for_def active_session_def)
      ultimately show ?thesis using same by metis
    next
      case (Some x)
      obtain s u where x: "x = (s, u)" by (rule prod.exhaust)
      have m: "s \<in> set (rows (sessions (db w)))" "active_session h s" "u \<in> set (rows (users (db w)))"
        "usr_id u = ses_user_id s"
        using Some session_of_Some_iff [OF assms(1)] by (simp_all add: x)
      obtain exp where e: "fromisoformat (ses_expires_at s) = Inr exp"
        using m(1) assms(2) by (auto simp: readable_sessions_def)
      have run: "get_current_user E c w =
          (if exp \<le> clock w (ticks w) then Inl (Auth UnauthenticatedError)
           else Inr \<lparr>au_user_id = ses_user_id s, au_email = usr_email u, au_token = py_strip (unicode E) t\<rparr>,
           w\<lparr>ticks := Suc (ticks w)\<rparr>)"
        using c h Some e
        by (simp add: get_current_user_def op_run op_simps find_active_run is_expired_def Let_def x)
      have sf: "stands_for E c w v \<longleftrightarrow> v = u \<and> clock w (ticks w) < exp" for v
      proof
        assume "stands_for E c w v"
        then obtain s' exp' where v: "s' \<in> set (rows (sessions (db w)))" "active_session h s'"
          "v \<in> set (rows (users (db w)))" "usr_id v = ses_user_id s'"
          "fromisoformat (ses_expires_at s') = Inr exp'" "clock w (ticks w) < exp'"
          using c(1) h by (auto simp: stands_for_def active_session_def)
        then have "session_of h (db w) = Some (s', v)" by (simp add: session_of_Some_iff [OF assms(1)])
        with Some x e v(5,6) show "v = u \<and> clock w (ticks w) < exp" by simp
      next
        assume "v = u \<and> clock w (ticks w) < exp"
        with c h e m show "stands_for E c w v" by (auto simp: stands_for_def active_session_def)
      qed
      show ?thesis
      proof (cases "exp \<le> clock w (ticks w)")
        case True
        then have "\<nexists>u. stands_for E c w u" using sf by auto
        with True run show ?thesis by auto
      next
        case False
        then have "stands_for E c w u" using sf by auto
        with False run m(4) c(1) sf show ?thesis by (intro disjI1 exI [of _ u]) simp
      qed
    qed
  qed
qed

lemma unauthenticated_response:
  "error_response (Auth UnauthenticatedError) =
     Response 401 (ErrorBody (lit ''UNAUTHENTICATED'') (lit ''Missing, invalid, or expired session token''))"
  by (simp add: error_response_def handlers_def List.map_filter_def)

lemma protected_route:
  assumes "protected req" shows "\<exists>h. route E c req = authenticated E c h"
  using assms by (cases req) (auto simp: route_defs)

lemma email_route:
  assumes "protected req" "req \<noteq> PostLogout"
  shows "\<exists>h. (\<forall>c. route E c req = authenticated E c h) \<and> (\<forall>u v. au_email u = au_email v \<longrightarrow> h u = h v)"
  by (cases req; (use assms in \<open>simp; fail\<close>)?; simp only: route.simps route_defs)
    (rule exI, intro conjI allI impI, rule refl, simp only:)+

section \<open>Laws\<close>

text \<open>The invariant of the application. From any consistent, locked installation, in
  every state that starts, requests in any order with any content, stops, failed starts and
  kills lead to: the audit chain verifies, the version histories of secrets and keys are
  gapless, accounts and sessions are consistent, the DEK buffer has 32 bytes and every
  released buffer was zeroed; while the service is down, and right after a start, no DEK is
  held.\<close>

theorem application_invariant:
  assumes "app_ok E w0" "vs_dek (vstate w0) = None" "reachable E w0 s"
  shows "(case s of
      Down w \<Rightarrow> app_ok E w \<and> vs_dek (vstate w) = None
        \<and> (\<forall>w'. app_step E s (Up w') \<longrightarrow> vs_dek (vstate w') = None)
    | Up w \<Rightarrow> app_ok E w
        \<and> (\<exists>h. audit_verify E w = (Inr \<lparr>report_valid = True, entry_count = length (rows (audit_logs (db w))),
              head_hash = h, first_invalid_sequence = None, reason = None\<rparr>, w)))"
proof -
  have ok: "state_ok E s" using reachable_ok [OF assms(3)] assms(1,2) by simp
  show ?thesis
  proof (cases s)
    case (Down w)
    with ok have "vs_dek (vstate w') = None" if "app_step E (Down w) (Up w')" for w'
      using that startup_ok(2) [of E _ "Inr ()" w'] by (auto simp: down_step)
    with Down ok show ?thesis by simp
  next
    case (Up w)
    with ok log_ok_verifies [of E w] show ?thesis by (simp add: app_ok_def data_ok_def)
  qed
qed

theorem application_invariant_witness:
  "\<exists>w. reachable toy toy_world (Up w) \<and> app_ok toy w \<and> vs_dek (vstate w) = None"
proof -
  have ok: "app_ok toy toy_world" "vs_dek (vstate toy_world) = None"
    using toy_log_ok
    by (simp_all add: app_ok_def data_ok_def vault_ok_def released_zeroed_def dek_length_ok_def
        accounts_ok_def kv_ok_def nk_ok_def store_ok_def)
  obtain w where w: "startup toy (create_app (\<lambda>k. None) toy_world) = (Inr (), w)"
    by (simp add: startup_def db_initialize_def connection_def op_run op_simps create_app_def process_gone_def
        guard_fresh vault_lock_run Let_def toy_world_def)
  then have step: "app_step toy (Down toy_world) (Up w)" by (rule started)
  have r: "reachable toy toy_world (Up w)" by (rule stepped [OF installed step])
  from application_invariant [OF ok r] application_invariant [OF ok installed] step r show ?thesis by auto
qed

text \<open>C7: authentication. Every route but the vault's own, registration, login and the health
  check answers 401 and changes nothing but the clock unless the credentials stand for a
  user; and apart from logout, its effect and its answer depend on the credentials only
  through that user.\<close>

theorem authentication_required:
  assumes "accounts_ok (db w)" "readable_sessions (db w)" "readable_credentials E c" "protected req"
  shows "((\<nexists>u. stands_for E c w u) \<longrightarrow> (\<exists>n. serve E c req w =
      (Response 401 (ErrorBody (lit ''UNAUTHENTICATED'') (lit ''Missing, invalid, or expired session token'')),
       w\<lparr>ticks := n\<rparr>)))
    \<and> (\<forall>u c'. stands_for E c w u \<longrightarrow> stands_for E c' w u \<longrightarrow> readable_credentials E c' \<longrightarrow> req \<noteq> PostLogout \<longrightarrow>
      serve E c req w = serve E c' req w)"
proof (intro conjI allI impI)
  assume n: "\<nexists>u. stands_for E c w u"
  obtain h where h: "route E c req = authenticated E c h" using protected_route [OF assms(4)] by blast
  from current_user_cases [OF assms(1-3)] n obtain n where
    "get_current_user E c w = (Inl (Auth UnauthenticatedError), w\<lparr>ticks := n\<rparr>)" by blast
  then show "\<exists>n. serve E c req w =
      (Response 401 (ErrorBody (lit ''UNAUTHENTICATED'') (lit ''Missing, invalid, or expired session token'')),
       w\<lparr>ticks := n\<rparr>)"
    by (auto simp: serve_def h authenticated_def op_run unauthenticated_response)
next
  fix u c' assume u: "stands_for E c w u" "stands_for E c' w u" and c': "readable_credentials E c'"
    and req: "req \<noteq> PostLogout"
  obtain h where h: "route E x req = authenticated E x h" "au_email a = au_email b \<Longrightarrow> h a = h b" for x a b
    using email_route [OF assms(4) req] by metis
  have run: "\<exists>t. authenticated E x h w = h \<lparr>au_user_id = usr_id u, au_email = usr_email u, au_token = t\<rparr>
      (w\<lparr>ticks := Suc (ticks w)\<rparr>)" if "stands_for E x w u" "readable_credentials E x" for x
    using current_user_cases [OF assms(1,2) that(2)] that(1) by (auto simp: authenticated_def op_run)
  have "authenticated E c h w = authenticated E c' h w"
    using run [OF u(1) assms(3)] run [OF u(2) c'] h(2) by (metis authenticated_user.select_convs(2))
  then show "serve E c req w = serve E c' req w" by (simp add: serve_def h(1))
qed

text \<open>An account with one session, whose token is the letter t.\<close>

definition toy_hash :: pystr where "toy_hash = projr (hash_token toy (lit ''t''))"

definition toy_session :: world where
  "toy_session = toy_account\<lparr>db := (db toy_account)
     \<lparr>sessions := \<lparr>rows = [new_session 1 toy_hash (isoformat (DT 63000000000000001)) (lit ''now'') 1],
       next_id = 2\<rparr>\<rparr>\<rparr>"

lemma toy_hash_token: "hash_token toy (lit ''t'') = Inr toy_hash"
  using hash_token_ok [of "lit ''t''" toy] by (auto simp: toy_hash_def scalar_lit)

lemma toy_stands_for:
  "lit ''bearer'' = py_lower toy_unicode scheme \<Longrightarrow> stands_for toy (Some (scheme, lit ''t'')) toy_session toy_user"
proof -
  assume s: "lit ''bearer'' = py_lower toy_unicode scheme"
  have t: "py_strip toy_unicode (lit ''t'') = lit ''t''" "lit ''t'' \<noteq> []"
    by (simp_all add: py_strip_id_iff text_simps py_space_def)
  have e: "fromisoformat (isoformat (DT 63000000000000001)) = Inr (DT 63000000000000001)"
    by (rule fromisoformat_isoformat) (simp add: datetime_ok_def DATETIME_LIMIT_def US_PER_DAY_def)
  show ?thesis
    using s t toy_hash_token e
    by (auto simp: stands_for_def toy_session_def new_session_def toy_account_def toy_still_def toy_user_def
        new_user_def less_datetime_def)
qed

lemma toy_session_ok: "accounts_ok (db toy_session)" "readable_sessions (db toy_session)"
  by (auto simp: toy_session_def toy_account_def accounts_ok_def readable_sessions_def new_session_def
      toy_user_def new_user_def codec_simps datetime_ok_def DATETIME_LIMIT_def US_PER_DAY_def)

theorem authentication_required_witness:
  "(\<exists>n. serve toy None GetKeys toy_session =
      (Response 401 (ErrorBody (lit ''UNAUTHENTICATED'') (lit ''Missing, invalid, or expired session token'')),
       toy_session\<lparr>ticks := n\<rparr>))
    \<and> stands_for toy (Some (lit ''Bearer'', lit ''t'')) toy_session toy_user
    \<and> serve toy (Some (lit ''Bearer'', lit ''t'')) GetKeys toy_session =
        serve toy (Some (lit ''bearer'', lit ''t'')) GetKeys toy_session"
proof -
  note ok = toy_session_ok
  have c: "readable_credentials toy None" "readable_credentials toy (Some (s, lit ''t''))" for s
    by (simp_all add: readable_credentials_def scalar_lit)
  have p: "protected GetKeys" "GetKeys \<noteq> PostLogout" by simp_all
  have n: "\<nexists>u. stands_for toy None toy_session u" by (simp add: stands_for_def)
  have l: "py_lower toy_unicode (lit ''bearer'') = lit ''bearer''"
    by (simp add: py_lower_def ascii_lower_def text_simps)
  note s = toy_stands_for [OF bearer_lower [symmetric]] toy_stands_for [OF l [symmetric]]
  from authentication_required [OF ok c(1) p(1)] n s
    authentication_required [OF ok c(2) p(1), of "lit ''Bearer''"] c(2) p(2)
  show ?thesis by blast
qed

end
