(* ===== verification/TaskLaws.thy ===== *)
theory TaskLaws
  imports Tasks ApiLaws
begin

text \<open>
  Laws of requests that interleave: what one step of a request may do to the state, the
  invariant of the application under every schedule, and what survives other requests.
\<close>

section \<open>How the stored data may change\<close>

text \<open>Deletions aside, keys keep their identity and their versions.\<close>

definition keys_grow :: "pystr set \<Rightarrow> database \<Rightarrow> database \<Rightarrow> bool" where
  "keys_grow N d d' \<longleftrightarrow>
     (\<forall>owner name r. name \<notin> N \<longrightarrow> key_find owner name d = Some r \<longrightarrow>
        (\<exists>r' vs. key_find owner name d' = Some r' \<and> key_id r' = key_id r \<and> key_ident r' = key_ident r
           \<and> nk_versions d' r' = nk_versions d r @ vs))"

definition secrets_grow :: "pystr set \<Rightarrow> database \<Rightarrow> database \<Rightarrow> bool" where
  "secrets_grow P d d' \<longleftrightarrow>
     (\<forall>owner path. path \<notin> P \<longrightarrow> prefix (kv_past d (owner, path)) (kv_past d' (owner, path)))"

definition log_grows :: "database \<Rightarrow> database \<Rightarrow> bool" where
  "log_grows d d' \<longleftrightarrow> prefix (rows (audit_logs d)) (rows (audit_logs d'))"

text \<open>Accounts stay, and so does the row of every session that is revoked already or whose token
  hash is not in \<open>H\<close>.\<close>

definition sessions_last :: "pystr set \<Rightarrow> database \<Rightarrow> database \<Rightarrow> bool" where
  "sessions_last H d d' \<longleftrightarrow>
     (\<forall>s \<in> set (rows (sessions d)). ses_revoked_at s \<noteq> None \<or> ses_token_hash s \<notin> H \<longrightarrow>
        s \<in> set (rows (sessions d')))
     \<and> (\<forall>u \<in> set (rows (users d)). \<exists>u' \<in> set (rows (users d')).
          usr_id u' = usr_id u \<and> usr_email u' = usr_email u)"

text \<open>Everything stored grows, but for the paths \<open>P\<close>, the key names \<open>N\<close> and the sessions with
  a token hash in \<open>H\<close>.\<close>

definition grows :: "pystr set \<Rightarrow> pystr set \<Rightarrow> pystr set \<Rightarrow> world \<Rightarrow> world \<Rightarrow> bool" where
  "grows P N H w w' \<longleftrightarrow>
     keys_grow N (db w) (db w') \<and> secrets_grow P (db w) (db w') \<and> log_grows (db w) (db w')
     \<and> sessions_last H (db w) (db w')"

lemma keys_grow_trans: "keys_grow N d d1 \<Longrightarrow> keys_grow N d1 d2 \<Longrightarrow> keys_grow N d d2"
  unfolding keys_grow_def by (metis append.assoc)

lemma sessions_last_trans: "sessions_last H d d1 \<Longrightarrow> sessions_last H d1 d2 \<Longrightarrow> sessions_last H d d2"
  unfolding sessions_last_def by metis

lemma grows_trans: "grows P N H w w1 \<Longrightarrow> grows P N H w1 w2 \<Longrightarrow> grows P N H w w2"
  unfolding grows_def secrets_grow_def log_grows_def
  by (meson keys_grow_trans prefix_order.trans sessions_last_trans)

lemma keys_grow_same:
  "named_keys d' = named_keys d \<Longrightarrow> named_key_versions d' = named_key_versions d \<Longrightarrow> keys_grow N d d'"
  using nk_cong [of d' d] by (simp add: keys_grow_def)

lemma secrets_grow_same:
  "kv_records d' = kv_records d \<Longrightarrow> kv_versions d' = kv_versions d \<Longrightarrow> secrets_grow P d d'"
  by (simp add: secrets_grow_def kv_past_def kv_history_def)

lemma log_grows_same: "audit_logs d' = audit_logs d \<Longrightarrow> log_grows d d'"
  by (simp add: log_grows_def)

lemma sessions_last_same: "users d' = users d \<Longrightarrow> sessions d' = sessions d \<Longrightarrow> sessions_last H d d'"
  by (auto simp: sessions_last_def)

lemmas grow_same = keys_grow_same secrets_grow_same log_grows_same sessions_last_same

lemma grows_refl: "grows P N H w w"
  by (simp add: grows_def grow_same)

lemma grows_star: "(grows P N H)\<^sup>*\<^sup>* w w' \<Longrightarrow> grows P N H w w'"
  by (induction rule: rtranclp_induct) (blast intro: grows_refl grows_trans)+

text \<open>What a deletion of a key in \<open>N\<close> or of a path in \<open>P\<close> does is allowed.\<close>

lemma keys_grow_extends: "keyring_extends d d' \<Longrightarrow> keys_grow N d d'"
  by (simp add: keyring_extends_def keys_grow_def)

lemma keys_grow_removed: "nk_ok d \<Longrightarrow> n \<in> N \<Longrightarrow> keys_grow N d (nk_removed o' n d)"
  using nk_removed_ok(4,5) [of d] unfolding keys_grow_def by (metis Pair_inject append_Nil2)

lemma secrets_grow_appended:
  assumes "kv_ok d" shows "secrets_grow P d (kv_appended owner path stamp enc d)"
  using kv_appended_ok [OF assms, of owner path stamp enc]
  by (auto simp: secrets_grow_def kv_past_def split: option.split)

lemma secrets_grow_removed:
  assumes "kv_ok d" "p \<in> P" shows "secrets_grow P d (kv_removed o' p d)"
  using kv_removed_ok [OF assms(1), of o' p] assms(2) by (auto simp: secrets_grow_def kv_past_def)

section \<open>What one step of a service may do\<close>

lemma keeps_of_db: "keeps (\<lambda>w. db w) m \<Longrightarrow> keeps (\<lambda>w. g (db w)) m"
  by (simp add: keeps_def)

lemma allowedI: "preserves P m \<Longrightarrow> (\<And>w r w'. P w \<Longrightarrow> m w = (r, w') \<Longrightarrow> G w w') \<Longrightarrow> allowed P G m"
  by (simp add: allowed_def preserves_def) (metis prod.collapse)

text \<open>Steps beside the stored data: the vault, the clock, the random source, reads.\<close>

lemma step_beside:
  assumes "preserves vault_ok m" "keeps (\<lambda>w. db w) m" shows "allowed (app_ok E) (grows P N H) m"
proof (rule allowedI)
  show "preserves (app_ok E) m" using assms by (rule app_ok_vault)
  fix w r w' assume "m w = (r, w')"
  with assms(2) have "db w' = db w" by (rule keeps_run)
  then show "grows P N H w w'" by (simp add: grows_def grow_same)
qed

lemma step_kept: "keeps vstate m \<Longrightarrow> keeps (\<lambda>w. db w) m \<Longrightarrow> allowed (app_ok E) (grows P N H) m"
  by (rule step_beside [OF vault_ok_kept])

lemma step_pure: "(\<And>w r w'. m w = (r, w') \<Longrightarrow> w' = w) \<Longrightarrow> allowed (app_ok E) (grows P N H) m"
  by (rule step_kept; rule keeps_pure)

text \<open>Steps on the accounts.\<close>

lemma step_accounts:
  assumes "keeps (\<lambda>w. beside_account_tables (db w)) m" "keeps vstate m" "preserves (\<lambda>w. accounts_ok (db w)) m"
    and "\<And>w r w'. m w = (r, w') \<Longrightarrow> sessions_last H (db w) (db w')"
  shows "allowed (app_ok E) (grows P N H) m"
proof (rule allowedI)
  show "preserves (app_ok E) m" using assms(1-3) by (rule app_ok_accounts)
  fix w r w' assume m: "m w = (r, w')"
  with assms(1) have "beside_account_tables (db w') = beside_account_tables (db w)" by (rule keeps_run)
  with assms(4) [OF m] show "grows P N H w w'" by (simp add: grows_def grow_same beside_account_tables_def)
qed

lemma step_account_statement:
  assumes "keeps (\<lambda>w. beside_account_tables (db w)) m" "keeps vstate m" "preserves (\<lambda>w. accounts_ok (db w)) m"
    and "\<And>w x w'. m w = (Inr x, w') \<Longrightarrow> sessions_last H (db w) (db w')"
  shows "allowed (app_ok E) (grows P N H) (connection m)"
proof (rule step_accounts)
  fix w r w' assume "connection m w = (r, w')"
  with assms(4) show "sessions_last H (db w) (db w')"
    by (auto simp: connection_def sessions_last_same split: prod.splits sum.splits)
qed (intro keeps_rules preserves_rules assms(1-3) db_partI)+

text \<open>The statements: a new account, a changed one, a new session, a revoked one.\<close>

lemma sessions_last_statements:
  "execute (user_insert e h stamp) w = (Inr x, w') \<Longrightarrow> sessions_last H (db w) (db w')"
  "execute (session_insert uid h e stamp) w = (Inr x, w') \<Longrightarrow> sessions_last H (db w) (db w')"
  "h \<in> H \<Longrightarrow> execute (session_revoke_rows h stamp) w = (Inr y, w') \<Longrightarrow> sessions_last H (db w) (db w')"
  by (auto simp: execute_def user_insert_def session_insert_def session_revoke_rows_def sessions_last_def
      bindR_Inr_iff tbl_insert_Inr_iff tbl_update_def active_session_def op_simps split: sum.splits prod.splits if_splits)

lemma sessions_last_update:
  assumes "\<And>u. usr_id (f u) = usr_id u" "\<And>u. usr_email (f u) = usr_email u"
  shows "sessions_last H d (user_update uid f d)"
proof -
  have "\<exists>u' \<in> set (rows (users (user_update uid f d))). usr_id u' = usr_id u \<and> usr_email u' = usr_email u"
    if "u \<in> set (rows (users d))" for u
    using that assms
    by (intro bexI [of _ "if usr_id u = uid then f u else u"]) (auto simp: user_update_def tbl_update_def)
  then show ?thesis by (simp add: sessions_last_def user_update_def)
qed

text \<open>A step on the audit log.\<close>

lemma step_log: "allowed (app_ok E) (grows P N H) (audit_log_at E requester a tt ti r created)"
proof (rule allowedI)
  let ?m = "audit_log_at E requester a tt ti r created"
  have "keeps (\<lambda>w. (kv_ok (db w), nk_ok (db w), accounts_ok (db w))) ?m" "keeps vstate ?m"
    by (intro beside_log.keeps_log_at beside_log.intro;
        auto simp: clockless_def db_part_def kv_ok_def nk_ok_def accounts_ok_def)+
  then show "preserves (app_ok E) ?m"
    using preserves_audit_log_at [of E requester a tt ti r created]
    by (simp add: preserves_def keeps_def app_ok_def data_ok_def vault_ok_def)
  fix w x w' assume s: "?m w = (x, w')"
  show "grows P N H w w'"
  proof (cases x)
    case (Inl e)
    with s show ?thesis using grows_refl by (auto dest: audit_log_at_Inl)
  next
    case (Inr u)
    with s obtain row where "w' = w\<lparr>db := append_row row (db w)\<rparr>"
      by (auto simp: Let_def dest!: audit_log_at_Inr)
    then show ?thesis by (simp add: grows_def grow_same append_row_def log_grows_def)
  qed
qed

text \<open>Steps on the secrets.\<close>

lemma kv_frame_rest:
  assumes "kv_frame d d'"
  shows "named_keys d' = named_keys d" "named_key_versions d' = named_key_versions d" "audit_logs d' = audit_logs d"
    "users d' = users d" "sessions d' = sessions d"
  using assms by (auto simp: kv_frame_def dest: arg_cong [where f = named_keys] arg_cong [where f = named_key_versions]
      arg_cong [where f = audit_logs] arg_cong [where f = users] arg_cong [where f = sessions])

lemma step_append:
  assumes "\<And>v. keeps vstate (encrypt v)" "\<And>v. keeps (\<lambda>w. db w) (encrypt v)"
  shows "allowed (app_ok E) (grows P N H) (append_version_at o' p encrypt stamp)"
proof (rule allowedI)
  let ?m = "append_version_at o' p encrypt stamp"
  have frame: "db u' = db u" if "encrypt v u = (r, u')" for v u r u'
    using keeps_run [OF assms(2) that] .
  show "preserves (app_ok E) ?m"
    by (rule app_ok_kv, rule kv_vault.keeps_append_version_at, rule assms(1),
        rule kv_rest.keeps_append_version_at, rule keeps_of_db, rule assms(2),
        rule keeps_preserves, rule kv_log.keeps_append_version_at, rule keeps_of_db, rule assms(2),
        rule preserves_append_version_at, rule frame)
  fix w x w' assume ok: "app_ok E w" and s: "?m w = (x, w')"
  then have kv: "kv_ok (db w)" by (simp add: app_ok_def data_ok_def)
  show "grows P N H w w'"
  proof (cases x)
    case (Inl e)
    with s have "db w' = db w" by (auto dest: append_version_at_Inl)
    then show ?thesis by (simp add: grows_def grow_same)
  next
    case (Inr res)
    with s have b: "kv_next o' p (db w) < 2 ^ 63" "list_all scalar o'" "list_all scalar p"
      using append_version_at_bound by blast+
    from append_version_at_run [OF kv b(2,3,1) frame] s Inr
    obtain enc where d: "db w' = kv_appended o' p stamp enc (db w)"
      by (auto simp: Let_def split: prod.splits sum.splits)
    have "kv_frame (db w) (db w')" using kv_appended_ok [OF kv] d by simp
    note rest = kv_frame_rest [OF this]
    with secrets_grow_appended [OF kv] d rest show ?thesis by (simp add: grows_def grow_same)
  qed
qed

lemma step_kv_delete:
  assumes "p \<in> P" shows "allowed (app_ok E) (grows P N H) (kv_delete_path o' p)"
proof (rule allowedI)
  show "preserves (app_ok E) (kv_delete_path o' p)"
    by (rule app_ok_kv, rule kv_vault.keeps_kv_delete, rule kv_rest.keeps_kv_delete,
        rule keeps_preserves, rule kv_log.keeps_kv_delete, rule preserves_kv_delete_path)
  fix w x w' assume ok: "app_ok E w" and s: "kv_delete_path o' p w = (x, w')"
  then have kv: "kv_ok (db w)" by (simp add: app_ok_def data_ok_def)
  show "grows P N H w w'"
  proof (cases "list_all scalar o' \<and> list_all scalar p")
    case True
    with s have d: "db w' = kv_removed o' p (db w)" by (auto simp: kv_delete_path_run)
    have "kv_frame (db w) (db w')" using kv_removed_ok [OF kv] d by simp
    note rest = kv_frame_rest [OF this]
    with secrets_grow_removed [OF kv assms] d rest show ?thesis by (simp add: grows_def grow_same)
  next
    case False
    then have "\<exists>e. bind_texts [o', p] = Inl e" by (auto simp: bind_texts_def)
    with s grows_refl show ?thesis by (auto simp: kv_delete_path_def connection_def op_simps op_run)
  qed
qed

text \<open>Steps on the keys.\<close>

lemma nk_frame_rest:
  "nk_frame d d' \<Longrightarrow> kv_records d' = kv_records d \<and> kv_versions d' = kv_versions d \<and> audit_logs d' = audit_logs d
    \<and> users d' = users d \<and> sessions d' = sessions d"
  by (auto simp: nk_frame_def dest: arg_cong [where f = kv_records] arg_cong [where f = kv_versions]
      arg_cong [where f = audit_logs] arg_cong [where f = users] arg_cong [where f = sessions])

lemma grows_keys:
  "nk_frame (db w) (db w') \<Longrightarrow> keys_grow N (db w) (db w') \<Longrightarrow> grows P N H w w'"
  using nk_frame_rest by (simp add: grows_def grow_same)

lemma step_keys:
  assumes "keeps vstate m" "keeps (\<lambda>w. beside_keys_ok (db w)) m" "preserves (\<lambda>w. log_ok E (db w)) m"
    and "preserves (\<lambda>w. nk_ok (db w)) m"
    and "\<And>w r w'. nk_ok (db w) \<Longrightarrow> m w = (r, w') \<Longrightarrow>
      db w' = db w \<or> nk_frame (db w) (db w') \<and> keys_grow N (db w) (db w')"
  shows "allowed (app_ok E) (grows P N H) m"
proof (rule allowedI)
  show "preserves (app_ok E) m" by (rule app_ok_keys) (rule assms)+
  fix w r w' assume "app_ok E w" "m w = (r, w')"
  with assms(5) [of w r w'] have "db w' = db w \<or> nk_frame (db w) (db w') \<and> keys_grow N (db w) (db w')"
    by (simp add: app_ok_def data_ok_def)
  then show "grows P N H w w'" by (auto simp: grows_def grow_same dest: nk_frame_rest)
qed

lemma keeps_wrap_world:
  "keeps vstate (wrap_aes E o' n v)" "keeps vstate (wrap_ed25519 E o' n v)"
  "keeps (\<lambda>w. g (db w)) (wrap_aes E o' n v)" "keeps (\<lambda>w. g (db w)) (wrap_ed25519 E o' n v)"
  using wrap_frame [of E ENCRYPT_DECRYPT o' n v] wrap_frame [of E SIGN_VERIFY o' n v]
  by (auto intro!: keepsI simp: wrap_for_def)

lemma step_nk_create:
  assumes "\<And>v. keeps vstate (wrap v)" "\<And>v. keeps (\<lambda>w. db w) (wrap v)"
  shows "allowed (app_ok E) (grows P N H) (nk_create_at o' n u a wrap stamp)"
proof (rule step_keys)
  have frame: "db u' = db u" if "wrap v u = (r, u')" for v u r u'
    using keeps_run [OF assms(2) that] .
  show "keeps vstate (nk_create_at o' n u a wrap stamp)" by (rule key_vault.keeps_nk_create_at) (rule assms(1))
  show "keeps (\<lambda>w. beside_keys_ok (db w)) (nk_create_at o' n u a wrap stamp)"
    by (rule key_rest.keeps_nk_create_at) (rule keeps_of_db, rule assms(2))
  show "preserves (\<lambda>w. log_ok E (db w)) (nk_create_at o' n u a wrap stamp)"
    by (rule keeps_preserves, rule key_log.keeps_nk_create_at) (rule keeps_of_db, rule assms(2))
  show "preserves (\<lambda>w. nk_ok (db w)) (nk_create_at o' n u a wrap stamp)"
    by (rule preserves_nk_create_at) (rule frame)
  fix w r w' assume ok: "nk_ok (db w)" and s: "nk_create_at o' n u a wrap stamp w = (r, w')"
  show "db w' = db w \<or> nk_frame (db w) (db w') \<and> keys_grow N (db w) (db w')"
  proof (cases "list_all scalar o' \<and> list_all scalar n \<and> key_find o' n (db w) = None")
    case True
    then have t: "list_all scalar o'" "list_all scalar n" "key_find o' n (db w) = None" by simp_all
    let ?u = "w\<lparr>db := nk_started o' n u a stamp (db w)\<rparr>"
    obtain z u' where e: "wrap 1 ?u = (z, u')" by (rule prod.exhaust)
    have run: "nk_create_at o' n u a wrap stamp w = (case wrap 1 ?u of
        (Inl e, u) \<Rightarrow> (Inl (if is_integrity_error e then Transit KeyAlreadyExistsError else e), u\<lparr>db := db w\<rparr>)
      | (Inr wrapped, v) \<Rightarrow> (Inr (), v\<lparr>db := nk_created o' n u a stamp wrapped (db w)\<rparr>))"
      using nk_create_at_run [where wrap = wrap, OF ok t(1,2) frame] t(3) by (simp add: Let_def)
    have "db w' = db w \<or> (\<exists>wrapped. db w' = nk_created o' n u a stamp wrapped (db w))"
      using run e s by (cases z) auto
    with True nk_created_ok(2) [OF ok _ refl] keyring_extends_created [OF ok] show ?thesis
      by (auto intro: keys_grow_extends)
  next
    case False
    with nk_create_at_unencodable nk_create_at_run [where wrap = wrap, OF ok _ _ frame] s show ?thesis
      by (cases "list_all scalar o' \<and> list_all scalar n") (auto simp: Let_def)
  qed
qed

lemma step_nk_rotate:
  assumes "\<And>v. keeps vstate (wrap v)" "\<And>v. keeps (\<lambda>w. db w) (wrap v)"
  shows "allowed (app_ok E) (grows P N H) (nk_rotate_at o' n wrap stamp)"
proof (rule step_keys)
  have frame: "db u' = db u" if "wrap v u = (r, u')" for v u r u'
    using keeps_run [OF assms(2) that] .
  show "keeps vstate (nk_rotate_at o' n wrap stamp)" by (rule key_vault.keeps_nk_rotate_at) (rule assms(1))
  show "keeps (\<lambda>w. beside_keys_ok (db w)) (nk_rotate_at o' n wrap stamp)"
    by (rule key_rest.keeps_nk_rotate_at) (rule keeps_of_db, rule assms(2))
  show "preserves (\<lambda>w. log_ok E (db w)) (nk_rotate_at o' n wrap stamp)"
    by (rule keeps_preserves, rule key_log.keeps_nk_rotate_at) (rule keeps_of_db, rule assms(2))
  show "preserves (\<lambda>w. nk_ok (db w)) (nk_rotate_at o' n wrap stamp)"
    by (rule preserves_nk_rotate_at) (rule frame)
  fix w x w' assume ok: "nk_ok (db w)" and s: "nk_rotate_at o' n wrap stamp w = (x, w')"
  show "db w' = db w \<or> nk_frame (db w) (db w') \<and> keys_grow N (db w) (db w')"
  proof (cases x)
    case (Inl e)
    with s show ?thesis by (auto dest: nk_rotate_at_Inl)
  next
    case (Inr found)
    with s have b: "list_all scalar o'" "list_all scalar n"
      "\<And>r. key_find o' n (db w) = Some r \<Longrightarrow> key_latest_version r + 1 < 2 ^ 63"
      using nk_rotate_at_Inr_bound by blast+
    note run = nk_rotate_at_run [where wrap = wrap, OF ok b frame]
    have "db w' = db w \<or> (\<exists>r wrapped. key_find o' n (db w) = Some r
        \<and> db w' = nk_rotated (key_id r) (key_latest_version r + 1) stamp wrapped (db w))"
    proof (cases "key_find o' n (db w)")
      case None
      with run s show ?thesis by simp
    next
      case (Some r)
      obtain z u' where e: "wrap (key_latest_version r + 1) w = (z, u')" by (rule prod.exhaust)
      show ?thesis
      proof (cases z)
        case (Inl e)
        with e run Some s Inr show ?thesis by simp
      next
        case wrapped: (Inr wrapped)
        with e run Some s Inr
        have "db w' = nk_rotated (key_id r) (key_latest_version r + 1) stamp wrapped (db w)" by auto
        with Some show ?thesis by blast
      qed
    qed
    with nk_rotated_ok(2) [OF ok _ refl] keyring_extends_rotated [OF ok] show ?thesis
      by (auto intro: keys_grow_extends)
  qed
qed

lemma step_key_delete:
  assumes "n \<in> N" shows "allowed (app_ok E) (grows P N H) (delete_owned o' n)"
proof (rule step_keys)
  fix w r w' assume ok: "nk_ok (db w)" and s: "delete_owned o' n w = (r, w')"
  show "db w' = db w \<or> nk_frame (db w) (db w') \<and> keys_grow N (db w) (db w')"
  proof (cases "list_all scalar o' \<and> list_all scalar n")
    case True
    with s have "db w' = nk_removed o' n (db w)" by (auto simp: delete_owned_run)
    with nk_removed_ok(2) [OF ok] keys_grow_removed [OF ok assms] show ?thesis by simp
  next
    case False
    then have "\<exists>e. bind_texts [o', n] = Inl e" by (auto simp: bind_texts_def)
    with s show ?thesis by (auto simp: delete_owned_def connection_def op_simps op_run)
  qed
qed (rule key_vault.keeps_delete_owned key_rest.keeps_delete_owned preserves_delete_owned
    keeps_preserves [OF key_log.keeps_delete_owned])+

section \<open>Every step of every request is allowed\<close>

text \<open>The single steps: the vault and the surroundings.\<close>

lemma step_vault:
  "allowed (app_ok E) (grows P N H) is_initialized" "allowed (app_ok E) (grows P N H) is_unlocked"
  "allowed (app_ok E) (grows P N H) state_lock" "allowed (app_ok E) (grows P N H) (set_dek d)"
  "allowed (app_ok E) (grows P N H) get_dek" "allowed (app_ok E) (grows P N H) require_unlocked"
  by (rule step_pure step_beside; (rule preserves_state_lock preserves_set_dek)?;
      auto simp: op_simps is_unlocked_def keeps_def set_dek_def)+

lemma step_files:
  "allowed (app_ok E) (grows P N H) (save_atomic data)"
  "allowed (app_ok E) (grows P N H) load_and_validate_config"
  by (rule step_kept; rule keepsI; auto dest!: save_atomic_cases load_config_world only_files_fields)+

lemma step_world:
  "allowed (app_ok E) (grows P N H) now" "allowed (app_ok E) (grows P N H) now_text"
  "allowed (app_ok E) (grows P N H) (token_bytes n)" "allowed (app_ok E) (grows P N H) generate_dek"
  "allowed (app_ok E) (grows P N H) (gets f)" "allowed (app_ok E) (grows P N H) (encrypt_aes_gcm E' k p a)"
  "allowed (app_ok E) (grows P N H) (compute_expiry E')" "allowed (app_ok E) (grows P N H) (compute_lockout_until E')"
  "allowed (app_ok E) (grows P N H) generate_session_token" "allowed (app_ok E) (grows P N H) (is_expired t)"
  unfolding generate_dek_def compute_expiry_def compute_lockout_until_def generate_session_token_def is_expired_def
  by (rule step_kept; intro keeps_rules clocklessI)+

lemma step_hash: "allowed (app_ok E) (grows P N H) (hash_password E' p)"
  by (rule step_kept; rule keepsI; auto dest: hash_password_world)

lemma step_dummy: "allowed (app_ok E) (grows P N H) (modify (\<lambda>w. w\<lparr>dummy_hash := h\<rparr>))"
  by (rule step_kept; simp add: keeps_def op_simps)

text \<open>Reads of the database.\<close>

lemma find_active_world: "find_active_by_token_hash h w = (r, w') \<Longrightarrow> w' = w"
  by (auto simp: find_active_by_token_hash_def connection_def op_simps)

lemma audit_rows_world:
  "connection (query q) w = (r, w') \<Longrightarrow> w' = w" "stored_head w = (r1, w') \<Longrightarrow> w' = w"
  by (auto simp: stored_head_def connection_def op_simps)

lemmas world_reads = get_by_email_world find_active_world audit_rows_world audit_reads_world(1)
  kv_get_version_world kv_list_versions_world get_owned_world key_version_world unwrap_key_world
  list_key_versions_world list_owned_world metadata_world

lemma step_reads:
  "allowed (app_ok E) (grows P N H) (get_by_email E' e)"
  "allowed (app_ok E) (grows P N H) (find_active_by_token_hash h)"
  "allowed (app_ok E) (grows P N H) (connection (query audit_rows_asc))"
  "allowed (app_ok E) (grows P N H) stored_head"
  "allowed (app_ok E) (grows P N H) (list_for_requester e n)"
  "allowed (app_ok E) (grows P N H) (kv_get_version o' p v)"
  "allowed (app_ok E) (grows P N H) (kv_list_versions o' p)"
  "allowed (app_ok E) (grows P N H) (get_owned o' m)" "allowed (app_ok E) (grows P N H) (key_version k i)"
  "allowed (app_ok E) (grows P N H) (unwrap_key E' k x)" "allowed (app_ok E) (grows P N H) (list_key_versions i)"
  "allowed (app_ok E) (grows P N H) (list_owned o')" "allowed (app_ok E) (grows P N H) (metadata k)"
  by (rule step_pure, erule world_reads)+

text \<open>Statements on the accounts.\<close>

lemma step_statements:
  "allowed (app_ok E) (grows P N H) (connection (bindM (liftR r) (\<lambda>_. execute (user_insert e h s))))"
  "allowed (app_ok E) (grows P N H) (connection (execute (session_insert uid h e s)))"
  "h \<in> H \<Longrightarrow> allowed (app_ok E) (grows P N H) (connection (execute (session_revoke_rows h s)))"
  by (rule step_account_statement; (intro keeps_rules preserves_rules accounts.keeps_statements
      accounts_vault.keeps_statements preserves_statements)?;
      auto simp: bindM_Inr_iff op_simps intro: sessions_last_statements)+

lemma step_user_update:
  assumes "\<And>u. usr_id (f u) = usr_id u" "\<And>u. usr_email (f u) = usr_email u"
  shows "allowed (app_ok E) (grows P N H) (connection (execute_update (user_update uid f)))"
    and "allowed (app_ok E) (grows P N H) (connection (bindM (liftR r) (\<lambda>_. execute_update (user_update uid f))))"
  by (rule step_account_statement; (intro keeps_rules preserves_rules accounts.keeps_statements
      accounts_vault.keeps_statements preserves_statements assms)?;
      auto simp: bindM_Inr_iff op_simps assms sessions_last_update)+

lemmas single_steps = step_vault step_files step_world step_hash step_dummy step_reads step_statements
  step_log step_kv_delete step_key_delete

text \<open>The services.\<close>

lemma guarantees_json [guarantee_rules]:
  "(\<And>d. guarantees P G (h d)) \<Longrightarrow> guarantees P G (case x of JObj d \<Rightarrow> h d | _ \<Rightarrow> throwP e)"
  by (auto split: json.split intro: guarantee_rules)

lemma tasks_vault:
  "guarantees (app_ok E) (grows P N H) status_task" "guarantees (app_ok E) (grows P N H) (initialize_task E' p)"
  "guarantees (app_ok E) (grows P N H) (unlock_task E' p)" "guarantees (app_ok E) (grows P N H) lock_task"
  unfolding initialize_task_def unlock_task_def lock_task_def status_task_def
  by (intro guarantee_rules single_steps)+

lemma tasks_accounts:
  "guarantees (app_ok E) (grows P N H) (user_create_task E' e h)"
  "guarantees (app_ok E) (grows P N H) (reset_failures_task uid)"
  "guarantees (app_ok E) (grows P N H) (update_failed_task uid n t)"
  "guarantees (app_ok E) (grows P N H) (session_create_task uid h e)"
  "h \<in> H \<Longrightarrow> guarantees (app_ok E) (grows P N H) (session_revoke_task h)"
  "guarantees (app_ok E) (grows P N H) (dummy_hash_task E')"
  unfolding user_create_task_def reset_failures_task_def update_failed_task_def session_create_task_def
    session_revoke_task_def dummy_hash_task_def Let_def
  by (intro guarantee_rules single_steps step_user_update; simp)+

text \<open>The token hash a request would revoke.\<close>

fun presented_hash :: "ext \<Rightarrow> credentials \<Rightarrow> pystr set" where
  "presented_hash E None = {}"
| "presented_hash E (Some (scheme, t)) = {h. hash_token E (py_strip (unicode E) t) = Inr h}"

lemma current_user_token:
  "yields (\<lambda>r. \<forall>u h. r = Inr u \<longrightarrow> hash_token E (au_token u) = Inr h \<longrightarrow> h \<in> presented_hash E c) (current_user_task E c)"
  unfolding current_user_task_def Let_def
  by (cases c) (auto intro!: yields_rules split: prod.split option.split)

lemma tasks_auth:
  "guarantees (app_ok E) (grows P N H) (register_task E' e p c)"
  "guarantees (app_ok E) (grows P N H) (login_task E' e p)"
  "(\<And>h. hash_token E' t = Inr h \<Longrightarrow> h \<in> H) \<Longrightarrow> guarantees (app_ok E) (grows P N H) (logout_task E' t)"
  "guarantees (app_ok E) (grows P N H) (current_user_task E' cr)"
  unfolding register_task_def login_task_def login_user_task_def failed_attempt_task_def logout_task_def
    current_user_task_def Let_def
  by (intro guarantee_rules guarantees_lift single_steps tasks_accounts; assumption?)+

lemma tasks_audit:
  "guarantees (app_ok E) (grows P N H) (log_denied_task E r tt ti)"
  "guarantees (app_ok E) (grows P N H) (audit_verify_task E)"
  unfolding log_denied_task_def audit_verify_task_def by (intro guarantee_rules single_steps)+

lemma kv_encrypt_keeps:
  "keeps vstate (kv_encrypt_for E key o' p d v)" "keeps (\<lambda>w. db w) (kv_encrypt_for E key o' p d v)"
  unfolding kv_encrypt_for_def Let_def by (intro keeps_rules clocklessI)+

lemma tasks_kv:
  "guarantees (app_ok E) (grows P N H) (kv_authorize_task E r p)"
  "guarantees (app_ok E) (grows P N H) (kv_write_task E r p d)"
  "guarantees (app_ok E) (grows P N H) (kv_read_task E r p v)"
  "guarantees (app_ok E) (grows P N H) (kv_versions_task E r p)"
  "p \<in> P \<Longrightarrow> guarantees (app_ok E) (grows P N H) (kv_delete_task E r p)"
proof -
  show a: "guarantees (app_ok E) (grows P N H) (kv_authorize_task E r p)" for p
    unfolding kv_authorize_task_def Let_def by (intro guarantee_rules tasks_audit)
  show "guarantees (app_ok E) (grows P N H) (kv_write_task E r p d)"
    "guarantees (app_ok E) (grows P N H) (kv_read_task E r p v)"
    "guarantees (app_ok E) (grows P N H) (kv_versions_task E r p)"
    "p \<in> P \<Longrightarrow> guarantees (app_ok E) (grows P N H) (kv_delete_task E r p)"
    unfolding kv_write_task_def append_version_task_def kv_read_task_def kv_versions_task_def kv_delete_task_def
    by (intro guarantee_rules a single_steps step_append kv_encrypt_keeps; assumption?)+
qed

lemma tasks_keys:
  "guarantees (app_ok E) (grows P N H) (owned_key_task E o' n)"
  "guarantees (app_ok E) (grows P N H) (nk_create_task o' n u a (wrap_aes E o' n))"
  "guarantees (app_ok E) (grows P N H) (nk_create_task o' n u a (wrap_ed25519 E o' n))"
  "guarantees (app_ok E) (grows P N H) (nk_rotate_task o' n (if c then wrap_aes E o' n else wrap_ed25519 E o' n))"
  "guarantees (app_ok E) (grows P N H) (verify_versions_task k pinned)"
  unfolding owned_key_task_def nk_create_task_def nk_rotate_task_def verify_versions_task_def
  by (intro guarantee_rules tasks_audit single_steps step_nk_create step_nk_rotate keeps_wrap_world keeps_if_fun)+

lemma tasks_transit:
  "guarantees (app_ok E) (grows P N H) (create_key_task E o' n)"
  "guarantees (app_ok E) (grows P N H) (create_signing_key_task E o' n a)"
  "guarantees (app_ok E) (grows P N H) (rotate_key_task E o' n)" "guarantees (app_ok E) (grows P N H) (list_keys_task o')"
  "n \<in> N \<Longrightarrow> guarantees (app_ok E) (grows P N H) (delete_key_task E o' n)"
  "guarantees (app_ok E) (grows P N H) (encrypt_task E o' n p)"
  "guarantees (app_ok E) (grows P N H) (decrypt_task E o' t)"
  "guarantees (app_ok E) (grows P N H) (sign_task E o' n m k a)"
  "guarantees (app_ok E) (grows P N H) (verify_task E o' n m k sg a pinned)"
  unfolding create_key_task_def create_signing_key_task_def rotate_key_task_def list_keys_task_def
    delete_key_task_def encrypt_task_def decrypt_task_def sign_task_def verify_task_def Let_def
  by (intro guarantee_rules tasks_keys single_steps; assumption?)+

text \<open>The paths and key names a request may delete.\<close>

fun deleted_paths :: "request \<Rightarrow> pystr set" where
  "deleted_paths (DeleteEntry p) = {p}"
| "deleted_paths _ = {}"

fun deleted_keys :: "request \<Rightarrow> pystr set" where
  "deleted_keys (PostRevoke n) = {n}"
| "deleted_keys _ = {}"

fun ended_sessions :: "ext \<Rightarrow> credentials \<Rightarrow> request \<Rightarrow> pystr set" where
  "ended_sessions E c PostLogout = presented_hash E c"
| "ended_sessions E c _ = {}"

lemma tasks_handlers [guarantee_rules]:
  "(\<And>x. v = Some x \<Longrightarrow> guarantees P G (h x)) \<Longrightarrow> guarantees P G (validated_task v h)"
  "guarantees P G s \<Longrightarrow> guarantees P G (answer_task n mk s)"
  unfolding validated_task_def answer_task_def by (intro guarantee_rules; simp)+

lemma path_query_same: "path_query p = Some q \<Longrightarrow> q = p"
  by (simp add: path_query_def accept_def split: if_splits)

lemma tasks_route:
  assumes "deleted_paths req \<subseteq> P" "deleted_keys req \<subseteq> N" "ended_sessions E c req \<subseteq> H"
  shows "guarantees (app_ok E) (grows P N H) (route_task E c req)"
proof (cases "req = PostLogout")
  case True
  with assms(3) have "presented_hash E c \<subseteq> H" by simp
  then show ?thesis unfolding True route_task.simps authenticated_task_def
    by (intro guarantees_bind_yields [OF tasks_auth(4) current_user_token] guarantee_rules tasks_auth) auto
next
  case False
  with assms(1,2) show ?thesis
    by (cases req; simp only: route_task.simps authenticated_task_def;
        intro guarantee_rules tasks_auth tasks_vault tasks_kv tasks_transit tasks_audit single_steps;
        (auto dest: path_query_same)?)
qed

lemma tasks_serve:
  "deleted_paths req \<subseteq> P \<Longrightarrow> deleted_keys req \<subseteq> N \<Longrightarrow> ended_sessions E c req \<subseteq> H \<Longrightarrow>
   guarantees (app_ok E) (grows P N H) (serve_task E c req)"
  unfolding serve_task_def by (intro guarantees_mapR tasks_route)

end
