(* ===== verification/Concurrent.thy ===== *)
theory Concurrent
  imports TaskLaws
begin

text \<open>
  The server with requests that interleave, and the properties of its schedules: alone a request
  is what \<open>serve\<close> says, the invariant of the application holds at
  every moment and survives a kill between any two steps, stored data is not disturbed; and two
  races of the code, of \<open>initialize\<close> and of the failure count.
\<close>

section \<open>The server\<close>

text \<open>
  \<open>Off w\<close>: no process, \<open>w\<close> on disk. \<open>On w ps\<close>: the state and what is left of the requests
  accepted so far. The lifespan ends when every request is answered; a kill drops the rest of
  every request.
\<close>

datatype server = Off world | On world "response task list"

inductive server_step :: "ext \<Rightarrow> server \<Rightarrow> server \<Rightarrow> bool" for E where
  s_started: "startup E (create_app env w) = (Inr (), w') \<Longrightarrow> server_step E (Off w) (On w' [])"
| s_failed: "startup E (create_app env w) = (Inl e, w') \<Longrightarrow> server_step E (Off w) (Off (process_gone w'))"
| s_accepted: "server_step E (On w ps) (On w (ps @ [serve_task E c req]))"
| s_ran: "pool_step (ps, w) (ps', w') \<Longrightarrow> server_step E (On w ps) (On w' ps')"
| s_stopped: "list_all is_done ps \<Longrightarrow> shutdown w = (r, w') \<Longrightarrow> server_step E (On w ps) (Off w')"
| s_killed: "server_step E (On w ps) (Off (process_gone w))"

inductive_simps off_step: "server_step E (Off w) s"

abbreviation server_runs where "server_runs E \<equiv> (server_step E)\<^sup>*\<^sup>*"

fun server_ok :: "ext \<Rightarrow> server \<Rightarrow> bool" where
  "server_ok E (Off w) = (app_ok E w \<and> vs_dek (vstate w) = None)"
| "server_ok E (On w ps) = (app_ok E w \<and> (\<forall>p \<in> set ps. guarantees (app_ok E) (grows UNIV UNIV UNIV) p))"

lemma server_step_ok: "server_step E s s' \<Longrightarrow> server_ok E s \<Longrightarrow> server_ok E s'"
proof (induction rule: server_step.induct)
  case (s_started env w w')
  then show ?case using startup_ok(1) [of E "create_app env w"] by simp
next
  case (s_failed env w e w')
  then show ?case using startup_ok(1) [of E "create_app env w"] by simp
next
  case (s_accepted w ps c req)
  then show ?case using tasks_serve [of req UNIV UNIV E c UNIV] by auto
next
  case (s_ran ps w ps' w')
  then show ?case using pool_step_keeps [OF s_ran.hyps, of "app_ok E" "grows UNIV UNIV UNIV"] by simp
next
  case (s_stopped ps w r w')
  then show ?case using shutdown_ok [OF s_stopped.hyps(2), of E] by simp
qed simp

lemma server_runs_ok: "server_runs E s s' \<Longrightarrow> server_ok E s \<Longrightarrow> server_ok E s'"
  by (induction rule: rtranclp_induct) (auto intro: server_step_ok)

section \<open>Schedules of requests\<close>

definition requests :: "ext \<Rightarrow> (credentials \<times> request) list \<Rightarrow> response task list" where
  "requests E rs = map (\<lambda>(c, req). serve_task E c req) rs"

lemma requests_guarantee:
  assumes "\<forall>(c, req) \<in> set rs. path \<notin> deleted_paths req \<and> name \<notin> deleted_keys req"
  shows "\<forall>p \<in> set (requests E rs). guarantees (app_ok E) (grows (- {path}) (- {name}) UNIV) p"
  using assms by (auto simp: requests_def intro!: tasks_serve)

section \<open>What stays readable\<close>

lemma keys_grow_decrypt:
  assumes "nk_ok (db w)" "transit_decrypt E owner c w = (Inr res, w1)" "nk_ok (db v)"
    and "keys_grow N (db w) (db v)" "dec_key_name res \<notin> N" "vs_dek (vstate v) = vs_dek (vstate w)"
  shows "transit_decrypt E owner c v = (Inr res, v)"
proof -
  obtain parsed r dek where
    d: "parse_ciphertext (PyStr c) = Inr parsed" "list_all scalar owner"
    "key_find owner (tc_key_name parsed) (db w) = Some r" "vs_dek (vstate w) = Some dek"
    "decrypt_answer E dek owner parsed r (nk_versions (db w) r) = Inr res"
    by (rule transit_decrypt_Inr [OF assms(1,2)])
  have "dec_key_name res = tc_key_name parsed"
    using d(5) by (auto simp: decrypt_answer_def Let_def bindR_Inr_iff split: if_splits)
  then obtain r' vs where
    e: "key_find owner (tc_key_name parsed) (db v) = Some r'"
    "key_ident r' = key_ident r" "nk_versions (db v) r' = nk_versions (db w) r @ vs"
    using assms(4,5) d(3) unfolding keys_grow_def by metis
  have "vs_dek (vstate v) = Some dek" using assms(6) d(4) by simp
  from transit_decrypt_run [OF assms(3) d(2) this d(1) e(1), of E] decrypt_answer_append [OF d(5) e(2), of vs]
  show ?thesis by (simp add: e(3))
qed

lemma secrets_grow_read:
  assumes "kv_ok (db w)" "kv_read E owner path (PyInt n) w = (Inr res, w1)" "kv_ok (db v)"
    and "secrets_grow P (db w) (db v)" "path \<notin> P" "vs_dek (vstate v) = vs_dek (vstate w)"
  shows "\<exists>res'. kv_read E owner path (PyInt n) v = (Inr res', v) \<and> read_data res' = read_data res
    \<and> read_version res' = n \<and> read_created_at res' = read_created_at res"
proof -
  obtain dek requested where
    d: "kv_owns E owner path" "list_all scalar owner" "list_all scalar path"
    "normalize_version (PyInt n) = Inr requested" "\<And>n. requested = Some n \<Longrightarrow> n < 2 ^ 63"
    "vs_dek (vstate w) = Some dek"
    "kv_answer E dek owner path requested (kv_past (db w) (owner, path)) = Inr res"
    by (rule kv_read_Inr [OF assms(1,2)]) blast
  have r: "requested = Some n" using d(4) by (auto simp: normalize_version_def split: if_splits)
  obtain ws where ws: "kv_past (db v) (owner, path) = kv_past (db w) (owner, path) @ ws"
    using assms(4,5) unfolding secrets_grow_def by (blast elim: prefixE)
  have dek: "vs_dek (vstate v) = Some dek" using assms(6) d(6) by simp
  from kv_read_run [OF assms(3) d(1-4) d(5) dek] kv_answer_append [OF d(7) [unfolded r], of ws]
  show ?thesis by (simp add: ws r)
qed

section \<open>Laws of every schedule\<close>

text \<open>C1: the invariant of the application under concurrency. From any consistent, locked
  installation, whatever requests arrive, however their steps interleave, and whenever the
  process is stopped or killed (in the middle of requests, too): the audit chain verifies, the
  version histories of secrets and keys are gapless, accounts and sessions are consistent, the
  DEK buffer has 32 bytes and every released buffer was zeroed; what a kill leaves on disk is
  consistent again, and without a process no DEK is held.\<close>

theorem concurrent_invariant:
  assumes "app_ok E w0" "vs_dek (vstate w0) = None" "server_runs E (Off w0) s"
  shows "(case s of
      Off w \<Rightarrow> app_ok E w \<and> vs_dek (vstate w) = None
        \<and> (\<forall>w' ps. server_step E s (On w' ps) \<longrightarrow> vs_dek (vstate w') = None)
    | On w ps \<Rightarrow> app_ok E w \<and> app_ok E (process_gone w)
        \<and> (\<exists>h. audit_verify E w = (Inr \<lparr>report_valid = True, entry_count = length (rows (audit_logs (db w))),
              head_hash = h, first_invalid_sequence = None, reason = None\<rparr>, w)))"
proof -
  have ok: "server_ok E s" using server_runs_ok [OF assms(3)] assms(1,2) by simp
  show ?thesis
  proof (cases s)
    case (Off w)
    have "vs_dek (vstate w') = None" if "server_step E (Off w) (On w' ps)" for w' ps
      using that ok Off startup_ok(2) [of E _ "Inr ()" w'] by (auto simp: off_step)
    with Off ok show ?thesis by simp
  next
    case (On w ps)
    with ok have w: "app_ok E w" "app_ok E (process_gone w)" by simp_all
    then have "log_ok E (db w)" by (simp add: app_ok_def data_ok_def)
    with On w log_ok_verifies [of E w] show ?thesis by simp
  qed
qed

lemma toy_started: "\<exists>w. server_step toy (Off toy_world) (On w [])"
proof -
  obtain w where "startup toy (create_app (\<lambda>k. None) toy_world) = (Inr (), w)"
    by (simp add: startup_def db_initialize_def connection_def op_run op_simps create_app_def process_gone_def
        guard_fresh vault_lock_run Let_def toy_world_def)
  then show ?thesis by (blast intro: s_started)
qed

lemma toy_app_ok: "app_ok toy toy_world" "vs_dek (vstate toy_world) = None"
  using toy_log_ok
  by (simp_all add: app_ok_def data_ok_def vault_ok_def released_zeroed_def dek_length_ok_def
      accounts_ok_def kv_ok_def nk_ok_def store_ok_def)

theorem concurrent_invariant_witness:
  "\<exists>w. server_runs toy (Off toy_world) (On w [serve_task toy None GetStatus, serve_task toy None PostLock])
    \<and> app_ok toy w"
proof -
  obtain w where w: "server_step toy (Off toy_world) (On w [])" using toy_started by blast
  have "server_runs toy (Off toy_world) (On w [serve_task toy None GetStatus, serve_task toy None PostLock])"
    using w s_accepted [of toy w "[]" None GetStatus]
      s_accepted [of toy w "[serve_task toy None GetStatus]" None PostLock]
    by (auto intro: rtranclp.rtrancl_into_rtrancl)
  with concurrent_invariant [OF toy_app_ok this] show ?thesis by auto
qed

text \<open>Alone, a request does what \<open>serve\<close> says: the process of a request, run without
  interruption, gives the answer and the state of the sequential model, and in any pool there
  is a schedule in which the other requests stand still meanwhile.\<close>

theorem served_alone:
  "run_alone (serve_task E c req) w = (case serve E c req w of (resp, w') \<Rightarrow> (Inr resp, w'))
    \<and> pool_runs (ps @ serve_task E c req # qs, w)
        (ps @ Done (Inr (fst (serve E c req w))) # qs, snd (serve E c req w))"
proof -
  obtain resp w' where s: "serve E c req w = (resp, w')" by (rule prod.exhaust)
  have a: "run_alone (serve_task E c req) w = (Inr resp, w')" using s by (simp add: alone_serve)
  from pool_runs_beside [OF pool_runs_one [OF a], of ps qs] a s show ?thesis by simp
qed

text \<open>C4: requests do not disturb each other's data. After any schedule of any requests, of
  which none deletes the path or revokes a key of that name, a version of a secret that was
  readable still reads the same and a ciphertext that decrypted still decrypts to the same,
  once the vault holds the same DEK; the audit log has only grown.\<close>

theorem others_do_not_disturb:
  assumes "app_ok E w" "pool_runs (requests E rs, w) (ps, w')" "vs_dek (vstate w') = vs_dek (vstate w)"
    and "\<forall>(c, req) \<in> set rs. path \<notin> deleted_paths req \<and> name \<notin> deleted_keys req"
  shows "(\<forall>owner n res. kv_read E owner path (PyInt n) w = (Inr res, w) \<longrightarrow>
      (\<exists>res'. kv_read E owner path (PyInt n) w' = (Inr res', w') \<and> read_data res' = read_data res
        \<and> read_version res' = n \<and> read_created_at res' = read_created_at res))
    \<and> (\<forall>owner t res. transit_decrypt E owner t w = (Inr res, w) \<longrightarrow> dec_key_name res = name \<longrightarrow>
      transit_decrypt E owner t w' = (Inr res, w'))
    \<and> prefix (rows (audit_logs (db w))) (rows (audit_logs (db w')))"
proof -
  let ?G = "grows (- {path}) (- {name}) UNIV"
  have "app_ok E w' \<and> ?G\<^sup>*\<^sup>* w w'"
    using pool_runs_keeps [OF assms(2), of "app_ok E" ?G] requests_guarantee [OF assms(4), of E] assms(1)
    by simp
  then have g: "app_ok E w'" "?G w w'" by (auto intro: grows_star)
  have ok: "kv_ok (db w)" "kv_ok (db w')" "nk_ok (db w)" "nk_ok (db w')"
    using assms(1) g(1) by (simp_all add: app_ok_def data_ok_def)
  have "prefix (rows (audit_logs (db w))) (rows (audit_logs (db w')))"
    using g(2) by (simp add: grows_def log_grows_def)
  moreover have "keys_grow (- {name}) (db w) (db w')" "secrets_grow (- {path}) (db w) (db w')"
    using g(2) by (simp_all add: grows_def)
  ultimately show ?thesis
    using secrets_grow_read [OF ok(1) _ ok(2) _ _ assms(3)] keys_grow_decrypt [OF ok(3) _ ok(4) _ _ assms(3)]
    by blast
qed

theorem others_do_not_disturb_witness:
  "\<exists>w n res'. pool_runs (requests toy [(None, GetStatus)], w) ([Done (Inr (fst (serve toy None GetStatus w)))], w)
    \<and> kv_read toy toy_owner toy_path (PyInt n) w = (Inr res', w) \<and> read_data res' = toy_data"
proof -
  obtain res w where w: "kv_write toy toy_owner toy_path toy_data toy_unlocked = (Inr res, w)"
    using toy_write by blast
  have "app_ok toy toy_unlocked"
    using toy_app_ok toy_kv_ok
    by (simp add: app_ok_def data_ok_def vault_ok_def released_zeroed_def dek_length_ok_def)
  then have ok: "app_ok toy w" using preserves_run [OF ok_kv(1) w] by simp
  have "PyInt (written_version res) \<in> {PyNone, PyInt (written_version res)}" by simp
  from kv_read_after_write [OF toy_aead_ok toy_kv_ok w toy_data_wf refl refl refl this] obtain created where
    r: "kv_read toy toy_owner toy_path (PyInt (written_version res)) w =
      (Inr \<lparr>read_data = toy_data, read_version = written_version res,
            read_latest_version = written_version res, read_created_at = created\<rparr>, w)" by blast
  have run: "pool_runs (requests toy [(None, GetStatus)], w) ([Done (Inr (fst (serve toy None GetStatus w)))], w)"
    using pool_runs_one [of "serve_task toy None GetStatus" w]
    by (simp add: requests_def alone_serve serve_def get_status_route_def answer_def op_run op_simps)
  have "\<forall>(c, req) \<in> set [(None :: credentials, GetStatus)]. toy_path \<notin> deleted_paths req \<and> [] \<notin> deleted_keys req"
    by simp
  from others_do_not_disturb [OF ok run refl this, THEN conjunct1, rule_format, OF r] run
  show ?thesis by auto
qed

section \<open>The race of \<open>initialize\<close>\<close>

text \<open>What follows the check that the vault is not initialised.\<close>

definition initialize_rest :: "ext \<Rightarrow> pystr \<Rightarrow> status_response task" where
  "initialize_rest E master_passphrase =
     bindP (liftP (validate_master_passphrase E master_passphrase)) (\<lambda>_.
       bindP (atomic (token_bytes 16)) (\<lambda>salt.
       bindP (atomic (gets (\<lambda>w. current_parameters (unicode E) (environ w)))) (\<lambda>parameters.
       bindP (liftP (derive_wrapping_key E (PyStr master_passphrase) salt parameters)) (\<lambda>wrapping_key.
       bindP (atomic generate_dek) (\<lambda>dek.
       bindP (atomic (encrypt_aes_gcm E wrapping_key dek DEK_WRAP_AAD)) (\<lambda>wrapped.
       bindP (atomic (save_atomic (config_document salt parameters wrapped))) (\<lambda>_.
       bindP (atomic state_lock) (\<lambda>_.
       status_task))))))))"

lemma initialize_task_eq:
  "initialize_task E p = Step (\<lambda>w.
     (if conf w \<noteq> None then throwP (Vault VaultAlreadyInitializedError) else initialize_rest E p, w))"
  by (auto simp: initialize_task_def initialize_rest_def atomic_def is_initialized_run fun_eq_iff)

text \<open>The rest runs on any state, initialised or not.\<close>

lemma initialize_rest_run:
  assumes "evaluate (unicode E) (PyStr pw) = None"
    and "\<And>salt. length salt = 16 \<Longrightarrow> \<exists>key. length key = 32 \<and>
      derive_wrapping_key E (PyStr pw) salt (current_parameters (unicode E) (environ w)) = Inr key"
    and "\<And>n. \<not> io_fault w n"
  shows "\<exists>w' salt ps key blob. run_alone (initialize_rest E pw) w =
      (Inr \<lparr>initialized = True, status_text = lit ''locked''\<rparr>, w')
    \<and> conf w' = Some (Doc (JObj (saved_config salt ps blob))) \<and> derive_wrapping_key E (PyStr pw) salt ps = Inr key
    \<and> encrypt_aes_gcm E key (map (entropy w) [draws w + 16..<draws w + 48]) DEK_WRAP_AAD
        (w\<lparr>draws := draws w + 48\<rparr>) = (Inr blob, w\<lparr>draws := draws w + 60\<rparr>)
    \<and> io_fault w' = io_fault w \<and> entropy w' = entropy w \<and> draws w' = draws w + 60
    \<and> environ w' = environ w \<and> db w' = db w"
proof -
  let ?salt = "map (entropy w) [draws w..<draws w + 16]"
  let ?dek = "map (entropy w) [draws w + 16..<draws w + 48]"
  let ?ps = "current_parameters (unicode E) (environ w)"
  obtain key where k: "length key = 32" "derive_wrapping_key E (PyStr pw) ?salt ?ps = Inr key"
    using assms(2) [of ?salt] by auto
  have s: "save_atomic data v =
      (Inr (), v\<lparr>conf := Some (Doc (sort_json (JObj data))), conf_tmp := None, ios := ios v + 5\<rparr>)"
    if "io_fault v = io_fault w" for v data
    using save_atomic_ok [of v data] assms(3) that by simp
  obtain blob where b: "encrypt_aes_gcm E key ?dek DEK_WRAP_AAD (w\<lparr>draws := draws w + 48\<rparr>) =
      (Inr blob, w\<lparr>draws := draws w + 60\<rparr>)"
    using k(1) by (simp add: encrypt_aes_gcm_run Let_def)
  have "validate_master_passphrase E pw = Inr ()" using assms(1) by (simp add: validate_master_passphrase_def)
  with k b have "\<exists>w'. run_alone (initialize_rest E pw) w = (Inr \<lparr>initialized = True, status_text = lit ''locked''\<rparr>, w')
    \<and> conf w' = Some (Doc (JObj (saved_config ?salt ?ps blob)))
    \<and> io_fault w' = io_fault w \<and> entropy w' = entropy w \<and> draws w' = draws w + 60
    \<and> environ w' = environ w \<and> db w' = db w"
    by (simp add: initialize_rest_def run_simps op_simps op_run generate_dek_def crypto_lengths
        add.commute [of 48] s sort_json_config del: sort_json.simps)
  with k(2) b show ?thesis by blast
qed

text \<open>Unlocking what the rest of \<open>initialize\<close> has written.\<close>

lemma unlock_after_rest:
  assumes "aead_ok E" "conf v = Some (Doc (JObj (saved_config salt ps blob)))" "\<not> io_fault v (ios v)"
    and "derive_wrapping_key E (PyStr pw) salt ps = Inr key"
    and "encrypt_aes_gcm E key dek DEK_WRAP_AAD u = (Inr blob, u')" "length dek = 32"
  shows "\<exists>v'. vault_unlock E pw v = (Inr \<lparr>initialized = True, status_text = lit ''unlocked''\<rparr>, v')
    \<and> vs_dek (vstate v') = Some dek"
  using vault_unlock_saved [OF assms(2-4) decrypt_encrypt [OF assms(1,5)] assms(6)] by simp

text \<open>C5: two requests that initialise the vault at the same time can both be accepted. Each
  checks that there is no configuration, then derives its key and writes; nothing is locked in
  between. In this schedule the first is answered 201, and at that moment its passphrase
  unlocks the vault to its DEK; then the second, which made its check earlier, is answered 201
  as well, and from then on the configuration holds the second's DEK under the second's
  passphrase. What was stored under the first DEK is lost.\<close>

theorem initialize_race:
  assumes "aead_ok E" "conf w = None" "\<And>n. \<not> io_fault w n"
    and "\<And>pw salt. pw \<in> {p, q} \<Longrightarrow> length salt = 16 \<Longrightarrow> \<exists>key. length key = 32 \<and>
      derive_wrapping_key E (PyStr pw) salt (current_parameters (unicode E) (environ w)) = Inr key"
    and "evaluate (unicode E) (PyStr p) = None" "evaluate (unicode E) (PyStr q) = None"
    and "vault_init_request p = Some p" "vault_init_request q = Some q"
  shows "\<exists>rest w1 w2 v1 v2.
    (let created = Done (Inr (Response 201 (StatusBody \<lparr>initialized = True, status_text = lit ''locked''\<rparr>)))
     in pool_runs ([serve_task E c (PostInit p), serve_task E c' (PostInit q)], w) ([created, rest], w1)
      \<and> pool_runs ([created, rest], w1) ([created, created], w2))
    \<and> vault_unlock E p w1 = (Inr \<lparr>initialized = True, status_text = lit ''unlocked''\<rparr>, v1)
    \<and> vs_dek (vstate v1) = Some (map (entropy w) [draws w + 16..<draws w + 48])
    \<and> vault_unlock E q w2 = (Inr \<lparr>initialized = True, status_text = lit ''unlocked''\<rparr>, v2)
    \<and> vs_dek (vstate v2) = Some (map (entropy w) [draws w + 76..<draws w + 108])"
proof -
  let ?st = "\<lparr>initialized = True, status_text = lit ''locked''\<rparr>"
  let ?done = "Done (Inr (Response 201 (StatusBody ?st))) :: response task"
  let ?rest = "\<lambda>pw. mapR answered (answer_task 201 StatusBody (initialize_rest E pw))"
  have first: "\<exists>s. serve_task E a (PostInit pw) = Step s \<and> s w = (?rest pw, w)"
    if "vault_init_request pw = Some pw" for pw a
    using assms(2) that by (simp add: serve_task_def validated_task_def answer_task_def initialize_task_eq)
  have read: "pool_runs ([serve_task E c (PostInit p), serve_task E c' (PostInit q)], w) ([?rest p, ?rest q], w)"
    by (rule pool_all_read) (simp add: first assms(7,8))
  have alone: "pool_runs ([?rest pw], u) ([?done], u')" if "run_alone (initialize_rest E pw) u = (Inr ?st, u')" for pw u u'
    by (rule pool_runs_one) (simp add: run_mapR answer_task_def run_simps op_run op_simps that)
  obtain w1 salt1 ps1 key1 blob1 where w1: "run_alone (initialize_rest E p) w = (Inr ?st, w1)"
    "conf w1 = Some (Doc (JObj (saved_config salt1 ps1 blob1)))" "derive_wrapping_key E (PyStr p) salt1 ps1 = Inr key1"
    "encrypt_aes_gcm E key1 (map (entropy w) [draws w + 16..<draws w + 48]) DEK_WRAP_AAD
      (w\<lparr>draws := draws w + 48\<rparr>) = (Inr blob1, w\<lparr>draws := draws w + 60\<rparr>)"
    and k1: "io_fault w1 = io_fault w" "entropy w1 = entropy w" "draws w1 = draws w + 60" "environ w1 = environ w"
    using initialize_rest_run [OF assms(5) assms(4) assms(3)] by blast
  obtain w2 salt2 ps2 key2 blob2 u u' where w2: "run_alone (initialize_rest E q) w1 = (Inr ?st, w2)"
    "conf w2 = Some (Doc (JObj (saved_config salt2 ps2 blob2)))" "derive_wrapping_key E (PyStr q) salt2 ps2 = Inr key2"
    "encrypt_aes_gcm E key2 (map (entropy w) [draws w + 76..<draws w + 108]) DEK_WRAP_AAD u = (Inr blob2, u')"
    and k2: "io_fault w2 = io_fault w"
    using initialize_rest_run [of E q w1] assms(3,4,6) unfolding k1 by (auto simp: add.assoc)
  have "pool_runs ([?rest p, ?rest q], w) ([?done, ?rest q], w1)"
    using pool_runs_beside [OF alone [OF w1(1)], of "[]" "[?rest q]"] by simp
  note run1 = pool_runs_trans [OF read this]
  have run2: "pool_runs ([?done, ?rest q], w1) ([?done, ?done], w2)"
    using pool_runs_beside [OF alone [OF w2(1)], of "[?done]" "[]"] by simp
  have f: "\<not> io_fault w1 (ios w1)" "\<not> io_fault w2 (ios w2)" using assms(3) k1(1) k2 by simp_all
  obtain v1 where v1: "vault_unlock E p w1 = (Inr \<lparr>initialized = True, status_text = lit ''unlocked''\<rparr>, v1)"
    "vs_dek (vstate v1) = Some (map (entropy w) [draws w + 16..<draws w + 48])"
    using unlock_after_rest [OF assms(1) w1(2) f(1) w1(3,4)] by auto
  obtain v2 where v2: "vault_unlock E q w2 = (Inr \<lparr>initialized = True, status_text = lit ''unlocked''\<rparr>, v2)"
    "vs_dek (vstate v2) = Some (map (entropy w) [draws w + 76..<draws w + 108])"
    using unlock_after_rest [OF assms(1) w2(2) f(2) w2(3,4)] by auto
  from run1 run2 v1 v2 show ?thesis unfolding Let_def by blast
qed

lemma toy_init_request: "vault_init_request toy_passphrase = Some toy_passphrase"
  by (simp add: vault_init_request_def str_field_def text_field_def toy_email_ok accept_def)
    (simp add: toy_passphrase_def)

theorem initialize_race_witness:
  "\<exists>rest w1 w2 v2.
    pool_runs ([serve_task toy None (PostInit toy_passphrase), serve_task toy None (PostInit toy_passphrase)], toy_world)
      ([Done (Inr (Response 201 (StatusBody \<lparr>initialized = True, status_text = lit ''locked''\<rparr>))), rest], w1)
    \<and> vault_unlock toy toy_passphrase w2 = (Inr \<lparr>initialized = True, status_text = lit ''unlocked''\<rparr>, v2)
    \<and> vs_dek (vstate v2) = Some (map (entropy toy_world) [draws toy_world + 76..<draws toy_world + 108])"
proof -
  have n: "toy_passphrase \<noteq> []" "list_all scalar toy_passphrase"
    by (simp_all add: toy_passphrase_def text_simps scalar_def)
  have d: "\<exists>key. length key = 32 \<and> derive_wrapping_key toy (PyStr pw) salt
      (current_parameters (unicode toy) (environ toy_world)) = Inr key"
    if "pw \<in> {toy_passphrase, toy_passphrase}" "length salt = 16" for pw salt
    using toy_derive [OF that(2) n] that(1) by simp
  have e: "evaluate (unicode toy) (PyStr toy_passphrase) = None" by (simp add: toy_passphrase_ok)
  have f: "\<not> io_fault toy_world n" for n by simp
  show ?thesis
    by (rule initialize_race [where c = None and c' = None, unfolded Let_def, OF toy_aead_ok toy_world_fields(2)
          f _ e e toy_init_request toy_init_request, OF d, THEN exE], assumption, assumption)
      (elim exE conjE, intro exI conjI, assumption+)
qed

section \<open>The race of the failure count\<close>

text \<open>What is left of a login with a wrong passphrase once the row of the account was read.\<close>

definition wrong_login_rest :: "ext \<Rightarrow> user_row \<Rightarrow> response task" where
  "wrong_login_rest E u =
     mapR answered (answer_task 200 LoginBody
       (bindP (failed_attempt_task E u) (\<lambda>_. throwP (Auth InvalidCredentialsError))))"

definition wrong_answer :: response where
  "wrong_answer = Response 401 (ErrorBody (lit ''INVALID_CREDENTIALS'') (lit ''Invalid email or passphrase''))"

lemma wrong_login_read:
  assumes "login_request (unicode E) e p = Some (e', p)" "list_all scalar (normalize_email (unicode E) e')"
    and "user_find (normalize_email (unicode E) e') (db w) = Some u" "usr_locked_until u = None"
    and "verify_password E p (usr_password_hash u) = Inr False"
  shows "\<exists>s. serve_task E c (PostLogin e p) = Step s \<and> s w = (wrong_login_rest E u, w)"
  using assms get_by_email_run [OF assms(2), of w]
  by (simp add: serve_task_def validated_task_def answer_task_def login_task_def login_user_task_def
      liftP_def atomic_def wrong_login_rest_def)

lemma wrong_login_run:
  assumes "0 \<le> usr_failed_attempts u" "usr_failed_attempts u + 1 < max_failed_attempts (load (unicode E) (environ w))"
    and "usr_failed_attempts u + 1 < 2 ^ 63"
  shows "run_alone (wrong_login_rest E u) w = (Inr wrong_answer,
    w\<lparr>ticks := Suc (ticks w), db := user_update (usr_id u)
      (marked (usr_failed_attempts u + 1) None (isoformat (clock w (ticks w)))) (db w)\<rparr>)"
proof -
  have "error_response (Auth InvalidCredentialsError) = wrong_answer"
    by (simp add: error_response_def handlers_def List.map_filter_def wrong_answer_def)
  then show ?thesis using assms
    by (simp add: wrong_login_rest_def run_mapR answer_task_def run_simps op_run op_simps
        register_failed_attempt_def Let_def update_failed_run marked_def [abs_def])
qed

text \<open>C6: the failure count loses updates. \<open>login\<close> reads the row of the account, verifies the
  passphrase (a slow computation) and then writes the count it read plus one. Any number of
  logins with wrong passphrases that overlap are all verified and answered, and the account
  then shows a single failure more and is not locked: the limit of failures bounds the rounds
  of an attacker, not the guesses.\<close>

theorem lockout_race:
  assumes "accounts_ok (db w)" "list_all scalar (normalize_email (unicode E) e')"
    and "user_find (normalize_email (unicode E) e') (db w) = Some u" "usr_locked_until u = None"
    and "0 \<le> usr_failed_attempts u" "usr_failed_attempts u + 1 < max_failed_attempts (load (unicode E) (environ w))"
    and "usr_failed_attempts u + 1 < 2 ^ 63" "ps \<noteq> []"
    and "\<forall>p \<in> set ps. login_request (unicode E) e p = Some (e', p) \<and> verify_password E p (usr_password_hash u) = Inr False"
  shows "\<exists>w' u'. pool_runs (requests E (map (\<lambda>p. (c, PostLogin e p)) ps), w)
      (replicate (length ps) (Done (Inr wrong_answer)), w')
    \<and> user_find (normalize_email (unicode E) e') (db w') = Some u'
    \<and> usr_failed_attempts u' = usr_failed_attempts u + 1 \<and> usr_locked_until u' = None
    \<and> usr_password_hash u' = usr_password_hash u"
proof -
  let ?n = "normalize_email (unicode E) e'" and ?rest = "wrong_login_rest E u"
  let ?start = "requests E (map (\<lambda>p. (c, PostLogin e p)) ps)"
  let ?P = "\<lambda>v u'. accounts_ok (db v) \<and> environ v = environ w \<and> user_find ?n (db v) = Some u'
    \<and> usr_id u' = usr_id u \<and> usr_password_hash u' = usr_password_hash u"
  let ?Q = "\<lambda>v u'. ?P v u' \<and> usr_failed_attempts u' = usr_failed_attempts u + 1 \<and> usr_locked_until u' = None"
  have read: "pool_runs (?start, w) (replicate (length ps) ?rest, w)"
  proof (rule pool_all_read)
    show "list_all2 (\<lambda>p q. \<exists>s. p = Step s \<and> s w = (q, w)) ?start (replicate (length ps) ?rest)"
      using wrong_login_read [OF _ assms(2-4)] assms(9)
      by (simp add: list_all2_conv_all_nth requests_def)
  qed
  have turn: "\<exists>v'. run_alone p v = (Inr wrong_answer, v') \<and> (\<exists>u'. ?Q v' u')"
    if "p \<in> set (replicate (length ps) ?rest)" "\<exists>u'. ?P v u'" for p v
  proof -
    from that(2) obtain u1 where u1: "?P v u1" by blast
    let ?m = "marked (usr_failed_attempts u + 1) None (isoformat (clock v (ticks v)))"
    let ?v = "v\<lparr>ticks := Suc (ticks v), db := user_update (usr_id u) ?m (db v)\<rparr>"
    have "run_alone p v = (Inr wrong_answer, ?v)"
      using wrong_login_run [of u E v] assms(5-7) u1 that(1) by simp
    moreover have "accounts_ok (db ?v)" using accounts_ok_update [of "db v" ?m "usr_id u"] u1 by simp
    moreover have "user_find ?n (db ?v) = Some (?m u1)"
      using user_find_update [of "db v" ?n u1 ?m ?n] u1 by simp
    ultimately show ?thesis using u1 by (intro exI [of _ ?v]) simp
  qed
  have "\<exists>w'. pool_runs (replicate (length ps) ?rest, w)
      (map (\<lambda>p. Done (Inr wrong_answer)) (replicate (length ps) ?rest), w') \<and> (\<exists>u'. ?Q w' u')"
  proof (rule pool_in_turn [where P = "\<lambda>v. \<exists>u'. ?P v u'"])
    show "\<exists>u'. ?P w u'" using assms(1,3) by simp
    show "\<exists>u'. ?P v u'" if "\<exists>u'. ?Q v u'" for v using that by blast
  qed (use turn assms(8) in simp_all)
  then obtain w' u' where "pool_runs (replicate (length ps) ?rest, w)
      (map (\<lambda>p. Done (Inr wrong_answer)) (replicate (length ps) ?rest), w')" "?Q w' u'" by blast
  with pool_runs_trans [OF read] show ?thesis by (intro exI [of _ w'] exI [of _ u']) (simp add: map_replicate_const)
qed

lemma toy_login_request: "login_request toy_unicode toy_email (lit ''x'') = Some (toy_email, lit ''x'')"
proof -
  have "email_match toy_unicode toy_email" by code_simp
  then have "validate_email toy_unicode toy_email = Some toy_email"
    by (simp add: validate_email_def toy_email_ok accept_def)
  moreover have "length toy_email = 6" by (simp add: toy_email_def)
  ultimately show ?thesis by (simp add: login_request_def str_field_def text_field_def toy_email_ok scalar_lit)
qed

theorem lockout_race_witness:
  "\<forall>n. \<exists>w' u'. pool_runs (requests toy (replicate (Suc n) (None, PostLogin toy_email (lit ''x''))), toy_account)
      (replicate (Suc n) (Done (Inr wrong_answer)), w')
    \<and> user_find toy_email (db w') = Some u' \<and> usr_failed_attempts u' = 1 \<and> usr_locked_until u' = None"
proof
  fix n
  let ?ps = "replicate (Suc n) (lit ''x'')"
  have e: "normalize_email (unicode toy) toy_email = toy_email" by (simp add: toy_email_ok)
  have s: "list_all scalar (normalize_email (unicode toy) toy_email)"
    "user_find (normalize_email (unicode toy) toy_email) (db toy_account) = Some toy_user"
    by (simp_all only: e toy_email_ok toy_accounts)
  have u: "usr_locked_until toy_user = None" "usr_failed_attempts toy_user = 0"
    by (simp_all add: toy_user_def new_user_def)
  have r: "\<forall>p \<in> set ?ps. login_request (unicode toy) toy_email p = Some (toy_email, p)
      \<and> verify_password toy p (usr_password_hash toy_user) = Inr False"
    using toy_login_request toy_verify(2) by simp
  have m: "map (\<lambda>p. (None, PostLogin toy_email p)) ?ps = replicate (Suc n) (None :: credentials, PostLogin toy_email (lit ''x''))"
    by (simp only: map_replicate)
  have "?ps \<noteq> []" "0 \<le> usr_failed_attempts toy_user" "usr_failed_attempts toy_user + 1 < 2 ^ 63"
    "usr_failed_attempts toy_user + 1 < max_failed_attempts (load (unicode toy) (environ toy_account))"
    using toy_limit by (simp_all add: u)
  from lockout_race [OF toy_accounts(3) s u(1) this(2,4,3,1) r, of None]
  show "\<exists>w' u'. pool_runs (requests toy (replicate (Suc n) (None, PostLogin toy_email (lit ''x''))), toy_account)
      (replicate (Suc n) (Done (Inr wrong_answer)), w')
    \<and> user_find toy_email (db w') = Some u' \<and> usr_failed_attempts u' = 1 \<and> usr_locked_until u' = None"
    unfolding m e u(2) length_replicate add_0 by blast
qed

end
