(* ===== verification/Sessions.thy ===== *)
theory Sessions
  imports Concurrent
begin

text \<open>
  The life of a session under every schedule: other requests, stops, kills and restarts do not end
  or change it, only its expiry and its own logout do, and a session logged out never comes back.
\<close>

section \<open>Later states\<close>

text \<open>
  What may happen after a state: requests arrive and their steps interleave, up to any point (where
  the process may be stopped or killed), and the program is started again. None of the requests
  ends a session with a token hash in \<open>H\<close>.
\<close>

inductive later :: "ext \<Rightarrow> pystr set \<Rightarrow> world \<Rightarrow> world \<Rightarrow> bool" for E H w where
  at_once: "later E H w w"
| schedule: "later E H w v \<Longrightarrow> \<forall>(c, req) \<in> set rs. ended_sessions E c req \<inter> H = {} \<Longrightarrow>
    pool_runs (requests E rs, v) (ps, v') \<Longrightarrow> later E H w v'"
| restart: "later E H w v \<Longrightarrow> startup E (create_app env v) = (r, v') \<Longrightarrow> later E H w v'"

lemma startup_accounts:
  assumes "startup E (create_app env v) = (r, v')"
  shows "users (db v') = users (db v)" "sessions (db v') = sessions (db v)"
  using assms
  by (auto simp: startup_def db_initialize_def connection_def op_simps op_run create_missing_tables_def
      vault_lock_run Let_def create_app_def process_gone_def split: if_splits sum.splits prod.splits)

lemma later_keeps:
  "later E H w v \<Longrightarrow> app_ok E w \<Longrightarrow> app_ok E v \<and> sessions_last (- H) (db w) (db v)"
proof (induction rule: later.induct)
  case at_once
  then show ?case by (simp add: sessions_last_same)
next
  case (schedule v rs ps v')
  let ?G = "grows UNIV UNIV (- H)"
  have "\<forall>p \<in> set (requests E rs). guarantees (app_ok E) ?G p"
    using schedule.hyps(2) by (auto simp: requests_def intro!: tasks_serve)
  then have "app_ok E v' \<and> ?G\<^sup>*\<^sup>* v v'"
    using pool_runs_keeps [OF schedule.hyps(3), of "app_ok E" ?G] schedule by simp
  then have "app_ok E v'" "sessions_last (- H) (db v) (db v')"
    by (auto dest!: grows_star simp: grows_def)
  with schedule show ?case by (blast intro: sessions_last_trans)
next
  case (restart v env r v')
  have "sessions_last (- H) (db v) (db v')"
    using startup_accounts [OF restart.hyps(2)] by (rule sessions_last_same)
  with restart startup_ok(1) [OF restart.hyps(2)] show ?case by (auto intro: sessions_last_trans)
qed

lemma session_lasts:
  assumes "accounts_ok d" "accounts_ok d'" "sessions_last (- H) d d'" "h \<in> H" "session_of h d = Some (s, u)"
  shows "\<exists>u'. session_of h d' = Some (s, u') \<and> usr_id u' = usr_id u \<and> usr_email u' = usr_email u"
proof -
  note s = assms(5) [unfolded session_of_Some_iff [OF assms(1)]]
  then have "s \<in> set (rows (sessions d'))"
    using assms(3,4) by (auto simp: sessions_last_def active_session_def)
  moreover obtain u' where "u' \<in> set (rows (users d'))" "usr_id u' = usr_id u" "usr_email u' = usr_email u"
    using s assms(3) unfolding sessions_last_def by blast
  ultimately show ?thesis using s session_of_Some_iff [OF assms(2)] by auto
qed

lemma session_gone:
  assumes "accounts_ok d'" "sessions_last G d d'" "s \<in> set (rows (sessions d))" "ses_token_hash s = h" "ses_revoked_at s \<noteq> None"
  shows "session_of h d' = None"
proof -
  have s: "s \<in> set (rows (sessions d'))" using assms(2,3,5) unfolding sessions_last_def by blast
  have "distinct (map ses_token_hash (rows (sessions d')))" using assms(1) by (simp add: accounts_ok_def)
  with s have "t = s" if "t \<in> set (rows (sessions d'))" "ses_token_hash t = ses_token_hash s" for t
    using that by (auto simp: distinct_map inj_on_def)
  then show ?thesis using assms(4,5) by (auto simp: session_of_None_iff [OF assms(1)] active_session_def)
qed

lemma revoked_row:
  assumes "session_of h d = Some (s, u)" "accounts_ok d"
  shows "\<exists>s' \<in> set (rows (sessions (session_revoked h stamp d))). ses_token_hash s' = h \<and> ses_revoked_at s' \<noteq> None"
  using assms(1) unfolding session_of_Some_iff [OF assms(2)]
  by (intro bexI [of _ "s\<lparr>ses_revoked_at := Some stamp\<rparr>"])
    (auto simp: session_revoked_def session_revoke_rows_def tbl_update_def active_session_def)

text \<open>A token of a live session, at any later state.\<close>

lemma live_later:
  assumes "app_ok E w" "later E {h} w v" "py_strip (unicode E) t = t" "t \<noteq> []" "hash_token E t = Inr h"
    and "session_of h (db w) = Some (s, u)" "ses_expires_at s = isoformat exp" "datetime_ok exp" "ses_user_id s = uid"
  shows "get_current_user E (Some (lit ''Bearer'', t)) v =
      (if exp \<le> clock v (ticks v) then Inl (Auth UnauthenticatedError)
       else Inr \<lparr>au_user_id = uid, au_email = usr_email u, au_token = t\<rparr>, v\<lparr>ticks := Suc (ticks v)\<rparr>)"
    and "\<exists>u'. session_of h (db v) = Some (s, u')"
proof -
  have ok: "accounts_ok (db w)" "accounts_ok (db v)" "sessions_last (- {h}) (db w) (db v)"
    using later_keeps [OF assms(2,1)] assms(1) by (simp_all add: app_ok_def data_ok_def)
  obtain u' where u: "session_of h (db v) = Some (s, u')" "usr_email u' = usr_email u"
    using session_lasts [OF ok _ assms(6)] by auto
  show "get_current_user E (Some (lit ''Bearer'', t)) v =
      (if exp \<le> clock v (ticks v) then Inl (Auth UnauthenticatedError)
       else Inr \<lparr>au_user_id = uid, au_email = usr_email u, au_token = t\<rparr>, v\<lparr>ticks := Suc (ticks v)\<rparr>)"
    using current_user_run [OF assms(3-5) u(1) assms(7,8)] u(2) assms(9) by simp
  show "\<exists>u'. session_of h (db v) = Some (s, u')" using u(1) by blast
qed

lemma logged_out_later:
  assumes "app_ok E v" "py_strip (unicode E) t = t" "hash_token E t = Inr h" "session_of h (db v) = Some (s, u)"
    and "get_current_user E (Some (lit ''Bearer'', t)) v = (Inr user, v1)" "au_token user = t" "db v1 = db v"
  shows "\<exists>v'. serve E (Some (lit ''Bearer'', t)) PostLogout v = (Response 204 EmptyBody, v')
    \<and> (\<forall>g. g \<noteq> h \<longrightarrow> session_of g (db v') = session_of g (db v))
    \<and> (\<forall>x. later E {} v' x \<longrightarrow>
        get_current_user E (Some (lit ''Bearer'', t)) x = (Inl (Auth UnauthenticatedError), x))"
proof -
  have ok: "accounts_ok (db v)" using assms(1) by (simp add: app_ok_def data_ok_def)
  let ?stamp = "isoformat (clock v1 (ticks v1))"
  let ?v' = "v1\<lparr>ticks := Suc (ticks v1), db := session_revoked h ?stamp (db v1)\<rparr>"
  have s: "serve E (Some (lit ''Bearer'', t)) PostLogout v = (Response 204 EmptyBody, ?v')"
    using auth_logout_run [OF assms(3)] assms(5,6)
    by (simp add: serve_def logout_route_def authenticated_def answer_def op_run op_simps)
  have ok': "app_ok E ?v'" using serve_ok [OF s assms(1)] .
  obtain s' where r: "s' \<in> set (rows (sessions (db ?v')))" "ses_token_hash s' = h" "ses_revoked_at s' \<noteq> None"
    using revoked_row [OF assms(4) ok, of ?stamp] assms(7) by auto
  have "session_of h (db x) = None" if "later E {} ?v' x" for x
    using later_keeps [OF that ok'] session_gone [OF _ _ r] by (auto simp: app_ok_def data_ok_def)
  with s session_revoked_ok(4) [OF ok] assms(7) show ?thesis
    by (intro exI [of _ ?v']) (auto intro: current_user_none [OF assms(2,3)])
qed

text \<open>C19: a session lasts from login to logout or expiry. A login with the right passphrase
  on an account that is not locked yields a token and its expiry time. Whatever is served afterwards,
  requests of anybody in any interleaving (other logins and registrations, failed logins, logouts of
  other sessions), with stops, kills and restarts, as long as no logout presents this token: the token
  stands for the account at every time before the expiry and for nobody from then on. A logout with it
  before the expiry is answered 204 and ends no other session; after it the token stands for nobody,
  whatever is served from then on.\<close>

theorem session_lifecycle:
  assumes "app_ok E w" "clock_ok E w" "list_all scalar (normalize_email (unicode E) email)"
    and "user_find (normalize_email (unicode E) email) (db w) = Some u" "account_of u = Counting n"
    and "verify_password E p (usr_password_hash u) = Inr True" "token_fresh E w"
  shows "\<exists>res w' exp k h. auth_login E email p w = (Inr res, w')
    \<and> add_minutes (clock w k) (session_ttl_minutes (load (unicode E) (environ w))) = Inr exp
    \<and> login_expires_at res = isoformat exp \<and> hash_token E (login_token res) = Inr h
    \<and> (\<forall>v. later E {h} w' v \<longrightarrow>
         get_current_user E (Some (lit ''Bearer'', login_token res)) v =
           (if exp \<le> clock v (ticks v) then Inl (Auth UnauthenticatedError)
            else Inr \<lparr>au_user_id = usr_id u, au_email = usr_email u, au_token = login_token res\<rparr>,
            v\<lparr>ticks := Suc (ticks v)\<rparr>))
    \<and> (\<forall>v. later E {h} w' v \<longrightarrow> \<not> exp \<le> clock v (ticks v) \<longrightarrow>
         (\<exists>v'. serve E (Some (lit ''Bearer'', login_token res)) PostLogout v = (Response 204 EmptyBody, v')
           \<and> (\<forall>g. g \<noteq> h \<longrightarrow> session_of g (db v') = session_of g (db v))
           \<and> (\<forall>x. later E {} v' x \<longrightarrow>
                get_current_user E (Some (lit ''Bearer'', login_token res)) x = (Inl (Auth UnauthenticatedError), x))))"
proof -
  have acc: "accounts_ok (db w)" using assms(1) by (simp add: app_ok_def data_ok_def)
  have opn: "usr_locked_until u = None"
    using assms(5) by (auto simp: account_of_def split: option.splits)
  let ?u = "marked 0 None (isoformat (clock w (ticks w))) u"
  obtain exp h s d where l: "add_minutes (clock w (Suc (ticks w))) (session_ttl_minutes (policy E w)) = Inr exp"
    "hash_token E (next_token w) = Inr h"
    "login_user E u p w = (Inr \<lparr>login_token = next_token w, login_expires_at = isoformat exp\<rparr>,
        w\<lparr>ticks := ticks w + 3, draws := draws w + SESSION_TOKEN_BYTES, db := d\<rparr>)" (is "_ = (Inr ?res, ?w')")
    "accounts_ok d" "ses_expires_at s = isoformat exp" "session_of h d = Some (s, ?u)"
    using login_user_right [OF acc assms(2,7,4,6)] by blast
  note t = next_token_text [where w = w]
  have run: "auth_login E email p w = (Inr ?res, ?w')"
    using auth_login_open [OF assms(3,4) opn] l(3) by simp
  have ok: "app_ok E ?w'" using preserves_run [OF ok_accounts(2) run assms(1)] .
  have s: "session_of h (db ?w') = Some (s, ?u)" "ses_user_id s = usr_id u"
    using l(6) session_of_Some_iff [OF l(4)] by simp_all
  note live = live_later [OF ok _ t(1,2) l(2) s(1) l(5) add_minutes_ok [OF l(1)] s(2), unfolded marked_simps]
  have out: "\<exists>v'. serve E (Some (lit ''Bearer'', next_token w)) PostLogout v = (Response 204 EmptyBody, v')
      \<and> (\<forall>g. g \<noteq> h \<longrightarrow> session_of g (db v') = session_of g (db v))
      \<and> (\<forall>x. later E {} v' x \<longrightarrow>
          get_current_user E (Some (lit ''Bearer'', next_token w)) x = (Inl (Auth UnauthenticatedError), x))"
    if v: "later E {h} ?w' v" "\<not> exp \<le> clock v (ticks v)" for v
  proof -
    obtain u' where "session_of h (db v) = Some (s, u')" using live(2) [OF v(1)] by blast
    have g: "get_current_user E (Some (lit ''Bearer'', next_token w)) v = (Inr \<lparr>au_user_id = usr_id u,
        au_email = usr_email u, au_token = next_token w\<rparr>, v\<lparr>ticks := Suc (ticks v)\<rparr>)"
      using live(1) [OF v(1)] v(2) by simp
    have "app_ok E v" using later_keeps [OF v(1) ok] by blast
    from logged_out_later [OF this t(1) l(2) \<open>session_of h (db v) = _\<close> g] show ?thesis by simp
  qed
  show ?thesis
    by (rule exI [of _ ?res], rule exI [of _ ?w'], rule exI [of _ exp], rule exI [of _ "Suc (ticks w)"],
        rule exI [of _ h]) (use run l(1,2) live(1) out in \<open>simp add: policy_def\<close>)
qed

text \<open>A login; a lock request is served; the token still stands for the account; its logout ends it.\<close>

lemma toy_account_ok: "app_ok toy toy_account"
  using toy_accounts(3)
  by (simp add: app_ok_def data_ok_def vault_ok_def released_zeroed_def dek_length_ok_def log_ok_def kv_ok_def nk_ok_def
      store_ok_def toy_account_def toy_still_def toy_world_def)

theorem session_lifecycle_witness:
  "\<exists>res w' v v'. auth_login toy toy_email toy_passphrase toy_account = (Inr res, w')
    \<and> v = snd (serve toy None PostLock w')
    \<and> (\<exists>x. get_current_user toy (Some (lit ''Bearer'', login_token res)) v =
        (Inr \<lparr>au_user_id = 1, au_email = toy_email, au_token = login_token res\<rparr>, x))
    \<and> serve toy (Some (lit ''Bearer'', login_token res)) PostLogout v = (Response 204 EmptyBody, v')
    \<and> get_current_user toy (Some (lit ''Bearer'', login_token res)) v' = (Inl (Auth UnauthenticatedError), v')"
proof -
  have f: "list_all scalar (normalize_email (unicode toy) toy_email)"
    "user_find (normalize_email (unicode toy) toy_email) (db toy_account) = Some toy_user"
    by (simp_all add: toy_email_ok toy_accounts)
  from session_lifecycle [OF toy_account_ok toy_clock_ok(2) f toy_accounts(6) toy_verify(1) toy_accounts(7)]
  obtain res w' exp k h where r: "auth_login toy toy_email toy_passphrase toy_account = (Inr res, w')"
    "add_minutes (clock toy_account k) (session_ttl_minutes (load (unicode toy) (environ toy_account))) = Inr exp"
    and live: "\<And>v. later toy {h} w' v \<Longrightarrow> get_current_user toy (Some (lit ''Bearer'', login_token res)) v =
        (if exp \<le> clock v (ticks v) then Inl (Auth UnauthenticatedError)
         else Inr \<lparr>au_user_id = usr_id toy_user, au_email = usr_email toy_user, au_token = login_token res\<rparr>,
         v\<lparr>ticks := Suc (ticks v)\<rparr>)"
    and out: "\<And>v. later toy {h} w' v \<Longrightarrow> \<not> exp \<le> clock v (ticks v) \<Longrightarrow>
        \<exists>v'. serve toy (Some (lit ''Bearer'', login_token res)) PostLogout v = (Response 204 EmptyBody, v')
          \<and> (\<forall>x. later toy {} v' x \<longrightarrow> get_current_user toy (Some (lit ''Bearer'', login_token res)) x =
               (Inl (Auth UnauthenticatedError), x))" by metis
  obtain w1 where "auth_login toy toy_email toy_passphrase toy_account = (Inr res, w1)" "clock w1 = clock toy_account"
    using login_refines_machine [OF toy_accounts(3) toy_clock_ok(2) f toy_accounts(5) toy_verify(1) toy_accounts(7)]
      login_frame_keeps r(1) by fastforce
  then have c: "clock w' = clock toy_account" using r(1) by simp
  let ?v = "snd (serve toy None PostLock w')"
  have "pool_runs (requests toy [(None, PostLock)], w') ([Done (Inr (fst (serve toy None PostLock w')))], ?v)"
    using pool_runs_one [of "serve_task toy None PostLock" w'] by (simp add: requests_def alone_serve split: prod.split)
  then have later: "later toy {h} w' ?v" by (rule schedule [OF at_once, rotated]) simp
  have "clock ?v = clock toy_account" using c
    by (simp add: serve_def lock_route_def answer_def op_run op_simps vault_lock_run Let_def)
  moreover have "\<not> exp \<le> clock toy_account n" for n
    using r(2) by (auto simp: load_default setting_defaults add_minutes_def Let_def less_eq_datetime_def split: if_splits)
  ultimately have t: "\<not> exp \<le> clock ?v (ticks ?v)" by simp
  from out [OF later t] obtain v' where v': "serve toy (Some (lit ''Bearer'', login_token res)) PostLogout ?v = (Response 204 EmptyBody, v')"
    "get_current_user toy (Some (lit ''Bearer'', login_token res)) v' = (Inl (Auth UnauthenticatedError), v')"
    using at_once by blast
  show ?thesis using r(1) live [OF later] t v'
    by (intro exI [of _ res] exI [of _ w'] exI [of _ ?v] exI [of _ v']) (simp add: toy_user_def new_user_def)
qed

end
