(* ===== verification/Generator.thy ===== *)
theory Generator
  imports Api
begin

text \<open>
  \<open>src/scripts/generate_samples.py\<close>: the script that drives the whole service through its HTTP
  interface and collects what it wrote. Each function of the script is an operation on the
  world the service runs in; the client of the framework (\<open>TestClient\<close>) is a call of the route,
  which raises what the route does not handle. The raw bytes of the database file are SQLite's:
  \<open>file_bytes\<close> gives them. Directories, the JSON files that are written and the fixed descriptions in
  them are left out.
\<close>

section \<open>Constants\<close>

definition MASTER :: pystr where "MASTER = lit ''Sample-Master-Key-2026!''"
definition ALICE :: "pystr \<times> pystr" where
  "ALICE = (lit ''alice@minivault.test'', lit ''Alice-Sample-Passw0rd!'')"
definition BOB :: "pystr \<times> pystr" where
  "BOB = (lit ''bob@minivault.test'', lit ''Bobby-Sample-Passw0rd!'')"
definition DB_PASSWORD :: pystr where "DB_PASSWORD = lit ''PLAINTEXT-DB-PASSWORD-MARKER''"
definition ROTATED_PASSWORD :: pystr where "ROTATED_PASSWORD = lit ''PLAINTEXT-ROTATED-MARKER''"
definition TRANSIT_PAYLOAD :: pystr where "TRANSIT_PAYLOAD = lit ''PLAINTEXT-TRANSIT-MARKER''"

text \<open>\<open>os.environ.setdefault\<close>, four times.\<close>

definition setdefault :: "string \<Rightarrow> string \<Rightarrow> environ \<Rightarrow> environ" where
  "setdefault name value env = (if env (lit name) = None then env(lit name \<mapsto> lit value) else env)"

definition generator_environ :: "environ \<Rightarrow> environ" where
  "generator_environ env =
     setdefault ''MINIVAULT_PASSWORD_MEMORY_COST'' ''8192''
       (setdefault ''MINIVAULT_PASSWORD_TIME_COST'' ''1''
         (setdefault ''MINIVAULT_KDF_MEMORY_COST'' ''8192''
           (setdefault ''MINIVAULT_KDF_TIME_COST'' ''1'' env)))"

section \<open>Helpers\<close>

fun b64 :: "pyobj \<Rightarrow> pystr res" where
  "b64 (PyStr value) = bindR (utf8_encode value) (\<lambda>bs. Inr (encode_b64 bs))"
| "b64 (PyBytes value) = Inr (encode_b64 value)"
| "b64 _ = Inl (Py TypeError)"

text \<open>One call of \<open>TestClient\<close>: an exception without a handler comes out of the call.\<close>

definition client :: "ext \<Rightarrow> credentials \<Rightarrow> request \<Rightarrow> response action" where
  "client E c req =
     (\<lambda>w. case route E c req w of
        (Inl e, w') \<Rightarrow>
          (if error_response e = internal_error then Inl e else Inr (error_response e), w')
      | (Inr r, w') \<Rightarrow>
          (if r = internal_error then Inl (Py ResponseValidationError) else Inr r, w'))"

definition assert :: "bool \<Rightarrow> unit action" where
  "assert c = raise_if (\<not> c) (Py AssertionError)"

text \<open>\<open>response.json()\<close> and the entries the script reads of it; a body of another model has no
  such key.\<close>

fun json_of :: "response \<Rightarrow> body res" where
  "json_of (Response code EmptyBody) = Inl (Py JSONDecodeError)"
| "json_of (Response code b) = Inr b"

fun token_of :: "body \<Rightarrow> pystr res" where
  "token_of (LoginBody r) = Inr (login_token r)"
| "token_of _ = Inl (Py KeyError)"

fun ciphertext_of :: "body \<Rightarrow> pystr res" where
  "ciphertext_of (EncryptBody r) = Inr (enc_ciphertext r)"
| "ciphertext_of _ = Inl (Py KeyError)"

fun signature_of :: "body \<Rightarrow> pystr res" where
  "signature_of (SignBody r) = Inr (sig_signature_b64 r)"
| "signature_of _ = Inl (Py KeyError)"

text \<open>\<open>client.post(...).json()\<close>\<close>

definition client_json :: "ext \<Rightarrow> credentials \<Rightarrow> request \<Rightarrow> body action" where
  "client_json E c req = bindM (client E c req) (\<lambda>r. liftR (json_of r))"

section \<open>\<open>dump_table\<close>\<close>

text \<open>The three queries of the script.\<close>

definition dump_kv :: "database \<Rightarrow> (pystr \<times> pystr \<times> int \<times> pystr \<times> pystr \<times> pystr \<times> pystr) list" where
  "dump_kv d =
     map (\<lambda>(r, v). (rec_owner_email r, rec_path r, kvv_version v, kvv_nonce_b64 v, kvv_ciphertext_b64 v,
                   kvv_tag_b64 v, kvv_created_at v))
       (sort_key (\<lambda>(r, v). kvv_version v)
         [(r, v). r \<leftarrow> rows (kv_records d), v \<leftarrow> rows (kv_versions d), kvv_record_id v = rec_id r])"

definition dump_keys ::
  "database \<Rightarrow> (pystr \<times> pystr \<times> key_usage \<times> pystr option \<times> int \<times> pystr \<times> pystr \<times> pystr) list"
where
  "dump_keys d =
     map (\<lambda>(k, v). (key_name k, key_owner_email k, key_usage k, key_signing_algorithm k, kyv_version v,
                   kyv_nonce_b64 v, kyv_material_b64 v, kyv_tag_b64 v))
       (sort_key (\<lambda>(k, v). key_name k) (sort_key (\<lambda>(k, v). kyv_version v)
         [(k, v). k \<leftarrow> rows (named_keys d), v \<leftarrow> rows (named_key_versions d), kyv_key_id v = key_id k]))"

definition dump_audit :: "database \<Rightarrow> audit_row list" where
  "dump_audit d = sort_key aud_sequence (rows (audit_logs d))"

definition dump_table :: "(database \<Rightarrow> 'r list) \<Rightarrow> 'r list action" where
  "dump_table select = gets (\<lambda>w. select (db w))"

section \<open>The samples\<close>

definition login :: "ext \<Rightarrow> pystr \<times> pystr \<Rightarrow> credentials action" where
  "login E account =
     (case account of (email, passphrase) \<Rightarrow>
        bindM (client E None (PostRegister email passphrase passphrase)) (\<lambda>r.
        bindM (assert (response_status r = 201)) (\<lambda>_.
        bindM (client_json E None (PostLogin email passphrase)) (\<lambda>b.
        bindM (liftR (token_of b)) (\<lambda>token.
        ret (Some (lit ''Bearer'', token)))))))"

definition bootstrap :: "ext \<Rightarrow> (credentials \<times> credentials) action" where
  "bootstrap E =
     bindM (client E None (PostInit MASTER)) (\<lambda>r.
     bindM (assert (response_status r = 201)) (\<lambda>_.
     bindM (client E None (PostUnlock MASTER)) (\<lambda>r.
     bindM (assert (response_status r = 200)) (\<lambda>_.
     bindM (login E ALICE) (\<lambda>alice.
     bindM (login E BOB) (\<lambda>bob.
     ret (alice, bob)))))))"

definition sample_path :: pystr where
  "sample_path = lit ''secret/'' @ fst ALICE @ lit ''/database''"

record kv_samples =
  kvs_path :: pystr
  kvs_version_metadata :: body
  kvs_rows :: "(pystr \<times> pystr \<times> int \<times> pystr \<times> pystr \<times> pystr \<times> pystr) list"

definition build_kv_samples :: "ext \<Rightarrow> credentials \<Rightarrow> kv_samples action" where
  "build_kv_samples E alice =
     bindM (client E alice (PostEntry sample_path [(lit ''password'', JStr DB_PASSWORD)])) (\<lambda>_.
     bindM (client E alice (PostEntry sample_path [(lit ''password'', JStr ROTATED_PASSWORD)])) (\<lambda>_.
     bindM (client_json E alice (GetVersions sample_path)) (\<lambda>versions.
     bindM (dump_table dump_kv) (\<lambda>rws.
     ret \<lparr>kvs_path = sample_path, kvs_version_metadata = versions, kvs_rows = rws\<rparr>))))"

record transit_samples =
  trs_before_rotation :: body
  trs_after_rotation :: body
  trs_decrypt_before_rotation :: body
  trs_signed :: body
  trs_message :: pystr
  trs_sha256_of_message :: pystr
  trs_verify_original :: body
  trs_verify_tampered :: body
  trs_denied_status :: int
  trs_denied_body :: body
  trs_key_rows :: "(pystr \<times> pystr \<times> key_usage \<times> pystr option \<times> int \<times> pystr \<times> pystr \<times> pystr) list"

definition sample_message :: pystr where "sample_message = lit ''message signed by Mini Vault''"

text \<open>The inner function \<open>verify\<close>.\<close>

definition verify_sample :: "ext \<Rightarrow> credentials \<Rightarrow> body \<Rightarrow> pystr \<Rightarrow> body action" where
  "verify_sample E alice signature_body msg =
     bindM (liftR (b64 (PyStr msg))) (\<lambda>message.
     bindM (liftR (signature_of signature_body)) (\<lambda>signature.
     client_json E alice (PostVerify (lit ''demo-sign'') message (Some (lit ''RAW'')) signature
       (Some (lit ''ED25519'')) None)))"

definition build_transit_samples :: "ext \<Rightarrow> credentials \<Rightarrow> credentials \<Rightarrow> transit_samples action" where
  "build_transit_samples E alice bob =
     bindM (client E alice (PostKey (lit ''demo-aes''))) (\<lambda>_.
     bindM (liftR (b64 (PyStr TRANSIT_PAYLOAD))) (\<lambda>payload.
     bindM (client_json E alice (PostEncrypt (lit ''demo-aes'') payload)) (\<lambda>before.
     bindM (client E alice (PostRotate (lit ''demo-aes''))) (\<lambda>_.
     bindM (client_json E alice (PostEncrypt (lit ''demo-aes'') payload)) (\<lambda>after.
     bindM (client E alice (PostSigningKey (lit ''demo-sign'') (Some (lit ''ED25519'')))) (\<lambda>_.
     bindM (liftR (b64 (PyStr sample_message))) (\<lambda>message.
     bindM (client_json E alice (PostSign (lit ''demo-sign'') message (Some (lit ''RAW''))
       (Some (lit ''ED25519'')))) (\<lambda>signature_body.
     bindM (liftR (ciphertext_of before)) (\<lambda>ciphertext.
     bindM (client E bob (PostDecrypt ciphertext)) (\<lambda>denied.
     bindM (client_json E alice (PostDecrypt ciphertext)) (\<lambda>decrypted.
     bindM (liftR (utf8_encode sample_message)) (\<lambda>encoded.
     bindM (verify_sample E alice signature_body sample_message) (\<lambda>original.
     bindM (verify_sample E alice signature_body (sample_message @ lit ''!'')) (\<lambda>tampered.
     bindM (liftR (json_of denied)) (\<lambda>denied_body.
     bindM (dump_table dump_keys) (\<lambda>rws.
     ret \<lparr>trs_before_rotation = before, trs_after_rotation = after,
          trs_decrypt_before_rotation = decrypted, trs_signed = signature_body, trs_message = sample_message,
          trs_sha256_of_message = hexdigest (sha256_digest E encoded),
          trs_verify_original = original, trs_verify_tampered = tampered,
          trs_denied_status = response_status denied, trs_denied_body = denied_body,
          trs_key_rows = rws\<rparr>))))))))))))))))"

record audit_samples =
  aus_verification :: body
  aus_entries :: "audit_row list"

definition build_audit_samples :: "ext \<Rightarrow> credentials \<Rightarrow> credentials \<Rightarrow> audit_samples action" where
  "build_audit_samples E alice bob =
     bindM (client E bob (GetEntry sample_path None)) (\<lambda>_.
     bindM (liftR (b64 (PyStr (lit ''x'')))) (\<lambda>payload.
     bindM (client E bob (PostEncrypt (lit ''demo-aes'') payload)) (\<lambda>_.
     bindM (client_json E alice GetAuditVerify) (\<lambda>verification.
     bindM (dump_table dump_audit) (\<lambda>entries.
     ret \<lparr>aus_verification = verification, aus_entries = entries\<rparr>)))))"

section \<open>\<open>check_no_plaintext\<close>\<close>

definition failure_text :: "pystr \<Rightarrow> pystr" where
  "failure_text marker =
     lit ''plaintext marker '' @ [39] @ marker @ [39] @ lit '' found in the database''"

primrec markers_found :: "bytes \<Rightarrow> pystr list \<Rightarrow> pystr list res" where
  "markers_found raw [] = Inr []"
| "markers_found raw (marker # ms) =
     bindR (utf8_encode marker) (\<lambda>bs.
     bindR (markers_found raw ms) (\<lambda>fs.
     Inr (if sublist bs raw then failure_text marker # fs else fs)))"

definition check_no_plaintext :: "bytes \<Rightarrow> pystr list res" where
  "check_no_plaintext raw = markers_found raw [DB_PASSWORD, ROTATED_PASSWORD, TRANSIT_PAYLOAD]"

section \<open>\<open>main\<close>\<close>

text \<open>\<open>with TestClient(app) as client\<close>: the lifespan around the block, ended when it raises, too.\<close>

definition with_client :: "ext \<Rightarrow> 'a action \<Rightarrow> 'a action" where
  "with_client E block =
     bindM (startup E) (\<lambda>_ w.
       case block w of (r, w1) \<Rightarrow>
         (case shutdown w1 of
            (Inl e, w2) \<Rightarrow> (Inl e, w2)
          | (Inr _, w2) \<Rightarrow> (r, w2)))"

text \<open>\<open>json.loads(config_path.read_text("utf-8"))\<close>\<close>

definition read_config :: "json action" where
  "read_config =
     bindM (gets conf) (\<lambda>file.
     case file of
       None \<Rightarrow> throw (Py FileNotFoundError)
     | Some content \<Rightarrow>
         bindM io_call (\<lambda>_.
         case content of
           BadUtf8 \<Rightarrow> throw (Py UnicodeDecodeError)
         | BadJson \<Rightarrow> throw (Py JSONDecodeError)
         | HugeInt \<Rightarrow> throw (Py ValueError)
         | Doc j \<Rightarrow> ret j))"

record samples =
  smp_kv :: kv_samples
  smp_transit :: transit_samples
  smp_config :: json
  smp_audit :: audit_samples
  smp_database :: database
  smp_failures :: "pystr list"
  smp_exit :: int

text \<open>The files lie in a directory of their own, which is new.\<close>

definition fresh_files :: "world \<Rightarrow> world" where
  "fresh_files w = w\<lparr>db := empty_database, conf := None, conf_tmp := None\<rparr>"

definition generate_samples :: "ext \<Rightarrow> (database \<Rightarrow> bytes) \<Rightarrow> samples action" where
  "generate_samples E file_bytes =
     bindM (modify (\<lambda>w. create_app (generator_environ (environ w)) (fresh_files w))) (\<lambda>_.
     bindM (with_client E
       (bindM (bootstrap E) (\<lambda>(alice, bob).
        bindM (build_kv_samples E alice) (\<lambda>kv.
        bindM (build_transit_samples E alice bob) (\<lambda>transit.
        bindM (build_audit_samples E alice bob) (\<lambda>audit.
        ret (kv, transit, audit))))))) (\<lambda>(kv, transit, audit).
     bindM read_config (\<lambda>config.
     bindM (gets db) (\<lambda>d.
     bindM (liftR (check_no_plaintext (file_bytes d))) (\<lambda>failures.
     ret \<lparr>smp_kv = kv, smp_transit = transit, smp_config = config, smp_audit = audit,
          smp_database = d, smp_failures = failures, smp_exit = (if failures = [] then 0 else 1)\<rparr>)))))"

end
