(* ===== verification/GeneratorLaws.thy ===== *)
theory GeneratorLaws
  imports Generator TaskLaws
begin

text \<open>
  The steps of the sample generator on a fresh installation: the start, the two accounts and
  their sessions, and what each call of the client answers while they last.
\<close>

section \<open>The texts of the script\<close>

lemma ascii_texts: "ascii MASTER" "ascii (fst ALICE)" "ascii (snd ALICE)" "ascii (fst BOB)" "ascii (snd BOB)"
  "ascii DB_PASSWORD" "ascii ROTATED_PASSWORD" "ascii TRANSIT_PAYLOAD" "ascii sample_path" "ascii sample_message"
  by (simp_all add: MASTER_def ALICE_def BOB_def DB_PASSWORD_def ROTATED_PASSWORD_def TRANSIT_PAYLOAD_def
      sample_path_def sample_message_def text_simps)

lemma ascii_scalar: "ascii s \<Longrightarrow> list_all scalar s"
  by (auto simp: ascii_def list_all_iff intro: scalar_ascii)

lemmas scalar_texts [simp] = ascii_texts [THEN ascii_scalar]

lemma strong_texts:
  "evaluate U (PyStr MASTER) = None" "evaluate U (PyStr (snd ALICE)) = None" "evaluate U (PyStr (snd BOB)) = None"
proof -
  have "evaluate toy_unicode (PyStr MASTER) = None" "evaluate toy_unicode (PyStr (snd ALICE)) = None"
    "evaluate toy_unicode (PyStr (snd BOB)) = None" by code_simp+
  with evaluate_ascii ascii_texts(1,3,5)
  show "evaluate U (PyStr MASTER) = None" "evaluate U (PyStr (snd ALICE)) = None"
    "evaluate U (PyStr (snd BOB)) = None" by metis+
qed

lemma normal_emails: "normalize_email U (fst ALICE) = fst ALICE" "normalize_email U (fst BOB) = fst BOB"
  by (simp_all add: normalize_email_def py_strip_def py_space_def py_lower_def ALICE_def BOB_def text_simps
      ascii_lower_def)

lemma valid_emails: "validate_email U (fst ALICE) = Some (fst ALICE)" "validate_email U (fst BOB) = Some (fst BOB)"
proof -
  have "email_match toy_unicode (fst ALICE)" "email_match toy_unicode (fst BOB)" by code_simp+
  with email_match_ascii ascii_texts(2,4) have "email_match U (fst ALICE)" "email_match U (fst BOB)" by metis+
  then show "validate_email U (fst ALICE) = Some (fst ALICE)" "validate_email U (fst BOB) = Some (fst BOB)"
    by (simp_all add: validate_email_def normal_emails accept_def)
qed

lemma text_lengths: "length MASTER = 23" "length (fst ALICE) = 20" "length (snd ALICE) = 22"
  "length (fst BOB) = 18" "length (snd BOB) = 22" "length sample_path = 36"
  by (simp_all add: MASTER_def ALICE_def BOB_def sample_path_def)

lemma sample_account:
  assumes "(email, p) \<in> {ALICE, BOB}"
  shows "normalize_email U email = email" "list_all scalar email" "list_all scalar p"
    "evaluate U (PyStr p) = None" "validate_email U email = Some email"
    "str_field 3 254 email" "str_field 1 1024 p"
proof -
  from assms have "email = fst ALICE \<and> p = snd ALICE \<or> email = fst BOB \<and> p = snd BOB"
    by (metis fst_conv insertE singletonD snd_conv)
  then show "normalize_email U email = email" "list_all scalar email" "list_all scalar p"
    "evaluate U (PyStr p) = None" "validate_email U email = Some email"
    "str_field 3 254 email" "str_field 1 1024 p"
    by (auto simp: str_field_def text_field_def normal_emails valid_emails strong_texts text_lengths)
qed

section \<open>Calls of the client\<close>

text \<open>Credentials that stand for an account as long as the clock does not reach their expiry,
  whatever happens to other tables.\<close>

definition caller :: "ext \<Rightarrow> credentials \<Rightarrow> pystr \<Rightarrow> world \<Rightarrow> bool" where
  "caller E c email w \<longleftrightarrow>
     (\<exists>t h s u exp. c = Some (lit ''Bearer'', t) \<and> py_strip (unicode E) t = t \<and> t \<noteq> []
        \<and> hash_token E t = Inr h \<and> session_of h (db w) = Some (s, u) \<and> usr_email u = email
        \<and> ses_expires_at s = isoformat exp \<and> datetime_ok exp \<and> (\<forall>n. \<not> exp \<le> clock w n))"

lemma caller_cong:
  "users (db v) = users (db w) \<Longrightarrow> sessions (db v) = sessions (db w) \<Longrightarrow> clock v = clock w \<Longrightarrow>
   caller E c email v = caller E c email w"
  using session_of_tables [of "db v" "db w"] by (simp add: caller_def)

lemma caller_run:
  assumes "caller E c email w"
  shows "\<exists>u. au_email u = email \<and> get_current_user E c w = (Inr u, w\<lparr>ticks := Suc (ticks w)\<rparr>)"
proof -
  obtain t h s u exp where c: "c = Some (lit ''Bearer'', t)" "py_strip (unicode E) t = t" "t \<noteq> []"
    "hash_token E t = Inr h" "session_of h (db w) = Some (s, u)" "usr_email u = email"
    "ses_expires_at s = isoformat exp" "datetime_ok exp" "\<forall>n. \<not> exp \<le> clock w n"
    using assms by (auto simp: caller_def)
  from current_user_run [OF c(2-5,7,8)] c(1,6,9) show ?thesis by simp
qed

lemma client_Inr:
  "route E c req w = (Inr (Response code b), w') \<Longrightarrow> b \<noteq> InternalError \<Longrightarrow>
   client E c req w = (Inr (Response code b), w')"
  by (simp add: client_def internal_error_def)

lemma client_Inl:
  "route E c req w = (Inl e, w') \<Longrightarrow> error_response e = Response code b \<Longrightarrow> b \<noteq> InternalError \<Longrightarrow>
   client E c req w = (Inr (Response code b), w')"
  by (simp add: client_def internal_error_def)

lemma authenticated_run:
  assumes "caller E c email w"
    and "\<And>u. au_email u = email \<Longrightarrow> h u (w\<lparr>ticks := Suc (ticks w)\<rparr>) = (r, w')"
  shows "authenticated E c h w = (r, w')"
  using caller_run [OF assms(1)] assms(2) by (auto simp: authenticated_def op_run)

section \<open>The start\<close>

lemma generator_started:
  assumes "\<not> io_fault w (ios w)"
  shows "\<exists>v. startup E (create_app env (fresh_files w)) = (Inr (), v)
    \<and> beside_account_tables (db v) = (empty_table, empty_table, empty_table, empty_table, empty_table,
        schema_metadata (db v))
    \<and> schema_metadata (db v) HEAD_KEY = None
    \<and> users (db v) = empty_table \<and> sessions (db v) = empty_table
    \<and> v = w\<lparr>db := db v, conf := None, conf_tmp := None, vstate := \<lparr>vs_dek = None, vs_released = []\<rparr>,
        dummy_hash := None, environ := env, ios := Suc (ios w)\<rparr>"
proof -
  have "HEAD_KEY \<noteq> lit ''schema_version''" by (simp add: HEAD_KEY_def text_simps)
  with assms show ?thesis
    by (simp add: startup_def db_initialize_def connection_def op_run op_simps create_app_def process_gone_def
        fresh_files_def guard_fresh vault_lock_run Let_def create_missing_tables_def beside_account_tables_def
        clear_locked)
qed

section \<open>The vault\<close>

lemma initialize_exact:
  assumes "conf w = None" "evaluate (unicode E) (PyStr pw) = None" "vs_dek (vstate w) = None"
    and "\<And>salt. length salt = 16 \<Longrightarrow> \<exists>key. length key = 32 \<and>
      derive_wrapping_key E (PyStr pw) salt (current_parameters (unicode E) (environ w)) = Inr key"
    and "\<And>n. \<not> io_fault w n"
  shows "\<exists>salt ps key blob. vault_initialize E pw w =
      (Inr \<lparr>initialized = True, status_text = lit ''locked''\<rparr>,
       w\<lparr>draws := draws w + 60, conf := Some (Doc (JObj (saved_config salt ps blob))), conf_tmp := None,
         ios := ios w + 5\<rparr>)
    \<and> derive_wrapping_key E (PyStr pw) salt ps = Inr key
    \<and> encrypt_aes_gcm E key (map (entropy w) [draws w + 16..<draws w + 48]) DEK_WRAP_AAD
        (w\<lparr>draws := draws w + 48\<rparr>) = (Inr blob, w\<lparr>draws := draws w + 60\<rparr>)"
proof -
  let ?salt = "map (entropy w) [draws w..<draws w + 16]"
  let ?dek = "map (entropy w) [draws w + 16..<draws w + 48]"
  let ?ps = "current_parameters (unicode E) (environ w)"
  obtain key where k: "length key = 32" "derive_wrapping_key E (PyStr pw) ?salt ?ps = Inr key"
    using assms(4) [of ?salt] by auto
  have s: "save_atomic data v =
      (Inr (), v\<lparr>conf := Some (Doc (sort_json (JObj data))), conf_tmp := None, ios := ios v + 5\<rparr>)"
    if "io_fault v = io_fault w" for v data
    using save_atomic_ok [of v data] assms(5) that by simp
  obtain blob where b: "encrypt_aes_gcm E key ?dek DEK_WRAP_AAD (w\<lparr>draws := draws w + 48\<rparr>) =
      (Inr blob, w\<lparr>draws := draws w + 60\<rparr>)"
    using k(1) by (simp add: encrypt_aes_gcm_run Let_def)
  have "validate_master_passphrase E pw = Inr ()" using assms(2) by (simp add: validate_master_passphrase_def)
  with k b assms(1,3) have "vault_initialize E pw w = (Inr \<lparr>initialized = True, status_text = lit ''locked''\<rparr>,
       w\<lparr>draws := draws w + 60, conf := Some (Doc (JObj (saved_config ?salt ?ps blob))), conf_tmp := None,
         ios := ios w + 5\<rparr>)"
    by (simp add: vault_initialize_def op_simps op_run generate_dek_def crypto_lengths
        add.commute [of 48] s sort_json_config clear_locked del: sort_json.simps)
  with k(2) b show ?thesis by blast
qed

text \<open>The first two requests: the vault is open.\<close>

lemma bootstrap_vault:
  assumes "aead_ok E" "conf w = None" "vs_dek (vstate w) = None" "\<And>n. \<not> io_fault w n"
    and "\<And>salt. length salt = 16 \<Longrightarrow> \<exists>key. length key = 32 \<and>
      derive_wrapping_key E (PyStr MASTER) salt (current_parameters (unicode E) (environ w)) = Inr key"
  shows "\<exists>w1 w2 config dek. client E None (PostInit MASTER) w =
      (Inr (Response 201 (StatusBody \<lparr>initialized = True, status_text = lit ''locked''\<rparr>)), w1)
    \<and> client E None (PostUnlock MASTER) w1 =
      (Inr (Response 200 (StatusBody \<lparr>initialized = True, status_text = lit ''unlocked''\<rparr>)), w2)
    \<and> w2 = w\<lparr>draws := draws w + 60, conf := Some (Doc config), conf_tmp := None, ios := ios w + 6,
        vstate := vstate w2\<rparr>
    \<and> vs_dek (vstate w2) = Some dek \<and> length dek = 32"
proof -
  let ?dek = "map (entropy w) [draws w + 16..<draws w + 48]"
  obtain salt ps key blob where i: "vault_initialize E MASTER w =
      (Inr \<lparr>initialized = True, status_text = lit ''locked''\<rparr>,
       w\<lparr>draws := draws w + 60, conf := Some (Doc (JObj (saved_config salt ps blob))), conf_tmp := None,
         ios := ios w + 5\<rparr>)" (is "_ = (_, ?w1)")
    "derive_wrapping_key E (PyStr MASTER) salt ps = Inr key"
    "encrypt_aes_gcm E key ?dek DEK_WRAP_AAD (w\<lparr>draws := draws w + 48\<rparr>) = (Inr blob, w\<lparr>draws := draws w + 60\<rparr>)"
    using initialize_exact [OF assms(2) strong_texts(1) assms(3,5,4)] by blast
  have u: "vault_unlock E MASTER ?w1 = (Inr \<lparr>initialized = True, status_text = lit ''unlocked''\<rparr>,
      ?w1\<lparr>ios := Suc (ios ?w1), vstate := (clear_without_lock (vstate ?w1))\<lparr>vs_dek := Some ?dek\<rparr>\<rparr>)"
    using assms(4) by (intro vault_unlock_saved [OF _ _ i(2) decrypt_encrypt [OF assms(1) i(3)]]) simp_all
  have "client E None (PostInit MASTER) w =
      (Inr (Response 201 (StatusBody \<lparr>initialized = True, status_text = lit ''locked''\<rparr>)), ?w1)"
    using i(1) by (intro client_Inr) (simp_all add: initialize_route_def vault_init_request_def str_field_def
        text_field_def accept_def text_lengths validated_def answer_def op_run op_simps)
  moreover let ?w2 = "?w1\<lparr>ios := Suc (ios ?w1), vstate := (clear_without_lock (vstate ?w1))\<lparr>vs_dek := Some ?dek\<rparr>\<rparr>"
  have "client E None (PostUnlock MASTER) ?w1 =
      (Inr (Response 200 (StatusBody \<lparr>initialized = True, status_text = lit ''unlocked''\<rparr>)),
       ?w2)"
    using u by (intro client_Inr) (simp_all add: unlock_route_def vault_unlock_request_def str_field_def
        text_field_def accept_def text_lengths validated_def answer_def op_run op_simps)
  ultimately show ?thesis
    by (intro exI [of _ ?w1] exI [of _ ?w2] exI [of _ "JObj (saved_config salt ps blob)"] exI [of _ ?dek])
      (simp add: add.commute)
qed

section \<open>An account and its session\<close>

definition token_at :: "world \<Rightarrow> nat \<Rightarrow> pystr" where
  "token_at w k = urlsafe_b64 (map (entropy w) [k..<k + SESSION_TOKEN_BYTES])"

text \<open>Registering.\<close>

lemma register_call:
  assumes "password_hash_ok E" "hashing_ok E (environ w)" "accounts_ok (db w)"
    and "(email, p) \<in> {ALICE, BOB}" "user_find email (db w) = None"
  shows "\<exists>reg h. let u = new_user email h (isoformat (clock w (ticks w))) (next_id (users (db w)));
      d = (db w)\<lparr>users := (users (db w))\<lparr>rows := rows (users (db w)) @ [u], next_id := next_id (users (db w)) + 1\<rparr>\<rparr>
    in client E None (PostRegister email p p) w =
        (Inr (Response 201 (RegisterBody reg)), w\<lparr>draws := draws w + 16, ticks := Suc (ticks w), db := d\<rparr>)
      \<and> verify_password E p h = Inr True \<and> accounts_ok d \<and> user_find email d = Some u
      \<and> (\<forall>other. other \<noteq> email \<longrightarrow> user_find other d = user_find other (db w))"
proof -
  note e = sample_account [OF assms(4)]
  obtain h where h: "hash_password E (PyStr p) w = (Inr h, w\<lparr>draws := draws w + 16\<rparr>)"
    using hash_password_ok [OF assms(2) e(3) evaluate_not_Nil [OF e(4)]] by blast
  note v = verify_hashed [OF assms(1) h]
  let ?u = "new_user email h (isoformat (clock w (ticks w))) (next_id (users (db w)))"
  note ins = user_inserted [OF assms(3,5) refl, where h = h and stamp = "isoformat (clock w (ticks w))"]
  note run = user_create_run [of "w\<lparr>draws := draws w + 16\<rparr>" E email h, simplified e(1), OF _ e(2) v(2) refl]
  let ?w1 = "w\<lparr>draws := draws w + 16, ticks := Suc (ticks w), db := (db w)\<lparr>users := (users (db w))
      \<lparr>rows := rows (users (db w)) @ [?u], next_id := next_id (users (db w)) + 1\<rparr>\<rparr>\<rparr>"
  obtain reg where "auth_register E email p p w = (Inr reg, ?w1)"
    using run assms(3,5) by (simp add: register_hashed [OF e(4) h] op_run op_simps Let_def)
  with e have "client E None (PostRegister email p p) w = (Inr (Response 201 (RegisterBody reg)), ?w1)"
    by (intro client_Inr) (simp_all add: register_route_def register_request_def validated_def answer_def op_run
        op_simps del: One_nat_def)
  with v(1) ins show ?thesis by (intro exI [of _ reg] exI [of _ h]) (simp add: Let_def new_user_def)
qed

text \<open>Logging in: the new session stands for the account, and every other session stays.\<close>

lemma login_call:
  assumes "accounts_ok (db w)" "clock_ok E w" "(email, p) \<in> {ALICE, BOB}"
    and "user_find email (db w) = Some u" "usr_locked_until u = None"
    and "verify_password E p (usr_password_hash u) = Inr True" "token_fresh E w"
    and "\<And>k n exp. add_minutes (clock w k) (session_ttl_minutes (policy E w)) = Inr exp \<Longrightarrow> \<not> exp \<le> clock w n"
  shows "\<exists>res d h. client E None (PostLogin email p) w =
        (Inr (Response 200 (LoginBody res)), w\<lparr>ticks := ticks w + 3, draws := draws w + 32, db := d\<rparr>)
    \<and> accounts_ok d \<and> beside_account_tables d = beside_account_tables (db w)
    \<and> caller E (Some (lit ''Bearer'', login_token res)) email (w\<lparr>db := d\<rparr>)
    \<and> (\<forall>c e. caller E c e w \<longrightarrow> caller E c e (w\<lparr>db := d\<rparr>))
    \<and> hash_token E (token_at w (draws w)) = Inr h
    \<and> map ses_token_hash (rows (sessions d)) = map ses_token_hash (rows (sessions (db w))) @ [h]
    \<and> (\<forall>other. user_find other (db w) = None \<longrightarrow> user_find other d = None)"
proof -
  let ?m = "marked 0 None (isoformat (clock w (ticks w)))"
  let ?d0 = "user_update (usr_id u) ?m (db w)"
  note e = sample_account [OF assms(3)]
  obtain exp h s d where l: "add_minutes (clock w (Suc (ticks w))) (session_ttl_minutes (policy E w)) = Inr exp"
    "hash_token E (next_token w) = Inr h"
    "login_user E u p w = (Inr \<lparr>login_token = next_token w, login_expires_at = isoformat exp\<rparr>,
        w\<lparr>ticks := ticks w + 3, draws := draws w + SESSION_TOKEN_BYTES, db := d\<rparr>)" (is "_ = (Inr ?res, ?w')")
    "users d = users ?d0" "accounts_ok d" "ses_expires_at s = isoformat exp" "session_of h d = Some (s, ?m u)"
    "\<And>g. g \<noteq> h \<Longrightarrow> session_of g d = session_of g ?d0"
    "map ses_token_hash (rows (sessions d)) = map ses_token_hash (rows (sessions (db w))) @ [h]"
    using login_user_right [OF assms(1,2,7,4,6)] by blast
  have run: "auth_login E email p w = (Inr ?res, ?w')"
    using auth_login_open [of E email w u p] assms(4,5) e(1,2) l(3) by simp
  have c: "client E None (PostLogin email p) w = (Inr (Response 200 (LoginBody ?res)),
      w\<lparr>ticks := ticks w + 3, draws := draws w + 32, db := d\<rparr>)"
    using run e by (auto intro!: client_Inr simp: login_route_def login_request_def validated_def answer_def op_run
        op_simps SESSION_TOKEN_BYTES_def simp del: One_nat_def)
  have "usr_email u = email" using assms(4) user_find_iff [OF assms(1)] by simp
  then have new: "caller E (Some (lit ''Bearer'', next_token w)) email (w\<lparr>db := d\<rparr>)"
    using next_token_text l(1,2,6,7) add_minutes_ok [OF l(1)] assms(8) [OF l(1)]
    by (simp add: caller_def) blast
  have old: "caller E c' e' (w\<lparr>db := d\<rparr>)" if "caller E c' e' w" for c' e'
  proof -
    obtain t g s' u' exp' where o: "c' = Some (lit ''Bearer'', t)" "py_strip (unicode E) t = t" "t \<noteq> []"
      "hash_token E t = Inr g" "session_of g (db w) = Some (s', u')" "usr_email u' = e'"
      "ses_expires_at s' = isoformat exp'" "datetime_ok exp'" "\<forall>n. \<not> exp' \<le> clock w n"
      using \<open>caller E c' e' w\<close> by (auto simp: caller_def)
    have "g \<noteq> h" using session_row_fresh [OF assms(7) l(2)] o(5) session_of_Some_iff [OF assms(1)]
      by (auto simp: active_session_def)
    then have "map_option (\<lambda>(s, u). (s, usr_id u, usr_email u)) (session_of g d) = Some (s', usr_id u', e')"
      using l(8) o(5,6) session_of_update [OF assms(1), of ?m g "usr_id u"] by simp
    then obtain u2 where "session_of g d = Some (s', u2)" "usr_email u2 = e'" by auto
    with o show ?thesis by (auto simp: caller_def)
  qed
  have "user_find other d = None" if "user_find other (db w) = None" for other
  proof -
    have "\<forall>x \<in> set (rows (users (db w))). usr_email x \<noteq> other"
      using that by (simp add: user_find_def tbl_one_def find_None_iff)
    then have "\<forall>x \<in> set (rows (users d)). usr_email x \<noteq> other" by (auto simp: l(4) user_update_def)
    then show ?thesis by (simp add: user_find_def tbl_one_def find_None_iff)
  qed
  moreover have "beside_account_tables d = beside_account_tables (db w)"
    using keeps_run [OF accounts.keeps_login run] by simp
  ultimately show ?thesis using c new old l(2,5,9) by (intro exI [of _ ?res] exI [of _ d] exI [of _ h])
    (simp add: token_at_def next_token_def)
qed

text \<open>Both, on a state with other accounts.\<close>

definition session_window :: "ext \<Rightarrow> world \<Rightarrow> bool" where
  "session_window E w \<longleftrightarrow>
     (\<forall>k n exp. add_minutes (clock w k) (session_ttl_minutes (policy E w)) = Inr exp \<longrightarrow> \<not> exp \<le> clock w n)"

lemma login_script:
  assumes "password_hash_ok E" "hashing_ok E (environ w)" "clock_ok E w" "session_window E w"
    and "accounts_ok (db w)" "(email, p) \<in> {ALICE, BOB}" "user_find email (db w) = None"
    and "\<And>h. hash_token E (token_at w (draws w + 16)) = Inr h \<Longrightarrow> h \<notin> ses_token_hash ` set (rows (sessions (db w)))"
  shows "\<exists>c d h. login E (email, p) w = (Inr c, w\<lparr>ticks := ticks w + 4, draws := draws w + 48, db := d\<rparr>)
    \<and> accounts_ok d \<and> beside_account_tables d = beside_account_tables (db w)
    \<and> caller E c email (w\<lparr>db := d\<rparr>)
    \<and> (\<forall>c' e. caller E c' e w \<longrightarrow> caller E c' e (w\<lparr>db := d\<rparr>))
    \<and> hash_token E (token_at w (draws w + 16)) = Inr h
    \<and> map ses_token_hash (rows (sessions d)) = map ses_token_hash (rows (sessions (db w))) @ [h]
    \<and> (\<forall>other. other \<noteq> email \<longrightarrow> user_find other (db w) = None \<longrightarrow> user_find other d = None)"
proof -
  obtain reg pwh where r: "let u = new_user email pwh (isoformat (clock w (ticks w))) (next_id (users (db w)));
      d = (db w)\<lparr>users := (users (db w))\<lparr>rows := rows (users (db w)) @ [u], next_id := next_id (users (db w)) + 1\<rparr>\<rparr>
    in client E None (PostRegister email p p) w =
        (Inr (Response 201 (RegisterBody reg)), w\<lparr>draws := draws w + 16, ticks := Suc (ticks w), db := d\<rparr>)
      \<and> verify_password E p pwh = Inr True \<and> accounts_ok d \<and> user_find email d = Some u
      \<and> (\<forall>other. other \<noteq> email \<longrightarrow> user_find other d = user_find other (db w))"
    using register_call [OF assms(1,2,5-7)] by blast
  define u where "u = new_user email pwh (isoformat (clock w (ticks w))) (next_id (users (db w)))"
  define d1 where "d1 = (db w)\<lparr>users := (users (db w))\<lparr>rows := rows (users (db w)) @ [u], next_id := next_id (users (db w)) + 1\<rparr>\<rparr>"
  let ?w1 = "w\<lparr>draws := draws w + 16, ticks := Suc (ticks w), db := d1\<rparr>"
  from r have r1: "client E None (PostRegister email p p) w = (Inr (Response 201 (RegisterBody reg)), ?w1)"
    "verify_password E p (usr_password_hash u) = Inr True" "accounts_ok d1" "user_find email d1 = Some u"
    "\<And>other. other \<noteq> email \<Longrightarrow> user_find other d1 = user_find other (db w)"
    by (simp_all add: Let_def u_def [symmetric] d1_def [symmetric]) (simp add: u_def new_user_def)
  have s1: "sessions d1 = sessions (db w)" "beside_account_tables d1 = beside_account_tables (db w)"
    by (simp_all add: d1_def beside_account_tables_def)
  have "usr_locked_until u = None" by (simp add: u_def new_user_def)
  moreover have "clock_ok E ?w1" using assms(3) by (simp add: clock_ok_def policy_def)
  moreover have "token_fresh E ?w1"
    using assms(8) by (auto simp: token_fresh_def next_token_def token_at_def s1)
  moreover have "\<not> exp \<le> clock ?w1 n" if "add_minutes (clock ?w1 k) (session_ttl_minutes (policy E ?w1)) = Inr exp" for k n exp
    using assms(4) that by (simp add: session_window_def policy_def)
  ultimately obtain res d h where l: "client E None (PostLogin email p) ?w1 =
        (Inr (Response 200 (LoginBody res)), ?w1\<lparr>ticks := ticks ?w1 + 3, draws := draws ?w1 + 32, db := d\<rparr>)"
    "accounts_ok d" "beside_account_tables d = beside_account_tables d1"
    "caller E (Some (lit ''Bearer'', login_token res)) email (?w1\<lparr>db := d\<rparr>)"
    "\<And>c e. caller E c e ?w1 \<Longrightarrow> caller E c e (?w1\<lparr>db := d\<rparr>)"
    "hash_token E (token_at ?w1 (draws ?w1)) = Inr h"
    "map ses_token_hash (rows (sessions d)) = map ses_token_hash (rows (sessions d1)) @ [h]"
    "\<And>other. user_find other d1 = None \<Longrightarrow> user_find other d = None"
    using login_call [of ?w1 E email p u] r1(2-4) assms(6) by auto
  have here: "caller E c e (?w1\<lparr>db := d\<rparr>) = caller E c e (w\<lparr>db := d\<rparr>)" for c e
    by (rule caller_cong) simp_all
  have kept: "caller E c e ?w1" if "caller E c e w" for c e
  proof -
    have "session_of g d1 = Some (s, v)" if "session_of g (db w) = Some (s, v)" for g s v
      using that unfolding session_of_Some_iff [OF assms(5)] session_of_Some_iff [OF r1(3)] by (simp add: d1_def)
    with \<open>caller E c e w\<close> show ?thesis unfolding caller_def by simp blast
  qed
  have "login E (email, p) w = (Inr (Some (lit ''Bearer'', login_token res)),
      w\<lparr>ticks := ticks w + 4, draws := draws w + 48, db := d\<rparr>)"
    using r1(1) l(1) by (simp add: login_def assert_def client_json_def op_run op_simps)
  moreover have "token_at ?w1 k = token_at w k" for k by (simp add: token_at_def)
  ultimately show ?thesis using l(2-8) here kept r1(5) s1
    by (intro exI [of _ "Some (lit ''Bearer'', login_token res)"] exI [of _ d] exI [of _ h]) simp
qed

section \<open>While the two sessions last\<close>

text \<open>The state the rest of the script works in: the vault is open under \<open>dek\<close>, the stored data
  is consistent and the two credentials stand for the two accounts.\<close>

definition working :: "ext \<Rightarrow> json \<Rightarrow> bytes \<Rightarrow> credentials \<Rightarrow> credentials \<Rightarrow> world \<Rightarrow> bool" where
  "working E config dek alice bob w \<longleftrightarrow>
     conf w = Some (Doc config) \<and> (\<forall>n. \<not> io_fault w n) \<and> vs_dek (vstate w) = Some dek \<and> length dek = 32 \<and> kv_ok (db w) \<and> nk_ok (db w) \<and> log_ok E (db w)
     \<and> keyring_sealed E dek (db w) \<and> caller E alice (fst ALICE) w \<and> caller E bob (fst BOB) w"

lemma bootstrap_ok:
  assumes "aead_ok E" "password_hash_ok E" "hashing_ok E (environ w)" "clock_ok E w" "session_window E w"
    and "conf w = None" "vs_dek (vstate w) = None" "\<And>n. \<not> io_fault w n"
    and "\<And>salt. length salt = 16 \<Longrightarrow> \<exists>key. length key = 32 \<and>
      derive_wrapping_key E (PyStr MASTER) salt (current_parameters (unicode E) (environ w)) = Inr key"
    and "users (db w) = empty_table" "sessions (db w) = empty_table" "schema_metadata (db w) HEAD_KEY = None"
    and "beside_account_tables (db w) =
      (empty_table, empty_table, empty_table, empty_table, empty_table, schema_metadata (db w))"
    and "hash_token E (token_at w (draws w + 76)) \<noteq> hash_token E (token_at w (draws w + 124))"
  shows "\<exists>alice bob dek w' config. bootstrap E w = (Inr (alice, bob), w') \<and> working E config dek alice bob w'
    \<and> beside_account_tables (db w') = beside_account_tables (db w)"
proof -
  obtain w1 w2 config dek where b: "client E None (PostInit MASTER) w =
      (Inr (Response 201 (StatusBody \<lparr>initialized = True, status_text = lit ''locked''\<rparr>)), w1)"
    "client E None (PostUnlock MASTER) w1 =
      (Inr (Response 200 (StatusBody \<lparr>initialized = True, status_text = lit ''unlocked''\<rparr>)), w2)"
    "w2 = w\<lparr>draws := draws w + 60, conf := Some (Doc config), conf_tmp := None, ios := ios w + 6,
        vstate := vstate w2\<rparr>"
    "vs_dek (vstate w2) = Some dek" "length dek = 32"
    using bootstrap_vault [OF assms(1,6,7,8,9)] by blast
  have f: "db w2 = db w" "clock w2 = clock w" "environ w2 = environ w" "entropy w2 = entropy w"
    "draws w2 = draws w + 60" "conf w2 = Some (Doc config)" "io_fault w2 = io_fault w"
    by (subst b(3), simp)+
  have policies: "hashing_ok E (environ v)" "clock_ok E v" "session_window E v" if "clock v = clock w" "environ v = environ w" for v
    using assms(3-5) that by (simp_all add: clock_ok_def session_window_def policy_def)
  have tokens: "token_at v k = token_at w k" if "entropy v = entropy w" for v k
    using that by (simp add: token_at_def)
  have none: "user_find e (db w) = None" for e by (simp add: assms(10) user_find_def tbl_one_def)
  have a: "(fst ALICE, snd ALICE) \<in> {ALICE, BOB}" "(fst BOB, snd BOB) \<in> {ALICE, BOB}" "fst BOB \<noteq> fst ALICE"
    by (simp, simp, simp add: ALICE_def BOB_def text_simps)
  have ok: "accounts_ok (db w2)" using assms(10,11) by (simp add: f(1) accounts_ok_def)
  obtain alice d h where l: "login E ALICE w2 = (Inr alice, w2\<lparr>ticks := ticks w2 + 4, draws := draws w2 + 48, db := d\<rparr>)"
    (is "_ = (_, ?w3)")
    "accounts_ok d" "beside_account_tables d = beside_account_tables (db w2)" "caller E alice (fst ALICE) (w2\<lparr>db := d\<rparr>)"
    "hash_token E (token_at w2 (draws w2 + 16)) = Inr h" "map ses_token_hash (rows (sessions d)) = [h]"
    "user_find (fst BOB) d = None"
    using login_script [OF assms(2) policies [OF f(2,3)] ok a(1)] none a(3) by (auto simp: f(1) assms(11))
  have h: "ses_token_hash ` set (rows (sessions (db ?w3))) = {h}"
    using arg_cong [OF l(6), of set] by simp
  have fresh: "g \<notin> ses_token_hash ` set (rows (sessions (db ?w3)))"
    if "hash_token E (token_at ?w3 (draws ?w3 + 16)) = Inr g" for g
    using that assms(14) l(5) tokens [of ?w3] tokens [of w2] unfolding h by (auto simp: f(4,5) add.assoc)
  have c: "caller E alice (fst ALICE) ?w3" using l(4) by (subst caller_cong [of _ "w2\<lparr>db := d\<rparr>"]) simp_all
  obtain bob d' where m: "login E BOB ?w3 = (Inr bob, ?w3\<lparr>ticks := ticks ?w3 + 4, draws := draws ?w3 + 48, db := d'\<rparr>)"
    (is "_ = (_, ?w4)")
    "accounts_ok d'" "beside_account_tables d' = beside_account_tables d" "caller E bob (fst BOB) (?w3\<lparr>db := d'\<rparr>)"
    "caller E alice (fst ALICE) (?w3\<lparr>db := d'\<rparr>)"
    using login_script [OF assms(2) policies _ a(2) _ fresh] l(2,7) c f(2,3) by auto
  have callers: "caller E alice (fst ALICE) ?w4" "caller E bob (fst BOB) ?w4"
    using m(4,5) by (subst caller_cong [of _ "?w3\<lparr>db := d'\<rparr>"], simp_all)+
  have t: "beside_account_tables (db ?w4) =
      (empty_table, empty_table, empty_table, empty_table, empty_table, schema_metadata (db w))"
    using m(3) l(3) f(1) assms(13) by simp
  have "kv_ok (db ?w4)" "nk_ok (db ?w4)" "log_ok E (db ?w4)" "keyring_sealed E dek (db ?w4)"
    using t assms(12)
    by (auto simp: beside_account_tables_def kv_ok_def nk_ok_def log_ok_def store_ok_def keyring_sealed_def
        key_find_def tbl_one_def)
  then have "working E config dek alice bob ?w4" using b(4,5) callers f(6,7) assms(8) by (simp add: working_def)
  moreover have "bootstrap E w = (Inr (alice, bob), ?w4)"
    using b(1,2) l(1) m(1) by (simp add: bootstrap_def assert_def op_run op_simps)
  ultimately show ?thesis using t assms(13)
    by (intro exI [of _ alice] exI [of _ bob] exI [of _ dek] exI [of _ ?w4] exI [of _ config]) simp
qed

end
