(* ===== verification/GeneratorRun.thy ===== *)
theory GeneratorRun
  imports GeneratorLaws
begin

text \<open>
  The run of the sample generator: what each of its calls on secrets and keys answers, and the
  whole script on a fresh installation.
\<close>

section \<open>What the calls leave alone\<close>

definition fixed_part :: "world \<Rightarrow> (nat \<Rightarrow> datetime) \<times> file_content option \<times> (nat \<Rightarrow> bool)" where
  "fixed_part w = (clock w, conf w, io_fault w)"

interpretation kv_people: beside_kv_service "\<lambda>w. (users (db w), sessions (db w))"
  by unfold_locales auto

interpretation kv_fixed: beside_kv_service fixed_part
  by unfold_locales (auto simp: clockless_def db_part_def fixed_part_def)

interpretation kv_keys: beside_kv_service "\<lambda>w. (named_keys (db w), named_key_versions (db w))"
  by unfold_locales auto

interpretation key_people: beside_key_service "\<lambda>w. (users (db w), sessions (db w))"
  by unfold_locales auto

interpretation key_fixed: beside_key_service fixed_part
  by unfold_locales (auto simp: clockless_def db_part_def fixed_part_def)

interpretation key_kv: beside_key_service "\<lambda>w. (kv_records (db w), kv_versions (db w))"
  by unfold_locales auto

lemma working_tick: "working E config dek a b (w\<lparr>ticks := n\<rparr>) = working E config dek a b w"
  by (simp add: working_def caller_cong [of "w\<lparr>ticks := n\<rparr>" w])

lemma working_step:
  assumes "working E config dek a b w" "m w = (r, w')"
    and "keeps vstate m" "keeps (\<lambda>w. (users (db w), sessions (db w))) m" "keeps fixed_part m"
    and "preserves (\<lambda>w. log_ok E (db w)) m" "kv_ok (db w')" "nk_ok (db w')" "keyring_sealed E dek (db w')"
  shows "working E config dek a b w'"
proof -
  have k: "vstate w' = vstate w" "users (db w') = users (db w)" "sessions (db w') = sessions (db w)"
    "clock w' = clock w" "conf w' = conf w" "io_fault w' = io_fault w"
    using keeps_run [OF assms(3,2)] keeps_run [OF assms(4,2)] keeps_run [OF assms(5,2)]
    by (simp_all add: fixed_part_def)
  have "log_ok E (db w')" using preserves_run [OF assms(6,2)] assms(1) by (simp add: working_def)
  with assms(1,7-9) k caller_cong [OF k(2-4)] show ?thesis by (simp add: working_def)
qed

text \<open>Calls on secrets keep the keys, calls on keys keep the secrets.\<close>

lemma working_kv:
  assumes "working E config dek a b w" "m w = (r, w')"
    and "keeps vstate m" "keeps (\<lambda>w. (users (db w), sessions (db w))) m" "keeps fixed_part m"
    and "keeps (\<lambda>w. (named_keys (db w), named_key_versions (db w))) m"
    and "preserves (\<lambda>w. log_ok E (db w)) m" "preserves (\<lambda>w. kv_ok (db w)) m"
  shows "working E config dek a b w'"
proof (rule working_step [OF assms(1-5,7)])
  have t: "named_keys (db w') = named_keys (db w)" "named_key_versions (db w') = named_key_versions (db w)"
    using keeps_run [OF assms(6,2)] by simp_all
  show "kv_ok (db w')" using preserves_run [OF assms(8,2)] assms(1) by (simp add: working_def)
  show "nk_ok (db w')" "keyring_sealed E dek (db w')"
    using assms(1) nk_cong(1) [OF t] keyring_sealed_cong [OF t] by (simp_all add: working_def)
qed

lemma working_keys:
  assumes "working E config dek a b w" "m w = (r, w')"
    and "keeps vstate m" "keeps (\<lambda>w. (users (db w), sessions (db w))) m" "keeps fixed_part m"
    and "keeps (\<lambda>w. (kv_records (db w), kv_versions (db w))) m" "preserves (\<lambda>w. log_ok E (db w)) m"
    and "nk_ok (db w')" "keyring_sealed E dek (db w')"
  shows "working E config dek a b w'"
proof (rule working_step [OF assms(1-5,7) _ assms(8,9)])
  have "kv_records (db w') = kv_records (db w)" "kv_versions (db w') = kv_versions (db w)"
    using keeps_run [OF assms(6,2)] by simp_all
  then show "kv_ok (db w')" using assms(1) kv_ok_cong [of "db w'" "db w"] by (simp add: working_def)
qed

lemmas working_write = working_kv [OF _ _ kv_vault.keeps_kv_service(1) kv_people.keeps_kv_service(1)
  kv_fixed.keeps_kv_service(1) kv_keys.keeps_kv_service(1) log_kv(1) preserves_kv_write]
lemmas working_read = working_kv [OF _ _ kv_vault.keeps_kv_service(2) kv_people.keeps_kv_service(2)
  kv_fixed.keeps_kv_service(2) kv_keys.keeps_kv_service(2) log_kv(2) preserves_kv_read]
lemmas working_create = working_keys [OF _ _ key_vault.keeps_key_service(1) key_people.keeps_key_service(1)
  key_fixed.keeps_key_service(1) key_kv.keeps_key_service(1) log_keys(1)]
lemmas working_create_signing = working_keys [OF _ _ key_vault.keeps_key_service(2) key_people.keeps_key_service(2)
  key_fixed.keeps_key_service(2) key_kv.keeps_key_service(2) log_keys(2)]
lemmas working_rotate = working_keys [OF _ _ key_vault.keeps_key_service(3) key_people.keeps_key_service(3)
  key_fixed.keeps_key_service(3) key_kv.keeps_key_service(3) log_keys(3)]
lemmas working_encrypt = working_keys [OF _ _ key_vault.keeps_key_service(6) key_people.keeps_key_service(6)
  key_fixed.keeps_key_service(6) key_kv.keeps_key_service(6) log_keys(6)]
lemmas working_decrypt = working_keys [OF _ _ key_vault.keeps_key_service(7) key_people.keeps_key_service(7)
  key_fixed.keeps_key_service(7) key_kv.keeps_key_service(7) log_keys(7)]

section \<open>Secrets\<close>

lemma sample_path_owner: "kv_owns E (fst ALICE) sample_path" "\<not> kv_owns E (fst BOB) sample_path"
proof -
  have p: "sample_path = PATH_PREFIX @ fst ALICE @ 47 # lit ''database''"
    by (simp add: sample_path_def PATH_PREFIX_def text_simps)
  have "py_lower (unicode E) (py_strip (unicode E) (fst ALICE)) = fst ALICE"
    using normal_emails(1) by (simp add: normalize_email_def)
  moreover have "47 \<notin> set (fst ALICE)" "fst ALICE \<noteq> []" "lit ''database'' \<noteq> []"
    by (simp_all add: ALICE_def text_simps)
  ultimately show a: "kv_owns E (fst ALICE) sample_path"
    unfolding kv_owns_def extract_owner_Inr p by (metis (no_types))
  have "fst ALICE \<noteq> fst BOB" by (simp add: ALICE_def BOB_def text_simps)
  with a show "\<not> kv_owns E (fst BOB) sample_path" by (simp add: kv_owns_def)
qed

lemma kv_write_tables:
  assumes "kv_ok (db w)" "kv_write E owner path data w = (Inr res, w')"
  shows "\<exists>stamp enc. db w' = kv_appended owner path stamp enc (db w)"
proof -
  from assms(2) obtain dek pt where
    a: "append_version owner path (kv_encrypt_for E dek pt owner path) w = (Inr res, w')"
    by (auto simp: kv_write_def bindM_Inr_iff op_simps kv_authorize_Inr split: option.splits if_splits)
  have fr: "db u' = db u" if "kv_encrypt_for E dek pt owner path n u = (r, u')" for n u r u'
    using kv_encrypt_for_world [OF that] by auto
  let ?w = "w\<lparr>ticks := Suc (ticks w), db := kv_prepared owner path (isoformat (clock w (ticks w))) (db w)\<rparr>"
  obtain r u where e: "kv_encrypt_for E dek pt owner path (kv_next owner path (db w)) ?w = (r, u)"
    by (rule prod.exhaust)
  have b: "list_all scalar owner" "list_all scalar path" "kv_next owner path (db w) < 2 ^ 63"
    using append_version_bound [OF a] by simp_all
  from append_version_run [OF assms(1) b fr] a e obtain enc where
    "r = Inr enc" "w' = u\<lparr>db := kv_appended owner path (isoformat (clock w (ticks w))) enc (db w)\<rparr>"
    by (cases r) (auto simp: Let_def)
  then have "db w' = kv_appended owner path (isoformat (clock w (ticks w))) enc (db w)" by simp
  then show ?thesis by blast
qed

lemma kv_frame_trans: "kv_frame d1 d2 \<Longrightarrow> kv_frame d2 d3 \<Longrightarrow> kv_frame d1 d3"
  by (cases d1; cases d2; cases d3) (simp add: kv_frame_def)

lemma marker_json:
  assumes "list_all scalar m"
  shows "\<exists>js pt. json_dumps (JObj [(lit ''password'', JStr m)]) = Inr js \<and> utf8_encode js = Inr pt"
proof -
  have w: "wf_json F (JObj [(lit ''password'', JStr m)])" for F using assms by (simp add: scalar_lit)
  obtain js where js: "json_dumps (JObj [(lit ''password'', JStr m)]) = Inr js" using json_dumps_ok [OF w] by blast
  then have "list_all scalar js"
    using scalar_dump_text [of "JObj [(lit ''password'', JStr m)]"] assms
    by (auto simp: json_dumps_def scalar_lit split: if_splits)
  with js utf8_encode_ok show ?thesis by blast
qed

lemma write_call:
  assumes "working E config dek alice bob w" "list_all scalar m" "length (kv_past (db w) (fst ALICE, sample_path)) < 2 ^ 62"
  shows "\<exists>res w' stamp enc. client E alice (PostEntry sample_path [(lit ''password'', JStr m)]) w =
      (Inr (Response 200 (WriteBody res)), w')
    \<and> working E config dek alice bob w' \<and> db w' = kv_appended (fst ALICE) sample_path stamp enc (db w)"
proof -
  let ?w = "w\<lparr>ticks := Suc (ticks w)\<rparr>"
  have W: "working E config dek alice bob ?w" using assms(1) by (simp add: working_tick)
  then have W': "kv_ok (db ?w)" "vs_dek (vstate ?w) = Some dek" "length dek = 32" "caller E alice (fst ALICE) w"
    using assms(1) by (simp_all add: working_def)
  obtain js pt where j: "json_dumps (JObj [(lit ''password'', JStr m)]) = Inr js" "utf8_encode js = Inr pt"
    using marker_json [OF assms(2)] by blast
  obtain res w' where k: "kv_write E (fst ALICE) sample_path [(lit ''password'', JStr m)] ?w = (Inr res, w')"
    using kv_write_ok [OF W'(1) sample_path_owner(1) [of E] W'(2,3) j] assms(3) by auto
  have q: "kv_write_request sample_path [(lit ''password'', JStr m)] = Some (sample_path, [(lit ''password'', JStr m)])"
    by (simp add: kv_write_request_def str_field_def text_field_def text_lengths scalar_lit accept_def)
  have "client E alice (PostEntry sample_path [(lit ''password'', JStr m)]) w = (Inr (Response 200 (WriteBody res)), w')"
    using k q by (auto intro!: client_Inr authenticated_run [OF W'(4)]
        simp: write_entry_route_def validated_def answer_def op_run op_simps)
  with working_write [OF W k] kv_write_tables [OF W'(1) k] show ?thesis by auto
qed

text \<open>The tables after the two writes of the script.\<close>

lemma two_writes:
  assumes "kv_records d = empty_table" "kv_versions d = empty_table"
    and "d2 = kv_appended o' p s2 e2 (kv_appended o' p s1 e1 d)"
  shows "\<exists>r v1 v2. rows (kv_records d2) = [r] \<and> rows (kv_versions d2) = [v1, v2] \<and> rec_key r = (o', p)
    \<and> rec_latest_version r = 2 \<and> kvv_record_id v1 = rec_id r \<and> kvv_record_id v2 = rec_id r
    \<and> kvv_version v1 = 1 \<and> kvv_version v2 = 2 \<and> kvv_created_at v1 = s1 \<and> kvv_created_at v2 = s2"
  by (simp add: assms kv_appended_def kv_prepared_def kv_find_def tbl_one_def rec_key_def kv_update_record_def
      rec_bump_def kv_row_def kv_target_def kv_next_def)

lemma versions_call:
  assumes "working E config dek alice bob w" "kv_find (fst ALICE) sample_path (db w) = Some r"
    and "kv_past (db w) (fst ALICE, sample_path) \<noteq> []"
  shows "client E alice (GetVersions sample_path) w =
    (Inr (Response 200 (VersionsBody \<lparr>versions_path = sample_path, versions_latest = rec_latest_version r,
       versions_list = map (\<lambda>v. (kvv_version v, kvv_created_at v)) (kv_past (db w) (fst ALICE, sample_path))\<rparr>)),
     w\<lparr>ticks := Suc (ticks w)\<rparr>)"
proof -
  have W: "kv_ok (db w)" "vs_dek (vstate w) = Some dek" "caller E alice (fst ALICE) w"
    using assms(1) by (simp_all add: working_def)
  let ?w = "w\<lparr>ticks := Suc (ticks w)\<rparr>"
  from assms(3) have "kv_versions_of E (fst ALICE) sample_path ?w = (Inr \<lparr>versions_path = sample_path, versions_latest = rec_latest_version r,
       versions_list = map (\<lambda>v. (kvv_version v, kvv_created_at v)) (kv_past (db w) (fst ALICE, sample_path))\<rparr>, ?w)"
    using kv_list_versions_run [of ?w "fst ALICE" sample_path] W assms(2)
    by (simp add: kv_versions_of_def kv_authorize_owner [OF sample_path_owner(1)] op_run op_simps last_map comp_def)
  moreover have "path_query sample_path = Some sample_path"
    by (simp add: path_query_def str_field_def text_field_def text_lengths accept_def)
  ultimately show ?thesis
    by (auto intro!: client_Inr authenticated_run [OF W(3)]
        simp: list_entry_versions_route_def validated_def answer_def op_run op_simps)
qed

definition kv_collected :: "kv_samples \<Rightarrow> bool" where
  "kv_collected kv \<longleftrightarrow> kvs_path kv = sample_path
     \<and> (\<exists>t1 t2. kvs_version_metadata kv = VersionsBody \<lparr>versions_path = sample_path, versions_latest = 2,
          versions_list = [(1, t1), (2, t2)]\<rparr>)
     \<and> map (\<lambda>(o', p, n, _). (o', p, n)) (kvs_rows kv) =
        [(fst ALICE, sample_path, 1), (fst ALICE, sample_path, 2)]"

lemma kv_samples_ok:
  assumes "working E config dek alice bob w" "kv_records (db w) = empty_table" "kv_versions (db w) = empty_table"
  shows "\<exists>kv w'. build_kv_samples E alice w = (Inr kv, w') \<and> working E config dek alice bob w'
    \<and> kv_frame (db w) (db w') \<and> kv_collected kv"
proof -
  let ?k = "(fst ALICE, sample_path)"
  have "kv_past (db w) ?k = []" using assms(2) by (simp add: kv_past_def kv_history_def history_def)
  then obtain res1 w1 s1 e1 where w1:
    "client E alice (PostEntry sample_path [(lit ''password'', JStr DB_PASSWORD)]) w = (Inr (Response 200 (WriteBody res1)), w1)"
    "working E config dek alice bob w1" "db w1 = kv_appended (fst ALICE) sample_path s1 e1 (db w)"
    using write_call [OF assms(1), of DB_PASSWORD] by auto
  have k0: "kv_ok (db w)" "kv_ok (db w1)" using assms(1) w1(2) by (simp_all add: working_def)
  have "length (kv_past (db w1) ?k) = 1"
    using kv_appended_ok [OF k0(1), of "fst ALICE" sample_path s1 e1] \<open>kv_past (db w) ?k = []\<close>
    by (simp add: w1(3) kv_past_def)
  then obtain res2 w2 s2 e2 where w2:
    "client E alice (PostEntry sample_path [(lit ''password'', JStr ROTATED_PASSWORD)]) w1 = (Inr (Response 200 (WriteBody res2)), w2)"
    "working E config dek alice bob w2" "db w2 = kv_appended (fst ALICE) sample_path s2 e2 (db w1)"
    using write_call [OF w1(2), of ROTATED_PASSWORD] by auto
  obtain r v1 v2 where t: "rows (kv_records (db w2)) = [r]" "rows (kv_versions (db w2)) = [v1, v2]"
    "rec_key r = ?k" "rec_latest_version r = 2" "kvv_record_id v1 = rec_id r" "kvv_record_id v2 = rec_id r"
    "kvv_version v1 = 1" "kvv_version v2 = 2"
    using two_writes [OF assms(2,3) w2(3) [unfolded w1(3)]] by blast
  have p: "kv_find (fst ALICE) sample_path (db w2) = Some r" "kv_past (db w2) ?k = [v1, v2]"
    using t by (simp_all add: kv_find_def tbl_one_def kv_past_def kv_history_def history_def children_def)
  note v = versions_call [OF w2(2) p(1), unfolded p(2), simplified t]
  have "kv_frame (db w) (db w2)"
    using kv_frame_trans [of "db w" "db w1" "db w2"] kv_appended_ok [OF k0(1)] kv_appended_ok [OF k0(2)] w1(3) w2(3)
    by metis
  moreover have "map (\<lambda>(o', p, n, _). (o', p, n)) (dump_kv (db w2)) = [(fst ALICE, sample_path, 1), (fst ALICE, sample_path, 2)]"
    using t by (simp add: dump_kv_def rec_key_def)
  moreover have "working E config dek alice bob (w2\<lparr>ticks := Suc (ticks w2)\<rparr>)" using w2(2) by (simp add: working_tick)
  ultimately show ?thesis using w1(1) w2(1) v t(7,8)
    by (simp add: kv_collected_def build_kv_samples_def client_json_def dump_table_def op_run op_simps)
qed

section \<open>Keys\<close>

abbreviation (input) "aes_name \<equiv> lit ''demo-aes''"
abbreviation (input) "sign_name \<equiv> lit ''demo-sign''"

lemma key_names: "key_name_ok aes_name" "key_name_ok sign_name"
  by code_simp+

lemma key_fields: "str_field 1 64 aes_name" "str_field 1 64 sign_name"
  by (simp_all add: str_field_def text_field_def scalar_lit)

lemma create_tables:
  assumes "nk_ok (db w)"
    and "bindM (nk_create owner name usage (usage_algorithm usage) (wrap_for E usage owner name)) metadata w = (Inr md, w')"
  shows "\<exists>stamp x. db w' = nk_created owner name usage (usage_algorithm usage) stamp x (db w)"
proof -
  from assms(2) obtain row w1 where c:
    "nk_create owner name usage (usage_algorithm usage) (wrap_for E usage owner name) w = (Inr row, w1)" "w' = w1"
    by (auto simp: bindM_Inr_iff dest: metadata_world)
  from nk_create_cases [OF assms(1) c(1)] c(2) show ?thesis by blast
qed

lemma create_key_call:
  assumes "aead_ok E" "working E config dek alice bob w" "key_find (fst ALICE) aes_name (db w) = None"
  shows "\<exists>md w' stamp x. client E alice (PostKey aes_name) w = (Inr (Response 201 (KeyBody md)), w')
    \<and> working E config dek alice bob w'
    \<and> db w' = nk_created (fst ALICE) aes_name ENCRYPT_DECRYPT None stamp x (db w)"
proof -
  let ?w = "w\<lparr>ticks := Suc (ticks w)\<rparr>"
  have W: "working E config dek alice bob ?w" using assms(2) by (simp add: working_tick)
  then have W': "nk_ok (db ?w)" "keyring_sealed E dek (db ?w)" "vs_dek (vstate ?w) = Some dek" "length dek = 32"
    "caller E alice (fst ALICE) w" "key_find (fst ALICE) aes_name (db ?w) = None"
    using assms(2,3) by (simp_all add: working_def)
  obtain md w' where k: "create_key E (fst ALICE) aes_name ?w = (Inr md, w')" "nk_ok (db w')" "keyring_sealed E dek (db w')"
    using create_key_ok [OF assms(1) W'(1-4) scalar_texts(2) key_names(1) W'(6)] by blast
  have t: "\<exists>stamp x. db w' = nk_created (fst ALICE) aes_name ENCRYPT_DECRYPT None stamp x (db ?w)"
  proof -
    have "bindM (nk_create (fst ALICE) aes_name ENCRYPT_DECRYPT (usage_algorithm ENCRYPT_DECRYPT)
        (wrap_for E ENCRYPT_DECRYPT (fst ALICE) aes_name)) metadata ?w = (Inr md, w')"
      using k(1) W'(3) key_names(1) by (simp add: create_key_def wrap_aes_for usage_algorithm_def bindM_run [of "liftR _"]
          bindM_run [of require_unlocked] op_simps validate_key_name_def)
    from create_tables [OF W'(1) this] show ?thesis by (simp add: usage_algorithm_def)
  qed
  have "client E alice (PostKey aes_name) w = (Inr (Response 201 (KeyBody md)), w')"
    using k(1) key_fields by (auto intro!: client_Inr authenticated_run [OF W'(5)]
        simp: create_key_route_def create_key_request_def validated_def answer_def op_run op_simps accept_def
        simp del: One_nat_def)
  with working_create [OF W k] t show ?thesis by auto
qed

lemma create_signing_key_call:
  assumes "aead_ok E" "working E config dek alice bob w" "key_find (fst ALICE) sign_name (db w) = None"
  shows "\<exists>md w' stamp x. client E alice (PostSigningKey sign_name (Some (lit ''ED25519''))) w =
      (Inr (Response 201 (KeyBody md)), w')
    \<and> working E config dek alice bob w'
    \<and> db w' = nk_created (fst ALICE) sign_name SIGN_VERIFY (Some ED25519) stamp x (db w)"
proof -
  let ?w = "w\<lparr>ticks := Suc (ticks w)\<rparr>" and ?a = "lit ''ED25519''"
  have W: "working E config dek alice bob ?w" using assms(2) by (simp add: working_tick)
  then have W': "nk_ok (db ?w)" "keyring_sealed E dek (db ?w)" "vs_dek (vstate ?w) = Some dek" "length dek = 32"
    "caller E alice (fst ALICE) w" "key_find (fst ALICE) sign_name (db ?w) = None"
    using assms(2,3) by (simp_all add: working_def)
  have a: "py_upper (unicode E) ?a = ED25519"
    by (simp add: py_upper_def ascii_upper_def ED25519_def text_simps)
  obtain md w' where k: "create_signing_key E (fst ALICE) sign_name ?a ?w = (Inr md, w')" "nk_ok (db w')"
    "keyring_sealed E dek (db w')"
    using create_signing_key_ok [OF assms(1) W'(1-4) scalar_texts(2) key_names(2) W'(6) a] by blast
  have t: "\<exists>stamp x. db w' = nk_created (fst ALICE) sign_name SIGN_VERIFY (Some ED25519) stamp x (db ?w)"
  proof -
    have "bindM (nk_create (fst ALICE) sign_name SIGN_VERIFY (usage_algorithm SIGN_VERIFY)
        (wrap_for E SIGN_VERIFY (fst ALICE) sign_name)) metadata ?w = (Inr md, w')"
      using k(1) W'(3) key_names(2) a by (simp add: create_signing_key_def wrap_ed25519_for usage_algorithm_def
          bindM_run [of "liftR _"] bindM_run [of "raise_if _ _"] bindM_run [of require_unlocked] op_simps
          validate_key_name_def)
    from create_tables [OF W'(1) this] show ?thesis by (simp add: usage_algorithm_def)
  qed
  have "client E alice (PostSigningKey sign_name (Some ?a)) w = (Inr (Response 201 (KeyBody md)), w')"
    using k(1) key_fields by (auto intro!: client_Inr authenticated_run [OF W'(5)]
        simp: create_signing_key_route_def create_signing_key_request_def default_field_def validated_def answer_def
          op_run op_simps accept_def text_field_def scalar_lit Let_def
        simp del: One_nat_def)
  with working_create_signing [OF W k] t show ?thesis by auto
qed

lemma rotate_call:
  assumes "aead_ok E" "working E config dek alice bob w" "key_find (fst ALICE) aes_name (db w) = Some r"
    and "key_latest_version r + 1 < 2 ^ 63"
  shows "\<exists>md w' stamp x. client E alice (PostRotate aes_name) w = (Inr (Response 200 (KeyBody md)), w')
    \<and> working E config dek alice bob w'
    \<and> db w' = nk_rotated (key_id r) (key_latest_version r + 1) stamp x (db w)"
proof -
  let ?w = "w\<lparr>ticks := Suc (ticks w)\<rparr>"
  have W: "working E config dek alice bob ?w" using assms(2) by (simp add: working_tick)
  then have W': "nk_ok (db ?w)" "keyring_sealed E dek (db ?w)" "vs_dek (vstate ?w) = Some dek" "length dek = 32"
    "caller E alice (fst ALICE) w" "key_find (fst ALICE) aes_name (db ?w) = Some r"
    using assms(2,3) by (simp_all add: working_def)
  obtain md w' where k: "rotate_key E (fst ALICE) aes_name ?w = (Inr md, w')" "nk_ok (db w')" "keyring_sealed E dek (db w')"
    using rotate_key_ok [OF assms(1) W'(1-4) scalar_texts(2) key_names(1) W'(6) assms(4)] by blast
  have t: "\<exists>stamp x. db w' = nk_rotated (key_id r) (key_latest_version r + 1) stamp x (db ?w)"
  proof -
    have wr: "(if key_usage r = ENCRYPT_DECRYPT then wrap_aes E (fst ALICE) aes_name else wrap_ed25519 E (fst ALICE) aes_name) =
        wrap_for E (key_usage r) (fst ALICE) aes_name" by (simp add: wrap_for_def)
    from k(1) W'(3) obtain q w1 where c: "nk_rotate (fst ALICE) aes_name (wrap_for E (key_usage r) (fst ALICE) aes_name) ?w = (Inr q, w1)" "w' = w1" "q \<noteq> None"
      by (auto simp: rotate_key_def owned_key_found [OF key_names(1) scalar_texts(2) W'(6)] bindM_Inr_iff op_simps wr
          dest!: metadata_world split: option.splits)
    from nk_rotate_cases [OF W'(1) c(1)] c(3) W'(6) obtain x stamp where
      "db w1 = nk_rotated (key_id r) (key_latest_version r + 1) stamp x (db ?w)" by auto
    with c(2) show ?thesis by blast
  qed
  have "client E alice (PostRotate aes_name) w = (Inr (Response 200 (KeyBody md)), w')"
    using k(1) by (auto intro!: client_Inr authenticated_run [OF W'(5)]
        simp: rotate_key_route_def answer_def op_run op_simps)
  with working_rotate [OF W k] t show ?thesis by auto
qed

section \<open>Encryption\<close>

lemma format_scalar: "format_ciphertext name n b = Inr c \<Longrightarrow> list_all scalar c"
  using key_name_scalar [of name] ascii_encode_b64 [THEN ascii_scalar]
  by (auto simp: format_ciphertext_def Let_def CIPHERTEXT_PREFIX_def scalar_lit scalar_dec_int split: if_splits)

lemma encrypt_call:
  assumes "aead_ok E" "working E config dek alice bob w" "key_find (fst ALICE) aes_name (db w) = Some r"
    and "key_usage r = ENCRYPT_DECRYPT" "key_latest_version r = n" "n \<le> 999999999"
    and "decode_b64 (PyStr p64) = Inr pt" "list_all scalar p64"
  shows "\<exists>c w'. client E alice (PostEncrypt aes_name p64) w =
      (Inr (Response 200 (EncryptBody \<lparr>enc_key_name = aes_name, enc_key_version = n, enc_ciphertext = c\<rparr>)), w')
    \<and> working E config dek alice bob w' \<and> db w' = db w \<and> list_all scalar c
    \<and> (\<exists>parsed. parse_ciphertext (PyStr c) = Inr parsed \<and> tc_key_name parsed = aes_name)
    \<and> transit_decrypt E (fst ALICE) c w' =
      (Inr \<lparr>dec_key_name = aes_name, dec_key_version = n, dec_plaintext_b64 = encode_b64 pt\<rparr>, w')"
proof -
  let ?w = "w\<lparr>ticks := Suc (ticks w)\<rparr>"
  have W: "working E config dek alice bob ?w" using assms(2) by (simp add: working_tick)
  then have W': "nk_ok (db ?w)" "keyring_sealed E dek (db ?w)" "vs_dek (vstate ?w) = Some dek"
    "caller E alice (fst ALICE) w" "key_find (fst ALICE) aes_name (db ?w) = Some r"
    using assms(2,3) by (simp_all add: working_def)
  have n: "key_latest_version r \<le> 999999999" "key_latest_version r < 2 ^ 63" using assms(5,6) by simp_all
  obtain c w' where k: "transit_encrypt E (fst ALICE) aes_name p64 ?w =
      (Inr \<lparr>enc_key_name = aes_name, enc_key_version = n, enc_ciphertext = c\<rparr>, w')" "db w' = db ?w"
    "transit_decrypt E (fst ALICE) c w' =
      (Inr \<lparr>dec_key_name = aes_name, dec_key_version = n, dec_plaintext_b64 = encode_b64 pt\<rparr>, w')"
    using decrypt_of_encrypt [OF assms(1) W'(1-3) key_names(1) scalar_texts(2) W'(5) assms(4) n(1) assms(7)]
    unfolding assms(5) by blast
  obtain b where "format_ciphertext aes_name (key_latest_version r) b = Inr c"
    using transit_encrypt_run [OF W'(1-3) key_names(1) scalar_texts(2) W'(5) assms(4) n(2) assms(7)] k(1) by auto
  then have sc: "list_all scalar c" by (rule format_scalar)
  have nk: "nk_ok (db w')" "keyring_sealed E dek (db w')" using W' k(2) by simp_all
  obtain parsed r' where p: "parse_ciphertext (PyStr c) = Inr parsed"
    "decrypt_answer E dek (fst ALICE) parsed r' (nk_versions (db w') r') =
      Inr \<lparr>dec_key_name = aes_name, dec_key_version = n, dec_plaintext_b64 = encode_b64 pt\<rparr>"
    using W'(3) keeps_run [OF key_vault.keeps_key_service(6) k(1)] by (auto intro: transit_decrypt_Inr [OF nk(1) k(3)])
  then have "tc_key_name parsed = aes_name" by (auto simp: decrypt_answer_def Let_def bindR_Inr_iff split: if_splits)
  moreover have "client E alice (PostEncrypt aes_name p64) w =
      (Inr (Response 200 (EncryptBody \<lparr>enc_key_name = aes_name, enc_key_version = n, enc_ciphertext = c\<rparr>)), w')"
    using k(1) key_fields assms(8) by (auto intro!: client_Inr authenticated_run [OF W'(4)]
        simp: encrypt_route_def encrypt_request_def validated_def answer_def op_run op_simps accept_def text_field_def
        simp del: One_nat_def)
  ultimately show ?thesis using working_encrypt [OF W k(1) nk] k(2,3) p(1) sc by auto
qed

text \<open>The owner can decrypt as long as the keyring only grows.\<close>

lemma decrypt_call:
  assumes "working E config dek alice bob v" "nk_ok (db w)" "transit_decrypt E (fst ALICE) c w = (Inr res, w1)"
    and "keyring_extends (db w) (db v)" "vs_dek (vstate w) = Some dek" "list_all scalar c"
  shows "client E alice (PostDecrypt c) v = (Inr (Response 200 (DecryptBody res)), v\<lparr>ticks := Suc (ticks v)\<rparr>)"
proof -
  let ?v = "v\<lparr>ticks := Suc (ticks v)\<rparr>"
  have W: "caller E alice (fst ALICE) v" "vs_dek (vstate v) = Some dek" using assms(1) by (simp_all add: working_def)
  have "transit_decrypt E (fst ALICE) c ?v = (Inr res, ?v)"
    using transit_decrypt_extends [OF assms(2,3), of ?v] assms(4,5) W(2) by simp
  with assms(6) show ?thesis by (auto intro!: client_Inr authenticated_run [OF W(1)]
      simp: decrypt_route_def decrypt_request_def validated_def answer_def op_run op_simps accept_def text_field_def)
qed

section \<open>Refusals\<close>

definition denied_body :: body where
  "denied_body = ErrorBody (lit ''PERMISSION_DENIED'') (lit ''The key is unavailable'')"

lemma denied_responses:
  "error_response (Transit KeyUnavailableError) = Response 403 denied_body"
  "error_response (Kv PermissionDeniedError) =
     Response 403 (ErrorBody (lit ''PERMISSION_DENIED'') (lit ''You do not have access to this resource''))"
  by (simp_all add: error_response_def handlers_def List.map_filter_def denied_body_def)

definition denied_row :: "pystr \<Rightarrow> audit_row \<Rightarrow> bool" where
  "denied_row target r \<longleftrightarrow> aud_requester_email r = Some (fst BOB) \<and> aud_action r = ACCESS_DENIED
     \<and> aud_target_identifier r = target"

lemma owned_denied:
  assumes "working E config dek alice bob w" "key_find (fst BOB) aes_name (db w) = None"
    and "length (rows (audit_logs (db w))) < 2 ^ 62"
  shows "\<exists>r w'. owned_key E (fst BOB) aes_name (w\<lparr>ticks := Suc (ticks w)\<rparr>) = (Inl (Transit KeyUnavailableError), w')
    \<and> nk_ok (db w') \<and> keyring_sealed E dek (db w')
    \<and> named_keys (db w') = named_keys (db w) \<and> named_key_versions (db w') = named_key_versions (db w)
    \<and> rows (audit_logs (db w')) = rows (audit_logs (db w)) @ [r] \<and> denied_row aes_name r"
proof -
  let ?w = "w\<lparr>ticks := Suc (ticks w)\<rparr>"
  have W: "log_ok E (db ?w)" "nk_ok (db w)" "keyring_sealed E dek (db w)" using assms(1) by (simp_all add: working_def)
  obtain r w' where d: "owned_key E (fst BOB) aes_name ?w = (Inl (Transit KeyUnavailableError), w')"
    "named_keys (db w') = named_keys (db w)" "named_key_versions (db w') = named_key_versions (db w)"
    "rows (audit_logs (db w')) = rows (audit_logs (db w)) @ [r]" "denied_row aes_name r"
    using owned_key_denied [OF key_names(1) scalar_texts(4) _ W(1)] assms(2,3) by (auto simp: denied_row_def)
  with W(2,3) nk_cong(1) [OF d(2,3)] keyring_sealed_cong [OF d(2,3)] show ?thesis by auto
qed

lemma decrypt_denied_call:
  assumes "working E config dek alice bob w" "key_find (fst BOB) aes_name (db w) = None"
    and "length (rows (audit_logs (db w))) < 2 ^ 62" "list_all scalar c"
    and "parse_ciphertext (PyStr c) = Inr parsed" "tc_key_name parsed = aes_name"
  shows "\<exists>r w'. client E bob (PostDecrypt c) w = (Inr (Response 403 denied_body), w')
    \<and> working E config dek alice bob w'
    \<and> named_keys (db w') = named_keys (db w) \<and> named_key_versions (db w') = named_key_versions (db w)
    \<and> rows (audit_logs (db w')) = rows (audit_logs (db w)) @ [r] \<and> denied_row aes_name r"
proof -
  let ?w = "w\<lparr>ticks := Suc (ticks w)\<rparr>"
  obtain r w' where d: "owned_key E (fst BOB) aes_name ?w = (Inl (Transit KeyUnavailableError), w')"
    "nk_ok (db w')" "keyring_sealed E dek (db w')"
    "named_keys (db w') = named_keys (db w)" "named_key_versions (db w') = named_key_versions (db w)"
    "rows (audit_logs (db w')) = rows (audit_logs (db w)) @ [r]" "denied_row aes_name r"
    using owned_denied [OF assms(1-3)] by blast
  have W: "working E config dek alice bob ?w" "caller E bob (fst BOB) w"
    using assms(1) by (simp_all add: working_tick) (simp add: working_def)
  have k: "transit_decrypt E (fst BOB) c ?w = (Inl (Transit KeyUnavailableError), w')"
    using d(1) assms(5,6) by (simp add: transit_decrypt_def op_run op_simps)
  have "client E bob (PostDecrypt c) w = (Inr (Response 403 denied_body), w')"
    using k assms(4) by (intro client_Inl [OF _ denied_responses(1)])
      (auto intro!: authenticated_run [OF W(2)] simp: decrypt_route_def decrypt_request_def validated_def answer_def
        op_run op_simps accept_def text_field_def denied_body_def)
  with d(4-7) working_decrypt [OF W(1) k d(2,3)] show ?thesis by blast
qed

lemma encrypt_denied_call:
  assumes "working E config dek alice bob w" "key_find (fst BOB) aes_name (db w) = None"
    and "length (rows (audit_logs (db w))) < 2 ^ 62" "list_all scalar p64"
  shows "\<exists>r w'. client E bob (PostEncrypt aes_name p64) w = (Inr (Response 403 denied_body), w')
    \<and> working E config dek alice bob w'
    \<and> rows (audit_logs (db w')) = rows (audit_logs (db w)) @ [r] \<and> denied_row aes_name r"
proof -
  let ?w = "w\<lparr>ticks := Suc (ticks w)\<rparr>"
  obtain r w' where d: "owned_key E (fst BOB) aes_name ?w = (Inl (Transit KeyUnavailableError), w')"
    "nk_ok (db w')" "keyring_sealed E dek (db w')"
    "rows (audit_logs (db w')) = rows (audit_logs (db w)) @ [r]" "denied_row aes_name r"
    using owned_denied [OF assms(1-3)] by blast
  have W: "working E config dek alice bob ?w" "caller E bob (fst BOB) w"
    using assms(1) by (simp_all add: working_tick) (simp add: working_def)
  have k: "transit_encrypt E (fst BOB) aes_name p64 ?w = (Inl (Transit KeyUnavailableError), w')"
    using d(1) by (simp add: transit_encrypt_def op_run op_simps)
  have "client E bob (PostEncrypt aes_name p64) w = (Inr (Response 403 denied_body), w')"
    using k assms(4) key_fields by (intro client_Inl [OF _ denied_responses(1)])
      (auto intro!: authenticated_run [OF W(2)] simp: encrypt_route_def encrypt_request_def validated_def answer_def
        op_run op_simps accept_def text_field_def denied_body_def simp del: One_nat_def)
  with d(4,5) working_encrypt [OF W(1) k d(2,3)] show ?thesis by blast
qed

lemma read_denied_call:
  assumes "working E config dek alice bob w" "length (rows (audit_logs (db w))) < 2 ^ 62"
  shows "\<exists>r w'. (\<exists>b. client E bob (GetEntry sample_path None) w = (Inr (Response 403 b), w'))
    \<and> working E config dek alice bob w'
    \<and> named_keys (db w') = named_keys (db w) \<and> named_key_versions (db w') = named_key_versions (db w)
    \<and> rows (audit_logs (db w')) = rows (audit_logs (db w)) @ [r] \<and> denied_row sample_path r"
proof -
  let ?w = "w\<lparr>ticks := Suc (ticks w)\<rparr>"
  have W: "working E config dek alice bob ?w" "caller E bob (fst BOB) w" "log_ok E (db ?w)"
    using assms(1) by (simp_all add: working_tick) (simp_all add: working_def)
  obtain r w' where l: "log_denied_access E (fst BOB) (lit ''kv_path'') sample_path ?w = (Inr (), w')"
    "rows (audit_logs (db w')) = rows (audit_logs (db w)) @ [r]" "denied_row sample_path r"
    using log_denied_ok [OF W(3) _ scalar_texts(4) _ scalar_texts(9), of "lit ''kv_path''"] assms(2)
    by (auto simp: scalar_lit denied_row_def)
  have k: "kv_read E (fst BOB) sample_path PyNone ?w = (Inl (Kv PermissionDeniedError), w')"
    using l(1) by (simp add: kv_read_def kv_authorize_other [OF sample_path_owner(2)] op_run op_simps)
  have "client E bob (GetEntry sample_path None) w = (Inr (Response 403 (ErrorBody (lit ''PERMISSION_DENIED'')
      (lit ''You do not have access to this resource''))), w')"
    using k by (intro client_Inl [OF _ denied_responses(2)])
      (auto intro!: authenticated_run [OF W(2)] simp: read_entry_route_def kv_read_query_def positive_field_def
        str_field_def text_field_def text_lengths validated_def answer_def op_run op_simps accept_def)
  with l(2,3) working_read [OF W(1) k] keeps_run [OF kv_keys.keeps_kv_service(2) k] show ?thesis by auto
qed

section \<open>Signatures\<close>

lemma raw_digest:
  "decode_b64 (PyStr p64) = Inr pt \<Longrightarrow> message_digest E p64 (lit ''RAW'') = Inr (sha256_digest E pt)"
  by (simp add: message_digest_def decode_payload_def py_upper_def ascii_upper_def RAW_def text_simps Let_def)

lemma ed25519_algorithm:
  "key_signing_algorithm r = Some ED25519 \<Longrightarrow> validate_algorithm E r (lit ''ED25519'') = Inr ()"
  by (simp add: validate_algorithm_def py_upper_def ascii_upper_def ED25519_def text_simps)

text \<open>The one version of the signing key, with the seed it wraps.\<close>

definition signs_with :: "ext \<Rightarrow> bytes \<Rightarrow> database \<Rightarrow> named_key_row \<Rightarrow> bool" where
  "signs_with E m d r \<longleftrightarrow> length m = 32 \<and> key_usage r = SIGN_VERIFY \<and> key_signing_algorithm r = Some ED25519
     \<and> key_find (fst ALICE) sign_name d = Some r
     \<and> (\<exists>x. nk_versions d r = [x] \<and> kyv_version x = 1
         \<and> kyv_public_key_b64 x = Some (encode_b64 (ed25519_public E m)))"

lemma sign_call:
  assumes "working E config dek alice bob w" "key_find (fst ALICE) sign_name (db w) = Some r"
    and "key_usage r = SIGN_VERIFY" "key_signing_algorithm r = Some ED25519" "key_latest_version r = 1"
    and "decode_b64 (PyStr p64) = Inr pt" "list_all scalar p64"
  shows "\<exists>m. signs_with E m (db w) r
    \<and> client E alice (PostSign sign_name p64 (Some (lit ''RAW'')) (Some (lit ''ED25519''))) w =
      (Inr (Response 200 (SignBody \<lparr>sig_key_name = sign_name, sig_key_version = 1, sig_algorithm = Some ED25519,
          sig_signature_b64 = encode_b64 (ed25519_sign E m (sha256_digest E pt))\<rparr>)),
       w\<lparr>ticks := Suc (ticks w)\<rparr>)"
proof -
  let ?w = "w\<lparr>ticks := Suc (ticks w)\<rparr>"
  have W: "nk_ok (db ?w)" "keyring_sealed E dek (db ?w)" "vs_dek (vstate ?w) = Some dek"
    "caller E alice (fst ALICE) w" "key_find (fst ALICE) sign_name (db ?w) = Some r"
    using assms(1,2) by (simp_all add: working_def)
  have n: "key_latest_version r < 2 ^ 63" using assms(5) by simp
  obtain m where m: "length m = 32"
    "kyv_public_key_b64 (nk_versions (db ?w) r ! nat (key_latest_version r - 1)) = Some (encode_b64 (ed25519_public E m))"
    "transit_sign E (fst ALICE) sign_name p64 (lit ''RAW'') (lit ''ED25519'') ?w =
       (Inr \<lparr>sig_key_name = sign_name, sig_key_version = key_latest_version r, sig_algorithm = key_signing_algorithm r,
             sig_signature_b64 = encode_b64 (ed25519_sign E m (sha256_digest E pt))\<rparr>, ?w)"
    by (rule transit_sign_run [OF W(1-3) key_names(2) scalar_texts(2) W(5) assms(3) n ed25519_algorithm [OF assms(4)]
          raw_digest [OF assms(6)]])
  from nk_versions_numbered [OF W(1,5)] assms(5) obtain x where x: "nk_versions (db w) r = [x]" "kyv_version x = 1"
    by (cases "nk_versions (db w) r") auto
  then have "signs_with E m (db w) r" using m(1,2) assms(2-5) by (simp add: signs_with_def)
  moreover have "client E alice (PostSign sign_name p64 (Some (lit ''RAW'')) (Some (lit ''ED25519''))) w =
      (Inr (Response 200 (SignBody \<lparr>sig_key_name = sign_name, sig_key_version = 1, sig_algorithm = Some ED25519,
          sig_signature_b64 = encode_b64 (ed25519_sign E m (sha256_digest E pt))\<rparr>)), ?w)"
    using m(3) key_fields assms(4,5,7) by (auto intro!: client_Inr authenticated_run [OF W(4)]
        simp: sign_route_def sign_request_def default_field_def validated_def op_run op_simps accept_def text_field_def
          scalar_lit sign_response_def Let_def simp del: One_nat_def)
  ultimately show ?thesis by blast
qed

lemma verify_call:
  assumes "working E config dek alice bob w" "signs_with E m (db w) r" "ed25519_ok E"
    and "decode_b64 (PyStr p64) = Inr pt" "list_all scalar p64"
  shows "client E alice (PostVerify sign_name p64 (Some (lit ''RAW'')) (encode_b64 s) (Some (lit ''ED25519'')) None) w =
    (let ok = ed25519_verify E (ed25519_public E m) s (sha256_digest E pt)
     in (Inr (Response 200 (VerifyBody \<lparr>ver_key_name = sign_name, ver_key_version = if ok then Some 1 else None,
           ver_algorithm = Some ED25519, ver_signature_valid = ok\<rparr>)),
         w\<lparr>ticks := Suc (ticks w)\<rparr>))"
proof -
  let ?w = "w\<lparr>ticks := Suc (ticks w)\<rparr>"
  obtain x where S: "length m = 32" "key_usage r = SIGN_VERIFY" "key_signing_algorithm r = Some ED25519"
    "key_find (fst ALICE) sign_name (db ?w) = Some r" "nk_versions (db ?w) r = [x]" "kyv_version x = 1"
    "kyv_public_key_b64 x = Some (encode_b64 (ed25519_public E m))"
    using assms(2) by (auto simp: signs_with_def)
  have W: "nk_ok (db ?w)" "vs_dek (vstate ?w) = Some dek" "caller E alice (fst ALICE) w"
    using assms(1) by (simp_all add: working_def)
  have l: "length (ed25519_public E m) = 32" using assms(3) S(1) by (simp add: ed25519_ok_def)
  have "length (encode_b64 (ed25519_public E m)) = 44"
    using length_b2a_base64 [of "octet_vals (ed25519_public E m)"] l by (simp add: encode_b64_def octet_vals_def)
  then have "encode_b64 (ed25519_public E m) \<noteq> []" by auto
  with l have a: "version_accepts E s d x = ed25519_verify E (ed25519_public E m) s d" for d
    by (simp add: version_accepts_def S(7) codec_simps)
  have "length (nk_versions (db ?w) r) < 2 ^ 62" using S(5) by simp
  from transit_verify_run [OF W(1,2) key_names(2) scalar_texts(2) S(4) S(2) ed25519_algorithm [OF S(3)]
      raw_digest [OF assms(4)] this, where E = E and pinned = None and sig = "encode_b64 s"]
  have "transit_verify E (fst ALICE) sign_name p64 (lit ''RAW'') (encode_b64 s) (lit ''ED25519'') None ?w =
    (let ok = ed25519_verify E (ed25519_public E m) s (sha256_digest E pt)
     in (Inr \<lparr>ver_key_name = sign_name, ver_key_version = if ok then Some 1 else None,
           ver_algorithm = Some ED25519, ver_signature_valid = ok\<rparr>, ?w))"
    using S(3,5,6) a by (simp add: verify_candidates_def verify_match_def codec_simps Let_def)
  moreover have "list_all scalar (encode_b64 s)" using ascii_encode_b64 [THEN ascii_scalar] by simp
  ultimately show ?thesis
    using key_fields assms(5) by (auto intro!: client_Inr authenticated_run [OF W(3)]
        simp: verify_route_def verify_request_def default_field_def positive_field_def validated_def op_run op_simps
          accept_def text_field_def scalar_lit verify_response_def Let_def simp del: One_nat_def)
qed

end
