(* ===== verification/GeneratorSamples.thy ===== *)
theory GeneratorSamples
  imports GeneratorRun TransitLaws AuthLaws
begin

text \<open>
  The samples the generator collects: what each of its builders returns, and the whole script on
  a fresh installation.
\<close>

section \<open>The samples of the keys\<close>

lemma keyring_extends_trans: "keyring_extends d1 d2 \<Longrightarrow> keyring_extends d2 d3 \<Longrightarrow> keyring_extends d1 d3"
  unfolding keyring_extends_def by (metis append.assoc)

lemma three_key_rows:
  assumes "named_keys d = empty_table" "named_key_versions d = empty_table" "(n1 :: pystr) < n2"
    and "d3 = nk_created o' n2 u2 a2 s3 x3 (nk_rotated 1 2 s2 x2 (nk_created o' n1 u1 a1 s1 x1 d))"
  shows "map (\<lambda>(n, o', u, a, v, _). (n, o', u, v)) (dump_keys d3) = [(n1, o', u1, 1), (n1, o', u1, 2), (n2, o', u2, 1)]"
proof -
  have "\<not> n2 \<le> n1" "n1 \<le> n2" using assms(3) by auto
  then show ?thesis
    by (simp add: assms dump_keys_def nk_created_def nk_rotated_def nk_add_version_def nk_started_def nk_update_def
        new_key_def nk_bump_def new_key_version_def split: prod.split)
qed

text \<open>The state of the keyring after the calls of the script: a ciphertext of the first version, which
  its owner can decrypt, and the rows.\<close>

definition demo_encrypted :: "int \<Rightarrow> pystr \<Rightarrow> encrypt_result" where
  "demo_encrypted n c = \<lparr>enc_key_name = aes_name, enc_key_version = n, enc_ciphertext = c\<rparr>"

definition demo_decrypted :: "bytes \<Rightarrow> decrypt_result" where
  "demo_decrypted pt = \<lparr>dec_key_name = aes_name, dec_key_version = 1, dec_plaintext_b64 = encode_b64 pt\<rparr>"

definition demo_ciphertext :: "ext \<Rightarrow> bytes \<Rightarrow> bytes \<Rightarrow> pystr \<Rightarrow> database \<Rightarrow> bool" where
  "demo_ciphertext E dek pt c d \<longleftrightarrow> list_all scalar c
     \<and> (\<exists>parsed. parse_ciphertext (PyStr c) = Inr parsed \<and> tc_key_name parsed = aes_name)
     \<and> (\<exists>u. transit_decrypt E (fst ALICE) c u = (Inr (demo_decrypted pt), u) \<and> nk_ok (db u)
           \<and> vs_dek (vstate u) = Some dek \<and> keyring_extends (db u) d)"

definition demo_keys :: "database \<Rightarrow> bool" where
  "demo_keys d \<longleftrightarrow> nk_ok d \<and> key_find (fst BOB) aes_name d = None
     \<and> (\<exists>sg. key_find (fst ALICE) sign_name d = Some sg \<and> key_usage sg = SIGN_VERIFY
           \<and> key_signing_algorithm sg = Some ED25519 \<and> key_latest_version sg = 1)
     \<and> map (\<lambda>(n, o', u, a, v, _). (n, o', u, v)) (dump_keys d) =
        [(aes_name, fst ALICE, ENCRYPT_DECRYPT, 1), (aes_name, fst ALICE, ENCRYPT_DECRYPT, 2),
         (sign_name, fst ALICE, SIGN_VERIFY, 1)]"

text \<open>Both only read the tables of the keys.\<close>

lemma demo_cong:
  assumes "named_keys d' = named_keys d" "named_key_versions d' = named_key_versions d"
  shows "demo_keys d \<Longrightarrow> demo_keys d'"
    "nk_ok d \<Longrightarrow> demo_ciphertext E dek pt c d \<Longrightarrow> demo_ciphertext E dek pt c d'"
    "signs_with E m d r \<Longrightarrow> signs_with E m d' r" "dump_keys d' = dump_keys d"
proof -
  note c = nk_cong [OF assms]
  show e: "dump_keys d' = dump_keys d" using assms by (simp add: dump_keys_def)
  show "demo_keys d'" if "demo_keys d" using that c e by (simp add: demo_keys_def)
  show "signs_with E m d' r" if "signs_with E m d r" using that c by (simp add: signs_with_def)
  show "demo_ciphertext E dek pt c d'" if "nk_ok d" "demo_ciphertext E dek pt c d" for c
    using that keyring_extends_trans [OF _ keyring_extends_refl [OF that(1) assms]]
    unfolding demo_ciphertext_def by blast
qed

text \<open>The three changes of the keyring.\<close>

lemma keyring_steps:
  assumes "aead_ok E" "working E config dek alice bob w" "named_keys (db w) = empty_table"
    and "named_key_versions (db w) = empty_table" "decode_b64 (PyStr p64) = Inr pt" "list_all scalar p64"
  shows "\<exists>r1 w1 w2 r3 w3 w4 r5 w5 c1 c2.
      client E alice (PostKey aes_name) w = (Inr r1, w1)
    \<and> client E alice (PostEncrypt aes_name p64) w1 = (Inr (Response 200 (EncryptBody (demo_encrypted 1 c1))), w2)
    \<and> client E alice (PostRotate aes_name) w2 = (Inr r3, w3)
    \<and> client E alice (PostEncrypt aes_name p64) w3 = (Inr (Response 200 (EncryptBody (demo_encrypted 2 c2))), w4)
    \<and> client E alice (PostSigningKey sign_name (Some (lit ''ED25519''))) w4 = (Inr r5, w5)
    \<and> working E config dek alice bob w5 \<and> demo_ciphertext E dek pt c1 (db w5) \<and> demo_keys (db w5)
    \<and> audit_logs (db w5) = audit_logs (db w)"
proof -
  have ne: "aes_name \<noteq> sign_name" "fst ALICE \<noteq> fst BOB" "aes_name < sign_name"
    by (simp_all add: ALICE_def BOB_def text_simps)
  have ok: "nk_ok (db v)" if "working E config dek alice bob v" for v using that by (simp add: working_def)
  have none: "key_find o' n (db w) = None" for o' n by (simp add: key_find_def tbl_one_def assms(3))
  obtain md1 w1 s1 x1 where w1: "client E alice (PostKey aes_name) w = (Inr (Response 201 (KeyBody md1)), w1)"
    "working E config dek alice bob w1" "db w1 = nk_created (fst ALICE) aes_name ENCRYPT_DECRYPT None s1 x1 (db w)"
    using create_key_call [OF assms(1,2) none] by blast
  let ?k = "new_key (fst ALICE) aes_name ENCRYPT_DECRYPT None s1 1"
  note created = nk_created_ok [OF ok [OF assms(2)] none w1(3), unfolded assms(3) empty_database_fields]
  have f1: "key_find (fst ALICE) aes_name (db w1) = Some ?k" using created(3) by simp
  obtain c1 w2 parsed where w2: "client E alice (PostEncrypt aes_name p64) w1 =
      (Inr (Response 200 (EncryptBody \<lparr>enc_key_name = aes_name, enc_key_version = 1, enc_ciphertext = c1\<rparr>)), w2)"
    "working E config dek alice bob w2" "db w2 = db w1" "list_all scalar c1"
    "parse_ciphertext (PyStr c1) = Inr parsed" "tc_key_name parsed = aes_name"
    "transit_decrypt E (fst ALICE) c1 w2 =
      (Inr \<lparr>dec_key_name = aes_name, dec_key_version = 1, dec_plaintext_b64 = encode_b64 pt\<rparr>, w2)"
    using encrypt_call [OF assms(1) w1(2) f1 _ _ _ assms(5,6), of 1] by auto
  have f2: "key_find (fst ALICE) aes_name (db w2) = Some ?k" using f1 w2(3) by simp
  obtain md3 w3 s2 x2 where w3: "client E alice (PostRotate aes_name) w2 = (Inr (Response 200 (KeyBody md3)), w3)"
    "working E config dek alice bob w3" "db w3 = nk_rotated (key_id ?k) (key_latest_version ?k + 1) s2 x2 (db w2)"
    using rotate_call [OF assms(1) w2(2) f2] by auto
  note rotated = nk_rotated_ok [OF ok [OF w2(2)] f2 w3(3)]
  have f3: "key_find (fst ALICE) aes_name (db w3) = Some (nk_bump s2 2 ?k)" using rotated(3) by simp
  obtain c2 w4 where w4: "client E alice (PostEncrypt aes_name p64) w3 =
      (Inr (Response 200 (EncryptBody \<lparr>enc_key_name = aes_name, enc_key_version = 2, enc_ciphertext = c2\<rparr>)), w4)"
    "working E config dek alice bob w4" "db w4 = db w3"
    using encrypt_call [OF assms(1) w3(2) f3 _ _ _ assms(5,6), of 2] by auto
  have f4: "key_find (fst ALICE) sign_name (db w4) = None" "key_find (fst BOB) aes_name (db w4) = None"
    using rotated(3) created(3) none ne by (simp_all add: w4(3) w2(3))
  obtain md5 w5 s3 x3 where w5: "client E alice (PostSigningKey sign_name (Some (lit ''ED25519''))) w4 =
      (Inr (Response 201 (KeyBody md5)), w5)" "working E config dek alice bob w5"
    "db w5 = nk_created (fst ALICE) sign_name SIGN_VERIFY (Some ED25519) s3 x3 (db w4)"
    using create_signing_key_call [OF assms(1) w4(2) f4(1)] by blast
  note signing = nk_created_ok [OF ok [OF w4(2)] f4(1) w5(3)]
  have "keyring_extends (db w2) (db w3)" unfolding w3(3) by (rule keyring_extends_rotated [OF ok [OF w2(2)] f2])
  moreover have "keyring_extends (db w4) (db w5)"
    unfolding w5(3) by (rule keyring_extends_created [OF ok [OF w4(2)] f4(1)])
  ultimately have e: "keyring_extends (db w2) (db w5)" using keyring_extends_trans by (simp add: w4(3))
  have d5: "db w5 = nk_created (fst ALICE) sign_name SIGN_VERIFY (Some ED25519) s3 x3
      (nk_rotated 1 2 s2 x2 (nk_created (fst ALICE) aes_name ENCRYPT_DECRYPT None s1 x1 (db w)))"
    by (simp add: w5(3) w4(3) w3(3) w2(3) w1(3))
  have "audit_logs (db w5) = audit_logs (db w)"
    using nk_frame_fields [OF signing(2)] nk_frame_fields [OF rotated(2)] nk_frame_fields [OF created(2)]
    by (simp add: w4(3) w2(3))
  moreover have "demo_ciphertext E dek pt c1 (db w5)"
    using w2(2) w2(4-7) e ok [OF w2(2)] unfolding demo_ciphertext_def demo_decrypted_def working_def by blast
  moreover have "demo_keys (db w5)"
    using signing(3) f4(2) ne three_key_rows [OF assms(3,4) ne(3) d5] ok [OF w5(2)]
    by (simp add: demo_keys_def)
  ultimately show ?thesis
    using w1(1) w2(1) w3(1) w4(1) w5(1,2) unfolding demo_encrypted_def by blast
qed

section \<open>The builders\<close>

lemma b64_text:
  assumes "list_all scalar t"
  shows "\<exists>bs. utf8_encode t = Inr bs \<and> b64 (PyStr t) = Inr (encode_b64 bs)
    \<and> decode_b64 (PyStr (encode_b64 bs)) = Inr bs \<and> list_all scalar (encode_b64 bs)"
  using utf8_encode_ok [OF assms] ascii_encode_b64 [THEN ascii_scalar] by (auto simp: codec_simps)

lemma client_json_run:
  "client E c req w = (Inr (Response n b), w') \<Longrightarrow> b \<noteq> EmptyBody \<Longrightarrow> client_json E c req w = (Inr b, w')"
  by (cases b) (simp_all add: client_json_def op_run op_simps)

definition demo_verified :: "bool \<Rightarrow> verify_result" where
  "demo_verified ok = \<lparr>ver_key_name = sign_name, ver_key_version = if ok then Some 1 else None,
     ver_algorithm = Some ED25519, ver_signature_valid = ok\<rparr>"

lemma verify_sample_run:
  assumes "working E config dek alice bob w" "signs_with E m (db w) r" "ed25519_ok E" "list_all scalar t"
    and "utf8_encode t = Inr bs" "sig_signature_b64 res = encode_b64 s"
  shows "verify_sample E alice (SignBody res) t w =
    (Inr (VerifyBody (demo_verified (ed25519_verify E (ed25519_public E m) s (sha256_digest E bs)))),
     w\<lparr>ticks := Suc (ticks w)\<rparr>)"
proof -
  have b: "b64 (PyStr t) = Inr (encode_b64 bs)" "decode_b64 (PyStr (encode_b64 bs)) = Inr bs"
    "list_all scalar (encode_b64 bs)"
    using b64_text [OF assms(4)] assms(5) by auto
  show ?thesis
    using client_json_run [OF verify_call [OF assms(1-3) b(2,3), of s, unfolded Let_def]] b(1) assms(6)
    by (simp add: verify_sample_def demo_verified_def op_run op_simps)
qed

text \<open>After them, the key signs for its owner, a stranger is refused, the owner decrypts.\<close>

lemma transit_reads:
  assumes "ed25519_ok E" "working E config dek alice bob w" "demo_ciphertext E dek pt c (db w)" "demo_keys (db w)"
    and "decode_b64 (PyStr m64) = Inr msg" "list_all scalar m64" "length (rows (audit_logs (db w))) < 2 ^ 62"
  shows "\<exists>m sg r w1 w2. length m = 32 \<and> signs_with E m (db w2) sg
    \<and> client E alice (PostSign sign_name m64 (Some (lit ''RAW'')) (Some (lit ''ED25519''))) w =
      (Inr (Response 200 (SignBody \<lparr>sig_key_name = sign_name, sig_key_version = 1, sig_algorithm = Some ED25519,
          sig_signature_b64 = encode_b64 (ed25519_sign E m (sha256_digest E msg))\<rparr>)), w1)
    \<and> client E bob (PostDecrypt c) w1 = (Inr (Response 403 denied_body), w2)
    \<and> client E alice (PostDecrypt c) w2 = (Inr (Response 200 (DecryptBody (demo_decrypted pt))), w2\<lparr>ticks := Suc (ticks w2)\<rparr>)
    \<and> working E config dek alice bob w2 \<and> demo_keys (db w2)
    \<and> rows (audit_logs (db w2)) = rows (audit_logs (db w)) @ [r] \<and> denied_row aes_name r"
proof -
  obtain sg where sg: "key_find (fst ALICE) sign_name (db w) = Some sg" "key_usage sg = SIGN_VERIFY"
    "key_signing_algorithm sg = Some ED25519" "key_latest_version sg = 1" "key_find (fst BOB) aes_name (db w) = None"
    using assms(4) by (auto simp: demo_keys_def)
  let ?w1 = "w\<lparr>ticks := Suc (ticks w)\<rparr>"
  obtain m where s: "signs_with E m (db w) sg"
    "client E alice (PostSign sign_name m64 (Some (lit ''RAW'')) (Some (lit ''ED25519''))) w =
      (Inr (Response 200 (SignBody \<lparr>sig_key_name = sign_name, sig_key_version = 1, sig_algorithm = Some ED25519,
          sig_signature_b64 = encode_b64 (ed25519_sign E m (sha256_digest E msg))\<rparr>)), ?w1)"
    using sign_call [OF assms(2) sg(1-4) assms(5,6)] by blast
  obtain parsed u where p: "list_all scalar c" "parse_ciphertext (PyStr c) = Inr parsed" "tc_key_name parsed = aes_name"
    "transit_decrypt E (fst ALICE) c u = (Inr (demo_decrypted pt), u)" "nk_ok (db u)" "vs_dek (vstate u) = Some dek"
    using assms(3) by (auto simp: demo_ciphertext_def)
  obtain r w2 where d: "client E bob (PostDecrypt c) ?w1 = (Inr (Response 403 denied_body), w2)"
    "working E config dek alice bob w2"
    "named_keys (db w2) = named_keys (db w)" "named_key_versions (db w2) = named_key_versions (db w)"
    "rows (audit_logs (db w2)) = rows (audit_logs (db w)) @ [r]" "denied_row aes_name r"
    using decrypt_denied_call [of E config dek alice bob ?w1 c parsed] p(1-3) sg(5) assms(2,7)
    by (auto simp: working_tick)
  note c = demo_cong [OF d(3,4)]
  have "nk_ok (db w)" using assms(2) by (simp add: working_def)
  with c(2) assms(3) have "demo_ciphertext E dek pt c (db w2)" by blast
  then obtain v where v: "transit_decrypt E (fst ALICE) c v = (Inr (demo_decrypted pt), v)" "nk_ok (db v)"
    "vs_dek (vstate v) = Some dek" "keyring_extends (db v) (db w2)" by (auto simp: demo_ciphertext_def)
  note decrypt_call [OF d(2) v(2,1,4,3) p(1)]
  moreover have "length m = 32" using s(1) by (simp add: signs_with_def)
  ultimately show ?thesis using s(2) d(1,2,5,6) c(3) [OF s(1)] c(1) [OF assms(4)] by blast
qed

definition transit_collected :: "ext \<Rightarrow> transit_samples \<Rightarrow> bool" where
  "transit_collected E tr \<longleftrightarrow>
     (\<exists>c1 c2 pt. trs_before_rotation tr = EncryptBody (demo_encrypted 1 c1)
        \<and> trs_after_rotation tr = EncryptBody (demo_encrypted 2 c2)
        \<and> utf8_encode TRANSIT_PAYLOAD = Inr pt \<and> trs_decrypt_before_rotation tr = DecryptBody (demo_decrypted pt))
     \<and> (\<exists>m msg other sig. utf8_encode sample_message = Inr msg
        \<and> utf8_encode (sample_message @ lit ''!'') = Inr other
        \<and> sig = ed25519_sign E m (sha256_digest E msg)
        \<and> trs_signed tr = SignBody \<lparr>sig_key_name = sign_name, sig_key_version = 1,
            sig_algorithm = Some ED25519, sig_signature_b64 = encode_b64 sig\<rparr>
        \<and> trs_sha256_of_message tr = hexdigest (sha256_digest E msg)
        \<and> trs_verify_original tr = VerifyBody (demo_verified True)
        \<and> trs_verify_tampered tr =
            VerifyBody (demo_verified (ed25519_verify E (ed25519_public E m) sig (sha256_digest E other))))
     \<and> trs_message tr = sample_message \<and> trs_denied_status tr = 403 \<and> trs_denied_body tr = denied_body
     \<and> map (\<lambda>(n, o', u, a, v, _). (n, o', u, v)) (trs_key_rows tr) =
        [(aes_name, fst ALICE, ENCRYPT_DECRYPT, 1), (aes_name, fst ALICE, ENCRYPT_DECRYPT, 2),
         (sign_name, fst ALICE, SIGN_VERIFY, 1)]"

lemma transit_samples_ok:
  assumes "aead_ok E" "ed25519_ok E" "working E config dek alice bob w" "named_keys (db w) = empty_table"
    and "named_key_versions (db w) = empty_table" "length (rows (audit_logs (db w))) < 2 ^ 62"
  shows "\<exists>tr w' r. build_transit_samples E alice bob w = (Inr tr, w') \<and> working E config dek alice bob w'
    \<and> key_find (fst BOB) aes_name (db w') = None
    \<and> rows (audit_logs (db w')) = rows (audit_logs (db w)) @ [r] \<and> denied_row aes_name r
    \<and> transit_collected E tr"
proof -
  have sc: "list_all scalar (sample_message @ lit ''!'')" by (simp add: scalar_lit)
  then obtain pt msg other where u: "utf8_encode TRANSIT_PAYLOAD = Inr pt" "utf8_encode sample_message = Inr msg"
    "utf8_encode (sample_message @ lit ''!'') = Inr other" using utf8_encode_ok scalar_texts(8,10) by metis
  have p: "b64 (PyStr TRANSIT_PAYLOAD) = Inr (encode_b64 pt)" "decode_b64 (PyStr (encode_b64 pt)) = Inr pt"
    "list_all scalar (encode_b64 pt)" using b64_text [OF scalar_texts(8)] u(1) by auto
  have q: "b64 (PyStr sample_message) = Inr (encode_b64 msg)" "decode_b64 (PyStr (encode_b64 msg)) = Inr msg"
    "list_all scalar (encode_b64 msg)" using b64_text [OF scalar_texts(10)] u(2) by auto
  obtain r1 w1 w2 r3 w3 w4 r5 w5 c1 c2 where k:
    "client E alice (PostKey aes_name) w = (Inr r1, w1)"
    "client E alice (PostEncrypt aes_name (encode_b64 pt)) w1 = (Inr (Response 200 (EncryptBody (demo_encrypted 1 c1))), w2)"
    "client E alice (PostRotate aes_name) w2 = (Inr r3, w3)"
    "client E alice (PostEncrypt aes_name (encode_b64 pt)) w3 = (Inr (Response 200 (EncryptBody (demo_encrypted 2 c2))), w4)"
    "client E alice (PostSigningKey sign_name (Some (lit ''ED25519''))) w4 = (Inr r5, w5)"
    "working E config dek alice bob w5" "demo_ciphertext E dek pt c1 (db w5)" "demo_keys (db w5)"
    "audit_logs (db w5) = audit_logs (db w)"
    using keyring_steps [OF assms(1,3-5) p(2,3)] by blast
  let ?sig = "\<lambda>m. \<lparr>sig_key_name = sign_name, sig_key_version = 1, sig_algorithm = Some ED25519,
      sig_signature_b64 = encode_b64 (ed25519_sign E m (sha256_digest E msg))\<rparr>"
  obtain m sg r w6 w7 where s: "length m = 32" "signs_with E m (db w7) sg"
    "client E alice (PostSign sign_name (encode_b64 msg) (Some (lit ''RAW'')) (Some (lit ''ED25519''))) w5 =
      (Inr (Response 200 (SignBody (?sig m))), w6)"
    "client E bob (PostDecrypt c1) w6 = (Inr (Response 403 denied_body), w7)"
    "client E alice (PostDecrypt c1) w7 = (Inr (Response 200 (DecryptBody (demo_decrypted pt))), w7\<lparr>ticks := Suc (ticks w7)\<rparr>)"
    "working E config dek alice bob w7" "demo_keys (db w7)"
    "rows (audit_logs (db w7)) = rows (audit_logs (db w)) @ [r]" "denied_row aes_name r"
    using transit_reads [OF assms(2) k(6-8) q(2,3)] assms(6) unfolding k(9) by blast
  let ?t = "\<lambda>n. w7\<lparr>ticks := n\<rparr>"
  have t: "working E config dek alice bob (?t n)" "signs_with E m (db (?t n)) sg" for n
    using s(2,6) by (simp_all add: working_tick)
  have ok: "ed25519_verify E (ed25519_public E m) (ed25519_sign E m (sha256_digest E msg)) (sha256_digest E msg)"
    using assms(2) s(1) by (simp add: ed25519_ok_def)
  have v: "verify_sample E alice (SignBody (?sig m)) sample_message (?t n) =
      (Inr (VerifyBody (demo_verified True)), ?t (Suc n))" for n
    using verify_sample_run [OF t assms(2) scalar_texts(10) u(2), of "?sig m" _ n] ok by simp
  note v' = verify_sample_run [OF t assms(2) sc u(3), of "?sig m", simplified, OF refl]
  note j = client_json_run [OF k(2)] client_json_run [OF k(4)] client_json_run [OF s(3)] client_json_run [OF s(5)]
  let ?w = "?t (Suc (Suc (Suc (ticks w7))))"
  have "working E config dek alice bob ?w" "db ?w = db w7" using s(6) by (simp_all add: working_tick)
  moreover have "key_find (fst BOB) aes_name (db w7) = None" using s(7) by (simp add: demo_keys_def)
  moreover obtain tr where tr: "build_transit_samples E alice bob w = (Inr tr, ?w)" "transit_collected E tr"
    using k(1,3,5) s(4,7) p(1) q(1) u j v v'
    by (auto simp: build_transit_samples_def dump_table_def op_run op_simps demo_encrypted_def denied_body_def
        demo_keys_def transit_collected_def)
  ultimately show ?thesis using s(8,9) by metis
qed

lemma audit_samples_ok:
  assumes "working E config dek alice bob w" "key_find (fst BOB) aes_name (db w) = None"
    and "rows (audit_logs (db w)) = [r]"
  shows "\<exists>w' h r2 r3. build_audit_samples E alice bob w =
      (Inr \<lparr>aus_verification = AuditVerifyBody \<lparr>report_valid = True, entry_count = 3, head_hash = h,
          first_invalid_sequence = None, reason = None\<rparr>, aus_entries = [r, r2, r3]\<rparr>, w')
    \<and> working E config dek alice bob w' \<and> denied_row sample_path r2 \<and> denied_row aes_name r3"
proof -
  obtain x where x: "b64 (PyStr (lit ''x'')) = Inr x" "list_all scalar x"
    using b64_text [of "lit ''x''"] by (auto simp: scalar_lit)
  obtain r2 w1 b where w1: "client E bob (GetEntry sample_path None) w = (Inr (Response 403 b), w1)"
    "working E config dek alice bob w1" "named_keys (db w1) = named_keys (db w)"
    "named_key_versions (db w1) = named_key_versions (db w)" "rows (audit_logs (db w1)) = [r, r2]" "denied_row sample_path r2"
    using read_denied_call [OF assms(1)] assms(3) by auto
  have "key_find (fst BOB) aes_name (db w1) = None" using nk_cong [OF w1(3,4)] assms(2) by simp
  then obtain r3 w2 where w2: "client E bob (PostEncrypt aes_name x) w1 = (Inr (Response 403 denied_body), w2)"
    "working E config dek alice bob w2" "rows (audit_logs (db w2)) = [r, r2, r3]" "denied_row aes_name r3"
    using encrypt_denied_call [OF w1(2) _ _ x(2)] w1(5) by auto
  let ?w = "w2\<lparr>ticks := Suc (ticks w2)\<rparr>"
  have W: "caller E alice (fst ALICE) w2" "log_ok E (db ?w)" using w2(2) by (simp_all add: working_def)
  obtain h where "audit_verify E ?w = (Inr \<lparr>report_valid = True, entry_count = 3, head_hash = h,
      first_invalid_sequence = None, reason = None\<rparr>, ?w)"
    using log_ok_verifies [OF W(2)] w2(3) by auto
  then have "client E alice GetAuditVerify w2 = (Inr (Response 200 (AuditVerifyBody \<lparr>report_valid = True,
      entry_count = 3, head_hash = h, first_invalid_sequence = None, reason = None\<rparr>)), ?w)"
    by (auto intro!: client_Inr authenticated_run [OF W(1)] simp: verify_chain_route_def answer_def op_run op_simps)
  from client_json_run [OF this] have v: "client_json E alice GetAuditVerify w2 =
      (Inr (AuditVerifyBody \<lparr>report_valid = True, entry_count = 3, head_hash = h,
        first_invalid_sequence = None, reason = None\<rparr>), ?w)" by simp
  have "dump_audit (db ?w) = [r, r2, r3]"
    using log_ok_rows [OF W(2)] w2(3) by (simp add: dump_audit_def audit_rows_asc_def)
  with v w1(1) w2(1) x(1) have "build_audit_samples E alice bob w =
      (Inr \<lparr>aus_verification = AuditVerifyBody \<lparr>report_valid = True, entry_count = 3, head_hash = h,
          first_invalid_sequence = None, reason = None\<rparr>, aus_entries = [r, r2, r3]\<rparr>, ?w)"
    by (simp add: build_audit_samples_def dump_table_def op_run op_simps)
  moreover have "working E config dek alice bob ?w" using w2(2) by (simp add: working_tick)
  ultimately show ?thesis using w1(6) w2(4) by blast
qed

section \<open>The whole script\<close>

lemma check_run:
  "\<exists>fs. check_no_plaintext raw = Inr fs
    \<and> (fs = [] \<longleftrightarrow> (\<forall>m \<in> {DB_PASSWORD, ROTATED_PASSWORD, TRANSIT_PAYLOAD}. \<forall>bs. utf8_encode m = Inr bs \<longrightarrow> \<not> sublist bs raw))"
proof -
  obtain a b c where "utf8_encode DB_PASSWORD = Inr a" "utf8_encode ROTATED_PASSWORD = Inr b"
    "utf8_encode TRANSIT_PAYLOAD = Inr c" using utf8_encode_ok scalar_texts(6-8) by metis
  then show ?thesis by (simp add: check_no_plaintext_def)
qed

lemma with_client_run:
  assumes "startup E w = (Inr (), w1)" "block w1 = (Inr x, w2)" "working E config dek alice bob w2"
  shows "with_client E block w = (Inr x, w2\<lparr>vstate := clear_without_lock (vstate w2)\<rparr>)"
proof -
  have "\<exists>st. status (w2\<lparr>vstate := clear_without_lock (vstate w2)\<rparr>) = (Inr st, w2\<lparr>vstate := clear_without_lock (vstate w2)\<rparr>)"
    using assms(3) by (simp add: status_def is_unlocked_def working_def op_run op_simps)
  with assms(1,2) show ?thesis
    by (auto simp: with_client_def shutdown_def vault_lock_run Let_def op_run op_simps)
qed

text \<open>What the runs of the builders leave.\<close>

definition collected :: "ext \<Rightarrow> kv_samples \<Rightarrow> transit_samples \<Rightarrow> audit_samples \<Rightarrow> bool" where
  "collected E kv tr au \<longleftrightarrow> kv_collected kv \<and> transit_collected E tr
     \<and> (\<exists>h r1 r2 r3. au = \<lparr>aus_verification = AuditVerifyBody \<lparr>report_valid = True, entry_count = 3,
            head_hash = h, first_invalid_sequence = None, reason = None\<rparr>, aus_entries = [r1, r2, r3]\<rparr>
          \<and> denied_row aes_name r1 \<and> denied_row sample_path r2 \<and> denied_row aes_name r3)"

lemma builders_run:
  assumes "aead_ok E" "ed25519_ok E" "working E config dek alice bob w"
    and "beside_account_tables (db w) =
      (empty_table, empty_table, empty_table, empty_table, empty_table, schema_metadata (db w))"
  shows "\<exists>kv tr au w1 w2 w3. build_kv_samples E alice w = (Inr kv, w1)
    \<and> build_transit_samples E alice bob w1 = (Inr tr, w2) \<and> build_audit_samples E alice bob w2 = (Inr au, w3)
    \<and> working E config dek alice bob w3 \<and> collected E kv tr au"
proof -
  have t: "kv_records (db w) = empty_table" "kv_versions (db w) = empty_table" "named_keys (db w) = empty_table"
    "named_key_versions (db w) = empty_table" "audit_logs (db w) = empty_table"
    using assms(4) by (simp_all add: beside_account_tables_def)
  obtain kv w1 where a: "build_kv_samples E alice w = (Inr kv, w1)" "working E config dek alice bob w1"
    "kv_frame (db w) (db w1)" "kv_collected kv"
    using kv_samples_ok [OF assms(3) t(1,2)] by blast
  have t': "named_keys (db w1) = empty_table" "named_key_versions (db w1) = empty_table"
    "rows (audit_logs (db w1)) = []" using kv_frame_fields [OF a(3)] t by simp_all
  obtain tr w2 r where b: "build_transit_samples E alice bob w1 = (Inr tr, w2)"
    "working E config dek alice bob w2" "key_find (fst BOB) aes_name (db w2) = None"
    "rows (audit_logs (db w2)) = [r]" "denied_row aes_name r" "transit_collected E tr"
    using transit_samples_ok [OF assms(1,2) a(2) t'(1,2)] t'(3) by auto
  from audit_samples_ok [OF b(2-4)] a(1,4) b(1,5,6) show ?thesis unfolding collected_def by blast
qed

text \<open>
  What the script relies on: the libraries, a storage that works, an Argon2id that accepts
  the configured parameters for the key derivation and for password hashes, sessions that outlast the run and two tokens with different digests.
\<close>

definition script_ready :: "ext \<Rightarrow> world \<Rightarrow> bool" where
  "script_ready E w \<longleftrightarrow> (\<forall>n. \<not> io_fault w n) \<and> clock_ok E w \<and> session_window E w
     \<and> hashing_ok E (environ w) \<and> (\<forall>salt. length salt = 16 \<longrightarrow> (\<exists>key. length key = 32 \<and>
          derive_wrapping_key E (PyStr MASTER) salt (current_parameters (unicode E) (environ w)) = Inr key))
     \<and> hash_token E (token_at w (draws w + 76)) \<noteq> hash_token E (token_at w (draws w + 124))"

lemma session_run:
  assumes "aead_ok E" "ed25519_ok E" "password_hash_ok E"
    and "script_ready E (w\<lparr>environ := env\<rparr>)"
  shows "\<exists>v alice bob w1 kv w2 tr w3 au w4 config dek. startup E (create_app env (fresh_files w)) = (Inr (), v)
    \<and> bootstrap E v = (Inr (alice, bob), w1) \<and> build_kv_samples E alice w1 = (Inr kv, w2)
    \<and> build_transit_samples E alice bob w2 = (Inr tr, w3) \<and> build_audit_samples E alice bob w3 = (Inr au, w4)
    \<and> working E config dek alice bob w4 \<and> collected E kv tr au"
proof -
  note r = assms(4) [unfolded script_ready_def]
  obtain v where v: "startup E (create_app env (fresh_files w)) = (Inr (), v)"
    "beside_account_tables (db v) = (empty_table, empty_table, empty_table, empty_table, empty_table, schema_metadata (db v))"
    "schema_metadata (db v) HEAD_KEY = None" "users (db v) = empty_table" "sessions (db v) = empty_table"
    "v = w\<lparr>db := db v, conf := None, conf_tmp := None, vstate := \<lparr>vs_dek = None, vs_released = []\<rparr>,
      dummy_hash := None, environ := env, ios := Suc (ios w)\<rparr>"
    using generator_started [of w E env] r by auto
  have f: "conf v = None" "vs_dek (vstate v) = None" "environ v = env" "io_fault v = io_fault w" "clock v = clock w"
    "draws v = draws w" "entropy v = entropy w"
    by (subst v(6), simp)+
  have "hashing_ok E (environ v)" "clock_ok E v" "session_window E v" "token_at v = token_at w" "token_at (w\<lparr>environ := env\<rparr>) = token_at w"
    using r f by (simp_all add: clock_ok_def session_window_def policy_def ext token_at_def)
  then obtain alice bob dek w1 config where b: "bootstrap E v = (Inr (alice, bob), w1)"
    "working E config dek alice bob w1" "beside_account_tables (db w1) = beside_account_tables (db v)"
    using bootstrap_ok [OF assms(1,3) _ _ _ f(1,2)] f r v(2-5) by auto
  then have "beside_account_tables (db w1) =
      (empty_table, empty_table, empty_table, empty_table, empty_table, schema_metadata (db w1))"
    using v(2) by (simp add: beside_account_tables_def)
  from builders_run [OF assms(1,2) b(2) this] v(1) b(1) show ?thesis by blast
qed

text \<open>C22: with libraries that behave as documented, storage that works and sessions that outlast the
  run, the sample generator ends normally on a fresh installation, and its samples are what their
  descriptions claim: the secret has its two versions; there is a ciphertext of either key version,
  and the one made before the rotation still decrypts to the payload; the signature verifies, and the
  tampered message does as far as the signature scheme accepts it; the stranger is refused with 403;
  the three key versions are stored; the log verifies and holds exactly the three refusals. Afterwards
  the vault is locked, the configuration sample is the file on disk, and the exit code is 0 exactly if
  no marker text occurs in the bytes of the database file.\<close>

theorem samples_generated:
  assumes "aead_ok E" "ed25519_ok E" "password_hash_ok E"
    and "script_ready E (w\<lparr>environ := generator_environ (environ w)\<rparr>)"
  shows "\<exists>out w'. generate_samples E file_bytes w = (Inr out, w')
    \<and> collected E (smp_kv out) (smp_transit out) (smp_audit out)
    \<and> conf w' = Some (Doc (smp_config out)) \<and> smp_database out = db w' \<and> vs_dek (vstate w') = None
    \<and> (smp_exit out = 0 \<longleftrightarrow> (\<forall>m \<in> {DB_PASSWORD, ROTATED_PASSWORD, TRANSIT_PAYLOAD}.
         \<forall>bs. utf8_encode m = Inr bs \<longrightarrow> \<not> sublist bs (file_bytes (db w'))))"
proof -
  obtain v alice bob w1 kv w2 tr w3 au w4 config dek where
    s: "startup E (create_app (generator_environ (environ w)) (fresh_files w)) = (Inr (), v)" and
    b: "bootstrap E v = (Inr (alice, bob), w1)" "build_kv_samples E alice w1 = (Inr kv, w2)"
      "build_transit_samples E alice bob w2 = (Inr tr, w3)" "build_audit_samples E alice bob w3 = (Inr au, w4)" and
    k: "working E config dek alice bob w4" and c: "collected E kv tr au"
    using session_run [OF assms] by blast
  let ?block = "bindM (bootstrap E) (\<lambda>(alice, bob). bindM (build_kv_samples E alice) (\<lambda>kv.
      bindM (build_transit_samples E alice bob) (\<lambda>transit. bindM (build_audit_samples E alice bob) (\<lambda>audit.
      ret (kv, transit, audit)))))"
  have "?block v = (Inr (kv, tr, au), w4)" using b by (simp add: op_run op_simps)
  note client = with_client_run [where block = ?block, OF s this k]
  let ?w4 = "w4\<lparr>vstate := clear_without_lock (vstate w4)\<rparr>"
  have r: "read_config ?w4 = (Inr config, ?w4\<lparr>ios := Suc (ios w4)\<rparr>)" (is "_ = (_, ?w5)")
    using k by (simp add: read_config_def working_def op_run op_simps)
  obtain fs where fs: "check_no_plaintext (file_bytes (db ?w5)) = Inr fs"
    "fs = [] \<longleftrightarrow> (\<forall>m \<in> {DB_PASSWORD, ROTATED_PASSWORD, TRANSIT_PAYLOAD}.
       \<forall>bs. utf8_encode m = Inr bs \<longrightarrow> \<not> sublist bs (file_bytes (db ?w5)))" using check_run by blast
  let ?out = "\<lparr>smp_kv = kv, smp_transit = tr, smp_config = config, smp_audit = au, smp_database = db ?w5,
      smp_failures = fs, smp_exit = (if fs = [] then 0 else 1)\<rparr>"
  have "generate_samples E file_bytes w = (Inr ?out, ?w5)"
    using r fs(1) by (simp add: generate_samples_def client op_run op_simps)
  then show ?thesis
    using c k fs(2) by (intro exI [of _ ?out] exI [of _ ?w5]) (simp add: working_def clear_without_lock_def)
qed

section \<open>A concrete run\<close>

text \<open>The parameters \<open>toy_plain\<close> and an entropy source under which the two tokens begin with
  different letters.\<close>

definition toy_script :: world where
  "toy_script = toy_still\<lparr>entropy := (\<lambda>n. if n < 100 then 0 else 200)\<rparr>"

lemma toy_plain_ok: "aead_ok toy_plain" "ed25519_ok toy_plain" "password_hash_ok toy_plain"
  using toy_aead_ok toy_ed25519_ok toy_hash_ok
  by (simp_all add: toy_plain_def aead_ok_def ed25519_ok_def password_hash_ok_def)

lemma toy_setting:
  assumes "n \<in> {''KDF_HASH_LENGTH'', ''SESSION_TTL_MINUTES'', ''LOCKOUT_MINUTES'', ''MAX_FAILED_ATTEMPTS'',
    ''KDF_PARALLELISM'', ''PASSWORD_PARALLELISM''}"
  shows "env_int U (generator_environ (\<lambda>k. None)) (lit n) d m = d"
  using assms by (intro env_int_unset) (auto simp: generator_environ_def setdefault_def PREFIX_def text_simps)

lemma toy_hash_memory: "env_int toy_unicode (generator_environ (\<lambda>k. None)) (lit ''PASSWORD_MEMORY_COST'') d 8 = 8192"
  by code_simp

lemma toy_plain_hashing: "hashing_ok toy_plain (generator_environ (\<lambda>k. None))"
  by (simp add: hashing_ok_def load_def Let_def toy_setting toy_hash_memory setting_defaults toy_plain_def)
    (simp add: toy_def)

lemma toy_settings:
  "hash_len (current_parameters U (generator_environ (\<lambda>k. None))) = 32"
  "lockout_minutes (load U (generator_environ (\<lambda>k. None))) = 5"
  "session_ttl_minutes (load U (generator_environ (\<lambda>k. None))) = 30"
  "max_failed_attempts (load U (generator_environ (\<lambda>k. None))) = 5"
  by (simp_all add: current_parameters_def load_def Let_def toy_setting setting_defaults)

lemma urlsafe_head:
  assumes "x = b64_char (unat a div 4)" "x \<notin> {43, 47}"
  shows "\<exists>t. urlsafe_b64 (a # b # c # r) = x # t"
proof -
  have d: "dropWhile P (xs @ [y]) = dropWhile P xs @ [y]" if "\<not> P y" for P xs and y :: nat
    using that by (induction xs) auto
  obtain u where u: "map (\<lambda>c. if c = 43 then 45 else if c = 47 then 95 else c) (encode_b64 (a # b # c # r)) = x # u"
    using assms by (simp add: encode_b64_def octet_vals_def)
  have "x \<noteq> 61" using b64_char_not_pad [of "unat a div 4"] assms(1) by simp
  then show ?thesis by (simp add: urlsafe_b64_def u d)
qed

lemma hash_head:
  assumes "x < 128" "list_all scalar t"
  shows "\<exists>h. hash_token toy_plain (x # t) = Inr (hex_digit (x div 16) # h)"
  using assms by (simp add: hash_token_def toy_plain_def utf8_encode_def scalar_ascii hexdigest_def utf8_char_def
      octets_def unat_of_nat)

lemma toy_token_head:
  assumes "x = b64_char (unat (entropy w k) div 4)" "x \<notin> {43, 47}"
  shows "\<exists>h. hash_token toy_plain (token_at w k) = Inr (hex_digit (x div 16) # h)"
proof -
  have "map (entropy w) [k..<k + SESSION_TOKEN_BYTES] = entropy w k # entropy w (k + 1) # entropy w (k + 2) #
      map (entropy w) [k + 3..<k + 32]"
    by (simp add: SESSION_TOKEN_BYTES_def upt_rec [of k] upt_rec [of "Suc k"] upt_rec [of "Suc (Suc k)"]
        numeral_eq_Suc)
  then obtain t where t: "token_at w k = x # t" using urlsafe_head [OF assms] by (metis token_at_def)
  have "token_at w k = next_token (w\<lparr>draws := k\<rparr>)" by (simp add: token_at_def next_token_def)
  with next_token_text(3) have "list_all scalar (x # t)" by (metis t)
  moreover have "x < 128" using assms(1) b64_char_ascii by simp
  ultimately show ?thesis using hash_head t by simp
qed

lemma toy_script_fields:
  "environ toy_script = (\<lambda>k. None)" "io_fault toy_script = (\<lambda>n. False)" "draws toy_script = 0"
  "clock toy_script = (\<lambda>n. DT 63000000000000000)" "entropy toy_script = (\<lambda>n. if n < 100 then 0 else 200)"
  by (simp_all add: toy_script_def) (simp_all add: toy_still_def)

lemma toy_script_ready: "script_ready toy_plain (toy_script\<lparr>environ := generator_environ (\<lambda>k. None)\<rparr>)"
proof -
  let ?w = "toy_script\<lparr>environ := generator_environ (\<lambda>k. None)\<rparr>"
  obtain h where "hash_token toy_plain (token_at ?w 76) = Inr (hex_digit 4 # h)"
    using toy_token_head [of 65 ?w 76] by (auto simp: toy_script_fields b64_char_def)
  moreover obtain g where "hash_token toy_plain (token_at ?w 124) = Inr (hex_digit 7 # g)"
    using toy_token_head [of 121 ?w 124] by (auto simp: toy_script_fields b64_char_def)
  moreover obtain u where "utf8_encode MASTER = Inr u" using utf8_encode_ok scalar_texts(1) by blast
  then have "\<exists>key. length key = 32 \<and> derive_wrapping_key toy_plain (PyStr MASTER) salt
      (current_parameters U (generator_environ (\<lambda>k. None))) = Inr key" if "length salt = 16" for salt U
    using that text_lengths(1) by (auto simp: derive_wrapping_key_def toy_plain_def toy_def Let_def toy_settings min_def)
  ultimately show ?thesis
    by (simp add: script_ready_def toy_plain_hashing toy_script_fields clock_ok_def session_window_def policy_def toy_settings
        add_minutes_def DATETIME_LIMIT_def US_PER_DAY_def less_eq_datetime_def hex_digit_def)
qed

theorem samples_generated_witness:
  "\<exists>out w'. generate_samples toy_plain (\<lambda>d. []) toy_script = (Inr out, w') \<and> vs_dek (vstate w') = None
    \<and> trs_denied_status (smp_transit out) = 403 \<and> length (aus_entries (smp_audit out)) = 3"
proof -
  from samples_generated [OF toy_plain_ok, of toy_script "\<lambda>d. []"] toy_script_ready
  obtain out w' where "generate_samples toy_plain (\<lambda>d. []) toy_script = (Inr out, w')" "vs_dek (vstate w') = None"
    "collected toy_plain (smp_kv out) (smp_transit out) (smp_audit out)"
    by (auto simp: toy_script_fields)
  then show ?thesis by (auto simp: collected_def transit_collected_def)
qed

end
