(* ===== verification/Answers.thy ===== *)
theory Answers
  imports Api
begin

text \<open>
  What a request can be answered with: for every route the body and the status it declares, and
  the exceptions of the program it can end with. Everything else is a failed constraint or an
  exception without a handler.
\<close>

section \<open>The exceptions of an operation\<close>

text \<open>An operation raises only exceptions of the given classes, or exceptions of Python. The first
  of \<open>exception_classes\<close> is the class itself.\<close>

definition permitted :: "string list \<Rightarrow> exn \<Rightarrow> bool" where
  "permitted N e \<longleftrightarrow> (case e of Py x \<Rightarrow> True | _ \<Rightarrow> hd (exception_classes e) \<in> set N)"

definition fails :: "string list \<Rightarrow> 'a res \<Rightarrow> bool" where
  "fails N r \<longleftrightarrow> (\<forall>e. r = Inl e \<longrightarrow> permitted N e)"

definition raises :: "string list \<Rightarrow> ('w, 'a) op \<Rightarrow> bool" where
  "raises N m \<longleftrightarrow> (\<forall>w. fails N (fst (m w)))"

named_theorems raises_rules \<open>structural rules for the exceptions of an operation\<close>

lemma permitted_simps [simp]:
  "permitted N (Py x)" "permitted N (Vault v) \<longleftrightarrow> hd (vault_class v) \<in> set N"
  "permitted N (Auth a) \<longleftrightarrow> hd (auth_class a) \<in> set N" "permitted N (Kv k) \<longleftrightarrow> hd (kv_class k) \<in> set N"
  "permitted N (Transit t) \<longleftrightarrow> hd (transit_class t) \<in> set N"
  by (simp_all add: permitted_def)

lemma fails_Inr [raises_rules]: "fails N (Inr x)"
  and fails_Py [raises_rules]: "fails N (Inl (Py p))"
  and fails_Inl [raises_rules]: "permitted N e \<Longrightarrow> fails N (Inl e)"
  by (simp_all add: fails_def)

lemma fails_bindR [raises_rules]: "fails N r \<Longrightarrow> (\<And>x. fails N (f x)) \<Longrightarrow> fails N (bindR r f)"
  by (cases r) (simp_all add: fails_def)

lemma fails_catchR [raises_rules]: "fails N r \<Longrightarrow> permitted N e \<Longrightarrow> fails N (catchR r p e)"
  by (cases r) (simp_all add: fails_def)

lemma fails_if [raises_rules]: "(c \<Longrightarrow> fails N r) \<Longrightarrow> (\<not> c \<Longrightarrow> fails N s) \<Longrightarrow> fails N (if c then r else s)"
  by simp

lemma fails_case [raises_rules]:
  "(x = None \<Longrightarrow> fails N r) \<Longrightarrow> (\<And>y. x = Some y \<Longrightarrow> fails N (f y)) \<Longrightarrow> fails N (case x of None \<Rightarrow> r | Some y \<Rightarrow> f y)"
  "(l = [] \<Longrightarrow> fails N r) \<Longrightarrow> (\<And>z zs. l = z # zs \<Longrightarrow> fails N (g z zs)) \<Longrightarrow>
     fails N (case l of [] \<Rightarrow> r | z # zs \<Rightarrow> g z zs)"
  "(\<And>a b. q = (a, b) \<Longrightarrow> fails N (h a b)) \<Longrightarrow> fails N (case q of (a, b) \<Rightarrow> h a b)"
  by (cases x, simp_all) (cases l, simp_all, cases q, simp)

lemma raisesI: "(\<And>w. fails N (fst (m w))) \<Longrightarrow> raises N m"
  by (simp add: raises_def)

lemma raises_run: "raises N m \<Longrightarrow> m w = (Inl e, w') \<Longrightarrow> permitted N e"
  by (metis fails_def fst_conv raises_def)

lemma raises_basic [raises_rules]:
  "raises N (ret x)" "raises N (gets g)" "raises N (modify h)" "raises N (throw (Py p))"
  "permitted N e \<Longrightarrow> raises N (throw e)" "permitted N e \<Longrightarrow> raises N (raise_if c e)"
  "fails N r \<Longrightarrow> raises N (liftR r)"
  by (simp_all add: raises_def fails_def op_simps)

lemma raises_bindM [raises_rules]: "raises N m \<Longrightarrow> (\<And>x. raises N (f x)) \<Longrightarrow> raises N (bindM m f)"
  by (auto simp: raises_def fails_def op_run split: prod.split sum.split) (metis fst_conv)+

lemma raises_catchM [raises_rules]: "raises N m \<Longrightarrow> permitted N e \<Longrightarrow> raises N (catchM m p e)"
  by (simp add: raises_def op_run case_prod_beta fails_catchR)

lemma raises_if [raises_rules]:
  "(c \<Longrightarrow> raises N m) \<Longrightarrow> (\<not> c \<Longrightarrow> raises N n) \<Longrightarrow> raises N (if c then m else n)"
  by simp

lemma raises_case [raises_rules]:
  "(x = None \<Longrightarrow> raises N m) \<Longrightarrow> (\<And>y. x = Some y \<Longrightarrow> raises N (f y)) \<Longrightarrow> raises N (case x of None \<Rightarrow> m | Some y \<Rightarrow> f y)"
  "(\<And>a b. q = (a, b) \<Longrightarrow> raises N (h a b)) \<Longrightarrow> raises N (case q of (a, b) \<Rightarrow> h a b)"
  "(\<And>d. raises N (k d)) \<Longrightarrow> permitted N e \<Longrightarrow> raises N (case j of JObj d \<Rightarrow> k d | _ \<Rightarrow> throw e)"
  by (cases x, simp_all) (cases q, simp, cases j, simp_all add: raises_basic)

lemma raises_mapM [raises_rules]: "(\<And>x. raises N (f x)) \<Longrightarrow> raises N (mapM f xs)"
  by (induction xs) (auto intro: raises_rules)

section \<open>The library\<close>

lemma fails_library [raises_rules]:
  "fails N (utf8_encode s)" "fails N (utf8_decode b)" "fails N (decode_b64 v)" "fails N (bind_texts ss)"
  "fails N (bind_int i)" "fails N (fromisoformat s)" "fails N (add_minutes t m)" "fails N (json_dumps j)"
proof -
  show "fails N (decode_b64 v)" using decode_b64_error [of v] by (auto simp: fails_def elim!: value_errors.elims)
qed (auto simp: fails_def utf8_encode_def utf8_decode_def bind_texts_def bind_int_def fromisoformat_def
    make_datetime_def add_minutes_def json_dumps_def Let_def split: if_splits option.splits list.splits)

lemma raises_library [raises_rules]:
  "raises N now" "raises N now_text" "raises N (token_bytes n)" "raises N io_call" "raises N (query q)"
  "raises N (execute_update u)" "raises N is_initialized" "raises N status" "raises N state_lock"
  "raises N store_exists" "raises N (is_expired t)"
  by (simp_all add: raises_def fails_def op_simps is_expired_def op_run state_lock_def store_exists_def)

lemma raises_transactions [raises_rules]:
  "raises N m \<Longrightarrow> raises N (connection m)" "raises N m \<Longrightarrow> raises N (exclusive_connection m)"
  by (auto simp: raises_def fails_def connection_def exclusive_connection_def split: prod.split sum.split)
    (metis fst_conv)+

lemma raises_execute [raises_rules]: "(\<And>d. fails N (q d)) \<Longrightarrow> raises N (execute q)"
  by (auto simp: raises_def fails_def op_simps split: sum.split)

lemma fails_insert [raises_rules]: "fails N (tbl_insert key mk t)"
  by (auto simp: fails_def dest: tbl_insert_Inl)

section \<open>The vault\<close>

lemma raises_encryption [raises_rules]:
  "raises N (encrypt_aes_gcm E k p a)" "fails N (decrypt_aes_gcm E k b a)" "fails N (derive_wrapping_key E s salt ps)"
proof -
  show "fails N (decrypt_aes_gcm E k b a)"
    using decrypt_error_caught [of E k b a] by (auto simp: fails_def elim!: tag_or_value_errors.elims)
  show "fails N (derive_wrapping_key E s salt ps)"
    by (auto simp: derive_wrapping_key_def intro!: raises_rules split: pyobj.split)
qed (auto simp: encrypt_aes_gcm_def Let_def intro!: raises_rules)

lemma raises_vault_basics [raises_rules]:
  "''VaultLockedError'' \<in> set N \<Longrightarrow> raises N get_dek" "''VaultLockedError'' \<in> set N \<Longrightarrow> raises N require_unlocked"
  "raises N vault_lock" "raises N generate_dek" "raises N (set_dek d)"
  by (auto simp: require_unlocked_def get_dek_def vault_lock_def generate_dek_def set_dek_def intro!: raises_rules)

lemma raises_save:
  assumes "''StorageError'' \<in> set N" shows "raises N (save_atomic data)"
proof (rule raisesI)
  fix w obtain r w' where s: "save_atomic data w = (r, w')" by (rule prod.exhaust)
  from save_atomic_cases [OF s] assms s show "fails N (fst (save_atomic data w))" by (auto simp: fails_def)
qed

lemma raises_initialize:
  "set [''VaultAlreadyInitializedError'', ''InvalidMasterPassphrasePolicyError'', ''StorageError''] \<subseteq> set N \<Longrightarrow>
   raises N (vault_initialize E p)"
  by (auto simp: vault_initialize_def validate_master_passphrase_def intro!: raises_rules raises_save split: option.split)

text \<open>\<open>int\<close> of a float raises only Python's own exceptions.\<close>

definition float_int_ok :: "ext \<Rightarrow> bool" where
  "float_int_ok E \<longleftrightarrow> (\<forall>t. fails [] (float_to_int E t))"

lemma unlock_permitted:
  assumes "float_int_ok E"
  shows "''VaultConfigCorruptedError'' \<in> set N \<Longrightarrow> ''InvalidMasterPassphraseError'' \<in> set N \<Longrightarrow>
    fails N (unlock_except (unwrap_dek E p config))"
proof -
  have "fails [] (unwrap_dek E p config)"
    using assms by (auto simp: unwrap_dek_def get_int_def get_b64_def json_get_def json_int_def py_int_def Let_def
        float_int_ok_def intro!: raises_rules split: json.split)
  then show "''VaultConfigCorruptedError'' \<in> set N \<Longrightarrow> ''InvalidMasterPassphraseError'' \<in> set N \<Longrightarrow>
    fails N (unlock_except (unwrap_dek E p config))"
    by (cases "unwrap_dek E p config" rule: unlock_except.cases) (auto simp: fails_def)
qed

lemma raises_unlock:
  assumes "float_int_ok E"
    and "set [''VaultNotInitializedError'', ''StorageError'', ''VaultConfigCorruptedError'',
      ''InvalidMasterPassphraseError''] \<subseteq> set N"
  shows "raises N (vault_unlock E p)"
  using assms(2) by (auto simp: vault_unlock_def load_and_validate_config_def store_load_def
      intro!: raises_rules unlock_permitted [OF assms(1)] split: file_content.split)

section \<open>Accounts\<close>

lemma raises_password [raises_rules]:
  "raises N (hash_password E p)" "fails N (verify_password E s h)" "fails N (hash_token E t)"
  by (auto simp: hash_password_def verify_password_def hash_token_def Let_def intro!: raises_rules split: pyobj.split)

lemma raises_accounts [raises_rules]:
  "raises N (get_by_email E e)" "raises N (reset_login_failures i)" "raises N (session_create i h x)"
  "raises N (auth_logout E t)" "raises N (dummy_password_hash E)" "raises N (register_failed_attempt E u)"
  by (auto simp: get_by_email_def reset_login_failures_def session_create_def session_insert_def session_revoke_def
      session_revoke_rows_def auth_logout_def dummy_password_hash_def register_failed_attempt_def
      update_after_failed_login_def compute_lockout_until_def Let_def intro!: raises_rules)

lemma raises_register:
  "set [''PassphraseMismatchError'', ''WeakPassphraseError'', ''DuplicateEmailError''] \<subseteq> set N \<Longrightarrow>
   raises N (auth_register E e p c)"
  by (auto simp: auth_register_def user_create_def user_insert_def Let_def intro!: raises_rules)

lemma raises_login:
  "set [''InvalidCredentialsError'', ''AccountLockedError''] \<subseteq> set N \<Longrightarrow> raises N (auth_login E e p)"
  by (auto simp: auth_login_def login_user_def generate_session_token_def compute_expiry_def intro!: raises_rules)

lemma raises_current_user: "''UnauthenticatedError'' \<in> set N \<Longrightarrow> raises N (get_current_user E c)"
  by (auto simp: get_current_user_def find_active_by_token_hash_def Let_def intro!: raises_rules)

section \<open>The audit log\<close>

lemma fails_hash [raises_rules]: "fails N (compute_entry_hash E h e)"
  by (auto simp: compute_entry_hash_def chain_material_def Let_def intro!: raises_rules)

lemma fails_verify_loop: "fails N (verify_loop E eh rs h s c)"
  by (induction rs arbitrary: h s c) (auto intro!: raises_rules)

lemma raises_audit [raises_rules]:
  "raises N (log_denied_access E r tt ti)" "raises N (list_for_requester r l)" "raises N (audit_verify E)"
  by (auto simp: log_denied_access_def audit_log_def audit_log_at_def audit_insert_def list_for_requester_def
      audit_verify_def audit_verify_around_def stored_head_def verify_chain_def Let_def
      intro!: raises_rules fails_verify_loop)

section \<open>Secrets\<close>

lemma fails_loads [raises_rules]: "fails N (json_loads F s)"
  by (auto simp: fails_def dest!: json_loads_errors)

lemma raises_authorize: "''PermissionDeniedError'' \<in> set N \<Longrightarrow> raises N (kv_authorize E r p)"
  by (auto simp: kv_authorize_def Let_def intro!: raises_rules split: sum.split)

lemma raises_kv_store [raises_rules]:
  "raises N (kv_encrypt_for E k b o' p v)" "raises N (kv_get_version o' p n)" "raises N (kv_list_versions o' p)"
  "raises N (kv_delete_path o' p)" "fails N (kv_open E k o' p r)"
  "(\<And>v. raises N (enc v)) \<Longrightarrow> raises N (append_version o' p enc)"
  by (auto simp: kv_encrypt_for_def kv_aad_def kv_get_version_def kv_list_versions_def kv_delete_path_def
      kv_delete_rows_def kv_open_def append_version_def append_version_at_def kv_insert_record_def
      kv_insert_version_def Let_def intro!: raises_rules split: prod.split)

lemma raises_kv:
  assumes "set [''PermissionDeniedError'', ''VaultLockedError''] \<subseteq> set N"
  shows "raises N (kv_write E r p data)"
    "set [''RecordNotFoundError'', ''RecordTamperedError''] \<subseteq> set N \<Longrightarrow> fails N (normalize_version v) \<Longrightarrow>
      raises N (kv_read E r p v)"
    "''RecordNotFoundError'' \<in> set N \<Longrightarrow> raises N (kv_versions_of E r p)"
    "''RecordNotFoundError'' \<in> set N \<Longrightarrow> raises N (kv_delete E r p)"
  using assms by (auto simp: kv_write_def kv_read_def kv_versions_of_def kv_delete_def
      intro!: raises_rules raises_authorize)

section \<open>Keys\<close>

lemma raises_owned_key:
  "''KeyUnavailableError'' \<in> set N \<Longrightarrow> fails N (validate_key_name (PyStr n)) \<Longrightarrow> raises N (owned_key E o' n)"
  by (auto simp: owned_key_def get_owned_def intro!: raises_rules)

lemma fails_key_name: "''InvalidKeyNameError'' \<in> set N \<Longrightarrow> fails N (validate_key_name (PyStr n))"
  by (simp add: validate_key_name_def fails_def)

lemma raises_key_store [raises_rules]:
  "raises N (get_owned o' n)" "raises N (list_key_versions i)" "raises N (list_owned o')" "raises N (delete_owned o' n)"
  "raises N (metadata r)" "fails N (unwrap_material E k r x)" "fails N (data_aad o' n v)"
  "''KeyVersionUnavailableError'' \<in> set N \<Longrightarrow> raises N (key_version r v)"
  "''VaultLockedError'' \<in> set N \<Longrightarrow> ''TransitTamperedError'' \<in> set N \<Longrightarrow> raises N (unwrap_key E r x)"
  "''VaultLockedError'' \<in> set N \<Longrightarrow> raises N (wrap_aes E o' n v)"
  "''VaultLockedError'' \<in> set N \<Longrightarrow> raises N (wrap_ed25519 E o' n v)"
  by (auto simp: get_owned_def list_key_versions_def list_owned_def delete_owned_def nk_delete_rows_def metadata_def
      unwrap_material_def key_aad_def data_aad_def key_version_def get_key_version_def unwrap_key_def wrap_aes_def
      wrap_ed25519_def intro!: raises_rules split: prod.split)

lemma raises_insert_version [raises_rules]:
  "(\<And>v. raises N (wrap v)) \<Longrightarrow> raises N (insert_version i v wrap s)"
  by (auto simp: insert_version_def nk_insert_version_def intro!: raises_rules)

lemma raises_keyring [raises_rules]:
  "''KeyAlreadyExistsError'' \<in> set N \<Longrightarrow> (\<And>v. raises N (wrap v)) \<Longrightarrow> raises N (nk_create o' n u a wrap)"
  "(\<And>v. raises N (wrap v)) \<Longrightarrow> raises N (nk_rotate o' n wrap)"
  by (auto simp: nk_create_def nk_create_at_def nk_insert_def nk_rotate_def nk_rotate_at_def Let_def
      intro!: raises_rules)

lemma fails_formats [raises_rules]:
  "fails N (format_ciphertext n v b)" "''InvalidBase64PayloadError'' \<in> set N \<Longrightarrow> fails N (decode_payload p)"
  "''InvalidSigningAlgorithmError'' \<in> set N \<Longrightarrow> fails N (validate_algorithm E r a)"
  "set [''InvalidBase64PayloadError'', ''InvalidDigestLengthError'', ''InvalidMessageTypeError''] \<subseteq> set N \<Longrightarrow>
    fails N (message_digest E m k)"
  by (auto simp: format_ciphertext_def decode_payload_def validate_algorithm_def message_digest_def Let_def
      intro!: raises_rules)

lemma raises_key_management:
  assumes "''VaultLockedError'' \<in> set N"
  shows "raises N (list_keys o')"
    "set [''InvalidKeyNameError'', ''KeyAlreadyExistsError''] \<subseteq> set N \<Longrightarrow> raises N (create_key E o' n)"
    "set [''InvalidKeyNameError'', ''KeyAlreadyExistsError'', ''InvalidSigningAlgorithmError''] \<subseteq> set N \<Longrightarrow>
      raises N (create_signing_key E o' n a)"
    "set [''InvalidKeyNameError'', ''KeyUnavailableError''] \<subseteq> set N \<Longrightarrow> raises N (rotate_key E o' n)"
    "set [''InvalidKeyNameError'', ''KeyUnavailableError''] \<subseteq> set N \<Longrightarrow> raises N (delete_key E o' n)"
  using assms by (auto simp: list_keys_def create_key_def create_signing_key_def rotate_key_def delete_key_def Let_def
      intro!: raises_rules raises_owned_key fails_key_name)

lemma raises_key_use:
  assumes "set [''KeyUnavailableError'', ''InvalidKeyUsageError'', ''VaultLockedError'',
      ''KeyVersionUnavailableError''] \<subseteq> set N"
  shows "set [''InvalidKeyNameError'', ''InvalidBase64PayloadError'', ''TransitTamperedError''] \<subseteq> set N \<Longrightarrow>
      raises N (transit_encrypt E o' n p)"
    "set [''InvalidKeyNameError'', ''InvalidSigningAlgorithmError'', ''InvalidBase64PayloadError'',
        ''InvalidDigestLengthError'', ''InvalidMessageTypeError'', ''TransitTamperedError''] \<subseteq> set N \<Longrightarrow>
      raises N (transit_sign E o' n m k a)"
    "set [''InvalidKeyNameError'', ''InvalidSigningAlgorithmError'', ''InvalidBase64PayloadError'',
        ''InvalidDigestLengthError'', ''InvalidMessageTypeError''] \<subseteq> set N \<Longrightarrow>
      raises N (transit_verify E o' n m k s a v)"
  using assms by (auto simp: transit_encrypt_def transit_sign_def transit_verify_def verify_versions_def Let_def
      intro!: raises_rules raises_owned_key fails_key_name)

text \<open>The name in a ciphertext was checked when it was parsed.\<close>

lemma raises_decrypt:
  assumes "set [''MalformedCiphertextError'', ''KeyUnavailableError'', ''InvalidKeyUsageError'', ''VaultLockedError'',
      ''KeyVersionUnavailableError'', ''TransitTamperedError''] \<subseteq> set N"
  shows "raises N (transit_decrypt E o' c)"
proof (cases "parse_ciphertext (PyStr c)")
  case (Inl e)
  then show ?thesis using assms parse_ciphertext_Inl [OF Inl]
    by (simp add: transit_decrypt_def raises_def fails_def op_simps op_run)
next
  case (Inr parsed)
  have "fails N (validate_key_name (PyStr (tc_key_name parsed)))"
    using parse_ciphertext_Inr [OF Inr] by (simp add: validate_key_name_def fails_def)
  moreover have l: "liftR (Inr parsed) = ret parsed" by (simp add: fun_eq_iff op_simps)
  ultimately show ?thesis unfolding transit_decrypt_def Inr l bindM_ret_left using assms
    by (auto intro!: raises_rules raises_owned_key)
qed

section \<open>The results of an operation\<close>

definition consistent_status :: "status_response \<Rightarrow> bool" where
  "consistent_status s \<longleftrightarrow>
     s \<in> {\<lparr>initialized = False, status_text = lit ''not_initialized''\<rparr>,
         \<lparr>initialized = True, status_text = lit ''locked''\<rparr>,
         \<lparr>initialized = True, status_text = lit ''unlocked''\<rparr>}"

lemma status_result: "status w = (Inr s, w') \<Longrightarrow> consistent_status s"
  by (auto simp: status_run consistent_status_def split: if_splits)

lemma lock_result: "vault_lock w = (Inr s, w') \<Longrightarrow> consistent_status s \<and> status_text s \<noteq> lit ''unlocked''"
  by (auto simp: vault_lock_def bindM_Inr_iff op_simps state_lock_def consistent_status_def clear_without_lock_def
      text_simps split: if_splits option.splits)

lemma get_version_result:
  "kv_get_version o' p n w = (Inr (Some (r, v)), w') \<Longrightarrow>
   kvv_version v = (case n of None \<Rightarrow> rec_latest_version r | Some n \<Rightarrow> n)"
proof -
  have f: "find P xs = Some x \<Longrightarrow> P x" for P and xs :: "(kv_record_row \<times> kv_version_row) list" and x
    by (auto simp: find_Some_iff)
  show "kv_get_version o' p n w = (Inr (Some (r, v)), w') \<Longrightarrow> ?thesis"
    by (cases n) (auto simp: kv_get_version_def connection_Inr_iff bindM_Inr_iff op_simps dest!: f)
qed

lemma kv_read_result:
  assumes "kv_read E r p (case v of None \<Rightarrow> PyNone | Some n \<Rightarrow> PyInt n) w = (Inr res, w')"
  shows "read_version res = (case v of None \<Rightarrow> read_latest_version res | Some n \<Rightarrow> n)"
proof -
  have j: "(case j of JObj d \<Rightarrow> f d | _ \<Rightarrow> throw e) u = (Inr x, u') \<longleftrightarrow> (\<exists>d. j = JObj d \<and> f d u = (Inr x, u'))"
    for j f e and u u' :: world and x :: kv_read_result
    by (cases j) (simp_all add: op_simps)
  from assms show ?thesis
    by (cases v) (auto simp: kv_read_def bindM_Inr_iff catchM_Inr_iff op_simps normalize_version_def j
        dest!: get_version_result split: option.splits if_splits)
qed

lemma kv_versions_result:
  assumes "kv_versions_of E r p w = (Inr res, w')"
  shows "versions_path res = p \<and> versions_list res \<noteq> [] \<and> sorted (map fst (versions_list res))"
proof -
  have "sorted (map fst (map (\<lambda>(r, v). (kvv_version v, kvv_created_at v)) (sort_key (\<lambda>(r, v). kvv_version v) xs)))" for xs
    using sorted_sort_key [of "\<lambda>(r, v). kvv_version v" xs] by (simp add: comp_def case_prod_beta')
  with assms show ?thesis
    by (auto simp: kv_versions_of_def bindM_Inr_iff op_simps kv_list_versions_def connection_Inr_iff split: if_splits)
qed

lemma get_owned_result: "get_owned o' n w = (Inr (Some r), w') \<Longrightarrow> key_owner_email r = o' \<and> key_name r = n"
  by (auto simp: get_owned_def connection_Inr_iff bindM_Inr_iff op_simps key_find_def tbl_one_def find_Some_iff nk_key_def)

lemma metadata_result: "metadata r w = (Inr m, w') \<Longrightarrow> md_key_name m = key_name r"
  by (auto simp: metadata_def bindM_Inr_iff op_simps)

lemma create_key_result:
  "create_key E o' n w = (Inr m, w') \<Longrightarrow> md_key_name m = n"
  "create_signing_key E o' n a w = (Inr m, w') \<Longrightarrow> md_key_name m = n"
  by (auto simp: create_key_def create_signing_key_def nk_create_def bindM_Inr_iff op_simps
      dest!: get_owned_result metadata_result split: option.splits)

lemma rotate_key_result: "rotate_key E o' n w = (Inr m, w') \<Longrightarrow> md_key_name m = n"
  by (auto simp: rotate_key_def nk_rotate_def bindM_Inr_iff op_simps Let_def
      dest!: get_owned_result metadata_result split: option.splits if_splits)

lemma delete_key_result: "delete_key E o' n w = (Inr r, w') \<Longrightarrow> r = (n, True)"
  by (auto simp: delete_key_def bindM_Inr_iff op_simps split: if_splits)

lemma encrypt_result: "transit_encrypt E o' n p w = (Inr r, w') \<Longrightarrow> enc_key_name r = n"
  by (auto simp: transit_encrypt_def bindM_Inr_iff op_simps Let_def)

lemma decrypt_result: "transit_decrypt E o' c w = (Inr r, w') \<Longrightarrow> key_name_ok (dec_key_name r) \<and> 1 \<le> dec_key_version r"
  by (auto simp: transit_decrypt_def bindM_Inr_iff op_simps dest: parse_ciphertext_Inr(1,2))

lemma sign_result:
  "transit_sign E o' n m k a w = (Inr r, w') \<Longrightarrow> sig_key_name r = n \<and> sig_algorithm r = Some (py_upper (unicode E) a)"
  by (auto simp: transit_sign_def bindM_Inr_iff op_simps validate_algorithm_def Let_def split: if_splits)

lemma pinned_result:
  assumes "verify_versions r (Some n) w = (Inr vs, w')" shows "\<forall>v \<in> set vs. kyv_version v = n"
proof -
  from assms show ?thesis by (auto simp: verify_versions_def bindM_Inr_iff op_simps dest!: key_version_Inr)
qed

lemma verify_result:
  assumes "transit_verify E o' n m k s a v w = (Inr r, w')"
  shows "ver_key_name r = n \<and> ver_algorithm r = Some (py_upper (unicode E) a)
    \<and> (ver_signature_valid r \<longleftrightarrow> ver_key_version r \<noteq> None) \<and> (v \<noteq> None \<longrightarrow> ver_key_version r \<in> {None, v})"
proof -
  have f: "find P vs = Some x \<Longrightarrow> x \<in> set vs" for P and vs :: "key_version_row list" and x
    by (auto simp: find_Some_iff)
  define pick where "pick digest vs = (case decode_b64 (PyStr s) of
    Inl _ \<Rightarrow> None | Inr signature \<Rightarrow> find (version_accepts E signature digest) vs)" for digest vs
  have p: "pick d vs = Some x \<Longrightarrow> x \<in> set vs" for d vs x by (auto simp: pick_def dest: f split: sum.splits)
  from assms obtain vs u u' key d where c: "verify_versions key v u = (Inr vs, u')"
    "validate_algorithm E key a = Inr ()" "r = \<lparr>ver_key_name = n, ver_key_version = map_option kyv_version (pick d vs),
      ver_algorithm = key_signing_algorithm key, ver_signature_valid = (pick d vs \<noteq> None)\<rparr>"
    unfolding transit_verify_def pick_def [symmetric] by (auto simp: bindM_Inr_iff op_simps Let_def simp del: not_None_eq)
  then show ?thesis using pinned_result [of key _ u vs u'] p [of d vs]
    by (cases v; cases "pick d vs") (auto simp: validate_algorithm_def split: if_splits)
qed

lemma list_result: "list_for_requester r n w = (Inr vs, w') \<Longrightarrow> 0 \<le> n \<Longrightarrow> int (length vs) \<le> n"
  by (auto simp: list_for_requester_def connection_Inr_iff bindM_Inr_iff op_simps sql_limit_def)

lemma verify_loop_result: "verify_loop E eh rs h s c = Inr r \<Longrightarrow> report_valid r \<longleftrightarrow> reason r = None"
  by (induction rs arbitrary: h s c) (auto simp: bindR_Inr_iff chain_failure_def split: if_splits)

section \<open>The declared answers\<close>

text \<open>The status of the decorator of the route.\<close>

fun declared_status :: "request \<Rightarrow> int" where
  "declared_status (PostInit p) = 201"
| "declared_status (PostRegister e p q) = 201"
| "declared_status (PostKey n) = 201"
| "declared_status (PostSigningKey n a) = 201"
| "declared_status PostLogout = 204"
| "declared_status (DeleteEntry p) = 204"
| "declared_status req = 200"

text \<open>The response model of the route, with what its fields promise about the request.\<close>

definition declared_body :: "request \<Rightarrow> body \<Rightarrow> bool" where
  "declared_body req b =
     (case (req, b) of
        (GetHealth, HealthBody) \<Rightarrow> True
      | (GetStatus, StatusBody s) \<Rightarrow> consistent_status s
      | (PostInit _, StatusBody s) \<Rightarrow> s = \<lparr>initialized = True, status_text = lit ''locked''\<rparr>
      | (PostUnlock _, StatusBody s) \<Rightarrow> s = \<lparr>initialized = True, status_text = lit ''unlocked''\<rparr>
      | (PostLock, StatusBody s) \<Rightarrow> consistent_status s \<and> status_text s \<noteq> lit ''unlocked''
      | (PostRegister _ _ _, RegisterBody _) \<Rightarrow> True
      | (PostLogin _ _, LoginBody _) \<Rightarrow> True
      | (PostLogout, EmptyBody) \<Rightarrow> True
      | (PostEntry _ _, WriteBody _) \<Rightarrow> True
      | (GetEntry _ v, ReadBody r) \<Rightarrow>
          read_version r = (case v of None \<Rightarrow> read_latest_version r | Some n \<Rightarrow> n)
      | (GetVersions p, VersionsBody r) \<Rightarrow>
          versions_path r = p \<and> versions_list r \<noteq> [] \<and> sorted (map fst (versions_list r))
      | (DeleteEntry _, EmptyBody) \<Rightarrow> True
      | (PostKey n, KeyBody m) \<Rightarrow> md_key_name m = n
      | (PostSigningKey n _, KeyBody m) \<Rightarrow> md_key_name m = n
      | (GetKeys, KeyListBody _) \<Rightarrow> True
      | (PostRotate n, KeyBody m) \<Rightarrow> md_key_name m = n
      | (PostRevoke n, DeleteKeyBody r) \<Rightarrow> r = (n, True)
      | (PostEncrypt n _, EncryptBody r) \<Rightarrow> enc_key_name r = n
      | (PostDecrypt _, DecryptBody r) \<Rightarrow> key_name_ok (dec_key_name r) \<and> 1 \<le> dec_key_version r
      | (PostSign n _ _ _, SignBody r) \<Rightarrow> sig_key_name r = n \<and> sig_algorithm r \<noteq> None
      | (PostVerify n _ _ _ _ v, VerifyBody r) \<Rightarrow> ver_key_name r = n \<and> ver_algorithm r \<noteq> None
          \<and> (ver_signature_valid r \<longleftrightarrow> ver_key_version r \<noteq> None)
          \<and> (v \<noteq> None \<longrightarrow> ver_key_version r \<in> {None, v})
      | (GetAuditEntries l, AuditListBody vs) \<Rightarrow> int (length vs) \<le> (case l of None \<Rightarrow> 100 | Some n \<Rightarrow> n)
      | (GetAuditVerify, AuditVerifyBody r) \<Rightarrow> report_valid r \<longleftrightarrow> reason r = None
      | _ \<Rightarrow> False)"

text \<open>The exceptions of the program each route can end with.\<close>

fun declared_errors :: "request \<Rightarrow> string list" where
  "declared_errors (PostInit p) =
     [''VaultAlreadyInitializedError'', ''InvalidMasterPassphrasePolicyError'', ''StorageError'']"
| "declared_errors (PostUnlock p) =
     [''VaultNotInitializedError'', ''StorageError'', ''VaultConfigCorruptedError'', ''InvalidMasterPassphraseError'']"
| "declared_errors (PostRegister e p q) =
     [''PassphraseMismatchError'', ''WeakPassphraseError'', ''DuplicateEmailError'']"
| "declared_errors (PostLogin e p) = [''InvalidCredentialsError'', ''AccountLockedError'']"
| "declared_errors PostLogout = [''UnauthenticatedError'']"
| "declared_errors (PostEntry p d) = [''UnauthenticatedError'', ''PermissionDeniedError'', ''VaultLockedError'']"
| "declared_errors (GetEntry p v) =
     [''UnauthenticatedError'', ''PermissionDeniedError'', ''VaultLockedError'', ''RecordNotFoundError'', ''RecordTamperedError'']"
| "declared_errors (GetVersions p) =
     [''UnauthenticatedError'', ''PermissionDeniedError'', ''VaultLockedError'', ''RecordNotFoundError'']"
| "declared_errors (DeleteEntry p) =
     [''UnauthenticatedError'', ''PermissionDeniedError'', ''VaultLockedError'', ''RecordNotFoundError'']"
| "declared_errors (PostKey n) =
     [''UnauthenticatedError'', ''InvalidKeyNameError'', ''VaultLockedError'', ''KeyAlreadyExistsError'']"
| "declared_errors (PostSigningKey n a) =
     [''UnauthenticatedError'', ''InvalidKeyNameError'', ''InvalidSigningAlgorithmError'', ''VaultLockedError'', ''KeyAlreadyExistsError'']"
| "declared_errors GetKeys = [''UnauthenticatedError'', ''VaultLockedError'']"
| "declared_errors (PostRotate n) =
     [''UnauthenticatedError'', ''InvalidKeyNameError'', ''KeyUnavailableError'', ''VaultLockedError'']"
| "declared_errors (PostRevoke n) =
     [''UnauthenticatedError'', ''InvalidKeyNameError'', ''KeyUnavailableError'', ''VaultLockedError'']"
| "declared_errors (PostEncrypt n p) =
     [''UnauthenticatedError'', ''InvalidKeyNameError'', ''KeyUnavailableError'', ''InvalidKeyUsageError'',
      ''VaultLockedError'', ''InvalidBase64PayloadError'', ''KeyVersionUnavailableError'', ''TransitTamperedError'']"
| "declared_errors (PostDecrypt c) =
     [''UnauthenticatedError'', ''MalformedCiphertextError'', ''KeyUnavailableError'', ''InvalidKeyUsageError'',
      ''VaultLockedError'', ''KeyVersionUnavailableError'', ''TransitTamperedError'']"
| "declared_errors (PostSign n m k a) =
     [''UnauthenticatedError'', ''InvalidKeyNameError'', ''KeyUnavailableError'', ''InvalidKeyUsageError'',
      ''InvalidSigningAlgorithmError'', ''VaultLockedError'', ''InvalidBase64PayloadError'', ''InvalidDigestLengthError'',
      ''InvalidMessageTypeError'', ''KeyVersionUnavailableError'', ''TransitTamperedError'']"
| "declared_errors (PostVerify n m k s a v) =
     [''UnauthenticatedError'', ''InvalidKeyNameError'', ''KeyUnavailableError'', ''InvalidKeyUsageError'',
      ''InvalidSigningAlgorithmError'', ''VaultLockedError'', ''InvalidBase64PayloadError'', ''InvalidDigestLengthError'',
      ''InvalidMessageTypeError'', ''KeyVersionUnavailableError'']"
| "declared_errors (GetAuditEntries l) = [''UnauthenticatedError'']"
| "declared_errors GetAuditVerify = [''UnauthenticatedError'']"
| "declared_errors req = []"

text \<open>The routes with constrained fields, and the ones nothing can go wrong in.\<close>

fun constrained :: "request \<Rightarrow> bool" where
  "constrained GetHealth = False"
| "constrained GetStatus = False"
| "constrained PostLock = False"
| "constrained PostLogout = False"
| "constrained GetKeys = False"
| "constrained (PostRotate n) = False"
| "constrained (PostRevoke n) = False"
| "constrained GetAuditVerify = False"
| "constrained req = True"

definition unfailing :: "request \<Rightarrow> bool" where
  "unfailing req \<longleftrightarrow> req \<in> {GetHealth, GetStatus, PostLock}"

lemma authenticated_raises:
  "''UnauthenticatedError'' \<in> set N \<Longrightarrow> (\<And>u. raises N (h u)) \<Longrightarrow> raises N (authenticated E c h)"
  by (auto simp: authenticated_def intro: raises_rules raises_current_user)

lemma validated_raises: "(\<And>x. checked = Some x \<Longrightarrow> raises N (h x)) \<Longrightarrow> raises N (validated checked h)"
  by (auto simp: validated_def intro: raises_rules)

lemma answer_raises: "raises N m \<Longrightarrow> raises N (answer code mk m)"
  by (auto simp: answer_def intro: raises_rules)

lemmas route_rules = authenticated_raises validated_raises answer_raises raises_kv raises_key_management
  raises_key_use raises_decrypt raises_register raises_login raises_initialize

lemma route_raises: "float_int_ok E \<Longrightarrow> raises (declared_errors req) (route E c req)"
proof (cases req)
  case (GetEntry p v)
  have "kv_read_query p v = Some (q, n) \<Longrightarrow> fails N (normalize_version (case n of None \<Rightarrow> PyNone | Some k \<Rightarrow> PyInt k))" for q n N
    by (auto simp: kv_read_query_def positive_field_def normalize_version_def fails_def split: option.splits)
  with GetEntry show ?thesis by (auto simp: read_entry_route_def intro!: route_rules)
next
  case (PostUnlock p)
  moreover assume "float_int_ok E"
  ultimately show ?thesis by (auto simp: unlock_route_def intro!: route_rules raises_unlock)
qed (auto simp: route_defs intro!: route_rules raises_rules)

lemma authenticated_Inr: "authenticated E c h w = (Inr r, w') \<longleftrightarrow>
    (\<exists>u w1. get_current_user E c w = (Inr u, w1) \<and> h u w1 = (Inr r, w'))"
  by (simp add: authenticated_def bindM_Inr_iff)

lemma validated_Inr: "validated checked h w = (Inr r, w') \<longleftrightarrow>
    checked = None \<and> r = unprocessable \<and> w' = w \<or> (\<exists>x. checked = Some x \<and> h x w = (Inr r, w'))"
  by (cases checked) (auto simp: validated_def op_simps)

lemma answer_Inr: "answer code mk m w = (Inr r, w') \<longleftrightarrow> (\<exists>x. m w = (Inr x, w') \<and> r = Response code (mk x))"
  by (auto simp: answer_def bindM_Inr_iff op_simps)

lemmas operation_results = lock_result kv_read_result [where v = None, simplified]
  kv_read_result [where v = "Some n" for n, simplified] kv_versions_result create_key_result
  rotate_key_result delete_key_result encrypt_result decrypt_result sign_result verify_result list_result

lemma audit_result: "audit_verify E w = (Inr r, w') \<Longrightarrow> report_valid r \<longleftrightarrow> reason r = None"
  by (auto simp: audit_verify_run verify_chain_def dest: verify_loop_result)

lemma vault_results:
  "vault_initialize E p w = (Inr s, w') \<Longrightarrow> s = \<lparr>initialized = True, status_text = lit ''locked''\<rparr>"
  "vault_unlock E p w = (Inr s, w') \<Longrightarrow> s = \<lparr>initialized = True, status_text = lit ''unlocked''\<rparr>"
  by (erule vault_initialize_Inr) (auto dest: vault_unlock_Inr)

lemma route_success:
  assumes "route E c req w = (Inr r, w')"
  shows "constrained req \<and> r = unprocessable \<or> response_status r = declared_status req \<and> declared_body req (response_body r)"
  using assms
  by (cases req) (auto simp: route_defs authenticated_Inr validated_Inr answer_Inr declared_body_def op_simps
      bindM_Inr_iff kv_read_query_def path_query_def create_key_request_def create_signing_key_request_def
      encrypt_request_def sign_request_def verify_request_def limit_query_def sign_response_def verify_response_def
      Let_def consistent_status_def internal_error_def split: option.splits dest: operation_results audit_result vault_results)

section \<open>Every answer is declared\<close>

text \<open>The answer the table of handlers has for a class.\<close>

definition handled :: "string \<Rightarrow> response \<Rightarrow> bool" where
  "handled n r \<longleftrightarrow> (case map_of handlers n of
     None \<Rightarrow> False | Some (code, error, message) \<Rightarrow> r = Response code (ErrorBody (lit error) (lit message)))"

lemma permitted_handled:
  assumes "permitted N e" "\<forall>n \<in> set N. map_of handlers n \<noteq> None"
  shows "error_response e = internal_error \<or> (\<exists>n \<in> set N. handled n (error_response e))"
proof (cases "exception_classes e")
  case Nil
  then show ?thesis by (simp add: error_response_def List.map_filter_def)
next
  case (Cons n cs)
  then have "n \<in> set N" using assms(1) by (cases e) (auto simp: permitted_def)
  with assms(2) obtain code error message where h: "map_of handlers n = Some (code, error, message)" by fastforce
  then have "handled n (error_response e)"
    by (simp add: handled_def error_response_def Cons List.map_filter_def)
  with \<open>n \<in> set N\<close> show ?thesis by blast
qed

lemma handler_known:
  "map_of handlers ''AccountLockedError'' \<noteq> None" "map_of handlers ''DuplicateEmailError'' \<noteq> None"
  "map_of handlers ''InvalidBase64PayloadError'' \<noteq> None"
  "map_of handlers ''InvalidCredentialsError'' \<noteq> None"
  "map_of handlers ''InvalidDigestLengthError'' \<noteq> None"
  "map_of handlers ''InvalidKeyNameError'' \<noteq> None" "map_of handlers ''InvalidKeyUsageError'' \<noteq> None"
  "map_of handlers ''InvalidMasterPassphraseError'' \<noteq> None"
  "map_of handlers ''InvalidMasterPassphrasePolicyError'' \<noteq> None"
  "map_of handlers ''InvalidMessageTypeError'' \<noteq> None"
  "map_of handlers ''InvalidSigningAlgorithmError'' \<noteq> None"
  "map_of handlers ''KeyAlreadyExistsError'' \<noteq> None" "map_of handlers ''KeyUnavailableError'' \<noteq> None"
  "map_of handlers ''KeyVersionUnavailableError'' \<noteq> None"
  "map_of handlers ''MalformedCiphertextError'' \<noteq> None"
  "map_of handlers ''PassphraseMismatchError'' \<noteq> None"
  "map_of handlers ''PermissionDeniedError'' \<noteq> None" "map_of handlers ''RecordNotFoundError'' \<noteq> None"
  "map_of handlers ''RecordTamperedError'' \<noteq> None" "map_of handlers ''StorageError'' \<noteq> None"
  "map_of handlers ''TransitTamperedError'' \<noteq> None" "map_of handlers ''UnauthenticatedError'' \<noteq> None"
  "map_of handlers ''VaultAlreadyInitializedError'' \<noteq> None"
  "map_of handlers ''VaultConfigCorruptedError'' \<noteq> None" "map_of handlers ''VaultLockedError'' \<noteq> None"
  "map_of handlers ''VaultNotInitializedError'' \<noteq> None"
  "map_of handlers ''WeakPassphraseError'' \<noteq> None"
  by code_simp+

lemma declared_handled: "\<forall>n \<in> set (declared_errors req). map_of handlers n \<noteq> None"
  by (cases req) (simp_all add: handler_known del: not_None_eq)

lemma unfailing_route: "unfailing req \<Longrightarrow> \<exists>r w'. route E c req w = (Inr r, w')"
  by (auto simp: unfailing_def route_defs answer_def vault_lock_def state_lock_def op_run op_simps)

text \<open>C9: whatever the state, a request is answered in one of four ways: with the status and the
  response model of its route, whose fields fit the request; with 422, if the route constrains its
  fields; with an entry of the table of handlers for one of the exceptions declared for the route; or,
  except for \<open>/health\<close>, the status and the lock, with 500.\<close>

theorem serve_typed:
  assumes "float_int_ok E"
  shows "let r = fst (serve E c req w) in
    response_status r = declared_status req \<and> declared_body req (response_body r)
    \<or> constrained req \<and> r = unprocessable
    \<or> (\<exists>n \<in> set (declared_errors req). handled n r)
    \<or> \<not> unfailing req \<and> r = internal_error"
proof (cases "route E c req w")
  case (Pair x w')
  show ?thesis
  proof (cases x)
    case (Inl e)
    with Pair have "permitted (declared_errors req) e" using raises_run [OF route_raises [OF assms]] by blast
    moreover have "\<not> unfailing req" using unfailing_route [of req E c w] Pair Inl by auto
    ultimately show ?thesis using permitted_handled [OF _ declared_handled] Pair Inl
      by (auto simp: serve_def Let_def)
  next
    case (Inr r)
    with route_success [of E c req w r w'] Pair show ?thesis by (auto simp: serve_def Let_def)
  qed
qed

lemma toy_float_int_ok: "float_int_ok toy"
  by (simp add: float_int_ok_def fails_def toy_def)

theorem serve_typed_witness:
  "let r = fst (serve toy None GetKeys toy_world) in
     response_status r = 200 \<or> handled ''UnauthenticatedError'' r \<or> handled ''VaultLockedError'' r \<or> r = internal_error"
  using serve_typed [OF toy_float_int_ok, of None GetKeys toy_world] by (auto simp: Let_def)

end
