(* ===== verification/Calm.thy ===== *)
theory Calm
  imports ApiLaws Answers
begin

text \<open>
  When a request can be answered with \<open>500 INTERNAL_ERROR\<close>: never, on an installation that the
  program itself wrote, while numbers and dates are in range, the file system works and the random
  source does not repeat. Every hypothesis stands for a way to get the 500 without it.
\<close>

section \<open>Operations that end without an exception of Python\<close>

definition calm :: "('w, 'a) op \<Rightarrow> 'w \<Rightarrow> bool" where
  "calm m w \<longleftrightarrow> (\<forall>p. fst (m w) \<noteq> Inl (Py p))"

named_theorems calm_rules \<open>operations that end without an exception of Python\<close>

lemma calm_run: "m w = (r, w') \<Longrightarrow> calm m w \<longleftrightarrow> (\<forall>p. r \<noteq> Inl (Py p))"
  by (simp add: calm_def)

lemma calmI: "m w = (Inr x, w') \<Longrightarrow> calm m w"
  by (simp add: calm_def)

lemma calm_basic [calm_rules]:
  "calm (ret x) w" "calm (throw (Vault v)) w" "calm (throw (Auth a)) w" "calm (throw (Kv k)) w"
  "calm (throw (Transit t)) w" "calm (gets f) w" "calm (modify g) w"
  by (simp_all add: calm_def op_simps)

lemma calm_bindM:
  "calm m w \<Longrightarrow> (\<And>x w1. m w = (Inr x, w1) \<Longrightarrow> calm (f x) w1) \<Longrightarrow> calm (bindM m f) w"
  by (cases "m w"; cases "fst (m w)") (auto simp: calm_def bindM_run)

lemma calm_raise_if [calm_rules]:
  "calm (raise_if c (Vault v)) w" "calm (raise_if c (Auth a)) w" "calm (raise_if c (Transit t)) w"
  "calm (raise_if c (Kv k)) w"
  by (simp_all add: calm_def raise_if_def op_simps)

lemma calm_unlocked [calm_rules]: "calm require_unlocked w" "calm get_dek w"
  by (simp_all add: calm_def op_simps split: option.split)

text \<open>The \<open>try\<close> blocks around decoding and decryption turn every exception into one of the program.\<close>

lemma value_caught: "value_errors e \<Longrightarrow> tag_or_value_errors e"
  by (cases e) auto

lemma utf8_caught: "utf8_encode s = Inl e \<Longrightarrow> tag_or_value_errors e" "utf8_decode b = Inl e \<Longrightarrow> tag_or_value_errors e"
  by (auto simp: utf8_encode_def utf8_decode_def split: if_splits option.splits)

lemmas caught = decode_b64_error [THEN value_caught] decrypt_error_caught utf8_caught

lemma unwrap_material_caught: "unwrap_material E dek r v = Inl e \<Longrightarrow> tag_or_value_errors e"
  by (auto simp: unwrap_material_def bindR_Inl_iff key_aad_def dest: caught)

lemma kv_open_caught: "kv_open E dek owner path v = Inl e \<Longrightarrow> tag_or_value_errors e"
  by (auto simp: kv_open_def bindR_Inl_iff kv_aad_def dest: caught json_loads_errors)

lemma decode_payload_calm: "decode_payload v \<noteq> Inl (Py p)"
  using decode_b64_error [of "PyStr v"] by (cases "decode_b64 (PyStr v)") (auto simp: decode_payload_def)

lemma message_digest_calm: "message_digest E m k \<noteq> Inl (Py p)"
  using decode_payload_calm by (auto simp: message_digest_def bindR_Inl_iff Let_def)

lemma calm_unwrap: "calm (unwrap_key E r v) w"
  by (cases "vs_dek (vstate w)")
    (auto simp: calm_def unwrap_key_run dest: unwrap_material_caught elim!: catchR.elims)

section \<open>A healthy installation\<close>

text \<open>What registration, login and sessions write into their rows.\<close>

definition rows_ok :: "database \<Rightarrow> bool" where
  "rows_ok d \<longleftrightarrow>
     (\<forall>u \<in> set (rows (users d)). user_row_ok u \<and> list_all scalar (usr_email u))
     \<and> (\<forall>s \<in> set (rows (sessions d)). \<exists>t. datetime_ok t \<and> ses_expires_at s = isoformat t)"

text \<open>Fewer than \<open>2 ^ 62\<close> entries, versions of a path and versions of a key.\<close>

definition sizes_ok :: "database \<Rightarrow> bool" where
  "sizes_ok d \<longleftrightarrow> length (rows (audit_logs d)) < 2 ^ 62
     \<and> (\<forall>k. length (kv_past d k) < 2 ^ 62)
     \<and> (\<forall>owner name r. key_find owner name d = Some r \<longrightarrow> length (nk_versions d r) < 2 ^ 62)"

text \<open>Argon2id takes the parameters and yields keys for AES-256.\<close>

definition kdf_ok :: "ext \<Rightarrow> kdf_params \<Rightarrow> bool" where
  "kdf_ok E ps \<longleftrightarrow> hash_len ps = 32 \<and> (\<forall>secret salt. 16 \<le> length salt \<longrightarrow>
     argon2_raw E secret salt (time_cost ps) (memory_cost ps) (parallelism ps) (hash_len ps) \<noteq> None)"

text \<open>No configuration, or one that \<open>initialize\<close> wrote.\<close>

definition config_ok :: "ext \<Rightarrow> world \<Rightarrow> bool" where
  "config_ok E w \<longleftrightarrow> conf w = None \<or>
     (\<exists>salt ps blob. conf w = Some (Doc (JObj (saved_config salt ps blob))) \<and> 16 \<le> length salt \<and> kdf_ok E ps)"

text \<open>What the program sees to, and what its environment must grant. The random source must not
  repeat: the hash of a session token is unique in the database.\<close>

definition written :: "ext \<Rightarrow> world \<Rightarrow> bool" where
  "written E w \<longleftrightarrow> app_ok E w \<and> rows_ok (db w) \<and> config_ok E w"

definition ambient :: "ext \<Rightarrow> world \<Rightarrow> bool" where
  "ambient E w \<longleftrightarrow> sizes_ok (db w) \<and> clock_ok E w \<and> token_fresh E w \<and> (\<forall>n. \<not> io_fault w n)
     \<and> kdf_ok E (current_parameters (unicode E) (environ w)) \<and> hashing_ok E (environ w)"

definition healthy :: "ext \<Rightarrow> world \<Rightarrow> bool" where
  "healthy E w \<longleftrightarrow> written E w \<and> ambient E w"

text \<open>\<open>str.lower\<close> does nothing to what it has lowered, and gives valid Unicode for valid Unicode.\<close>

definition lower_ok :: "ext \<Rightarrow> bool" where
  "lower_ok E \<longleftrightarrow> (\<forall>s. py_lower (unicode E) (py_lower (unicode E) s) = py_lower (unicode E) s
     \<and> (list_all scalar s \<longrightarrow> list_all scalar (py_lower (unicode E) s)))"

text \<open>The values of a document can be written as UTF-8, and versions have 64 bits.\<close>

fun tame :: "request \<Rightarrow> bool" where
  "tame (PostEntry p d) \<longleftrightarrow> (\<exists>js pt. json_dumps (JObj d) = Inr js \<and> utf8_encode js = Inr pt)"
| "tame (GetEntry p (Some n)) \<longleftrightarrow> n < 2 ^ 63"
| "tame (PostVerify n m k s a (Some v)) \<longleftrightarrow> v < 2 ^ 63"
| "tame _ \<longleftrightarrow> True"

lemma healthy_parts:
  assumes "healthy E w"
  shows "log_ok E (db w)" "kv_ok (db w)" "nk_ok (db w)" "accounts_ok (db w)" "rows_ok (db w)" "sizes_ok (db w)"
    "clock_ok E w" "token_fresh E w" "\<not> io_fault w n" "config_ok E w"
    "kdf_ok E (current_parameters (unicode E) (environ w))"
    "vs_dek (vstate w) = Some dek \<Longrightarrow> length dek = 32" "hashing_ok E (environ w)"
  using assms by (auto simp: healthy_def written_def ambient_def app_ok_def data_ok_def vault_ok_def dek_length_ok_def)

lemma healthy_ticks: "healthy E w \<Longrightarrow> healthy E (w\<lparr>ticks := n\<rparr>)"
  by (auto simp: healthy_def written_def ambient_def app_ok_def vault_ok_def clock_ok_def token_fresh_def policy_def next_token_def config_ok_def)

section \<open>The caller\<close>

lemma session_of_rows:
  assumes "session_of h d = Some (s, u)" shows "s \<in> set (rows (sessions d))" "u \<in> set (rows (users d))"
proof -
  from assms have "(s, u) \<in> set (session_join h d)" by (cases "session_join h d") (auto simp: session_of_def)
  then show "s \<in> set (rows (sessions d))" "u \<in> set (rows (users d))" by (auto simp: session_join_def)
qed

lemma scalar_strip: "list_all scalar s \<Longrightarrow> list_all scalar (py_strip U s)"
  using set_py_strip [of U s] by (auto simp: list_all_iff)

lemma token_hash: "readable_credentials E (Some (scheme, t)) \<Longrightarrow> \<exists>h. hash_token E (py_strip U t) = Inr h"
  by (auto simp: readable_credentials_def intro: hash_token_ok scalar_strip)

lemma calm_current_user:
  assumes "healthy E w" "readable_credentials E c" shows "calm (get_current_user E c) w"
proof -
  have e: "\<exists>t. ses_expires_at s = isoformat t \<and> datetime_ok t" if "session_of h (db w) = Some (s, u)" for h s u
    using session_of_rows [OF that] healthy_parts(5) [OF assms(1)] by (auto simp: rows_ok_def)
  show ?thesis
  proof (cases c)
    case (Some st)
    obtain scheme t where "st = (scheme, t)" by force
    with Some obtain h where h: "hash_token E (py_strip (unicode E) t) = Inr h"
      using token_hash [of E scheme t "unicode E"] assms(2) by blast
    show ?thesis using Some \<open>st = (scheme, t)\<close> h e [of h]
      by (cases "session_of h (db w)")
        (auto simp: calm_def get_current_user_def op_simps op_run find_active_run is_expired_def Let_def codec_simps
          split: if_splits)
  qed (simp add: calm_def get_current_user_def op_simps)
qed

lemma current_user_text:
  assumes "healthy E w" "get_current_user E c w = (Inr u, w')" "readable_credentials E c"
  shows "list_all scalar (au_email u)" "list_all scalar (au_token u)"
proof -
  from assms(2) obtain scheme t where c: "c = Some (scheme, t)" by (cases c) (auto simp: get_current_user_def op_simps)
  with assms(2) obtain h s v where "session_of h (db w) = Some (s, v)" "au_email u = usr_email v"
    "au_token u = py_strip (unicode E) t"
    by (auto simp: get_current_user_def bindM_Inr_iff op_simps find_active_run is_expired_def Let_def
        split: if_splits option.splits)
  with session_of_rows [OF this(1)] healthy_parts(5) [OF assms(1)] c assms(3)
  show "list_all scalar (au_email u)" "list_all scalar (au_token u)"
    by (auto simp: rows_ok_def readable_credentials_def scalar_strip)
qed

lemma calm_authenticated:
  assumes "healthy E w" "readable_credentials E c"
    and "\<And>u v. healthy E v \<Longrightarrow> list_all scalar (au_email u) \<Longrightarrow> list_all scalar (au_token u) \<Longrightarrow> calm (h u) v"
  shows "calm (authenticated E c h) w"
  unfolding authenticated_def
proof (rule calm_bindM [OF calm_current_user [OF assms(1,2)]])
  fix u v assume u: "get_current_user E c w = (Inr u, v)"
  from get_current_user_world [OF u] healthy_ticks [OF assms(1)] have "healthy E v" by auto
  then show "calm (h u) v" using current_user_text [OF assms(1) u assms(2)] by (rule assms(3))
qed

lemma calm_validated: "(\<And>x. checked = Some x \<Longrightarrow> calm (h x) w) \<Longrightarrow> calm (validated checked h) w"
  by (cases checked) (auto simp: validated_def intro: calm_rules)

lemma calm_answer: "calm m w \<Longrightarrow> calm (answer code mk m) w"
  unfolding answer_def by (intro calm_bindM calm_rules)

section \<open>The vault\<close>

lemma derived:
  assumes "kdf_ok E ps" "argon2_ok E" "list_all scalar pw" "pw \<noteq> []" "16 \<le> length salt"
  shows "\<exists>key. length key = 32 \<and> derive_wrapping_key E (PyStr pw) salt ps = Inr key"
proof -
  obtain secret where s: "utf8_encode pw = Inr secret" using utf8_encode_ok [OF assms(3)] by blast
  have "argon2_raw E secret salt (time_cost ps) (memory_cost ps) (parallelism ps) (hash_len ps) \<noteq> None"
    using assms(1,5) unfolding kdf_ok_def by blast
  then obtain key where
    "argon2_raw E secret salt (time_cost ps) (memory_cost ps) (parallelism ps) (hash_len ps) = Some key" by blast
  moreover from this have "int (length key) = hash_len ps" using assms(2) by (auto simp: argon2_ok_def)
  ultimately show ?thesis using assms(1,4,5) s by (auto simp: derive_wrapping_key_def kdf_ok_def)
qed

lemma calm_initialize:
  assumes "healthy E w" "argon2_ok E" "list_all scalar pw" shows "calm (vault_initialize E pw) w"
proof (cases "conf w = None \<and> evaluate (unicode E) (PyStr pw) = None")
  case True
  have "\<exists>w'. vault_initialize E pw w = (Inr \<lparr>initialized = True, status_text = lit ''locked''\<rparr>, w')"
    using vault_initialize_ok [of w E pw] True healthy_parts(9) [OF assms(1)]
      derived [OF healthy_parts(11) [OF assms(1)] assms(2,3) evaluate_not_Nil] by auto
  then show ?thesis by (auto intro: calmI)
next
  case False
  then show ?thesis
    by (auto simp: calm_def vault_initialize_def validate_master_passphrase_def op_simps op_run split: option.split)
qed

lemma calm_unlock:
  assumes "healthy E w" "argon2_ok E" "list_all scalar pw" "pw \<noteq> []" shows "calm (vault_unlock E pw) w"
proof (cases "conf w = None")
  case True
  then show ?thesis by (simp add: calm_def vault_unlock_def op_simps op_run)
next
  case False
  with healthy_parts(10) [OF assms(1)] obtain salt ps blob where
    c: "conf w = Some (Doc (JObj (saved_config salt ps blob)))" "16 \<le> length salt" "kdf_ok E ps"
    by (auto simp: config_ok_def)
  from derived [OF c(3) assms(2-4) c(2)] obtain key where "derive_wrapping_key E (PyStr pw) salt ps = Inr key" by blast
  moreover have "load_and_validate_config (w\<lparr>vstate := s\<rparr>) = (Inr (saved_config salt ps blob),
      w\<lparr>vstate := s, ios := Suc (ios w)\<rparr>)" for s
    using load_saved [of "w\<lparr>vstate := s\<rparr>" salt ps blob] c(1) healthy_parts(9) [OF assms(1)] by simp
  ultimately show ?thesis using c(1)
    by (cases "decrypt_aes_gcm E key blob DEK_WRAP_AAD")
      (auto simp: calm_def vault_unlock_def op_simps op_run set_dek_def unwrap_saved dest!: decrypt_error)
qed

lemma calm_status: "calm vault_lock w" "calm status w"
  by (simp_all add: calm_def vault_lock_def state_lock_def op_simps op_run)

section \<open>Accounts\<close>

lemma calm_login:
  assumes "healthy E w" "list_all scalar p" "list_all scalar (normalize_email (unicode E) e)"
  shows "calm (auth_login E e p) w"
proof (cases "user_find (normalize_email (unicode E) e) (db w)")
  case None
  obtain h k where "dummy_password_hash E w = (Inr h, k)"
  proof (cases "dummy_hash w")
    case None
    have "lit ''timing-attack-mitigation-placeholder'' \<noteq> []" by (simp add: lit_def)
    then obtain h where "hash_password E (PyStr (lit ''timing-attack-mitigation-placeholder'')) w = (Inr h, w\<lparr>draws := draws w + 16\<rparr>)"
      using hash_password_ok [OF healthy_parts(13) [OF assms(1)], of "lit ''timing-attack-mitigation-placeholder''"] by (auto simp: scalar_lit)
    with None that show thesis by (simp add: dummy_password_hash_def op_simps op_run)
  qed (use that in \<open>simp add: dummy_password_hash_def op_simps op_run\<close>)
  with None utf8_encode_ok [OF assms(2)] show ?thesis
    by (auto simp: calm_def auth_login_def get_by_email_run [OF assms(3)] op_run op_simps verify_password_def)
next
  case (Some u)
  note h = healthy_parts [OF assms(1)]
  have "user_row_ok u" using Some h(4,5) user_find_iff by (auto simp: rows_ok_def)
  moreover obtain correct where "verify_password E p (usr_password_hash u) = Inr correct"
    using utf8_encode_ok [OF assms(2)] by (auto simp: verify_password_def)
  ultimately obtain r w' m where r: "auth_login E e p w = (r, w')" "answer_of r = Some m"
    using login_refines_machine [OF h(4,7) assms(3) Some _ _ h(8)] by (metis fst_conv fst_map_prod)
  then show ?thesis by (cases r rule: answer_of.cases) (auto simp: calm_def)
qed

lemma calm_register:
  assumes "healthy E w" "password_hash_ok E" "list_all scalar p"
    and "list_all scalar e" "normalize_email (unicode E) e = e"
  shows "calm (auth_register E e p c) w"
proof (cases "p = c \<and> evaluate (unicode E) (PyStr p) = None")
  case False
  then show ?thesis
    by (cases "p = c") (auto simp: calm_def register_refused)
next
  case True
  obtain h where h: "hash_password E (PyStr p) w = (Inr h, w\<lparr>draws := draws w + 16\<rparr>)"
    using hash_password_ok [OF healthy_parts(13) [OF assms(1)] assms(3) evaluate_not_Nil] True by blast
  note run = register_hashed [OF conjunct2 [OF True] h, of e]
    user_create_run [of "w\<lparr>draws := draws w + 16\<rparr>" E e h, OF _ _ verify_hashed(2) [OF assms(2) h]]
  show ?thesis using run True assms(4,5) healthy_parts(4) [OF assms(1)]
    by (auto simp: calm_def op_run op_simps Let_def split: option.split)
qed

lemma calm_logout: "list_all scalar t \<Longrightarrow> calm (auth_logout E t) w"
  using hash_token_ok [of t E] by (auto simp: auth_logout_run intro: calmI)


section \<open>Refusals\<close>

lemma calm_denied:
  assumes "healthy E w" "list_all scalar requester" "list_all scalar tt" "list_all scalar ti"
    and "\<And>w1. calm m w1"
  shows "calm (bindM (log_denied_access E requester tt ti) (\<lambda>_. m)) w"
proof (rule calm_bindM)
  from log_denied_ok [OF healthy_parts(1) [OF assms(1)] _ assms(2-4)] healthy_parts(6) [OF assms(1)]
  show "calm (log_denied_access E requester tt ti) w" by (auto simp: sizes_ok_def intro: calmI)
qed (rule assms(5))

lemma calm_kv_authorize:
  assumes "healthy E w" "list_all scalar requester" "list_all scalar path"
  shows "calm (kv_authorize E requester path) w"
proof (cases "kv_owns E requester path")
  case False
  show ?thesis unfolding kv_authorize_other [OF False]
    by (intro calm_denied assms calm_rules) (simp add: scalar_lit)
qed (simp add: kv_authorize_owner calm_rules)

lemma calm_owner:
  assumes "healthy E w" "list_all scalar requester" "list_all scalar path"
    and "kv_owns E requester path \<Longrightarrow> calm m w"
  shows "calm (bindM (kv_authorize E requester path) (\<lambda>_. m)) w"
  using assms(4) by (intro calm_bindM calm_kv_authorize assms(1-3)) (auto simp: kv_authorize_Inr)

text \<open>What follows needs the data encryption key.\<close>

lemma calm_when_unlocked:
  assumes "\<And>dek. vs_dek (vstate w) = Some dek \<Longrightarrow> calm m w"
  shows "calm (bindM require_unlocked (\<lambda>_. m)) w"
  using assms by (cases "vs_dek (vstate w)") (auto simp: calm_def op_run op_simps)

section \<open>Secrets\<close>

lemma calm_kv_write:
  assumes "healthy E w" "list_all scalar owner" "list_all scalar path"
    and "json_dumps (JObj d) = Inr js" "utf8_encode js = Inr pt"
  shows "calm (kv_write E owner path d) w"
proof (cases "kv_owns E owner path \<and> vs_dek (vstate w) \<noteq> None")
  case True
  note h = healthy_parts [OF assms(1)]
  from True obtain dek where dek: "vs_dek (vstate w) = Some dek" by blast
  then show ?thesis
    using kv_write_ok [OF h(2) conjunct1 [OF True] dek h(12) [OF dek] assms(4,5,2,3)] h(6)
    by (auto simp: sizes_ok_def intro: calmI)
next
  case False
  show ?thesis unfolding kv_write_def
    using False by (intro calm_owner assms calm_when_unlocked) simp
qed

lemma calm_kv_read:
  assumes "healthy E w" "list_all scalar owner" "list_all scalar path"
    and "normalize_version version = Inr requested" "\<And>n. requested = Some n \<Longrightarrow> n < 2 ^ 63"
  shows "calm (kv_read E owner path version) w"
proof (cases "kv_owns E owner path \<and> vs_dek (vstate w) \<noteq> None")
  case True
  then obtain dek where dek: "vs_dek (vstate w) = Some dek" by blast
  have "kv_answer E dek owner path requested vs \<noteq> Inl (Py p)" for vs p
    by (auto simp: kv_answer_def Let_def bindR_Inl_iff split: json.split dest: kv_open_caught elim!: catchR.elims)
  then show ?thesis
    using kv_read_run [OF healthy_parts(2) [OF assms(1)] conjunct1 [OF True] assms(2-5) dek] by (simp add: calm_def)
next
  case False
  show ?thesis unfolding kv_read_def
    using False assms(4)
    by (intro calm_owner assms calm_bindM [of "liftR _"] calm_when_unlocked) (auto simp: calm_def op_simps)
qed

lemma calm_kv_rest:
  assumes "healthy E w" "list_all scalar owner" "list_all scalar path"
  shows "calm (kv_versions_of E owner path) w" "calm (kv_delete E owner path) w"
proof -
  show "calm (kv_versions_of E owner path) w" unfolding kv_versions_of_def
    using kv_list_versions_run [OF healthy_parts(2) [OF assms(1)] assms(2,3)]
    by (intro calm_owner assms calm_when_unlocked) (auto simp: calm_def op_run op_simps)
  show "calm (kv_delete E owner path) w" unfolding kv_delete_def
    using kv_delete_path_run [OF assms(2,3), of w]
    by (intro calm_owner assms calm_when_unlocked) (auto simp: calm_def op_run op_simps raise_if_def)
qed

section \<open>Named keys\<close>

lemma calm_owned_key:
  assumes "healthy E w" "list_all scalar owner" shows "calm (owned_key E owner name) w"
proof (cases "key_name_ok name")
  case True
  show ?thesis
  proof (cases "key_find owner name (db w)")
    case None
    have "calm (bindM (log_denied_access E owner (lit ''named_key'') name) (\<lambda>_. throw (Transit KeyUnavailableError))) w"
      using key_name_scalar [OF True] by (intro calm_denied assms calm_rules) (simp_all add: scalar_lit)
    then show ?thesis by (simp add: calm_def owned_key_missing [OF True assms(2) None])
  qed (simp add: calm_def owned_key_found [OF True assms(2)])
qed (simp add: calm_def owned_key_def op_run op_simps validate_key_name_bad)

lemma calm_owned:
  assumes "healthy E w" "list_all scalar owner"
    and "\<And>r. key_name_ok name \<Longrightarrow> key_find owner name (db w) = Some r \<Longrightarrow> calm (f r) w"
  shows "calm (bindM (owned_key E owner name) f) w"
  using assms(3) by (intro calm_bindM calm_owned_key assms(1,2)) (auto simp: owned_key_Inr)

lemma calm_named:
  assumes "key_name_ok name \<Longrightarrow> calm m w" shows "calm (bindM (liftR (validate_key_name (PyStr name))) (\<lambda>_. m)) w"
  using assms by (cases "key_name_ok name") (simp_all add: calm_def op_run op_simps validate_key_name_def)

lemma calm_checked: "(\<not> c \<Longrightarrow> calm m w) \<Longrightarrow> calm (bindM (raise_if c (Transit t)) (\<lambda>_. m)) w"
  by (simp add: calm_def raise_if_def op_run op_simps)

lemma key_sizes:
  assumes "healthy E w" "key_find owner name (db w) = Some r"
  shows "length (nk_versions (db w) r) < 2 ^ 62" "key_latest_version r = int (length (nk_versions (db w) r))"
    "1 \<le> key_latest_version r" "key_latest_version r + 1 < 2 ^ 63"
    "- (2 ^ 63) \<le> key_latest_version r" "key_latest_version r < 2 ^ 63"
proof -
  show l: "length (nk_versions (db w) r) < 2 ^ 62"
    using assms(2) healthy_parts(6) [OF assms(1)] unfolding sizes_ok_def by blast
  have "key_latest_version r = int (length (nk_versions (db w) r)) \<and> nk_versions (db w) r \<noteq> []"
    using nk_versions_numbered [OF healthy_parts(3) [OF assms(1)] assms(2)] by simp
  with l show "key_latest_version r = int (length (nk_versions (db w) r))" "1 \<le> key_latest_version r"
    "key_latest_version r + 1 < 2 ^ 63" "- (2 ^ 63) \<le> key_latest_version r" "key_latest_version r < 2 ^ 63"
    by (cases "nk_versions (db w) r"; simp)+
qed

lemma calm_metadata: "calm (metadata r) w"
  by (simp add: calm_def metadata_def list_key_versions_def connection_def op_run op_simps)

lemma calm_nk_create:
  assumes "healthy E w" "vs_dek (vstate w) = Some dek" "list_all scalar owner" "list_all scalar name"
  shows "calm (nk_create owner name usage algorithm (wrap_for E usage owner name)) w"
proof -
  let ?u = "w\<lparr>ticks := Suc (ticks w), db := nk_started owner name usage algorithm (isoformat (clock w (ticks w))) (db w)\<rparr>"
  obtain wrapped u' where "wrap_for E usage owner name 1 ?u = (Inr wrapped, u')"
    using wrap_ok [of ?u dek owner name E usage 1] assms(2-4) healthy_parts(12) [OF assms(1,2)] by auto
  moreover have "db u' = db u" if "wrap_for E usage owner name 1 u = (r, u')" for u r u'
    using wrap_frame [OF that] by simp
  ultimately show ?thesis
    using nk_create_run [OF healthy_parts(3) [OF assms(1)] assms(3,4), of "wrap_for E usage owner name"]
    by (simp add: calm_def Let_def)
qed

lemma calm_nk_rotate:
  assumes "healthy E w" "vs_dek (vstate w) = Some dek" "list_all scalar owner" "list_all scalar name"
  shows "calm (nk_rotate owner name (wrap_for E usage owner name)) w"
proof (cases "key_find owner name (db w)")
  case (Some r)
  let ?u = "w\<lparr>ticks := Suc (ticks w)\<rparr>"
  obtain wrapped u' where "wrap_for E usage owner name (key_latest_version r + 1) ?u = (Inr wrapped, u')"
    using wrap_ok [of ?u dek owner name E usage "key_latest_version r + 1"] assms(2-4) healthy_parts(12) [OF assms(1,2)] by auto
  moreover have "db u' = db u" if "wrap_for E usage owner name n u = (r, u')" for n u r u'
    using wrap_frame [OF that] by simp
  ultimately show ?thesis
    using nk_rotate_run [OF healthy_parts(3) [OF assms(1)] assms(3,4), of "wrap_for E usage owner name"] Some
      key_sizes(4) [OF assms(1)]
    by (simp add: calm_def Let_def)
next
  case None
  moreover have "db u' = db u" if "wrap_for E usage owner name n u = (r, u')" for n u r u'
    using wrap_frame [OF that] by simp
  ultimately show ?thesis
    using nk_rotate_run [OF healthy_parts(3) [OF assms(1)] assms(3,4), of "wrap_for E usage owner name"]
    by (simp add: calm_def Let_def)
qed

lemma calm_create:
  assumes "healthy E w" "list_all scalar owner"
  shows "calm (create_key E owner name) w" "calm (create_signing_key E owner name a) w"
proof -
  have w: "wrap_aes E owner name = wrap_for E ENCRYPT_DECRYPT owner name"
    "wrap_ed25519 E owner name = wrap_for E SIGN_VERIFY owner name" by (simp_all add: wrap_for_def)
  show "calm (create_key E owner name) w" unfolding create_key_def w
    by (intro calm_named calm_when_unlocked calm_bindM calm_nk_create calm_metadata assms key_name_scalar)
  show "calm (create_signing_key E owner name a) w" unfolding create_signing_key_def w
    by (intro calm_named calm_checked calm_when_unlocked calm_bindM [of "nk_create _ _ _ _ _"] calm_nk_create
        calm_metadata assms key_name_scalar)
qed

lemma calm_rotate:
  assumes "healthy E w" "list_all scalar owner" shows "calm (rotate_key E owner name) w"
proof -
  have w: "(if key_usage r = ENCRYPT_DECRYPT then wrap_aes E owner name else wrap_ed25519 E owner name) =
      wrap_for E (key_usage r) owner name" for r
    by (simp add: wrap_for_def)
  have m: "calm (case x of None \<Rightarrow> throw (Transit KeyUnavailableError) | Some r \<Rightarrow> metadata r) v" for x and v :: world
    by (cases x) (simp_all add: calm_metadata calm_rules)
  show ?thesis unfolding rotate_key_def w Let_def
    by (intro calm_owned calm_when_unlocked calm_bindM [of "nk_rotate _ _ _"] calm_nk_rotate assms key_name_scalar m)
qed

lemma calm_delete:
  assumes "healthy E w" "list_all scalar owner" shows "calm (delete_key E owner name) w"
  unfolding delete_key_def
  using delete_owned_run [OF assms(2) key_name_scalar, of name w]
  by (intro calm_owned calm_when_unlocked assms) (auto simp: calm_def op_run op_simps)

lemma calm_mapM: "(\<And>x w1. calm (f x) w1) \<Longrightarrow> calm (mapM f xs) w"
  by (induction xs arbitrary: w) (simp_all add: calm_rules calm_bindM)

lemma calm_list: "list_all scalar owner \<Longrightarrow> calm (list_keys owner) w"
  unfolding list_keys_def
  by (intro calm_when_unlocked calm_bindM calm_mapM calm_metadata)
    (simp add: calm_def list_owned_def connection_def bind_texts_def op_run op_simps)

section \<open>Use of keys\<close>

lemma calm_key_version:
  assumes "healthy E w" "key_find owner name (db w) = Some r" "- (2 ^ 63) \<le> n" "n < 2 ^ 63"
  shows "calm (key_version r n) w"
  using key_version_run [OF healthy_parts(3) [OF assms(1)] assms(2-4), of r] by (simp add: calm_def)


lemma calm_lift:
  "(\<And>p. r \<noteq> Inl (Py p)) \<Longrightarrow> (\<And>x. r = Inr x \<Longrightarrow> calm (f x) w) \<Longrightarrow> calm (bindM (liftR r) f) w"
  by (cases r) (auto simp: calm_def op_run op_simps)

lemma calm_reading:
  "calm m w \<Longrightarrow> (\<And>r w'. m w = (r, w') \<Longrightarrow> w' = w) \<Longrightarrow> (\<And>x. m w = (Inr x, w) \<Longrightarrow> calm (f x) w) \<Longrightarrow> calm (bindM m f) w"
  by (intro calm_bindM) auto

lemma parse_calm: "parse_ciphertext v \<noteq> Inl (Py p)"
  using parse_ciphertext_Inl by fastforce

lemma calm_encrypt:
  assumes "healthy E w" "list_all scalar owner" shows "calm (transit_encrypt E owner name pt) w"
proof -
  have e: "calm (bindM (encrypt_aes_gcm E m p aad) (\<lambda>blob. bindM (liftR (format_ciphertext name n blob)) (\<lambda>c.
      ret \<lparr>enc_key_name = name, enc_key_version = n, enc_ciphertext = c\<rparr>))) w"
    if "length m = AES_KEY_LENGTH" "1 \<le> n" "key_name_ok name" for m p aad n
  proof -
    have "format_ciphertext name n b \<noteq> Inl (Py q)" for b q
      using format_ciphertext_ok [OF that(3,2), of b] by auto
    moreover have "calm (encrypt_aes_gcm E m p aad) w"
      using that(1) by (simp add: calm_def encrypt_aes_gcm_run AES_KEY_LENGTH_def Let_def)
    ultimately show ?thesis by (intro calm_bindM [of "encrypt_aes_gcm _ _ _ _"] calm_lift calm_rules)
  qed
  have d: "data_aad owner name n \<noteq> Inl (Py p)" if "key_name_ok name" for n p
    using data_aad_ok [OF assms(2) key_name_scalar [OF that]] by (metis Inl_Inr_False)
  show ?thesis unfolding transit_encrypt_def Let_def
    by (intro calm_owned calm_checked calm_when_unlocked calm_lift assms decode_payload_calm
        calm_reading [of "key_version _ _"] calm_key_version [OF assms(1)] calm_reading [of "unwrap_key _ _ _"]
        calm_unwrap e d key_sizes(3,5,6) [OF assms(1)])
      (auto dest: key_version_world unwrap_key_world)
qed

lemma calm_decrypt:
  assumes "healthy E w" "list_all scalar owner" shows "calm (transit_decrypt E owner c) w"
proof -
  have d: "catchR (bindR (data_aad owner n k) (decrypt_aes_gcm E m b)) tag_or_value_errors (Transit TransitTamperedError)
      \<noteq> Inl (Py p)" for n k m b p
    by (auto simp: data_aad_def bindR_Inl_iff split: if_splits elim!: catchR.elims dest: caught)
  show ?thesis unfolding transit_decrypt_def
    by (intro calm_owned calm_checked calm_when_unlocked calm_lift assms parse_calm d calm_rules
        calm_reading [of "key_version _ _"] calm_key_version [OF assms(1)] calm_reading [of "unwrap_key _ _ _"]
        calm_unwrap)
      (auto dest: key_version_world unwrap_key_world parse_ciphertext_Inr(2,3))
qed

lemma validate_calm: "validate_algorithm E r a \<noteq> Inl (Py p)"
  by (simp add: validate_algorithm_def)

lemma calm_sign:
  assumes "healthy E w" "list_all scalar owner" shows "calm (transit_sign E owner name m k a) w"
  unfolding transit_sign_def Let_def
  by (intro calm_owned calm_checked calm_when_unlocked calm_lift assms validate_calm message_digest_calm calm_rules
      calm_reading [of "key_version _ _"] calm_key_version [OF assms(1)] calm_reading [of "unwrap_key _ _ _"]
      calm_unwrap key_sizes(5,6) [OF assms(1)])
    (auto dest: key_version_world unwrap_key_world)

lemma calm_verify:
  assumes "healthy E w" "list_all scalar owner" "\<And>n. v = Some n \<Longrightarrow> 1 \<le> n \<and> n < 2 ^ 63"
  shows "calm (transit_verify E owner name m k s a v) w"
proof -
  have c: "calm (verify_versions r v) w" if "key_find owner name (db w) = Some r" for r
  proof -
    have "- (2 ^ 63) \<le> n \<and> n < 2 ^ 63" if "v = Some n" for n using assms(3) [OF that] by simp
    then have "\<exists>x. verify_versions r v w = (case verify_candidates v (nk_versions (db w) r) of
        None \<Rightarrow> Inl (Transit KeyVersionUnavailableError) | Some vs \<Rightarrow> Inr vs, w)"
      using candidates_run [OF healthy_parts(3) [OF assms(1)] that key_sizes(1) [OF assms(1) that], of v] by simp
    then show ?thesis by (auto simp: calm_def split: option.split)
  qed
  show ?thesis unfolding transit_verify_def Let_def
    by (intro calm_owned calm_checked calm_when_unlocked calm_lift assms validate_calm message_digest_calm calm_rules
        calm_bindM [of "verify_versions _ _"] c)
qed

section \<open>The log\<close>

lemma calm_audit:
  assumes "healthy E w" "list_all scalar e" "1 \<le> n" "n \<le> 500"
  shows "calm (list_for_requester e n) w" "calm (audit_verify E) w"
  using log_ok_verifies [OF healthy_parts(1) [OF assms(1)]] assms(2-4)
  by (auto simp: calm_def list_for_requester_def connection_def bind_texts_def bind_int_def op_run op_simps)


section \<open>Requests\<close>

lemma validated_email:
  assumes "lower_ok E" "list_all scalar s" "validate_email (unicode E) s = Some e"
  shows "list_all scalar e" "normalize_email (unicode E) e = e"
proof -
  have e: "e = py_lower (unicode E) (py_strip (unicode E) s)" "py_strip (unicode E) e = e"
    using validate_email_Some [OF assms(3)] email_match_strip(1) by (auto simp: normalize_email_def)
  then show "list_all scalar e" "normalize_email (unicode E) e = e"
    using assms(1,2) scalar_strip by (simp_all add: lower_ok_def normalize_email_def)
qed

text \<open>What is documented of Argon2id, \<open>str.lower\<close> and \<open>int\<close> of a float.\<close>

definition libraries_ok :: "ext \<Rightarrow> bool" where
  "libraries_ok E \<longleftrightarrow> argon2_ok E \<and> password_hash_ok E \<and> lower_ok E
     \<and> float_int_ok E"

lemmas calm_service = calm_initialize calm_unlock calm_status calm_register calm_login calm_logout calm_kv_write
  calm_kv_read calm_kv_rest calm_create calm_rotate calm_delete calm_list calm_encrypt calm_decrypt calm_sign
  calm_verify calm_audit

lemma calm_route:
  assumes "healthy E w" "libraries_ok E" "tame req" "readable_credentials E c"
  shows "calm (route E c req) w"
proof -
  note lib = assms(2) [unfolded libraries_ok_def]
  note frame = calm_authenticated [OF assms(1,4)] calm_validated calm_answer
  show ?thesis
  proof (cases req)
    case (PostInit p)
    with assms(1) lib show ?thesis
      by (auto simp: initialize_route_def vault_init_request_def str_field_def text_field_def intro!: frame calm_initialize)
  next
    case (PostUnlock p)
    with assms(1) lib show ?thesis
      by (auto simp: unlock_route_def vault_unlock_request_def str_field_def text_field_def intro!: frame calm_unlock)
  next
    case (PostRegister e p q)
    with assms(1) lib validated_email [of E e] show ?thesis
      by (auto simp: register_route_def register_request_def str_field_def text_field_def
          intro!: frame calm_register split: if_splits)
  next
    case (PostLogin e p)
    with assms(1) lib validated_email [of E e] show ?thesis
      by (auto simp: login_route_def login_request_def str_field_def text_field_def
          intro!: frame calm_login split: if_splits)
  next
    case (PostEntry p d)
    with assms(3) obtain js pt where "json_dumps (JObj d) = Inr js" "utf8_encode js = Inr pt" by auto
    with PostEntry show ?thesis
      by (auto simp: write_entry_route_def kv_write_request_def str_field_def text_field_def
          intro!: frame calm_kv_write)
  next
    case (GetEntry p v)
    with assms(3) show ?thesis
      by (cases v) (auto simp: read_entry_route_def kv_read_query_def str_field_def text_field_def positive_field_def
          normalize_version_def intro!: frame calm_kv_read)
  next
    case (PostVerify n m k s a v)
    with assms(3) show ?thesis
      by (cases v) (auto simp: verify_route_def verify_request_def Let_def positive_field_def verify_response_def
          intro!: frame calm_bindM calm_verify calm_rules split: option.split)
  next
    case (PostSign n m k a)
    then show ?thesis
      by (auto simp: sign_route_def sign_request_def Let_def sign_response_def
          intro!: frame calm_bindM calm_sign calm_rules split: option.split)
  qed (auto simp: route_defs path_query_def create_key_request_def create_signing_key_request_def encrypt_request_def
      decrypt_request_def limit_query_def str_field_def text_field_def Let_def
      intro!: frame calm_rules calm_service split: option.splits)
qed

end
