(* ===== verification/Healthy.thy ===== *)
theory Healthy
  imports Calm
begin

text \<open>
  The conditions on what the program wrote are kept by every request, so in a sequence of requests
  only the conditions on the environment remain, and no answer is \<open>500 INTERNAL_ERROR\<close>.
\<close>

section \<open>What the other services keep\<close>

definition account_tables where "account_tables d = (users d, sessions d)"






definition stored_ok :: "ext \<Rightarrow> world \<Rightarrow> bool" where
  "stored_ok E w \<longleftrightarrow> rows_ok (db w) \<and> config_ok E w"

lemma stored_same: "account_tables (db w') = account_tables (db w) \<Longrightarrow> conf w' = conf w \<Longrightarrow> stored_ok E w' = stored_ok E w"
  by (simp add: stored_ok_def rows_ok_def config_ok_def account_tables_def)








section \<open>Accounts\<close>


















section \<open>Every request\<close>





text \<open>It holds of a fresh installation, and a new process finds it as the old one left it.\<close>

lemma written_fresh:
  "app_ok E w \<Longrightarrow> rows (users (db w)) = [] \<Longrightarrow> rows (sessions (db w)) = [] \<Longrightarrow> conf w = None \<Longrightarrow> written E w"
  by (simp add: written_def rows_ok_def config_ok_def)

lemma written_restart: "written E w \<Longrightarrow> written E (create_app env w)"
  by (simp add: written_def config_ok_def) (simp add: create_app_def process_gone_def)

lemma written_startup:
  assumes "startup E w = (r, w')" "written E w" shows "written E w'"
proof -
  have "account_tables (db w') = account_tables (db w) \<and> conf w' = conf w"
    using assms(1)
    by (auto simp: startup_def db_initialize_def connection_def op_simps op_run create_missing_tables_def
        account_tables_def vault_lock_run Let_def split: if_splits sum.splits prod.splits)
  then have "stored_ok E w' = stored_ok E w" by (intro stored_same) simp_all
  with startup_ok(1) [OF assms(1)] assms(2) show ?thesis by (simp add: written_def stored_ok_def)
qed


lemma class_not_Nil [simp]: "vault_class v \<noteq> []" "auth_class a \<noteq> []" "kv_class k \<noteq> []" "transit_class t \<noteq> []"
proof -
  show "vault_class v \<noteq> []" by (cases v) simp_all
  show "auth_class a \<noteq> []" by (cases a) simp_all
  show "kv_class k \<noteq> []" by (cases k) simp_all
  show "transit_class t \<noteq> []" by (cases t) simp_all
qed






text \<open>C3: the two shapes of requests to the key-value service that have no handler. An authenticated
  caller with an unlocked vault who reads version \<open>2 ^ 63\<close> or later of an own path, or writes a
  document with a lone surrogate to it, gets \<open>500 INTERNAL_ERROR\<close>, and nothing is stored or logged.\<close>

theorem requests_without_handler:
  assumes "get_current_user E c w = (Inr user, w1)" "list_all scalar (au_email user)"
    and "kv_owns E (au_email user) path" "str_field 1 500 path" "vs_dek (vstate w) = Some dek"
  shows "(\<forall>n \<ge> 2 ^ 63. serve E c (GetEntry path (Some n)) w = (internal_error, w1))
    \<and> (\<forall>d js. list_all (\<lambda>(k, v). text_field k) d \<and> json_dumps (JObj d) = Inr js \<and> \<not> list_all scalar js \<longrightarrow>
         serve E c (PostEntry path d) w = (internal_error, w1))
    \<and> db w1 = db w"
proof -
  have w1: "db w1 = db w" "vs_dek (vstate w1) = Some dek"
    using get_current_user_world [OF assms(1)] assms(5) by auto
  note run = authenticated_def validated_def answer_def bindM_run [of "get_current_user E c"] assms(1) op_run op_simps
  have path: "list_all scalar path" using assms(4) by (simp add: str_field_def text_field_def)
  have "serve E c (GetEntry path (Some n)) w = (internal_error, w1)" if "2 ^ 63 \<le> n" for n
  proof -
    have "kv_get_version (au_email user) path (Some n) w1 = (Inl (Py OverflowError), w1)"
      using that assms(2) path by (simp add: kv_get_version_def connection_def bind_texts_def bind_int_def op_run op_simps)
    then have "kv_read E (au_email user) path (PyInt n) w1 = (Inl (Py OverflowError), w1)"
      using that w1(2) by (simp add: kv_read_def kv_authorize_owner [OF assms(3)] normalize_version_def op_run op_simps)
    moreover have "kv_read_query path (Some n) = Some (path, Some n)"
      using that assms(4) by (simp add: kv_read_query_def positive_field_def accept_def)
    ultimately show ?thesis
      by (simp add: serve_def read_entry_route_def run error_response_def internal_error_def)
  qed
  moreover have "serve E c (PostEntry path d) w = (internal_error, w1)"
    if d: "list_all (\<lambda>(k, v). text_field k) d" "json_dumps (JObj d) = Inr js" "\<not> list_all scalar js" for d js
  proof -
    have "utf8_encode js = Inl (Py UnicodeEncodeError)" using d(3) by (simp add: utf8_encode_def)
    then have "kv_write E (au_email user) path d w1 = (Inl (Py UnicodeEncodeError), w1)"
      using d(2) w1(2) by (simp add: kv_write_def kv_authorize_owner [OF assms(3)] op_run op_simps)
    moreover have "kv_write_request path d = Some (path, d)" using d(1) assms(4) by (simp add: kv_write_request_def accept_def)
    ultimately show ?thesis
      by (simp add: serve_def write_entry_route_def run error_response_def internal_error_def)
  qed
  ultimately show ?thesis using w1(1) by blast
qed


section \<open>An example\<close>






text \<open>The session of \<open>toy_session\<close> on an unlocked vault, and the document \<open>{"k": "\\ud800"}\<close>.\<close>

theorem requests_without_handler_witness:
  "\<exists>w1. serve toy (Some (lit ''Bearer'', lit ''t'')) (GetEntry toy_path (Some (2 ^ 63)))
      (toy_session\<lparr>vstate := \<lparr>vs_dek = Some toy_dek, vs_released = []\<rparr>\<rparr>) = (internal_error, w1)
    \<and> serve toy (Some (lit ''Bearer'', lit ''t'')) (PostEntry toy_path [(lit ''k'', JStr [55296])])
      (toy_session\<lparr>vstate := \<lparr>vs_dek = Some toy_dek, vs_released = []\<rparr>\<rparr>) = (internal_error, w1)"
proof -
  let ?c = "Some (lit ''Bearer'', lit ''t'')"
  let ?w = "toy_session\<lparr>vstate := \<lparr>vs_dek = Some toy_dek, vs_released = []\<rparr>\<rparr>"
  have s: "stands_for toy ?c ?w toy_user"
    using toy_stands_for [OF bearer_lower [symmetric]] by (simp add: stands_for_def)
  have "accounts_ok (db ?w)" "readable_sessions (db ?w)" "readable_credentials toy ?c"
    using toy_session_ok by (simp_all add: readable_credentials_def scalar_lit)
  from current_user_cases [OF this] s obtain user w1 where
    u: "get_current_user toy ?c ?w = (Inr user, w1)" "au_email user = usr_email toy_user" by fastforce
  have e: "usr_email toy_user = toy_owner" by (simp add: toy_user_def new_user_def toy_email_def toy_owner_def)
  have p: "str_field 1 500 toy_path"
    by (simp add: str_field_def text_field_def toy_path_def scalar_lit)
  have j: "json_dumps (JObj [(lit ''k'', JStr [55296])]) = Inr (dump_text (JObj [(lit ''k'', JStr [55296])]))"
    by (simp add: json_dumps_def)
  have n: "\<not> list_all scalar (dump_text (JObj [(lit ''k'', JStr [55296])]))"
    by (simp add: scalar_def esc_char_def dump_str_def)
  have k: "list_all (\<lambda>(k, v). text_field k) [(lit ''k'', JStr [55296])]" by (simp add: text_field_def scalar_lit)
  have o: "list_all scalar (au_email user)" "kv_owns toy (au_email user) toy_path" "vs_dek (vstate ?w) = Some toy_dek"
    using toy_owns toy_texts(1) by (simp_all only: u(2) e) simp
  note run = requests_without_handler [OF u(1) o(1,2) p o(3)]
  have "serve toy ?c (GetEntry toy_path (Some (2 ^ 63))) ?w = (internal_error, w1)"
    by (rule run [THEN conjunct1, rule_format]) (rule order_refl)
  moreover have "serve toy ?c (PostEntry toy_path [(lit ''k'', JStr [55296])]) ?w = (internal_error, w1)"
    by (rule run [THEN conjunct2, THEN conjunct1, rule_format]) (rule conjI [OF k conjI [OF j n]])
  ultimately show ?thesis by blast
qed

end
