(* ===== verification/Secrets.thy ===== *)
theory Secrets
  imports Frames
begin

text \<open>
  The specification of the KV service: a map from owner and path to the list of documents written
  there, and a list of refusals. No encryption, no tables, no transactions. The service refines it.
\<close>

section \<open>The specification\<close>

datatype secret_op =
    Write pystr "(pystr \<times> json) list" | Read pystr "int option" | Versions pystr | Delete pystr

datatype secret_answer =
    Written int | Document "(pystr \<times> json) list" int int | Listed "int list" int | Deleted

type_synonym refusal = "pystr option \<times> pystr \<times> pystr \<times> pystr \<times> pystr"

record secrets =
  documents :: "pystr \<times> pystr \<Rightarrow> (pystr \<times> json) list list"
  entries :: "refusal list"

fun path_of :: "secret_op \<Rightarrow> pystr" where
  "path_of (Write p d) = p"
| "path_of (Read p v) = p"
| "path_of (Versions p) = p"
| "path_of (Delete p) = p"

definition refused :: "pystr \<Rightarrow> pystr \<Rightarrow> secrets \<Rightarrow> secrets" where
  "refused user path s =
     s\<lparr>entries := entries s @ [(Some user, ACCESS_DENIED, lit ''kv_path'', path, lit ''DENIED'')]\<rparr>"

definition granted_op :: "pystr \<Rightarrow> secret_op \<Rightarrow> secrets \<Rightarrow> secret_answer res \<times> secrets" where
  "granted_op user op s =
     (let k = (user, path_of op); ds = documents s k
      in case op of
           Write p d \<Rightarrow> (Inr (Written (int (length ds) + 1)), s\<lparr>documents := (documents s)(k := ds @ [d])\<rparr>)
         | Read p v \<Rightarrow>
             (let n = case v of None \<Rightarrow> int (length ds) | Some n \<Rightarrow> n
              in (if 1 \<le> n \<and> n \<le> int (length ds) then Inr (Document (ds ! nat (n - 1)) n (int (length ds)))
                  else Inl (Kv RecordNotFoundError), s))
         | Versions p \<Rightarrow>
             (if ds = [] then Inl (Kv RecordNotFoundError)
              else Inr (Listed (map int [1..<Suc (length ds)]) (int (length ds))), s)
         | Delete p \<Rightarrow>
             if ds = [] then (Inl (Kv RecordNotFoundError), s)
             else (Inr Deleted, s\<lparr>documents := (documents s)(k := [])\<rparr>))"

definition secret_step :: "ext \<Rightarrow> pystr \<Rightarrow> secret_op \<Rightarrow> secrets \<Rightarrow> secret_answer res \<times> secrets" where
  "secret_step E user op s =
     (if kv_owns E user (path_of op) then granted_op user op s
      else (Inl (Kv PermissionDeniedError), refused user (path_of op) s))"

fun secret_steps :: "ext \<Rightarrow> (pystr \<times> secret_op) list \<Rightarrow> secrets \<Rightarrow> secret_answer res list \<times> secrets" where
  "secret_steps E [] s = ([], s)"
| "secret_steps E ((user, op) # ops) s =
     (case secret_step E user op s of (a, s1) \<Rightarrow> apfst ((#) a) (secret_steps E ops s1))"

section \<open>The service\<close>

definition do_secret :: "ext \<Rightarrow> pystr \<Rightarrow> secret_op \<Rightarrow> secret_answer action" where
  "do_secret E user op =
     (case op of
        Write p d \<Rightarrow> bindM (kv_write E user p d) (\<lambda>r. ret (Written (written_version r)))
      | Read p v \<Rightarrow>
          bindM (kv_read E user p (case v of None \<Rightarrow> PyNone | Some n \<Rightarrow> PyInt n)) (\<lambda>r.
          ret (Document (read_data r) (read_version r) (read_latest_version r)))
      | Versions p \<Rightarrow>
          bindM (kv_versions_of E user p) (\<lambda>r. ret (Listed (map fst (versions_list r)) (versions_latest r)))
      | Delete p \<Rightarrow> bindM (kv_delete E user p) (\<lambda>_. ret Deleted))"

fun do_secrets :: "ext \<Rightarrow> (pystr \<times> secret_op) list \<Rightarrow> world \<Rightarrow> secret_answer res list \<times> world" where
  "do_secrets E [] w = ([], w)"
| "do_secrets E ((user, op) # ops) w =
     (case do_secret E user op w of (a, w1) \<Rightarrow> apfst ((#) a) (do_secrets E ops w1))"

section \<open>The relation\<close>

definition opens_to :: "ext \<Rightarrow> bytes \<Rightarrow> pystr \<times> pystr \<Rightarrow> kv_version_row \<Rightarrow> (pystr \<times> json) list \<Rightarrow> bool" where
  "opens_to E dek k v d \<longleftrightarrow> kv_open E dek (fst k) (snd k) v = Inr (JObj d)"

definition entry_of :: "audit_row \<Rightarrow> refusal" where
  "entry_of r = (aud_requester_email r, aud_action r, aud_target_type r, aud_target_identifier r, aud_result r)"

definition stores :: "ext \<Rightarrow> bytes \<Rightarrow> secrets \<Rightarrow> world \<Rightarrow> bool" where
  "stores E dek s w \<longleftrightarrow>
     kv_ok (db w) \<and> log_ok E (db w) \<and> vs_dek (vstate w) = Some dek \<and> length dek = 32
     \<and> (\<forall>k. list_all2 (opens_to E dek k) (kv_past (db w) k) (documents s k))
     \<and> map entry_of (rows (audit_logs (db w))) = entries s"

text \<open>Texts are Unicode, documents survive JSON, versions have 64 bits.\<close>

definition storable :: "ext \<Rightarrow> (pystr \<times> json) list \<Rightarrow> bool" where
  "storable E d \<longleftrightarrow> wf_json (float_text E) (JObj d)
     \<and> (\<exists>js pt. json_dumps (JObj d) = Inr js \<and> utf8_encode js = Inr pt)"

definition proper :: "ext \<Rightarrow> pystr \<times> secret_op \<Rightarrow> bool" where
  "proper E x \<longleftrightarrow> (case x of (user, op) \<Rightarrow> list_all scalar user \<and> list_all scalar (path_of op)
     \<and> (case op of Write p d \<Rightarrow> storable E d
        | Read p v \<Rightarrow> (case v of None \<Rightarrow> True | Some n \<Rightarrow> 1 \<le> n \<and> n < 2 ^ 63) | _ \<Rightarrow> True))"

text \<open>Room for so many more entries and versions.\<close>

definition room :: "nat \<Rightarrow> secrets \<Rightarrow> bool" where
  "room n s \<longleftrightarrow> length (entries s) + n \<le> 2 ^ 62 \<and> (\<forall>k. length (documents s k) + n \<le> 2 ^ 62)"

lemma stores_lengths:
  assumes "stores E dek s w"
  shows "length (kv_past (db w) k) = length (documents s k)" "length (rows (audit_logs (db w))) = length (entries s)"
proof -
  have "list_all2 (opens_to E dek k) (kv_past (db w) k) (documents s k)"
    using assms unfolding stores_def by blast
  then show "length (kv_past (db w) k) = length (documents s k)" by (rule list_all2_lengthD)
  have "map entry_of (rows (audit_logs (db w))) = entries s" using assms by (simp add: stores_def)
  then show "length (rows (audit_logs (db w))) = length (entries s)" by (metis length_map)
qed

section \<open>One operation\<close>

lemma sim_refused:
  assumes "stores E dek s w" "proper E (user, op)" "room (Suc n) s" "\<not> kv_owns E user (path_of op)"
  shows "\<exists>w'. do_secret E user op w = (Inl (Kv PermissionDeniedError), w') \<and> stores E dek (refused user (path_of op) s) w'"
proof -
  have t: "list_all scalar user" "list_all scalar (path_of op)" using assms(2) by (simp_all add: proper_def)
  have l: "log_ok E (db w)" "length (rows (audit_logs (db w))) < 2 ^ 62"
    using assms(1,3) stores_lengths(2) [OF assms(1)] by (simp_all add: stores_def room_def)
  have "list_all scalar (lit ''kv_path'')" by (simp add: scalar_lit)
  from log_denied_ok [OF l t(1) this t(2)] obtain r w' where
    d: "log_denied_access E user (lit ''kv_path'') (path_of op) w = (Inr (), w')"
    "rows (audit_logs (db w')) = rows (audit_logs (db w)) @ [r]" "log_ok E (db w')"
    "entry_of r = (Some user, ACCESS_DENIED, lit ''kv_path'', path_of op, lit ''DENIED'')"
    by (auto simp: entry_of_def)
  have a: "kv_authorize E user (path_of op) w = (Inl (Kv PermissionDeniedError), w')"
    by (simp add: kv_authorize_other [OF assms(4)] op_run op_simps d(1))
  have "do_secret E user op w = (Inl (Kv PermissionDeniedError), w')"
    using a by (cases op) (simp_all add: do_secret_def kv_write_def kv_read_def kv_versions_of_def kv_delete_def op_run)
  moreover have "kv_ok (db w') = kv_ok (db w)" "kv_past (db w') = kv_past (db w)" "vstate w' = vstate w"
    using log_denied_kv [OF d(1)] by (simp_all add: kv_ok_def kv_past_def [abs_def] kv_history_def)
  ultimately show ?thesis using assms(1) d by (simp add: stores_def refused_def)
qed


lemma stores_parts:
  assumes "stores E dek s w"
  shows "kv_ok (db w)" "log_ok E (db w)" "vs_dek (vstate w) = Some dek" "length dek = 32"
    "list_all2 (opens_to E dek k) (kv_past (db w) k) (documents s k)" "map entry_of (rows (audit_logs (db w))) = entries s"
  using assms unfolding stores_def by blast+

lemma log_ok_frame: "kv_frame d d' \<Longrightarrow> log_ok E d' = log_ok E d" "kv_frame d d' \<Longrightarrow> audit_logs d' = audit_logs d"
  using kv_frame_fields [of d d'] by (simp_all add: log_ok_def)

lemma sim_write:
  assumes "aead_ok E" "stores E dek s w" "proper E (user, Write p d)" "room (Suc n) s" "kv_owns E user p"
  shows "\<exists>w'. do_secret E user (Write p d) w = (fst (granted_op user (Write p d) s), w')
    \<and> stores E dek (snd (granted_op user (Write p d) s)) w'"
proof -
  note st = stores_parts [OF assms(2)]
  from assms(3) obtain js pt where j: "list_all scalar user" "list_all scalar p" "json_dumps (JObj d) = Inr js"
    "utf8_encode js = Inr pt" "wf_json (float_text E) (JObj d)"
    by (auto simp: proper_def storable_def)
  have "length (documents s (user, p)) + Suc n \<le> 2 ^ 62" using assms(4) unfolding room_def by blast
  then have "length (kv_past (db w) (user, p)) < 2 ^ 62" using stores_lengths(1) [OF assms(2)] by simp
  from kv_write_ok [OF st(1) assms(5) st(3,4) j(3,4,1,2) this] obtain res w' where
    r: "kv_write E user p d w = (Inr res, w')" by blast
  obtain v js' pt' dek' where k: "vs_dek (vstate w) = Some dek'"
    "json_dumps (JObj d) = Inr js'" "utf8_encode js' = Inr pt'" "sealed E dek' user p pt' v"
    "written_version res = int (length (kv_past (db w) (user, p))) + 1"
    "kv_history (db w') = (kv_history (db w))((user, p) \<mapsto> kv_past (db w) (user, p) @ [v])"
    "kv_ok (db w')" "kv_frame (db w) (db w')" "vstate w' = vstate w"
    by (rule kv_write_Inr [OF st(1) r]) blast
  then have "sealed E dek user p pt v" using st(3) j by simp
  then have "kv_open E dek user p v = bindR (utf8_decode pt) (json_loads (float_text E))" by (rule kv_open_sealed [OF assms(1)])
  then have o: "opens_to E dek (user, p) v d"
    using utf8_roundtrip [OF j(4)] json_roundtrip [OF j(5,3)] by (simp add: opens_to_def)
  have past: "kv_past (db w') k = (if k = (user, p) then kv_past (db w) k @ [v] else kv_past (db w) k)" for k
    using k(6) by (simp add: kv_past_def)
  have "stores E dek (s\<lparr>documents := (documents s)((user, p) := documents s (user, p) @ [d])\<rparr>) w'"
    using st k(7,9) o log_ok_frame [OF k(8)] unfolding stores_def by (simp add: past list_all2_appendI)
  with r k(5) stores_lengths(1) [OF assms(2)] show ?thesis
    by (simp add: do_secret_def granted_op_def Let_def op_run op_simps)
qed

lemma kv_answer_opens:
  assumes "list_all2 (opens_to E dek (owner, path)) vs ds"
  shows "kv_answer E dek owner path requested vs =
    (let n = (case requested of None \<Rightarrow> int (length ds) | Some n \<Rightarrow> n)
     in if 1 \<le> n \<and> n \<le> int (length ds)
        then Inr \<lparr>read_data = ds ! nat (n - 1), read_version = n, read_latest_version = int (length ds),
               read_created_at = kvv_created_at (vs ! nat (n - 1))\<rparr>
        else Inl (Kv RecordNotFoundError))"
proof -
  have l: "length vs = length ds" using assms by (rule list_all2_lengthD)
  have "kv_open E dek owner path (vs ! nat (n - 1)) = Inr (JObj (ds ! nat (n - 1)))"
    if "1 \<le> n" "n \<le> int (length ds)" for n
    using list_all2_nthD [OF assms, of "nat (n - 1)"] that l by (simp add: opens_to_def nat_less_iff)
  then show ?thesis by (cases requested) (simp_all add: kv_answer_def Let_def l)
qed

lemma sim_read:
  assumes "stores E dek s w" "proper E (user, Read p v)" "kv_owns E user p"
  shows "do_secret E user (Read p v) w = (fst (granted_op user (Read p v) s), w)"
proof -
  note st = stores_parts [OF assms(1)]
  have t: "list_all scalar user" "list_all scalar p" and v: "\<And>n. v = Some n \<Longrightarrow> 1 \<le> n \<and> n < 2 ^ 63"
    using assms(2) by (auto simp: proper_def)
  have "normalize_version (case v of None \<Rightarrow> PyNone | Some n \<Rightarrow> PyInt n) = Inr v"
    using v by (cases v) (auto simp: normalize_version_def)
  from kv_read_run [OF st(1) assms(3) t this _ st(3)] v
  have "kv_read E user p (case v of None \<Rightarrow> PyNone | Some n \<Rightarrow> PyInt n) w =
      (kv_answer E dek user p v (kv_past (db w) (user, p)), w)" by simp
  then show ?thesis
    by (simp add: do_secret_def granted_op_def Let_def op_run op_simps kv_answer_opens [OF st(5)])
qed

lemma sim_versions:
  assumes "stores E dek s w" "proper E (user, Versions p)" "kv_owns E user p"
  shows "do_secret E user (Versions p) w = (fst (granted_op user (Versions p) s), w)"
proof -
  note st = stores_parts [OF assms(1)]
  have t: "list_all scalar user" "list_all scalar p" using assms(2) by (auto simp: proper_def)
  let ?vs = "kv_past (db w) (user, p)"
  have l: "length ?vs = length (documents s (user, p))" by (rule stores_lengths [OF assms(1)])
  have m: "map fst (map ((\<lambda>(r, v). (kvv_version v, kvv_created_at v)) \<circ> Pair r) ?vs) = map int [1..<Suc (length ?vs)]"
    for r :: kv_record_row
    using kv_past_numbered [OF st(1), of "(user, p)"] by (simp add: comp_def del: upt_Suc)
  show ?thesis
  proof (cases "kv_find user p (db w)")
    case None
    then have "documents s (user, p) = []" using kv_past_empty l by (simp add: kv_find_None)
    with None st(3) assms(3) show ?thesis
      by (simp add: do_secret_def granted_op_def kv_versions_of_def kv_authorize_owner op_run op_simps
          kv_list_versions_run [OF st(1) t])
  next
    case (Some r)
    with kv_find_past [OF st(1)] have "rec_latest_version r = int (length ?vs)" by blast
    with Some st(3) assms(3) l m [of r] show ?thesis
      by (cases "?vs = []") (auto simp: do_secret_def granted_op_def kv_versions_of_def kv_authorize_owner op_run op_simps
          kv_list_versions_run [OF st(1) t] Let_def last_map simp del: upt_Suc)
  qed
qed

lemma sim_delete:
  assumes "stores E dek s w" "proper E (user, Delete p)" "kv_owns E user p"
  shows "\<exists>w'. do_secret E user (Delete p) w = (fst (granted_op user (Delete p) s), w')
    \<and> stores E dek (snd (granted_op user (Delete p) s)) w'"
proof -
  note st = stores_parts [OF assms(1)]
  have t: "list_all scalar user" "list_all scalar p" using assms(2) by (auto simp: proper_def)
  let ?d' = "kv_removed user p (db w)"
  note rem = kv_removed_ok [OF st(1), of user p]
  have past: "kv_past ?d' k = (if k = (user, p) then [] else kv_past (db w) k)" for k
    using rem by (simp add: kv_past_def)
  have some: "kv_history (db w) (user, p) = None \<longleftrightarrow> documents s (user, p) = []"
    using stores_lengths(1) [OF assms(1), of "(user, p)"] kvs.hist_numbered [OF st(1) [unfolded kv_ok_def]]
    by (auto simp: kv_past_def kv_history_def split: option.splits)
  have run: "do_secret E user (Delete p) w =
      (if documents s (user, p) = [] then Inl (Kv RecordNotFoundError) else Inr Deleted, w\<lparr>db := ?d'\<rparr>)"
    using some st(3) assms(3)
    by (simp add: do_secret_def kv_delete_def kv_authorize_owner op_run op_simps kv_delete_path_run [OF t] raise_if_def)
  have "stores E dek (s\<lparr>documents := (documents s)((user, p) := [])\<rparr>) (w\<lparr>db := ?d'\<rparr>)"
    using st rem log_ok_frame [of "db w" ?d'] unfolding stores_def by (simp add: past)
  moreover have "s\<lparr>documents := (documents s)((user, p) := [])\<rparr> = s" if "documents s (user, p) = []"
    using that by (metis fun_upd_triv secrets.surjective secrets.update_convs(1))
  ultimately show ?thesis using run by (cases "documents s (user, p) = []") (fastforce simp: granted_op_def Let_def)+
qed

section \<open>The service refines the specification\<close>

lemma sim_step:
  assumes "aead_ok E" "stores E dek s w" "proper E (user, op)" "room (Suc n) s"
  shows "\<exists>w'. do_secret E user op w = (fst (secret_step E user op s), w')
    \<and> stores E dek (snd (secret_step E user op s)) w' \<and> room n (snd (secret_step E user op s))"
proof (cases "kv_owns E user (path_of op)")
  case False
  have "room n (refused user (path_of op) s)"
    using assms(4) unfolding room_def refused_def by (simp add: Suc_leD)
  with sim_refused [OF assms(2-4) False] show ?thesis by (auto simp: secret_step_def False)
next
  case True
  have "\<exists>w'. do_secret E user op w = (fst (granted_op user op s), w') \<and> stores E dek (snd (granted_op user op s)) w'"
  proof (cases op)
    case (Write p d)
    with sim_write [OF assms(1,2) _ assms(4)] assms(3) True show ?thesis by simp
  next
    case (Read p v)
    with sim_read [OF assms(2)] assms(2,3) True show ?thesis by (auto simp: granted_op_def Let_def)
  next
    case (Versions p)
    with sim_versions [OF assms(2)] assms(2,3) True show ?thesis by (auto simp: granted_op_def Let_def)
  next
    case (Delete p)
    with sim_delete [OF assms(2)] assms(3) True show ?thesis by simp
  qed
  moreover have "room n (snd (granted_op user op s))"
  proof -
    have d: "length (documents s k) + Suc n \<le> 2 ^ 62" for k using assms(4) unfolding room_def by blast
    have "length (documents s k) + n \<le> 2 ^ 62" for k by (rule order_trans [OF _ d [of k]]) simp
    moreover have "length (entries s) + n \<le> 2 ^ 62" using assms(4) by (simp add: room_def)
    ultimately show ?thesis using d by (cases op) (simp_all add: granted_op_def room_def Let_def)
  qed
  ultimately show ?thesis by (auto simp: secret_step_def True)
qed

text \<open>C10: the KV service refines its specification. Started on a database that stores what the
  specification holds (every version opens, under the current key, to the document the specification
  has there, and the log has its entries), any sequence of writes, reads, listings and deletions by any
  users answers exactly as the specification does, errors and refusals included, and the database
  afterwards stores what the specification then holds.\<close>

theorem kv_refines_secrets:
  assumes "aead_ok E" "stores E dek s w" "\<forall>x \<in> set ops. proper E x" "room (length ops) s"
  shows "\<exists>w'. do_secrets E ops w = (fst (secret_steps E ops s), w') \<and> stores E dek (snd (secret_steps E ops s)) w'"
  using assms(2-4)
proof (induction ops arbitrary: s w)
  case (Cons x ops)
  obtain user op where x: "x = (user, op)" by force
  obtain a s1 where s1: "secret_step E user op s = (a, s1)" by (rule prod.exhaust)
  from sim_step [OF assms(1) Cons.prems(1), of user op "length ops"] Cons.prems(2,3) s1 obtain w1 where
    w1: "do_secret E user op w = (a, w1)" "stores E dek s1 w1" "room (length ops) s1"
    by (auto simp: x)
  from Cons.IH [OF w1(2) _ w1(3)] Cons.prems(2) obtain w' where
    "do_secrets E ops w1 = (fst (secret_steps E ops s1), w')" "stores E dek (snd (secret_steps E ops s1)) w'" by auto
  then show ?case by (simp add: x s1 w1(1))
qed simp


text \<open>A write, two reads, a deletion and a read on an empty store.\<close>

definition toy_ops :: "(pystr \<times> secret_op) list" where
  "toy_ops = [(toy_owner, Write toy_path toy_data), (toy_owner, Read toy_path None),
     (toy_owner, Delete toy_path), (toy_owner, Read toy_path (Some 1))]"

theorem kv_refines_secrets_witness:
  "\<exists>w'. do_secrets toy toy_ops toy_unlocked =
     ([Inr (Written 1), Inr (Document toy_data 1 1), Inr Deleted, Inl (Kv RecordNotFoundError)], w')"
proof -
  let ?s = "\<lparr>documents = \<lambda>k. [], entries = []\<rparr>"
  obtain js where js: "json_dumps (JObj toy_data) = Inr js" using json_dumps_ok [OF toy_data_wf] by blast
  have "list_all scalar js"
    using js scalar_dump_text [of "JObj toy_data"]
    by (auto simp: json_dumps_def toy_data_def scalar_lit split: if_splits)
  then obtain pt where "utf8_encode js = Inr pt" using utf8_encode_ok by blast
  with js have "\<forall>x \<in> set toy_ops. proper toy x"
    using toy_data_wf by (simp add: toy_ops_def proper_def storable_def)
  moreover have "stores toy toy_dek ?s toy_unlocked"
    using toy_kv_ok toy_log_ok
    by (simp add: stores_def toy_unlocked_def toy_world_def kv_past_def kv_history_def history_def toy_dek_def)
  moreover have "room (length toy_ops) ?s" by (simp add: room_def toy_ops_def)
  ultimately obtain w' where "do_secrets toy toy_ops toy_unlocked = (fst (secret_steps toy toy_ops ?s), w')"
    using kv_refines_secrets [OF toy_aead_ok] by blast
  then show ?thesis by (simp add: toy_ops_def secret_step_def toy_owns granted_op_def Let_def)
qed

end
